(* ===== verification/Prelude.thy ===== *)
theory Prelude
  imports Main "HOL-Library.Word"
begin

unbundle bit_operations_syntax

text \<open>
  Shared vocabulary of the development: the machine types of the firmware
  (Embedded/Includes/onq_standard_types.h), byte-addressed memory, the C string
  functions the storage code relies on, and the counting loops that search an array.
  The collections \<open>mem_simps\<close> and \<open>cstr_simps\<close> hold the rewrite rules the
  component theories use.
\<close>

named_theorems mem_simps "reads over writes of byte-addressed memory"
named_theorems cstr_simps "C string functions on fixed-size character arrays"

type_synonym byte = "8 word"
type_synonym word_t = "16 word"
type_synonym dword_t = "32 word"

subsection \<open>Byte-addressed memory\<close>

text \<open>An address is a natural number; the flash of the K64 is memory mapped at 0.\<close>

type_synonym memory = "nat \<Rightarrow> byte"

definition read_bytes :: "memory \<Rightarrow> nat \<Rightarrow> nat \<Rightarrow> byte list" where
  "read_bytes m a n = map m [a..<a + n]"

definition write_bytes :: "memory \<Rightarrow> nat \<Rightarrow> byte list \<Rightarrow> memory" where
  "write_bytes m a bs = (\<lambda>x. if a \<le> x \<and> x < a + length bs then bs ! (x - a) else m x)"

definition fill_bytes :: "memory \<Rightarrow> nat \<Rightarrow> nat \<Rightarrow> byte \<Rightarrow> memory" where
  "fill_bytes m a n b = (\<lambda>x. if a \<le> x \<and> x < a + n then b else m x)"

lemma length_read_bytes [simp]: "length (read_bytes m a n) = n"
  by (simp add: read_bytes_def)

lemma nth_read_bytes [simp]: "i < n \<Longrightarrow> read_bytes m a n ! i = m (a + i)"
  by (simp add: read_bytes_def)

lemma read_bytes_eq_iff:
  "read_bytes m a n = bs \<longleftrightarrow> length bs = n \<and> (\<forall>i < n. m (a + i) = bs ! i)"
  by (auto simp: list_eq_iff_nth_eq)

lemma read_bytes_cong:
  "(\<And>x. a \<le> x \<Longrightarrow> x < a + n \<Longrightarrow> m x = m' x) \<Longrightarrow> read_bytes m a n = read_bytes m' a n"
  by (simp add: read_bytes_def)

lemma read_write_same [mem_simps]:
  "length bs = n \<Longrightarrow> read_bytes (write_bytes m a bs) a n = bs"
  by (simp add: read_bytes_eq_iff write_bytes_def)

lemma read_write_prefix [mem_simps]:
  "n \<le> length bs \<Longrightarrow> read_bytes (write_bytes m a bs) a n = take n bs"
  by (auto simp: read_bytes_eq_iff write_bytes_def)

lemma read_write_disjoint [mem_simps]:
  "a' + n \<le> a \<or> a + length bs \<le> a' \<Longrightarrow>
   read_bytes (write_bytes m a bs) a' n = read_bytes m a' n"
  by (rule read_bytes_cong) (auto simp: write_bytes_def)

lemma write_bytes_outside [mem_simps]:
  "x < a \<or> a + length bs \<le> x \<Longrightarrow> write_bytes m a bs x = m x"
  by (auto simp: write_bytes_def)

lemma read_fill_disjoint [mem_simps]:
  "a' + n \<le> a \<or> a + k \<le> a' \<Longrightarrow> read_bytes (fill_bytes m a k b) a' n = read_bytes m a' n"
  by (rule read_bytes_cong) (auto simp: fill_bytes_def)

lemma read_fill_inside [mem_simps]:
  "a \<le> a' \<Longrightarrow> a' + n \<le> a + k \<Longrightarrow> read_bytes (fill_bytes m a k b) a' n = replicate n b"
  by (auto simp: read_bytes_eq_iff fill_bytes_def)

lemma fill_bytes_outside [mem_simps]:
  "x < a \<or> a + k \<le> x \<Longrightarrow> fill_bytes m a k b x = m x"
  by (auto simp: fill_bytes_def)

lemma write_bytes_append:
  "write_bytes (write_bytes m a xs) (a + length xs) ys = write_bytes m a (xs @ ys)"
  by (auto simp: write_bytes_def fun_eq_iff nth_append)

lemma write_bytes_Nil [simp]: "write_bytes m a [] = m"
  by (rule ext) (auto simp: write_bytes_def)

lemma read_bytes_add: "read_bytes m a (n + k) = read_bytes m a n @ read_bytes m (a + n) k"
  by (auto simp: read_bytes_eq_iff nth_append)

lemma read_bytes_pair: "k + 2 \<le> n \<Longrightarrow> read_bytes m a n =
  read_bytes m a k @ m (a + k) # m (a + k + 1) # read_bytes m (a + k + 2) (n - (k + 2))"
proof -
  assume k: "k + 2 \<le> n"
  then have n: "k + 2 + (n - (k + 2)) = n" by (rule le_add_diff_inverse)
  have "read_bytes m a n = read_bytes m a (k + 2 + (n - (k + 2)))" by (simp only: n)
  also have "\<dots> = read_bytes m a k @ read_bytes m (a + k) 2 @ read_bytes m (a + (k + 2)) (n - (k + 2))"
    by (simp only: read_bytes_add append_assoc)
  finally show ?thesis
    by (simp add: read_bytes_def upt_conv_Cons numeral_2_eq_2)
qed

lemma take_read_bytes [simp]: "n \<le> k \<Longrightarrow> take n (read_bytes m a k) = read_bytes m a n"
  by (auto simp: list_eq_iff_nth_eq)

subsection \<open>C strings in character arrays\<close>

text \<open>
  A character array is a byte list. \<open>cstr n a\<close> is the string a C function reads from the
  first \<open>n\<close> bytes: everything before the first NUL.
\<close>

definition cstr :: "nat \<Rightarrow> byte list \<Rightarrow> byte list" where
  "cstr n a = takeWhile (\<lambda>b. b \<noteq> 0) (take n a)"

text \<open>\<open>snprintf(dst, n, "%s", src)\<close>: at most \<open>n - 1\<close> characters and a NUL are stored; the
  bytes of \<open>dst\<close> behind the NUL keep their value.\<close>

definition snprintf_s :: "nat \<Rightarrow> byte list \<Rightarrow> byte list \<Rightarrow> byte list" where
  "snprintf_s n dst src =
     (let t = cstr (n - 1) src in t @ [0] @ drop (Suc (length t)) dst)"

text \<open>\<open>strncmp(a, b, n) == 0\<close>.\<close>

fun strncmp_eq :: "nat \<Rightarrow> byte list \<Rightarrow> byte list \<Rightarrow> bool" where
  "strncmp_eq (Suc n) (x # xs) (y # ys) = (x = y \<and> (x = 0 \<or> strncmp_eq n xs ys))"
| "strncmp_eq _ _ _ = True"

lemma length_cstr_le: "length (cstr n a) \<le> n"
  by (metis cstr_def length_take length_takeWhile_le min.bounded_iff)

lemma cstr_no_nul: "0 \<notin> set (cstr n a)"
  by (auto simp: cstr_def dest: set_takeWhileD)

lemma length_snprintf_s [simp, cstr_simps]:
  assumes "0 < n" "length dst = n"
  shows "length (snprintf_s n dst src) = n"
proof -
  have "length (cstr (n - 1) src) \<le> n - 1" by (rule length_cstr_le)
  with assms show ?thesis by (simp add: snprintf_s_def Let_def)
qed

lemma cstr_append_nul: "0 \<notin> set t \<Longrightarrow> length t < n \<Longrightarrow> cstr n (t @ 0 # r) = t"
  by (auto simp: cstr_def takeWhile_append takeWhile_eq_all_conv take_Cons' dest: set_takeWhileD)

lemma cstr_snprintf_s [cstr_simps]:
  assumes "0 < n"
  shows "cstr n (snprintf_s n dst src) = cstr (n - 1) src"
proof -
  have "length (cstr (n - 1) src) < n"
    using length_cstr_le [of "n - 1" src] assms by linarith
  then show ?thesis
    by (simp add: snprintf_s_def Let_def cstr_append_nul cstr_no_nul)
qed

lemma strncmp_eq_cstr:
  "n \<le> length a \<Longrightarrow> n \<le> length b \<Longrightarrow> strncmp_eq n a b \<longleftrightarrow> cstr n a = cstr n b"
proof (induction n a b rule: strncmp_eq.induct)
  case (1 n x xs y ys)
  then show ?case by (auto simp: cstr_def)
qed (auto simp: cstr_def)

subsection \<open>Counting loops\<close>

text \<open>
  \<open>for (i = k; i < k + n; i++) if (P(i)) break; return i;\<close> as \<open>loop_find P k n\<close>.
\<close>

fun loop_find :: "(nat \<Rightarrow> bool) \<Rightarrow> nat \<Rightarrow> nat \<Rightarrow> nat" where
  "loop_find P k 0 = k"
| "loop_find P k (Suc n) = (if P k then k else loop_find P (Suc k) n)"

lemma loop_find_bounds: "k \<le> loop_find P k n \<and> loop_find P k n \<le> k + n"
  by (induction P k n rule: loop_find.induct) auto

lemma loop_find_le: "loop_find P 0 n \<le> n"
  using loop_find_bounds [of 0 P n] by simp

lemma loop_find_hit: "loop_find P k n < k + n \<Longrightarrow> P (loop_find P k n)"
  by (induction P k n rule: loop_find.induct) auto

lemma loop_find_first: "k \<le> i \<Longrightarrow> i < loop_find P k n \<Longrightarrow> \<not> P i"
proof (induction P k n rule: loop_find.induct)
  case (2 P k n)
  then show ?case by (cases "i = k") (auto split: if_splits)
qed auto

lemma loop_find_none: "loop_find P 0 n = n \<longleftrightarrow> (\<forall>i < n. \<not> P i)"
  using loop_find_hit [of P 0 n] loop_find_first [of 0 _ P n] loop_find_le [of P n]
  by (metis add_0 le_neq_implies_less zero_le)

lemma loop_find_eqI:
  assumes "i < n" "P i" "\<And>j. j < i \<Longrightarrow> \<not> P j"
  shows "loop_find P 0 n = i"
proof -
  have "\<not> loop_find P 0 n < i"
    using assms loop_find_hit [of P 0 n] by force
  moreover have "\<not> i < loop_find P 0 n"
    using assms(2) loop_find_first [of 0 i P n] by auto
  ultimately show ?thesis by simp
qed

text \<open>The loop is exact for any test that agrees with the source's on the indices it visits.\<close>

lemma loop_find_exact:
  assumes "\<And>j. j < n \<Longrightarrow> P j \<longleftrightarrow> Q j"
  shows "(\<forall>j < loop_find P 0 n. \<not> Q j) \<and> (if loop_find P 0 n < n then Q (loop_find P 0 n) else loop_find P 0 n = n)"
  using assms loop_find_le [of P n] loop_find_hit [of P 0 n] loop_find_first [of 0 _ P n]
  by (metis add_0 le_neq_implies_less less_le_trans zero_le)

text \<open>The loop that looks for a byte other than 0xFF in a structure.\<close>

definition memory_initialized :: "byte list \<Rightarrow> bool" where
  "memory_initialized bs = list_ex (\<lambda>b. b \<noteq> 0xFF) bs"

lemma not_initialized_iff:
  "\<not> memory_initialized bs \<longleftrightarrow> bs = replicate (length bs) 0xFF"
  unfolding memory_initialized_def
proof (induction bs)
  case Nil
  then show ?case by simp
next
  case (Cons b bs)
  then show ?case by auto
qed

lemma not_initialized_replicate [simp]: "\<not> memory_initialized (replicate n 0xFF)"
  by (induction n) (simp_all add: memory_initialized_def)

lemma initialized_constant [simp]:
  "0 < n \<Longrightarrow> b \<noteq> 0xFF \<Longrightarrow> memory_initialized (read_bytes (\<lambda>x. b) a n)"
  by (simp add: memory_initialized_def read_bytes_def list_ex_iff) (auto intro: exI [of _ a])

subsection \<open>Bitwise equality\<close>

text \<open>Equality of bytes and words bit by bit, for identities between shifts and masks.\<close>

lemma byte_eqI:
  fixes x y :: byte
  assumes "bit x 0 = bit y 0" "bit x 1 = bit y 1" "bit x 2 = bit y 2" "bit x 3 = bit y 3"
    "bit x 4 = bit y 4" "bit x 5 = bit y 5" "bit x 6 = bit y 6" "bit x 7 = bit y 7"
  shows "x = y"
proof (rule bit_word_eqI)
  fix n :: nat
  assume "n < LENGTH(8)"
  then consider "n = 0" | "n = 1" | "n = 2" | "n = 3" | "n = 4" | "n = 5" | "n = 6" | "n = 7"
    by fastforce
  then show "bit x n = bit y n" using assms by cases auto
qed

lemma word_t_eqI:
  fixes x y :: word_t
  assumes "bit x 0 = bit y 0" "bit x 1 = bit y 1" "bit x 2 = bit y 2" "bit x 3 = bit y 3"
    "bit x 4 = bit y 4" "bit x 5 = bit y 5" "bit x 6 = bit y 6" "bit x 7 = bit y 7"
    "bit x 8 = bit y 8" "bit x 9 = bit y 9" "bit x 10 = bit y 10" "bit x 11 = bit y 11"
    "bit x 12 = bit y 12" "bit x 13 = bit y 13" "bit x 14 = bit y 14" "bit x 15 = bit y 15"
  shows "x = y"
proof (rule bit_word_eqI)
  fix n :: nat
  assume n: "n < LENGTH(16)"
  show "bit x n = bit y n"
  proof (cases "n < 8")
    case True
    then consider "n = 0" | "n = 1" | "n = 2" | "n = 3" | "n = 4" | "n = 5" | "n = 6" | "n = 7"
      by fastforce
    then show ?thesis using assms by cases auto
  next
    case False
    with n consider "n = 8" | "n = 9" | "n = 10" | "n = 11" | "n = 12" | "n = 13" | "n = 14" | "n = 15"
      by fastforce
    then show ?thesis using assms by cases auto
  qed
qed

subsection \<open>Memory errors\<close>

text \<open>An access outside an array is an error value; \<open>bind_sum\<close> sequences computations that may fail.\<close>

datatype memory_error = OutOfBoundsRead | OutOfBoundsWrite

fun bind_sum :: "'e + 'a \<Rightarrow> ('a \<Rightarrow> 'e + 'b) \<Rightarrow> 'e + 'b" where
  "bind_sum (Inl e) f = Inl e"
| "bind_sum (Inr x) f = f x"

lemma bind_sum_cong [fundef_cong]:
  "x = y \<Longrightarrow> (\<And>a. y = Inr a \<Longrightarrow> f a = g a) \<Longrightarrow> bind_sum x f = bind_sum y g"
  by (cases y) auto

lemma bind_sum_Inr: "bind_sum x f = Inr y \<longleftrightarrow> (\<exists>a. x = Inr a \<and> f a = Inr y)"
  by (cases x) auto

lemma bind_sum_Inl: "bind_sum x f = Inl e \<longleftrightarrow> x = Inl e \<or> (\<exists>a. x = Inr a \<and> f a = Inl e)"
  by (cases x) auto

lemma bind_sum_id [simp]: "bind_sum x Inr = x"
  by (cases x) auto

end
