(* ===== verification/Crc.thy ===== *)
theory Crc
  imports Prelude
begin

unbundle bit_operations_syntax

text \<open>
  Embedded/Sources/Crc.c: the table-driven CRC-8 of the radio packets and the CRC-16 of the
  flash records. The tables are the source's; the reference definitions \<open>crc8_bit\<close> and
  \<open>crc16_bit\<close> are the shift registers the tables were computed from.
\<close>

definition crc8Table :: "byte list" where
  "crc8Table =
   [
    0, 94, 188, 226, 97, 63, 221, 131, 194, 156, 126, 32, 163, 253, 31, 65,
    157, 195, 33, 127, 252, 162, 64, 30, 95, 1, 227, 189, 62, 96, 130, 220,
    35, 125, 159, 193, 66, 28, 254, 160, 225, 191, 93, 3, 128, 222, 60, 98,
    190, 224, 2, 92, 223, 129, 99, 61, 124, 34, 192, 158, 29, 67, 161, 255,
    70, 24, 250, 164, 39, 121, 155, 197, 132, 218, 56, 102, 229, 187, 89, 7,
    219, 133, 103, 57, 186, 228, 6, 88, 25, 71, 165, 251, 120, 38, 196, 154,
    101, 59, 217, 135, 4, 90, 184, 230, 167, 249, 27, 69, 198, 152, 122, 36,
    248, 166, 68, 26, 153, 199, 37, 123, 58, 100, 134, 216, 91, 5, 231, 185,
    140, 210, 48, 110, 237, 179, 81, 15, 78, 16, 242, 172, 47, 113, 147, 205,
    17, 79, 173, 243, 112, 46, 204, 146, 211, 141, 111, 49, 178, 236, 14, 80,
    175, 241, 19, 77, 206, 144, 114, 44, 109, 51, 209, 143, 12, 82, 176, 238,
    50, 108, 142, 208, 83, 13, 239, 177, 240, 174, 76, 18, 145, 207, 45, 115,
    202, 148, 118, 40, 171, 245, 23, 73, 8, 86, 180, 234, 105, 55, 213, 139,
    87, 9, 235, 181, 54, 104, 138, 212, 149, 203, 41, 119, 244, 170, 72, 22,
    233, 183, 85, 11, 136, 214, 52, 106, 43, 117, 151, 201, 74, 20, 246, 168,
    116, 42, 200, 150, 21, 75, 169, 247, 182, 232, 10, 84, 215, 137, 107, 53
   ]"

definition crc16Table :: "word_t list" where
  "crc16Table =
   [
    0x0000, 0xC0C1, 0xC181, 0x0140, 0xC301, 0x03C0, 0x0280, 0xC241,
    0xC601, 0x06C0, 0x0780, 0xC741, 0x0500, 0xC5C1, 0xC481, 0x0440,
    0xCC01, 0x0CC0, 0x0D80, 0xCD41, 0x0F00, 0xCFC1, 0xCE81, 0x0E40,
    0x0A00, 0xCAC1, 0xCB81, 0x0B40, 0xC901, 0x09C0, 0x0880, 0xC841,
    0xD801, 0x18C0, 0x1980, 0xD941, 0x1B00, 0xDBC1, 0xDA81, 0x1A40,
    0x1E00, 0xDEC1, 0xDF81, 0x1F40, 0xDD01, 0x1DC0, 0x1C80, 0xDC41,
    0x1400, 0xD4C1, 0xD581, 0x1540, 0xD701, 0x17C0, 0x1680, 0xD641,
    0xD201, 0x12C0, 0x1380, 0xD341, 0x1100, 0xD1C1, 0xD081, 0x1040,
    0xF001, 0x30C0, 0x3180, 0xF141, 0x3300, 0xF3C1, 0xF281, 0x3240,
    0x3600, 0xF6C1, 0xF781, 0x3740, 0xF501, 0x35C0, 0x3480, 0xF441,
    0x3C00, 0xFCC1, 0xFD81, 0x3D40, 0xFF01, 0x3FC0, 0x3E80, 0xFE41,
    0xFA01, 0x3AC0, 0x3B80, 0xFB41, 0x3900, 0xF9C1, 0xF881, 0x3840,
    0x2800, 0xE8C1, 0xE981, 0x2940, 0xEB01, 0x2BC0, 0x2A80, 0xEA41,
    0xEE01, 0x2EC0, 0x2F80, 0xEF41, 0x2D00, 0xEDC1, 0xEC81, 0x2C40,
    0xE401, 0x24C0, 0x2580, 0xE541, 0x2700, 0xE7C1, 0xE681, 0x2640,
    0x2200, 0xE2C1, 0xE381, 0x2340, 0xE101, 0x21C0, 0x2080, 0xE041,
    0xA001, 0x60C0, 0x6180, 0xA141, 0x6300, 0xA3C1, 0xA281, 0x6240,
    0x6600, 0xA6C1, 0xA781, 0x6740, 0xA501, 0x65C0, 0x6480, 0xA441,
    0x6C00, 0xACC1, 0xAD81, 0x6D40, 0xAF01, 0x6FC0, 0x6E80, 0xAE41,
    0xAA01, 0x6AC0, 0x6B80, 0xAB41, 0x6900, 0xA9C1, 0xA881, 0x6840,
    0x7800, 0xB8C1, 0xB981, 0x7940, 0xBB01, 0x7BC0, 0x7A80, 0xBA41,
    0xBE01, 0x7EC0, 0x7F80, 0xBF41, 0x7D00, 0xBDC1, 0xBC81, 0x7C40,
    0xB401, 0x74C0, 0x7580, 0xB541, 0x7700, 0xB7C1, 0xB681, 0x7640,
    0x7200, 0xB2C1, 0xB381, 0x7340, 0xB101, 0x71C0, 0x7080, 0xB041,
    0x5000, 0x90C1, 0x9181, 0x5140, 0x9301, 0x53C0, 0x5280, 0x9241,
    0x9601, 0x56C0, 0x5780, 0x9741, 0x5500, 0x95C1, 0x9481, 0x5440,
    0x9C01, 0x5CC0, 0x5D80, 0x9D41, 0x5F00, 0x9FC1, 0x9E81, 0x5E40,
    0x5A00, 0x9AC1, 0x9B81, 0x5B40, 0x9901, 0x59C0, 0x5880, 0x9841,
    0x8801, 0x48C0, 0x4980, 0x8941, 0x4B00, 0x8BC1, 0x8A81, 0x4A40,
    0x4E00, 0x8EC1, 0x8F81, 0x4F40, 0x8D01, 0x4DC0, 0x4C80, 0x8C41,
    0x4400, 0x84C1, 0x8581, 0x4540, 0x8701, 0x47C0, 0x4680, 0x8641,
    0x8201, 0x42C0, 0x4380, 0x8341, 0x4100, 0x81C1, 0x8081, 0x4040
   ]"

text \<open>
  The loops of \<open>UpdateCRC8\<close> and \<open>UpdateCRC16\<close>: the buffer and its size are the byte list.
  The index expressions are those of the source; both are below 256.
\<close>

fun UpdateCRC8 :: "byte \<Rightarrow> byte list \<Rightarrow> byte" where
  "UpdateCRC8 crc [] = crc"
| "UpdateCRC8 crc (b # bs) = UpdateCRC8 (crc8Table ! unat (crc XOR b)) bs"

fun UpdateCRC16 :: "word_t \<Rightarrow> byte list \<Rightarrow> word_t" where
  "UpdateCRC16 crc [] = crc"
| "UpdateCRC16 crc (b # bs) =
     UpdateCRC16 (drop_bit 8 crc XOR crc16Table ! unat ((crc XOR ucast b) AND 0x00FF)) bs"

subsection \<open>The shift registers\<close>

definition crc8_bit :: "byte \<Rightarrow> byte" where
  "crc8_bit c = (if bit c 0 then drop_bit 1 c XOR 0x8C else drop_bit 1 c)"

definition crc16_bit :: "word_t \<Rightarrow> word_t" where
  "crc16_bit c = (if bit c 0 then drop_bit 1 c XOR 0xA001 else drop_bit 1 c)"

definition crc8_shift8 :: "byte \<Rightarrow> byte" where
  "crc8_shift8 c = (crc8_bit ^^ 8) c"

definition crc16_shift8 :: "word_t \<Rightarrow> word_t" where
  "crc16_shift8 c = (crc16_bit ^^ 8) c"

lemma crc16_shift8_unfold: "crc16_shift8 c = crc16_bit (crc16_bit (crc16_bit (crc16_bit (crc16_bit (crc16_bit (crc16_bit (crc16_bit c)))))))"
  by (simp add: crc16_shift8_def eval_nat_numeral)
lemma crc8_shift8_unfold: "crc8_shift8 c = crc8_bit (crc8_bit (crc8_bit (crc8_bit (crc8_bit (crc8_bit (crc8_bit (crc8_bit c)))))))"
  by (simp add: crc8_shift8_def eval_nat_numeral)

lemma crc16_bit_xor: "crc16_bit (x XOR y) = crc16_bit x XOR crc16_bit y"
  by (rule bit_word_eqI) (auto simp: crc16_bit_def bit_simps)
lemma crc8_bit_xor: "crc8_bit (x XOR y) = crc8_bit x XOR crc8_bit y"
  by (rule bit_word_eqI) (auto simp: crc8_bit_def bit_simps)

lemma drop1_zero:
  fixes c :: "'a::len word"
  assumes "drop_bit 1 c = 0" "\<not> bit c 0"
  shows "c = 0"
proof (rule bit_word_eqI)
  fix n
  assume "n < LENGTH('a)"
  have "\<not> bit (drop_bit 1 c) (n - 1)" unfolding assms(1) by simp
  with assms(2) show "bit c n \<longleftrightarrow> bit 0 n" by (cases n) (auto simp: bit_simps)
qed

lemma crc16_bit_0: "crc16_bit c = 0 \<Longrightarrow> c = 0"
proof (cases "bit c 0")
  case True
  assume "crc16_bit c = 0"
  with True have "\<not> bit (drop_bit 1 c XOR 0xA001) 15" by (simp add: crc16_bit_def)
  moreover have "\<not> bit c 16" by (auto dest: bit_imp_le_length)
  ultimately show ?thesis by (simp add: bit_simps)
next
  case False
  assume "crc16_bit c = 0"
  with False show ?thesis by (auto simp: crc16_bit_def intro: drop1_zero)
qed

lemma crc16_bit_drop: "(\<And>i. i < k \<Longrightarrow> \<not> bit c i) \<Longrightarrow> (crc16_bit ^^ k) c = drop_bit k c"
proof (induction k)
  case (Suc k)
  then have "(crc16_bit ^^ Suc k) c = crc16_bit (drop_bit k c)" by simp
  also have "\<dots> = drop_bit (Suc k) c"
    using Suc.prems [of k] by (simp add: crc16_bit_def bit_simps drop_bit_Suc drop_bit_half flip: drop_bit_drop_bit) 
  finally show ?case .
qed simp

lemma shift8_high: "crc16_shift8 (push_bit 8 (ucast b)) = ucast (b :: byte)"
proof -
  have "crc16_shift8 (push_bit 8 (ucast b)) = drop_bit 8 (push_bit 8 (ucast b) :: word_t)"
    unfolding crc16_shift8_def by (rule crc16_bit_drop) (simp add: bit_simps)
  also have "\<dots> = ucast b"
    by (rule bit_word_eqI) (auto simp: bit_simps dest: bit_imp_le_length)
  finally show ?thesis .
qed

lemma upto_256: "[0..<256] = 0 # 1 # [2..<256]"
proof -
  have "[0..<256] = 0 # [Suc 0..<256]" by (rule upt_conv_Cons) simp
  also have "[Suc 0..<256] = Suc 0 # [Suc (Suc 0)..<256]" by (rule upt_conv_Cons) simp
  finally show ?thesis by (simp only: One_nat_def numeral_2_eq_2)
qed

lemma crc16Table_ref: "crc16Table = map (\<lambda>i. crc16_shift8 (of_nat i)) [0..<256]"
  unfolding upto_256 crc16Table_def
  by (simp add: upt_rec_numeral) (simp add: crc16_shift8_unfold crc16_bit_def)

lemma crc8Table_ref: "crc8Table = map (\<lambda>i. crc8_shift8 (of_nat i)) [0..<256]"
  unfolding upto_256 crc8Table_def
  by (simp add: upt_rec_numeral) (simp add: crc8_shift8_unfold crc8_bit_def)

lemma crc16_shift8_xor: "crc16_shift8 (x XOR y) = crc16_shift8 x XOR crc16_shift8 y"
  by (simp add: crc16_shift8_unfold crc16_bit_xor)

lemma crc16_shift8_0: "crc16_shift8 c = 0 \<Longrightarrow> c = 0"
  by (auto simp: crc16_shift8_unfold dest!: crc16_bit_0)

lemma crc16_shift8_inj: "crc16_shift8 x = crc16_shift8 y \<longleftrightarrow> x = y"
proof
  assume "crc16_shift8 x = crc16_shift8 y"
  then have "crc16_shift8 (x XOR y) = 0" by (simp add: crc16_shift8_xor)
  then have "x XOR y = 0" by (rule crc16_shift8_0)
  then have "(x XOR y) XOR y = 0 XOR y" by (rule arg_cong)
  then show "x = y" by (simp add: xor.assoc)
qed simp

lemma byte_index: "unat (w :: byte) < 256"
  using unsigned_less [of w] by simp

lemma low_byte_index: "unat ((w :: word_t) AND 0xFF) < 256"
proof -
  have "w AND 0xFF \<le> 0xFF" by (rule word_and_le1)
  then have "unat (w AND 0xFF) \<le> unat (0xFF :: word_t)" by (simp only: word_le_nat_alt)
  then show ?thesis by simp
qed

text \<open>One table step is eight steps of the shift register.\<close>

lemma crc16_table_step: "drop_bit 8 c XOR crc16Table ! unat (c AND 0xFF) = crc16_shift8 c"
proof -
  let ?h = "push_bit 8 (ucast (ucast (drop_bit 8 c) :: byte)) :: word_t"
  have split: "c = (c AND 0xFF) XOR ?h"
  proof (rule bit_word_eqI)
    fix n assume "n < LENGTH(16)"
    moreover have "bit (0xFF :: word_t) n \<longleftrightarrow> n < 8"
    proof -
      have "(0xFF :: word_t) = mask 8" by (simp add: mask_eq_exp_minus_1)
      then show ?thesis using \<open>n < LENGTH(16)\<close> by (simp only: bit_mask_iff) simp
    qed
    ultimately show "bit c n = bit ((c AND 0xFF) XOR ?h) n"
      by (auto simp: bit_simps)
  qed
  have "crc16Table ! unat (c AND 0xFF) = crc16_shift8 (c AND 0xFF)"
    using low_byte_index [of c] by (simp add: crc16Table_ref)
  moreover have "crc16_shift8 ?h = drop_bit 8 c"
    unfolding shift8_high
    by (rule bit_word_eqI) (auto simp: bit_simps dest: bit_imp_le_length)
  ultimately have "drop_bit 8 c XOR crc16Table ! unat (c AND 0xFF)
      = crc16_shift8 (c AND 0xFF) XOR crc16_shift8 ?h"
    by (simp add: xor.commute)
  also have "\<dots> = crc16_shift8 c"
    by (metis split crc16_shift8_xor)
  finally show ?thesis .
qed

lemma crc16_step: "drop_bit 8 c XOR crc16Table ! unat ((c XOR ucast b) AND 0xFF) = crc16_shift8 (c XOR ucast (b :: byte))"
proof -
  have "drop_bit 8 c = drop_bit 8 (c XOR ucast b)"
    by (rule bit_word_eqI) (auto simp: bit_simps dest: bit_imp_le_length)
  then show ?thesis using crc16_table_step [of "c XOR ucast b"] by simp
qed

lemma crc8_table_step: "crc8Table ! unat (c XOR b) = crc8_shift8 (c XOR (b :: byte))"
  using byte_index [of "c XOR b"] by (simp add: crc8Table_ref)

lemma UpdateCRC16_ref: "UpdateCRC16 crc bs = foldl (\<lambda>c b. crc16_shift8 (c XOR ucast b)) crc bs"
  by (induction bs arbitrary: crc) (simp_all add: crc16_step)
lemma UpdateCRC8_ref: "UpdateCRC8 crc bs = foldl (\<lambda>c b. crc8_shift8 (c XOR b)) crc bs"
  by (induction bs arbitrary: crc) (simp_all add: crc8_table_step)
lemma UpdateCRC16_append: "UpdateCRC16 crc (xs @ ys) = UpdateCRC16 (UpdateCRC16 crc xs) ys"
  by (simp add: UpdateCRC16_ref)

lemma UpdateCRC8_append: "UpdateCRC8 crc (xs @ ys) = UpdateCRC8 (UpdateCRC8 crc xs) ys"
  by (simp add: UpdateCRC8_ref)

lemma xor_cancel_right: "(x XOR z = y XOR z) = (x = (y :: 'a::len word))"
proof
  assume "x XOR z = y XOR z"
  then have "(x XOR z) XOR z = (y XOR z) XOR z" by (rule arg_cong)
  then show "x = y" by (simp add: xor.assoc)
qed simp

lemma UpdateCRC16_seed: "UpdateCRC16 c bs = UpdateCRC16 d bs \<longleftrightarrow> c = d"
  unfolding UpdateCRC16_ref
  by (induction bs arbitrary: c d) (simp_all add: crc16_shift8_inj xor_cancel_right)

lemma crc8_bit_0: "crc8_bit c = 0 \<Longrightarrow> c = 0"
proof (cases "bit c 0")
  case True
  assume "crc8_bit c = 0"
  with True have "\<not> bit (drop_bit 1 c XOR 0x8C) 7" by (simp add: crc8_bit_def)
  moreover have "\<not> bit c 8" by (auto dest: bit_imp_le_length)
  ultimately show ?thesis by (simp add: bit_simps)
next
  case False
  assume "crc8_bit c = 0"
  with False show ?thesis by (auto simp: crc8_bit_def intro: drop1_zero)
qed

lemma crc8_shift8_xor: "crc8_shift8 (x XOR y) = crc8_shift8 x XOR crc8_shift8 y"
  by (simp add: crc8_shift8_unfold crc8_bit_xor)

lemma crc8_shift8_inj: "crc8_shift8 x = crc8_shift8 y \<longleftrightarrow> x = y"
proof
  assume "crc8_shift8 x = crc8_shift8 y"
  then have "crc8_shift8 (x XOR y) = 0" by (simp add: crc8_shift8_xor)
  then have "x XOR y = y XOR y" by (auto simp: crc8_shift8_unfold dest!: crc8_bit_0)
  then show "x = y" by (simp only: xor_cancel_right)
qed simp

lemma UpdateCRC8_seed: "UpdateCRC8 c bs = UpdateCRC8 d bs \<longleftrightarrow> c = d"
  unfolding UpdateCRC8_ref
  by (induction bs arbitrary: c d) (simp_all add: crc8_shift8_inj xor_cancel_right)

lemma ucast_eq_push8:
  assumes "(ucast (x :: byte) :: word_t) = push_bit 8 (ucast (y :: byte))"
  shows "x = 0 \<and> y = 0"
proof -
  have *: "bit (ucast x :: word_t) n = bit (push_bit 8 (ucast y) :: word_t) n" for n
    by (simp only: assms)
  have "\<not> bit x n" if "n < 8" for n using *[of n] that by (simp add: bit_simps)
  moreover have "\<not> bit y n" if "n < 8" for n
    using *[of "n + 8"] that by (auto simp: bit_simps dest: bit_imp_le_length)
  ultimately show ?thesis by (auto intro: bit_word_eqI)
qed

lemma crc16_two_steps:
  assumes "crc16_shift8 (crc16_shift8 (c XOR ucast b1) XOR ucast b2) =
           crc16_shift8 (crc16_shift8 (c XOR ucast d1) XOR ucast d2)"
  shows "b1 = (d1 :: byte) \<and> b2 = (d2 :: byte)"
proof -
  let ?x = "(ucast b1 :: word_t) XOR ucast d1" and ?y = "(ucast b2 :: word_t) XOR ucast d2"
  from assms have "crc16_shift8 c XOR crc16_shift8 (ucast b1) XOR ucast b2 =
                   crc16_shift8 c XOR crc16_shift8 (ucast d1) XOR ucast d2"
    by (simp only: crc16_shift8_inj) (simp only: crc16_shift8_xor xor.assoc)
  then have "(crc16_shift8 c XOR crc16_shift8 (ucast b1) XOR ucast b2) XOR (crc16_shift8 c XOR crc16_shift8 (ucast d1) XOR ucast b2) =
             (crc16_shift8 c XOR crc16_shift8 (ucast d1) XOR ucast d2) XOR (crc16_shift8 c XOR crc16_shift8 (ucast d1) XOR ucast b2)"
    by (rule arg_cong)
  then have "crc16_shift8 (ucast b1) XOR crc16_shift8 (ucast d1) = ucast d2 XOR ucast b2"
    by (simp add: xor.assoc xor.commute xor.left_commute)
  then have "crc16_shift8 (ucast (b1 XOR d1)) = ucast (d2 XOR b2)"
    by (simp add: crc16_shift8_xor unsigned_xor_eq)
  also have "\<dots> = crc16_shift8 (push_bit 8 (ucast (d2 XOR b2)))" by (rule shift8_high [symmetric])
  finally have "(ucast (b1 XOR d1) :: word_t) = push_bit 8 (ucast (d2 XOR b2))"
    by (simp only: crc16_shift8_inj)
  from ucast_eq_push8 [OF this] have "b1 XOR d1 = 0 \<and> d2 XOR b2 = 0" .
  then have "b1 XOR d1 = d1 XOR d1" "d2 XOR b2 = b2 XOR b2" by simp_all
  then show ?thesis by (simp only: xor_cancel_right)
qed

lemma crc16_burst:
  "UpdateCRC16 c (xs @ b1 # b2 # ys) = UpdateCRC16 c (xs @ d1 # d2 # ys) \<longleftrightarrow> b1 = d1 \<and> b2 = d2"
  unfolding UpdateCRC16_append
  by (auto simp: UpdateCRC16_seed crc16_step dest: crc16_two_steps)

lemma crc8_byte:
  "UpdateCRC8 c (xs @ b # ys) = UpdateCRC8 c (xs @ d # ys) \<longleftrightarrow> b = d"
  by (simp add: UpdateCRC8_append UpdateCRC8_seed crc8_table_step crc8_shift8_inj
      xor.commute [of _ b] xor.commute [of _ d] xor_cancel_right)

subsection \<open>Properties\<close>

text \<open>C10: both table-driven routines of Crc.c compute the bitwise shift-register CRCs, for every
  seed and every buffer: CRC-8 with the reflected polynomial 0x8C (Dallas/Maxim) and CRC-16 with
  the reflected polynomial 0xA001 (CRC-16/ARC), eight register steps per byte.\<close>

theorem crc_tables_equal_shift_registers:
  "UpdateCRC8 seed8 buf = foldl (\<lambda>c b. (crc8_bit ^^ 8) (c XOR b)) seed8 buf \<and>
   UpdateCRC16 seed16 buf = foldl (\<lambda>c b. (crc16_bit ^^ 8) (c XOR ucast b)) seed16 buf"
  by (simp add: UpdateCRC8_ref UpdateCRC16_ref crc8_shift8_def crc16_shift8_def)

text \<open>C9: corruption confined to two neighbouring bytes never escapes UpdateCRC16, and corruption of
  one byte never escapes UpdateCRC8, wherever it is in the buffer, whatever surrounds it and
  whatever the seed.\<close>

theorem crc_detects_local_corruption:
  "(UpdateCRC16 c (pre @ [b1, b2] @ post) = UpdateCRC16 c (pre @ [d1, d2] @ post)
      \<longleftrightarrow> b1 = d1 \<and> b2 = d2) \<and>
   (UpdateCRC8 e (pre @ [b1] @ post) = UpdateCRC8 e (pre @ [d1] @ post) \<longleftrightarrow> b1 = d1)"
  using crc16_burst [of c pre b1 b2 post d1 d2] crc8_byte [of e pre b1 post d1] by simp

end
