(* ===== verification/Flash_Driver.thy ===== *)
theory Flash_Driver
  imports Prelude
begin

unbundle bit_operations_syntax

text \<open>
  The flash driver the firmware calls: flash/FlashEraseSector.c, flash/FlashProgramPhrase.c and
  flash/FlashCommandSequence.c, with the configuration \<open>ftfl_cfg\<close> of Flash.c.

  The FTFE controller itself is hardware and a parameter: \<open>hw m cmd\<close> is the memory after the
  command in the FCCOB registers has completed, with the FSTAT register. Its documented behaviour
  is the locale \<open>ftfe\<close>; \<open>ftfe_reliable\<close> adds that commands on legal addresses succeed. The
  contract the rest of the firmware uses is the locale \<open>flash_driver\<close>, which the driver on a
  reliable controller satisfies. Addresses are natural numbers, with the wrap-around of the
  UINT32 expressions written out.
\<close>

type_synonym ftfe_hw = "memory \<Rightarrow> byte list \<Rightarrow> memory \<times> byte"

abbreviation FTFx_OK :: dword_t where "FTFx_OK \<equiv> 0"
abbreviation FTFx_ERR_SIZE :: dword_t where "FTFx_ERR_SIZE \<equiv> 0x0001"
abbreviation FTFx_ERR_RANGE :: dword_t where "FTFx_ERR_RANGE \<equiv> 0x0002"
abbreviation FTFx_ERR_ACCERR :: dword_t where "FTFx_ERR_ACCERR \<equiv> 0x0004"
abbreviation FTFx_ERR_PVIOL :: dword_t where "FTFx_ERR_PVIOL \<equiv> 0x0008"
abbreviation FTFx_ERR_MGSTAT0 :: dword_t where "FTFx_ERR_MGSTAT0 \<equiv> 0x0010"
abbreviation FTFx_ERR_ADDR :: dword_t where "FTFx_ERR_ADDR \<equiv> 0x0100"

abbreviation FTFx_PSECTOR_SIZE :: nat where "FTFx_PSECTOR_SIZE \<equiv> 0x1000"
abbreviation FTFx_DSECTOR_SIZE :: nat where "FTFx_DSECTOR_SIZE \<equiv> 0"
abbreviation FTFx_PHRASE_SIZE :: nat where "FTFx_PHRASE_SIZE \<equiv> 8"

text \<open>\<open>FlashCommandSequence\<close>: FCCOB0 to FCCOB(index) are loaded, the command is launched, and
  the error bits of FSTAT are translated, access errors first.\<close>

definition FlashCommandSequence :: "ftfe_hw \<Rightarrow> memory \<Rightarrow> nat \<Rightarrow> byte list \<Rightarrow> memory \<times> dword_t" where
  "FlashCommandSequence hw m index cmd =
     (let (m', registerValue) = hw m (take (index + 1) cmd)
      in (m',
          if registerValue AND 0x20 \<noteq> 0 then FTFx_ERR_ACCERR
          else if registerValue AND 0x10 \<noteq> 0 then FTFx_ERR_PVIOL
          else if registerValue AND 0x01 \<noteq> 0 then FTFx_ERR_MGSTAT0
          else FTFx_OK))"

record flash_ssd_config =
  PFlashBlockBase :: nat
  PFlashBlockSize :: nat
  DFlashBlockBase :: nat
  DFlashBlockSize :: nat

definition ftfl_cfg :: flash_ssd_config where
  "ftfl_cfg = \<lparr>PFlashBlockBase = 0, PFlashBlockSize = 0x100000,
               DFlashBlockBase = 0xFFFFFFFF, DFlashBlockSize = 0\<rparr>"

text \<open>The range check both routines share: the FTFE address of a destination, \<open>None\<close> for
  \<open>FTFx_ERR_RANGE\<close>; the flag says that the address is in the program flash.\<close>

definition ftfe_address :: "flash_ssd_config \<Rightarrow> nat \<Rightarrow> nat \<Rightarrow> (nat \<times> bool) option" where
  "ftfe_address cfg destination sz =
     (let endAddress = (destination + sz) mod 2 ^ 32 in
      if destination < PFlashBlockBase cfg \<or>
         endAddress > (PFlashBlockBase cfg + PFlashBlockSize cfg) mod 2 ^ 32 then
        (if destination < DFlashBlockBase cfg \<or>
            endAddress > (DFlashBlockBase cfg + DFlashBlockSize cfg) mod 2 ^ 32 then None
         else Some ((destination - DFlashBlockBase cfg + 0x800000) mod 2 ^ 32, False))
      else Some (destination - PFlashBlockBase cfg, True))"

definition erase_cmd :: "nat \<Rightarrow> byte list" where
  "erase_cmd destination =
     [0x09, of_nat (destination div 2 ^ 16), of_nat (destination div 2 ^ 8), of_nat destination]"

text \<open>The loop of \<open>FlashEraseSector\<close>. It is entered with \<open>sz\<close>, the size, a multiple of
  \<open>sectorSize\<close>. The sector size is zero only for an address in the D-flash, of which the
  configuration has none; the loop is never entered with a size then (\<open>erase_dflash_stops\<close>).\<close>

function erase_loop :: "ftfe_hw \<Rightarrow> nat \<Rightarrow> memory \<Rightarrow> nat \<Rightarrow> nat \<Rightarrow> memory \<times> dword_t" where
  "erase_loop hw sectorSize m destination sz =
     (if sz = 0 \<or> sectorSize = 0 then (m, FTFx_OK)
      else let (m', returnCode) = FlashCommandSequence hw m 3 (erase_cmd destination) in
           if returnCode \<noteq> FTFx_OK then (m', returnCode)
           else erase_loop hw sectorSize m' (destination + sectorSize) (sz - sectorSize))"
  by pat_completeness auto
termination by (relation "measure (\<lambda>(hw, sectorSize, m, destination, sz). sz)") auto

declare erase_loop.simps [simp del]

definition FlashEraseSector ::
  "ftfe_hw \<Rightarrow> flash_ssd_config \<Rightarrow> memory \<Rightarrow> nat \<Rightarrow> nat \<Rightarrow> memory \<times> dword_t" where
  "FlashEraseSector hw cfg m destination sz =
     (case ftfe_address cfg destination sz of
        None \<Rightarrow> (m, FTFx_ERR_RANGE)
      | Some (dest, pflash) \<Rightarrow>
          let sectorSize = (if pflash then FTFx_PSECTOR_SIZE else FTFx_DSECTOR_SIZE) in
          if dest mod sectorSize \<noteq> 0 then (m, FTFx_ERR_ADDR)
          else if sz mod sectorSize \<noteq> 0 then (m, FTFx_ERR_SIZE)
          else erase_loop hw sectorSize m dest sz)"

text \<open>The command of one phrase: the eight bytes at \<open>source\<close>, each longword most significant
  byte first (little endian branch).\<close>

definition program_cmd :: "nat \<Rightarrow> memory \<Rightarrow> nat \<Rightarrow> byte list" where
  "program_cmd destination ram source =
     [0x07, of_nat (destination div 2 ^ 16), of_nat (destination div 2 ^ 8), of_nat destination,
      ram (source + 3), ram (source + 2), ram (source + 1), ram source,
      ram (source + 7), ram (source + 6), ram (source + 5), ram (source + 4)]"

function program_loop ::
  "ftfe_hw \<Rightarrow> memory \<Rightarrow> nat \<Rightarrow> nat \<Rightarrow> memory \<Rightarrow> nat \<Rightarrow> memory \<times> dword_t" where
  "program_loop hw m destination sz ram source =
     (if sz = 0 then (m, FTFx_OK)
      else let (m', returnCode) = FlashCommandSequence hw m 11 (program_cmd destination ram source) in
           if returnCode \<noteq> FTFx_OK then (m', returnCode)
           else program_loop hw m' (destination + FTFx_PHRASE_SIZE) (sz - FTFx_PHRASE_SIZE)
                  ram (source + FTFx_PHRASE_SIZE))"
  by pat_completeness auto
termination by (relation "measure (\<lambda>(hw, m, destination, sz, ram, source). sz)") auto

declare program_loop.simps [simp del]

text \<open>\<open>ram\<close> is the memory the source pointer reads from. Unlike the erase routine, alignment is
  checked before the range.\<close>

definition FlashProgramPhrase ::
  "ftfe_hw \<Rightarrow> flash_ssd_config \<Rightarrow> memory \<Rightarrow> nat \<Rightarrow> nat \<Rightarrow> memory \<Rightarrow> nat \<Rightarrow> memory \<times> dword_t" where
  "FlashProgramPhrase hw cfg m destination sz ram source =
     (if destination mod FTFx_PHRASE_SIZE \<noteq> 0 then (m, FTFx_ERR_ADDR)
      else if sz mod FTFx_PHRASE_SIZE \<noteq> 0 then (m, FTFx_ERR_SIZE)
      else case ftfe_address cfg destination sz of
             None \<Rightarrow> (m, FTFx_ERR_RANGE)
           | Some (dest, _) \<Rightarrow> program_loop hw m dest sz ram source)"

subsection \<open>Documented behaviour of the controller\<close>

abbreviation clean_status :: "byte \<Rightarrow> bool" where
  "clean_status st \<equiv> st AND 0x20 = 0 \<and> st AND 0x10 = 0 \<and> st AND 0x01 = 0"

text \<open>A command changes nothing outside its own sector or phrase. When it reports no error, an
  erased sector reads 0xFF, and a phrase that was erased holds the programmed bytes. Nothing is
  promised about the target of a failed command.\<close>

locale ftfe =
  fixes hw :: ftfe_hw
  assumes erase_frame: "\<lbrakk>hw m (erase_cmd a) = (m', st); a mod 0x1000 = 0; a < 0x100000;
      x < a \<or> a + 0x1000 \<le> x\<rbrakk> \<Longrightarrow> m' x = m x"
    and erase_done: "\<lbrakk>hw m (erase_cmd a) = (m', st); a mod 0x1000 = 0; a < 0x100000;
      clean_status st; a \<le> x; x < a + 0x1000\<rbrakk> \<Longrightarrow> m' x = 0xFF"
    and program_frame: "\<lbrakk>hw m (program_cmd a ram src) = (m', st); a mod 8 = 0; a < 0x100000;
      x < a \<or> a + 8 \<le> x\<rbrakk> \<Longrightarrow> m' x = m x"
    and program_done: "\<lbrakk>hw m (program_cmd a ram src) = (m', st); a mod 8 = 0; a < 0x100000;
      clean_status st; read_bytes m a 8 = replicate 8 0xFF; i < 8\<rbrakk> \<Longrightarrow> m' (a + i) = ram (src + i)"

locale ftfe_reliable = ftfe +
  assumes erase_succeeds: "\<lbrakk>hw m (erase_cmd a) = (m', st); a mod 0x1000 = 0; a < 0x100000\<rbrakk>
      \<Longrightarrow> clean_status st"
    and program_succeeds: "\<lbrakk>hw m (program_cmd a ram src) = (m', st); a mod 8 = 0; a < 0x100000\<rbrakk>
      \<Longrightarrow> clean_status st"

text \<open>The contract of the driver.\<close>

locale flash_driver =
  fixes erase :: "memory \<Rightarrow> nat \<Rightarrow> nat \<Rightarrow> memory \<times> dword_t"
    and prog :: "memory \<Rightarrow> nat \<Rightarrow> nat \<Rightarrow> memory \<Rightarrow> nat \<Rightarrow> memory \<times> dword_t"
  assumes erase_ok: "\<lbrakk>d mod 0x1000 = 0; n mod 0x1000 = 0; d + n \<le> 0x100000\<rbrakk>
      \<Longrightarrow> erase m d n = (fill_bytes m d n 0xFF, FTFx_OK)"
    and prog_ok: "\<lbrakk>d mod 8 = 0; n mod 8 = 0; d + n \<le> 0x100000;
        read_bytes m d n = replicate n 0xFF\<rbrakk>
      \<Longrightarrow> prog m d n ram src = (write_bytes m d (read_bytes ram src n), FTFx_OK)"

subsection \<open>The loops\<close>

lemma length_erase_cmd [simp]: "length (erase_cmd a) = 4"
  by (simp add: erase_cmd_def)

lemma length_program_cmd [simp]: "length (program_cmd a ram src) = 12"
  by (simp add: program_cmd_def)

lemma FlashCommandSequence_OK:
  "FlashCommandSequence hw m index cmd = (m', FTFx_OK) \<Longrightarrow> length cmd = index + 1 \<Longrightarrow>
   \<exists>st. hw m cmd = (m', st) \<and> clean_status st"
  by (auto simp: FlashCommandSequence_def split: prod.splits if_splits)

lemma FlashCommandSequence_mem:
  "FlashCommandSequence hw m index cmd = (m', rc) \<Longrightarrow> length cmd = index + 1 \<Longrightarrow>
   \<exists>st. hw m cmd = (m', st)"
  by (auto simp: FlashCommandSequence_def split: prod.splits)

lemma FlashCommandSequence_clean:
  "hw m cmd = (m', st) \<Longrightarrow> clean_status st \<Longrightarrow> length cmd = index + 1 \<Longrightarrow>
   FlashCommandSequence hw m index cmd = (m', FTFx_OK)"
  by (simp add: FlashCommandSequence_def)

lemma erase_loop_0 [simp]: "erase_loop hw sectorSize m d 0 = (m, FTFx_OK)"
  by (simp add: erase_loop.simps)

lemma erase_loop_Suc [simp]:
  "erase_loop hw 0x1000 m d (0x1000 + n) =
     (case FlashCommandSequence hw m 3 (erase_cmd d) of (m', rc) \<Rightarrow>
        if rc \<noteq> FTFx_OK then (m', rc) else erase_loop hw 0x1000 m' (d + 0x1000) n)"
  by (subst erase_loop.simps) (simp split: prod.split)

lemma program_loop_0 [simp]: "program_loop hw m d 0 ram src = (m, FTFx_OK)"
  by (simp add: program_loop.simps)

lemma program_loop_Suc [simp]:
  "program_loop hw m d (8 + n) ram src =
     (case FlashCommandSequence hw m 11 (program_cmd d ram src) of (m', rc) \<Rightarrow>
        if rc \<noteq> FTFx_OK then (m', rc) else program_loop hw m' (d + 8) n ram (src + 8))"
  by (subst program_loop.simps) (simp split: prod.split)

lemma fill_bytes_step:
  "fill_bytes (fill_bytes m d k b) (d + k) n b = fill_bytes m d (k + n) b"
  by (auto simp: fill_bytes_def fun_eq_iff)

lemma fill_bytes_0 [simp]: "fill_bytes m d 0 b = m"
  by (auto simp: fill_bytes_def fun_eq_iff)

context ftfe
begin

lemma erase_step:
  assumes "FlashCommandSequence hw m 3 (erase_cmd d) = (m', FTFx_OK)" "d mod 0x1000 = 0" "d < 0x100000"
  shows "m' = fill_bytes m d 0x1000 0xFF"
proof
  fix x
  obtain st where st: "hw m (erase_cmd d) = (m', st)" "clean_status st"
    using FlashCommandSequence_OK [OF assms(1)] by auto
  show "m' x = fill_bytes m d 0x1000 0xFF x"
    using erase_frame [OF st(1) assms(2,3)] erase_done [OF st(1) assms(2,3) st(2)]
    by (auto simp: fill_bytes_def not_le)
qed

lemma erase_loop_outside:
  assumes "erase_loop hw 0x1000 m d (k * 0x1000) = (m', rc)" "d mod 0x1000 = 0"
    "d + k * 0x1000 \<le> 0x100000" "x < d \<or> d + k * 0x1000 \<le> x"
  shows "m' x = m x"
  using assms
proof (induction k arbitrary: m d)
  case (Suc k)
  obtain m1 rc1 where 1: "FlashCommandSequence hw m 3 (erase_cmd d) = (m1, rc1)" by fastforce
  obtain st where "hw m (erase_cmd d) = (m1, st)"
    using FlashCommandSequence_mem [OF 1] by auto
  then have "m1 x = m x" using Suc.prems by (intro erase_frame) auto
  moreover have "m' x = m1 x"
  proof (cases "rc1 = FTFx_OK")
    case True
    then show ?thesis
      using Suc.prems 1 by (intro Suc.IH [of m1 "d + 0x1000"]) auto
  next
    case False
    then show ?thesis using Suc.prems(1) 1 by simp
  qed
  ultimately show ?case by simp
qed simp

lemma erase_loop_done:
  assumes "erase_loop hw 0x1000 m d (k * 0x1000) = (m', FTFx_OK)" "d mod 0x1000 = 0"
    "d + k * 0x1000 \<le> 0x100000"
  shows "m' = fill_bytes m d (k * 0x1000) 0xFF"
  using assms
proof (induction k arbitrary: m d)
  case (Suc k)
  obtain m1 rc1 where 1: "FlashCommandSequence hw m 3 (erase_cmd d) = (m1, rc1)" by fastforce
  then have [simp]: "rc1 = FTFx_OK" using Suc.prems(1) by (auto split: if_splits)
  have "m' = fill_bytes m1 (d + 0x1000) (k * 0x1000) 0xFF"
    using Suc.prems 1 by (intro Suc.IH) auto
  moreover have "m1 = fill_bytes m d 0x1000 0xFF"
    using Suc.prems 1 by (intro erase_step) auto
  ultimately show ?case by (simp add: fill_bytes_step)
qed simp

lemma program_step:
  assumes "FlashCommandSequence hw m 11 (program_cmd d ram src) = (m', FTFx_OK)" "d mod 8 = 0"
    "d < 0x100000" "read_bytes m d 8 = replicate 8 0xFF"
  shows "m' = write_bytes m d (read_bytes ram src 8)"
proof
  fix x
  obtain st where st: "hw m (program_cmd d ram src) = (m', st)" "clean_status st"
    using FlashCommandSequence_OK [OF assms(1)] by auto
  show "m' x = write_bytes m d (read_bytes ram src 8) x"
    using program_frame [OF st(1) assms(2,3), of x]
      program_done [OF st(1) assms(2,3) st(2) assms(4), of "x - d"]
    by (auto simp: write_bytes_def not_le)
qed

lemma program_loop_outside:
  assumes "program_loop hw m d (k * 8) ram src = (m', rc)" "d mod 8 = 0"
    "d + k * 8 \<le> 0x100000" "x < d \<or> d + k * 8 \<le> x"
  shows "m' x = m x"
  using assms
proof (induction k arbitrary: m d src)
  case (Suc k)
  obtain m1 rc1 where 1: "FlashCommandSequence hw m 11 (program_cmd d ram src) = (m1, rc1)" by fastforce
  obtain st where "hw m (program_cmd d ram src) = (m1, st)"
    using FlashCommandSequence_mem [OF 1] by auto
  then have "m1 x = m x" using Suc.prems by (intro program_frame) auto
  moreover have "m' x = m1 x"
  proof (cases "rc1 = FTFx_OK")
    case True
    then show ?thesis
      using Suc.prems 1 by (intro Suc.IH [of m1 "d + 8" "src + 8"]) (auto simp: mod_add_self2)
  next
    case False
    then show ?thesis using Suc.prems(1) 1 by simp
  qed
  ultimately show ?case by simp
qed simp

lemma program_loop_done:
  assumes "program_loop hw m d (k * 8) ram src = (m', FTFx_OK)" "d mod 8 = 0"
    "d + k * 8 \<le> 0x100000" "read_bytes m d (k * 8) = replicate (k * 8) 0xFF"
  shows "m' = write_bytes m d (read_bytes ram src (k * 8))"
  using assms
proof (induction k arbitrary: m d src)
  case 0
  then show ?case by (simp add: read_bytes_def)
next
  case (Suc k)
  obtain m1 rc1 where 1: "FlashCommandSequence hw m 11 (program_cmd d ram src) = (m1, rc1)" by fastforce
  then have [simp]: "rc1 = FTFx_OK" using Suc.prems(1) by (auto split: if_splits)
  have ff: "read_bytes m d 8 = replicate 8 0xFF" "read_bytes m (d + 8) (k * 8) = replicate (k * 8) 0xFF"
    using Suc.prems(4) read_bytes_add [of m d 8 "k * 8"] by (auto simp: replicate_add append_eq_append_conv)
  have m1: "m1 = write_bytes m d (read_bytes ram src 8)"
    using Suc.prems 1 ff by (intro program_step) auto
  have "m' = write_bytes m1 (d + 8) (read_bytes ram (src + 8) (k * 8))"
    using Suc.prems 1 ff by (intro Suc.IH) (auto simp: m1 mem_simps)
  then show ?case
    using write_bytes_append [of m d "read_bytes ram src 8" "read_bytes ram (src + 8) (k * 8)"]
    by (simp add: m1 read_bytes_add)
qed

end

context ftfe_reliable
begin

lemma erase_loop_OK:
  "d mod 0x1000 = 0 \<Longrightarrow> d + k * 0x1000 \<le> 0x100000 \<Longrightarrow>
   snd (erase_loop hw 0x1000 m d (k * 0x1000)) = FTFx_OK"
proof (induction k arbitrary: m d)
  case (Suc k)
  obtain m1 st where 1: "hw m (erase_cmd d) = (m1, st)" by fastforce
  with Suc.prems have "clean_status st" by (intro erase_succeeds) auto
  with 1 have "FlashCommandSequence hw m 3 (erase_cmd d) = (m1, FTFx_OK)"
    by (simp add: FlashCommandSequence_clean)
  then show ?case using Suc by simp
qed simp

lemma program_loop_OK:
  "d mod 8 = 0 \<Longrightarrow> d + k * 8 \<le> 0x100000 \<Longrightarrow>
   snd (program_loop hw m d (k * 8) ram src) = FTFx_OK"
proof (induction k arbitrary: m d src)
  case (Suc k)
  obtain m1 st where 1: "hw m (program_cmd d ram src) = (m1, st)" by fastforce
  with Suc.prems have "clean_status st" by (intro program_succeeds) auto
  with 1 have "FlashCommandSequence hw m 11 (program_cmd d ram src) = (m1, FTFx_OK)"
    by (simp add: FlashCommandSequence_clean)
  then show ?case using Suc by simp
qed simp

end

subsection \<open>The routines on the firmware's configuration\<close>

lemma ftfe_address_pflash: "d + n \<le> 0x100000 \<Longrightarrow> ftfe_address ftfl_cfg d n = Some (d, True)"
  by (simp add: ftfe_address_def ftfl_cfg_def)

lemma ftfe_address_dflash:
  "ftfe_address ftfl_cfg d n = Some (a, False) \<Longrightarrow> d < 2 ^ 32 \<Longrightarrow> a = 0x800000"
  by (auto simp: ftfe_address_def ftfl_cfg_def Let_def split: if_splits)

lemma ftfe_address_range:
  "ftfe_address ftfl_cfg d n = Some (a, True) \<Longrightarrow> a = d \<and> (d + n) mod 2 ^ 32 \<le> 0x100000"
  by (auto simp: ftfe_address_def ftfl_cfg_def Let_def split: if_splits)

lemma FlashEraseSector_pflash:
  "d mod 0x1000 = 0 \<Longrightarrow> d + k * 0x1000 \<le> 0x100000 \<Longrightarrow>
   FlashEraseSector hw ftfl_cfg m d (k * 0x1000) = erase_loop hw 0x1000 m d (k * 0x1000)"
  by (simp add: FlashEraseSector_def ftfe_address_pflash)

lemma FlashProgramPhrase_pflash:
  "d mod 8 = 0 \<Longrightarrow> d + k * 8 \<le> 0x100000 \<Longrightarrow>
   FlashProgramPhrase hw ftfl_cfg m d (k * 8) ram src = program_loop hw m d (k * 8) ram src"
  by (simp add: FlashProgramPhrase_def ftfe_address_pflash)

text \<open>An address in the D-flash, of which there is none, is refused before the loop.\<close>

lemma erase_dflash_stops:
  assumes "ftfe_address ftfl_cfg d n = Some (a, False)" "d < 2 ^ 32"
  shows "FlashEraseSector hw ftfl_cfg m d n = (m, FTFx_ERR_ADDR)"
  using assms ftfe_address_dflash [OF assms] by (simp add: FlashEraseSector_def)

context ftfe
begin

lemma erase_outside:
  assumes "FlashEraseSector hw ftfl_cfg m d n = (m', rc)" "d + n \<le> 0x100000"
    "x < d \<or> d + n \<le> x"
  shows "m' x = m x"
proof (cases "d mod 0x1000 = 0 \<and> n mod 0x1000 = 0")
  case True
  then obtain k where "n = k * 0x1000" by (metis mod_0_imp_dvd dvd_div_mult_self)
  with True assms show ?thesis
    by (intro erase_loop_outside [of m d k m' rc]) (auto simp: FlashEraseSector_pflash)
next
  case False
  with assms show ?thesis
    by (auto simp: FlashEraseSector_def ftfe_address_pflash split: if_splits)
qed

lemma erase_effect:
  assumes "FlashEraseSector hw ftfl_cfg m d n = (m', FTFx_OK)" "d + n \<le> 0x100000"
  shows "m' = fill_bytes m d n 0xFF"
proof -
  have *: "d mod 0x1000 = 0 \<and> n mod 0x1000 = 0"
    using assms by (auto simp: FlashEraseSector_def ftfe_address_pflash split: if_splits)
  then obtain k where "n = k * 0x1000" by (metis mod_0_imp_dvd dvd_div_mult_self)
  with * assms show ?thesis by (auto simp: FlashEraseSector_pflash intro: erase_loop_done)
qed

lemma prog_outside:
  assumes "FlashProgramPhrase hw ftfl_cfg m d n ram src = (m', rc)" "d + n \<le> 0x100000"
    "x < d \<or> d + n \<le> x"
  shows "m' x = m x"
proof (cases "d mod 8 = 0 \<and> n mod 8 = 0")
  case True
  then obtain k where "n = k * 8" by (metis mod_0_imp_dvd dvd_div_mult_self)
  with True assms show ?thesis
    by (intro program_loop_outside [of m d k ram src m' rc]) (auto simp: FlashProgramPhrase_pflash)
next
  case False
  with assms show ?thesis
    by (auto simp: FlashProgramPhrase_def split: if_splits)
qed

lemma prog_effect:
  assumes "FlashProgramPhrase hw ftfl_cfg m d n ram src = (m', FTFx_OK)" "d + n \<le> 0x100000"
    "read_bytes m d n = replicate n 0xFF"
  shows "m' = write_bytes m d (read_bytes ram src n)"
proof -
  have *: "d mod 8 = 0 \<and> n mod 8 = 0"
    using assms by (auto simp: FlashProgramPhrase_def split: if_splits)
  then obtain k where "n = k * 8" by (metis mod_0_imp_dvd dvd_div_mult_self)
  with * assms show ?thesis by (auto simp: FlashProgramPhrase_pflash intro: program_loop_done)
qed

end

sublocale ftfe_reliable \<subseteq> driver: flash_driver "FlashEraseSector hw ftfl_cfg" "FlashProgramPhrase hw ftfl_cfg"
proof
  fix d n :: nat and m
  assume *: "d mod 0x1000 = 0" "n mod 0x1000 = 0" "d + n \<le> 0x100000"
  then obtain k where k: "n = k * 0x1000" by (metis mod_0_imp_dvd dvd_div_mult_self)
  have "snd (FlashEraseSector hw ftfl_cfg m d n) = FTFx_OK"
    using * erase_loop_OK [of d k m] by (simp add: k FlashEraseSector_pflash)
  then show "FlashEraseSector hw ftfl_cfg m d n = (fill_bytes m d n 0xFF, FTFx_OK)"
    using erase_effect * by (metis prod.collapse)
next
  fix d n src :: nat and m ram
  assume *: "d mod 8 = 0" "n mod 8 = 0" "d + n \<le> 0x100000" "read_bytes m d n = replicate n 0xFF"
  then obtain k where k: "n = k * 8" by (metis mod_0_imp_dvd dvd_div_mult_self)
  have "snd (FlashProgramPhrase hw ftfl_cfg m d n ram src) = FTFx_OK"
    using * program_loop_OK [of d k m ram src] by (simp add: k FlashProgramPhrase_pflash)
  then show "FlashProgramPhrase hw ftfl_cfg m d n ram src = (write_bytes m d (read_bytes ram src n), FTFx_OK)"
    using prog_effect * by (metis prod.collapse)
qed

text \<open>The contract under names that can be used outside the locale.\<close>

context ftfe_reliable
begin

lemmas erase_exact = driver.erase_ok
lemmas program_exact = driver.prog_ok

end

lemma ftfe_of_reliable: "ftfe_reliable hw \<Longrightarrow> ftfe hw"
  by (simp add: ftfe_reliable_def)

subsection \<open>A concrete controller\<close>

text \<open>An emulation of the K64 controller: an erase sets the sector to 0xFF, programming can only
  clear bits, an unknown or misaligned command raises ACCERR. CCIF (0x80) is set on completion.\<close>

definition cmd_address :: "byte \<Rightarrow> byte \<Rightarrow> byte \<Rightarrow> nat" where
  "cmd_address a2 a1 a0 = unat a2 * 2 ^ 16 + unat a1 * 2 ^ 8 + unat a0"

definition and_bytes :: "memory \<Rightarrow> nat \<Rightarrow> byte list \<Rightarrow> memory" where
  "and_bytes m a bs = (\<lambda>x. if a \<le> x \<and> x < a + length bs then m x AND bs ! (x - a) else m x)"

fun ftfe_emulator :: ftfe_hw where
  "ftfe_emulator m [c, a2, a1, a0] =
     (let a = cmd_address a2 a1 a0 in
      if c = 0x09 \<and> a mod 0x1000 = 0 then (fill_bytes m a 0x1000 0xFF, 0x80) else (m, 0xA0))"
| "ftfe_emulator m [c, a2, a1, a0, b3, b2, b1, b0, b7, b6, b5, b4] =
     (let a = cmd_address a2 a1 a0 in
      if c = 0x07 \<and> a mod 8 = 0 then (and_bytes m a [b0, b1, b2, b3, b4, b5, b6, b7], 0x80)
      else (m, 0xA0))"
| "ftfe_emulator m _ = (m, 0xA0)"

lemma cmd_address_of_nat:
  "a < 2 ^ 24 \<Longrightarrow> cmd_address (of_nat (a div 2 ^ 16)) (of_nat (a div 2 ^ 8)) (of_nat a) = a"
proof -
  assume a: "a < 2 ^ 24"
  let ?q = "a div 256"
  have "a div 65536 = ?q div 256" by (simp flip: div_mult2_eq)
  moreover from a have "?q div 256 < 256" by (simp add: less_mult_imp_div_less)
  moreover have "?q div 256 * 65536 + ?q mod 256 * 256 + a mod 256 = a"
    using div_mult_mod_eq [of ?q 256] div_mult_mod_eq [of a 256] by linarith
  ultimately show ?thesis by (simp add: cmd_address_def unat_of_nat)
qed

lemma read_bytes_8: "read_bytes m a 8 =
  [m a, m (a + 1), m (a + 2), m (a + 3), m (a + 4), m (a + 5), m (a + 6), m (a + 7)]"
  by (simp add: read_bytes_def upt_conv_Cons eval_nat_numeral)

lemma and_0xFF [simp]: "(0xFF :: byte) AND b = b"
proof -
  have e: "(0xFF :: byte) = mask 8" by (simp add: mask_eq_exp_minus_1)
  show ?thesis unfolding e by (rule bit_word_eqI) (simp add: bit_simps)
qed

lemma emulator_erase:
  "a < 0x100000 \<Longrightarrow> a mod 0x1000 = 0 \<Longrightarrow>
   ftfe_emulator m (erase_cmd a) = (fill_bytes m a 0x1000 0xFF, 0x80)"
  using cmd_address_of_nat [of a] by (simp add: erase_cmd_def)

lemma emulator_program:
  "a < 0x100000 \<Longrightarrow> a mod 8 = 0 \<Longrightarrow>
   ftfe_emulator m (program_cmd a ram src) = (and_bytes m a (read_bytes ram src 8), 0x80)"
  using cmd_address_of_nat [of a]
  by (simp add: program_cmd_def read_bytes_8)

interpretation emulator: ftfe_reliable ftfe_emulator
  by unfold_locales
    (auto simp: emulator_erase emulator_program fill_bytes_def and_bytes_def read_bytes_eq_iff)

subsection \<open>Properties\<close>

text \<open>C8: whatever the controller reports, FlashEraseSector and FlashProgramPhrase change no byte
  outside the range they were asked to change; and when they return FTFx_OK, an erased range reads
  0xFF, and a programmed range that was erased before holds the source bytes. The controller is
  only assumed to confine a command to its own sector or phrase and to have done the work when it
  reports no error.\<close>

theorem flash_driver_effects:
  assumes "ftfe hw" "d + n \<le> 0x100000"
  shows "(case FlashEraseSector hw ftfl_cfg m d n of (m', rc) \<Rightarrow>
      (\<forall>x. x < d \<or> d + n \<le> x \<longrightarrow> m' x = m x) \<and> (rc = FTFx_OK \<longrightarrow> m' = fill_bytes m d n 0xFF)) \<and>
    (case FlashProgramPhrase hw ftfl_cfg m d n ram src of (m', rc) \<Rightarrow>
      (\<forall>x. x < d \<or> d + n \<le> x \<longrightarrow> m' x = m x) \<and>
      (rc = FTFx_OK \<longrightarrow> read_bytes m d n = replicate n 0xFF \<longrightarrow>
         m' = write_bytes m d (read_bytes ram src n)))"
  using ftfe.erase_outside [OF assms(1) _ assms(2)] ftfe.erase_effect [OF assms(1) _ assms(2)]
    ftfe.prog_outside [OF assms(1) _ assms(2)] ftfe.prog_effect [OF assms(1) _ assms(2)]
  by (auto split: prod.splits)

theorem flash_driver_effects_witness:
  "(case FlashEraseSector ftfe_emulator ftfl_cfg (\<lambda>x. 7) 0xdd000 0x1000 of (m', rc) \<Rightarrow>
      (\<forall>x. x < 0xdd000 \<or> 0xdd000 + 0x1000 \<le> x \<longrightarrow> m' x = 7) \<and>
      (rc = FTFx_OK \<longrightarrow> m' = fill_bytes (\<lambda>x. 7) 0xdd000 0x1000 0xFF))"
  using flash_driver_effects [OF emulator.ftfe_axioms, where d = "0xdd000" and n = "0x1000" and m = "\<lambda>x. 7"]
  by simp

text \<open>The argument checks of the driver. On the firmware's configuration both routines leave
  the flash untouched and return FTFx_ERR_ADDR, FTFx_ERR_SIZE or FTFx_ERR_RANGE in the order of
  their checks (the erase routine tests the range first, the program routine last), for every
  destination and size whose sum does not wrap around.\<close>

lemma flash_driver_errors:
  assumes "d + n < 2 ^ 32" "d < 0xFFFFFFFF"
  shows "(0x100000 < d + n \<or> d mod 0x1000 \<noteq> 0 \<or> n mod 0x1000 \<noteq> 0 \<longrightarrow>
      FlashEraseSector hw ftfl_cfg m d n =
        (m, if 0x100000 < d + n then FTFx_ERR_RANGE
            else if d mod 0x1000 \<noteq> 0 then FTFx_ERR_ADDR else FTFx_ERR_SIZE)) \<and>
    (0x100000 < d + n \<or> d mod 8 \<noteq> 0 \<or> n mod 8 \<noteq> 0 \<longrightarrow>
      FlashProgramPhrase hw ftfl_cfg m d n ram src =
        (m, if d mod 8 \<noteq> 0 then FTFx_ERR_ADDR else if n mod 8 \<noteq> 0 then FTFx_ERR_SIZE
            else FTFx_ERR_RANGE))"
  using assms
  by (auto simp: FlashEraseSector_def FlashProgramPhrase_def ftfe_address_def ftfl_cfg_def)

lemma flash_driver_errors_witness:
  "FlashEraseSector ftfe_emulator ftfl_cfg (\<lambda>x. 0xFF) 0xffff8 8 = (\<lambda>x. 0xFF, FTFx_ERR_ADDR) \<and>
   FlashProgramPhrase ftfe_emulator ftfl_cfg (\<lambda>x. 0xFF) 0x100000 8 (\<lambda>x. 0) 0 = (\<lambda>x. 0xFF, FTFx_ERR_RANGE)"
  using flash_driver_errors [where d = "0xffff8" and n = 8 and hw = ftfe_emulator and m = "\<lambda>x. 0xFF"]
    flash_driver_errors [where d = "0x100000" and n = 8 and hw = ftfe_emulator and m = "\<lambda>x. 0xFF"
        and ram = "\<lambda>x. 0" and src = 0]
  by simp

end
