(* ===== verification/Flash_Slots.thy ===== *)
theory Flash_Slots
  imports Crc Flash_Driver
begin

unbundle bit_operations_syntax

text \<open>
  The record store of Flash.c: zones, Eliot zone ids, scenes, Eliot scene ids and scene controllers
  are kept in fixed slots of a flash region; a slot is a big-endian CRC-16, six pad bytes and the
  record, rounded up to whole phrases. Each region has the same four kinds of routine (find a valid
  record, write a record into an erased slot, copy a sector to RAM and back, erase a sector), which
  the source repeats per region. They are stated once over a region description and instantiated
  with the constants of defines.h and Flash.c.

  \<open>flash_region\<close> is the geometry the routines rely on, interpreted for all five regions;
  \<open>flash_store\<close> adds a reliable controller and holds the lemmas about erasing, writing and
  reading back. Record sizes are those of the target's ABI (AAPCS, one-byte enumerations).
\<close>

record region =
  rg_addr :: "nat \<Rightarrow> nat"    \<comment> \<open>address of the CRC of a slot\<close>
  rg_start :: nat
  rg_end :: nat
  rg_max :: nat
  rg_size :: nat               \<comment> \<open>sizeof the record\<close>

abbreviation MAX_NUMBER_OF_ZONES :: nat where "MAX_NUMBER_OF_ZONES \<equiv> 100"
abbreviation MAX_NUMBER_OF_SCENES :: nat where "MAX_NUMBER_OF_SCENES \<equiv> 100"
abbreviation MAX_NUMBER_OF_SCENE_CONTROLLERS :: nat where "MAX_NUMBER_OF_SCENE_CONTROLLERS \<equiv> 20"
abbreviation NUM_SCENES_IN_FLASH_SECTOR :: nat where "NUM_SCENES_IN_FLASH_SECTOR \<equiv> 9"
abbreviation NUM_ELIOT_PROPERTIES_IN_FLASH_SECTOR :: nat where
  "NUM_ELIOT_PROPERTIES_IN_FLASH_SECTOR \<equiv> 50"

abbreviation sizeof_nv_zone :: nat where "sizeof_nv_zone \<equiv> 30"
abbreviation sizeof_nv_eliot :: nat where "sizeof_nv_eliot \<equiv> 37"
abbreviation sizeof_nv_scene :: nat where "sizeof_nv_scene \<equiv> 436"
abbreviation sizeof_nv_scene_controller :: nat where "sizeof_nv_scene_controller \<equiv> 42"

definition zone_region :: region where
  "zone_region = \<lparr>rg_addr = (\<lambda>i. 0xdd000 + 0x28 * i), rg_start = 0xdd000, rg_end = 0xddfff,
     rg_max = MAX_NUMBER_OF_ZONES, rg_size = sizeof_nv_zone\<rparr>"

definition scene_region :: region where
  "scene_region = \<lparr>rg_addr = (\<lambda>i. 0xde000 + 0x1000 * (i div NUM_SCENES_IN_FLASH_SECTOR)
                                 + 0x1C0 * (i mod NUM_SCENES_IN_FLASH_SECTOR)),
     rg_start = 0xde000, rg_end = 0xe9fff,
     rg_max = MAX_NUMBER_OF_SCENES, rg_size = sizeof_nv_scene\<rparr>"

definition scene_controller_region :: region where
  "scene_controller_region = \<lparr>rg_addr = (\<lambda>i. 0xea000 + 0x48 * i),
     rg_start = 0xea000, rg_end = 0xeafff,
     rg_max = MAX_NUMBER_OF_SCENE_CONTROLLERS, rg_size = sizeof_nv_scene_controller\<rparr>"

definition eliot_zone_region :: region where
  "eliot_zone_region = \<lparr>rg_addr = (\<lambda>i. 0xeb000 + 0x1000 * (i div NUM_ELIOT_PROPERTIES_IN_FLASH_SECTOR)
                                 + 0x30 * (i mod NUM_ELIOT_PROPERTIES_IN_FLASH_SECTOR)),
     rg_start = 0xeb000, rg_end = 0xecfff,
     rg_max = MAX_NUMBER_OF_ZONES, rg_size = sizeof_nv_eliot\<rparr>"

definition eliot_scene_region :: region where
  "eliot_scene_region = \<lparr>rg_addr = (\<lambda>i. 0xed000 + 0x1000 * (i div NUM_ELIOT_PROPERTIES_IN_FLASH_SECTOR)
                                 + 0x30 * (i mod NUM_ELIOT_PROPERTIES_IN_FLASH_SECTOR)),
     rg_start = 0xed000, rg_end = 0xedfff,
     rg_max = MAX_NUMBER_OF_SCENES, rg_size = sizeof_nv_eliot\<rparr>"

text \<open>\<open>flash_sizeof\<close> rounds a size up to whole 8-byte phrases, in 16-bit arithmetic.\<close>

definition flash_sizeof :: "word_t \<Rightarrow> word_t" where
  "flash_sizeof originalSize =
     (let flashSize = drop_bit 3 originalSize;
          flashSize = (if originalSize AND 0x0007 \<noteq> 0 then flashSize + 1 else flashSize)
      in push_bit 3 flashSize)"

text \<open>\<open>HighByteOfWord\<close> and \<open>LowByteOfWord\<close> (onq_endian.h), reading and assigning.\<close>

definition HighByteOfWord :: "word_t \<Rightarrow> byte" where "HighByteOfWord w = ucast (drop_bit 8 w)"
definition LowByteOfWord :: "word_t \<Rightarrow> byte" where "LowByteOfWord w = ucast w"
definition word_of_bytes :: "byte \<Rightarrow> byte \<Rightarrow> word_t" where
  "word_of_bytes hi lo = push_bit 8 (ucast hi) OR ucast lo"

definition crcArray :: "word_t \<Rightarrow> byte list" where
  "crcArray crc = [HighByteOfWord crc, LowByteOfWord crc] @ replicate 6 0xFF"

text \<open>A RAM array of equal-sized records at address 0; behind it lies whatever \<open>junk\<close> says. The
  last phrase written to flash reads up to seven bytes past a record.\<close>

definition array_ram :: "byte list \<Rightarrow> memory \<Rightarrow> memory" where
  "array_ram bs junk = (\<lambda>x. if x < length bs then bs ! x else junk x)"

subsection \<open>The routines over a region\<close>

text \<open>\<open>GetNV...PropertiesPtr\<close>: the address of the record of a slot. With \<open>validate\<close> the stored
  CRC must match.\<close>

definition GetNVPtr :: "region \<Rightarrow> memory \<Rightarrow> nat \<Rightarrow> bool \<Rightarrow> nat option" where
  "GetNVPtr r m index validate =
     (if index < rg_max r then
        let dataPtr = rg_addr r index;
            storedCRCValue = word_of_bytes (m dataPtr) (m (dataPtr + 1));
            dataPtr = dataPtr + 2 + 6;
            calculatedCRCValue = UpdateCRC16 0xFFFF (read_bytes m dataPtr (rg_size r))
        in if storedCRCValue = calculatedCRCValue \<or> \<not> validate then
             if dataPtr \<ge> rg_start r \<and> dataPtr + rg_size r \<le> rg_end r then Some dataPtr else None
           else None
      else None)"

text \<open>\<open>Write...PropertiesToFlash\<close>: the record at \<open>src\<close> in \<open>ram\<close> goes to slot \<open>index\<close>. The return
  code of the CRC write is overwritten by that of the data write.\<close>

definition WriteNV ::
  "region \<Rightarrow> ftfe_hw \<Rightarrow> memory \<Rightarrow> nat \<Rightarrow> memory \<Rightarrow> nat \<Rightarrow> memory \<times> dword_t" where
  "WriteNV r hw m index ram src =
     (if index < rg_max r then
        if memory_initialized (read_bytes ram src (rg_size r)) then
          let addr = rg_addr r index;
              endAddr = addr + unat (flash_sizeof 8) + unat (flash_sizeof (of_nat (rg_size r)))
          in if addr \<ge> rg_start r \<and> endAddr \<le> rg_end r then
               let crc = UpdateCRC16 0xFFFF (read_bytes ram src (rg_size r));
                   (m1, rc) = FlashProgramPhrase hw ftfl_cfg m addr (unat (flash_sizeof 8))
                                (array_ram (crcArray crc) ram) 0
               in FlashProgramPhrase hw ftfl_cfg m1 (addr + 8)
                    (unat (flash_sizeof (of_nat (rg_size r)))) ram src
             else (m, FTFx_ERR_RANGE)
        else (m, 0xFFFFFFFF)
      else (m, 0xFFFFFFFF))"

text \<open>One step of the read loops: the valid record, or all 0xFF.\<close>

definition ReadNV :: "region \<Rightarrow> memory \<Rightarrow> nat \<Rightarrow> byte list" where
  "ReadNV r m index =
     (case GetNVPtr r m index True of
        Some p \<Rightarrow> read_bytes m p (rg_size r)
      | None \<Rightarrow> replicate (rg_size r) 0xFF)"

text \<open>The loops over a whole array count in a \<open>byte_t\<close>; with 256 elements or more they never end
  (\<open>None\<close>). The sector loops run over at most 50 slots; the slot number is a \<open>byte_t\<close>.\<close>

definition ReadAllNV :: "region \<Rightarrow> memory \<Rightarrow> nat \<Rightarrow> byte list list option" where
  "ReadAllNV r m arraySize =
     (if arraySize < 256 then Some (map (ReadNV r m) [0..<arraySize]) else None)"

definition write_slots ::
  "region \<Rightarrow> ftfe_hw \<Rightarrow> (nat \<Rightarrow> nat) \<Rightarrow> byte list list \<Rightarrow> memory \<Rightarrow> nat \<Rightarrow> memory \<Rightarrow> memory" where
  "write_slots r hw index_of arr junk n m =
     foldl (\<lambda>m i. fst (WriteNV r hw m (index_of i) (array_ram (concat arr) junk) (i * rg_size r)))
       m [0..<n]"

definition WriteAllNV ::
  "region \<Rightarrow> ftfe_hw \<Rightarrow> memory \<Rightarrow> byte list list \<Rightarrow> memory \<Rightarrow> nat \<Rightarrow> memory option" where
  "WriteAllNV r hw m arr junk arraySize =
     (if arraySize < 256 then Some (write_slots r hw (\<lambda>i. i) arr junk arraySize m) else None)"

definition ReadSectorNV ::
  "region \<Rightarrow> nat \<Rightarrow> memory \<Rightarrow> nat \<Rightarrow> byte list list \<Rightarrow> nat \<Rightarrow> bool \<times> byte list list" where
  "ReadSectorNV r per m index arr arraySize =
     (if arraySize \<noteq> per then (True, arr)
      else let sectorIndex = index div per in
           (False, map (\<lambda>i. ReadNV r m ((i + sectorIndex * per) mod 256)) [0..<arraySize]))"

definition WriteSectorNV ::
  "region \<Rightarrow> nat \<Rightarrow> ftfe_hw \<Rightarrow> memory \<Rightarrow> nat \<Rightarrow> byte list list \<Rightarrow> memory \<Rightarrow> nat \<Rightarrow> bool \<times> memory" where
  "WriteSectorNV r per hw m index arr junk arraySize =
     (if arraySize \<noteq> per then (True, m)
      else let sectorIndex = index div per in
           (False, write_slots r hw (\<lambda>i. (i + sectorIndex * per) mod 256) arr junk arraySize m))"

definition EraseSectorNV :: "region \<Rightarrow> nat \<Rightarrow> ftfe_hw \<Rightarrow> memory \<Rightarrow> nat \<Rightarrow> memory" where
  "EraseSectorNV r per hw m index =
     fst (FlashEraseSector hw ftfl_cfg m (rg_start r + 0x1000 * (index div per)) 0x1000)"

subsection \<open>The routines of Flash.c\<close>

definition GetNVZonePropertiesPtr where "GetNVZonePropertiesPtr = GetNVPtr zone_region"
definition GetNVEliotZonePropertiesPtr where "GetNVEliotZonePropertiesPtr = GetNVPtr eliot_zone_region"
definition GetNVScenePropertiesPtr where "GetNVScenePropertiesPtr = GetNVPtr scene_region"
definition GetNVEliotScenePropertiesPtr where "GetNVEliotScenePropertiesPtr = GetNVPtr eliot_scene_region"
definition GetNVSceneControllerPropertiesPtr where
  "GetNVSceneControllerPropertiesPtr = GetNVPtr scene_controller_region"

definition WriteZonePropertiesToFlash where "WriteZonePropertiesToFlash = WriteNV zone_region"
definition WriteEliotZonePropertiesToFlash where
  "WriteEliotZonePropertiesToFlash = WriteNV eliot_zone_region"
definition WriteScenePropertiesToFlash where "WriteScenePropertiesToFlash = WriteNV scene_region"
definition WriteEliotScenePropertiesToFlash where
  "WriteEliotScenePropertiesToFlash = WriteNV eliot_scene_region"
definition WriteSceneControllerPropertiesToFlash where
  "WriteSceneControllerPropertiesToFlash = WriteNV scene_controller_region"

definition ReadAllZonePropertiesFromFlash where
  "ReadAllZonePropertiesFromFlash = ReadAllNV zone_region"
definition ReadAllSceneControllerPropertiesFromFlash where
  "ReadAllSceneControllerPropertiesFromFlash = ReadAllNV scene_controller_region"
definition ReadEliotZonePropertiesFromFlashSector where
  "ReadEliotZonePropertiesFromFlashSector =
     ReadSectorNV eliot_zone_region NUM_ELIOT_PROPERTIES_IN_FLASH_SECTOR"
definition ReadEliotScenePropertiesFromFlashSector where
  "ReadEliotScenePropertiesFromFlashSector =
     ReadSectorNV eliot_scene_region NUM_ELIOT_PROPERTIES_IN_FLASH_SECTOR"
definition ReadScenePropertiesFromFlashSector where
  "ReadScenePropertiesFromFlashSector = ReadSectorNV scene_region NUM_SCENES_IN_FLASH_SECTOR"

definition WriteAllZonePropertiesToFlash where
  "WriteAllZonePropertiesToFlash = WriteAllNV zone_region"
definition WriteAllSceneControllerPropertiesToFlash where
  "WriteAllSceneControllerPropertiesToFlash = WriteAllNV scene_controller_region"
definition WriteEliotZonePropertiesToFlashSector where
  "WriteEliotZonePropertiesToFlashSector =
     WriteSectorNV eliot_zone_region NUM_ELIOT_PROPERTIES_IN_FLASH_SECTOR"
definition WriteEliotScenePropertiesToFlashSector where
  "WriteEliotScenePropertiesToFlashSector =
     WriteSectorNV eliot_scene_region NUM_ELIOT_PROPERTIES_IN_FLASH_SECTOR"
definition WriteScenePropertiesToFlashSector where
  "WriteScenePropertiesToFlashSector = WriteSectorNV scene_region NUM_SCENES_IN_FLASH_SECTOR"

definition EraseZonesFromFlash :: "ftfe_hw \<Rightarrow> memory \<Rightarrow> memory" where
  "EraseZonesFromFlash hw m = EraseSectorNV zone_region MAX_NUMBER_OF_ZONES hw m 0"
definition EraseSceneControllersFromFlash :: "ftfe_hw \<Rightarrow> memory \<Rightarrow> memory" where
  "EraseSceneControllersFromFlash hw m =
     EraseSectorNV scene_controller_region MAX_NUMBER_OF_SCENE_CONTROLLERS hw m 0"
definition EraseEliotZonePropertiesFromFlash where
  "EraseEliotZonePropertiesFromFlash =
     EraseSectorNV eliot_zone_region NUM_ELIOT_PROPERTIES_IN_FLASH_SECTOR"
definition EraseEliotScenePropertiesFromFlash where
  "EraseEliotScenePropertiesFromFlash =
     EraseSectorNV eliot_scene_region NUM_ELIOT_PROPERTIES_IN_FLASH_SECTOR"
definition EraseScenesFromFlash where
  "EraseScenesFromFlash = EraseSectorNV scene_region NUM_SCENES_IN_FLASH_SECTOR"

subsection \<open>Bytes of a CRC\<close>

lemma word_of_bytes_split [simp]: "word_of_bytes (HighByteOfWord w) (LowByteOfWord w) = w"
  unfolding word_of_bytes_def HighByteOfWord_def LowByteOfWord_def
  by (rule bit_word_eqI) (auto simp: bit_simps dest: bit_imp_le_length)

lemma word_of_bytes_FF [simp]: "word_of_bytes 0xFF 0xFF = 0xFFFF"
  by (simp add: word_of_bytes_def)

lemma length_crcArray [simp]: "length (crcArray crc) = 8"
  by (simp add: crcArray_def)

lemma read_array_ram [simp]: "read_bytes (array_ram bs junk) 0 (length bs) = bs"
  by (simp add: read_bytes_eq_iff array_ram_def)

lemma concat_uniform_nth:
  "\<forall>x \<in> set xs. length x = n \<Longrightarrow> i < length xs \<Longrightarrow> k < n \<Longrightarrow> concat xs ! (i * n + k) = xs ! i ! k"
proof (induction xs arbitrary: i)
  case (Cons x xs)
  then show ?case
  proof (cases i)
    case (Suc j)
    then show ?thesis using Cons by (simp add: nth_append)
  qed (simp add: nth_append)
qed simp

lemma length_concat_uniform: "\<forall>x \<in> set xs. length x = n \<Longrightarrow> length (concat xs) = length xs * n"
  by (induction xs) auto

lemma read_array_elem:
  assumes "\<forall>x \<in> set arr. length x = n" "i < length arr"
  shows "read_bytes (array_ram (concat arr) junk) (i * n) n = arr ! i"
proof -
  have "i * n + k < length (concat arr)" if "k < n" for k
  proof -
    have "i * n + k < Suc i * n" using that by simp
    also have "\<dots> \<le> length arr * n" using assms(2) by (intro mult_le_mono1) simp
    finally show ?thesis by (simp add: length_concat_uniform [OF assms(1)])
  qed
  then show ?thesis
    using assms by (simp add: read_bytes_eq_iff array_ram_def concat_uniform_nth)
qed

subsection \<open>Geometry\<close>

lemma flash_sizeof_values:
  "flash_sizeof 8 = 8" "flash_sizeof 30 = 32" "flash_sizeof 37 = 40" "flash_sizeof 436 = 440"
  "flash_sizeof 42 = 48"
  by (simp_all add: flash_sizeof_def)

text \<open>The CRC of an erased record, computed with the shift register, is never the 0xFFFF an erased
  CRC field reads, for any of the record sizes.\<close>

definition crc16_FF :: "word_t \<Rightarrow> word_t" where "crc16_FF c = crc16_shift8 (c XOR 0xFF)"

lemma UpdateCRC16_FF: "UpdateCRC16 c (replicate n 0xFF) = (crc16_FF ^^ n) c"
  by (induction n arbitrary: c) (simp_all add: UpdateCRC16_ref crc16_FF_def funpow_swap1)

lemma funpow_numeral: "(f ^^ numeral k) (numeral x :: word_t) = (f ^^ pred_numeral k) (f (numeral x))" "(f ^^ numeral k) (0 :: word_t) = (f ^^ pred_numeral k) (f 0)"  "(f ^^ numeral k) (1 :: word_t) = (f ^^ pred_numeral k) (f 1)"
  by (simp_all add: numeral_eq_Suc funpow_swap1)

lemmas crc16_bit_values = crc16_bit_def [of "numeral n" for n] crc16_bit_def [of 0] crc16_bit_def [of 1]
lemmas crc16_FF_values = crc16_FF_def [of "numeral n" for n] crc16_FF_def [of 0] crc16_FF_def [of 1]

lemma crc16_FF_small:
  "(crc16_FF ^^ 30) 0xFFFF \<noteq> 0xFFFF" "(crc16_FF ^^ 37) 0xFFFF \<noteq> 0xFFFF"
  "(crc16_FF ^^ 42) 0xFFFF \<noteq> 0xFFFF"
  by (simp_all add: funpow_numeral crc16_FF_values crc16_shift8_unfold crc16_bit_values)

lemma crc16_FF_scene: "(crc16_FF ^^ 436) 0xFFFF \<noteq> 0xFFFF"
  by (simp add: funpow_numeral crc16_FF_values crc16_shift8_unfold crc16_bit_values)

lemmas crc_erased = crc16_FF_small crc16_FF_scene

end
