(* ===== verification/Flash_Store.thy ===== *)
theory Flash_Store
  imports Flash_Slots
begin
unbundle bit_operations_syntax

text \<open>
  What the routines of Flash\_Slots achieve together. \<open>flash_region\<close> is the geometry of a region:
  fixed-stride slots, at most \<open>per\<close> in a sector, the first \<open>cap\<close> of them usable; it is
  interpreted for the five regions. \<open>flash_store\<close> puts a region on a controller that keeps to its
  documentation: writing into erased slots, erasing a sector, and the save cycle (erase, write the
  array back, read).
\<close>

locale flash_region =
  fixes r :: region and per stride cap fsize :: nat
  assumes addr_eq: "i < cap \<Longrightarrow>
      rg_addr r i = rg_start r + 0x1000 * (i div per) + stride * (i mod per)"
    and per_pos: "0 < per"
    and sector_fits: "stride * per \<le> 0x1000"
    and fsize_eq: "fsize = unat (flash_sizeof (of_nat (rg_size r)))"
    and record_fits: "rg_size r \<le> fsize" "8 + fsize \<le> stride"
    and phrase_aligned: "stride mod 8 = 0" "fsize mod 8 = 0" "rg_start r mod 0x1000 = 0"
    and cap_le: "0 < cap" "cap \<le> rg_max r" "cap < 256"
    and slot_in_region: "i < cap \<Longrightarrow> rg_addr r i + 8 + fsize \<le> rg_end r"
    and region_in_flash: "rg_start r + 0x1000 * ((cap - 1) div per) + 0x1000 \<le> 0x100000"
      "rg_end r \<le> 0x100000"
    and crc_of_erased: "UpdateCRC16 0xFFFF (replicate (rg_size r) 0xFF) \<noteq> 0xFFFF"
    and size_pos: "0 < rg_size r"
    and index_is_byte: "(cap - 1) div per * per + per \<le> 256"
    and beyond_region: "cap \<le> i \<Longrightarrow> i < rg_max r \<Longrightarrow> rg_end r < rg_addr r i + 8 + rg_size r"
begin

lemma addr_ge: "i < cap \<Longrightarrow> rg_start r \<le> rg_addr r i"
  by (simp add: addr_eq)

lemma addr_aligned: "i < cap \<Longrightarrow> rg_addr r i mod 8 = 0"
proof -
  assume i: "i < cap"
  have k: "8 dvd (0x1000 :: nat)" by simp
  moreover have "0x1000 dvd rg_start r" using phrase_aligned(3) by (rule mod_0_imp_dvd)
  ultimately have "8 dvd rg_start r" by (rule dvd_trans)
  moreover have "8 dvd stride" using phrase_aligned(1) by (rule mod_0_imp_dvd)
  ultimately have "8 dvd rg_addr r i"
    unfolding addr_eq [OF i] using k by (intro dvd_add dvd_mult2) 
  then show ?thesis by (rule dvd_imp_mod_0)
qed

lemma addr_in_flash: "i < cap \<Longrightarrow> rg_addr r i + 8 + fsize \<le> 0x100000"
  using slot_in_region [of i] region_in_flash(2) by linarith

lemma slot_in_sector:
  assumes "i < cap"
  shows "rg_start r + 0x1000 * (i div per) \<le> rg_addr r i"
    and "rg_addr r i + 8 + fsize \<le> rg_start r + 0x1000 * (i div per) + 0x1000"
proof -
  have "i mod per < per" using per_pos by simp
  then have "stride * (i mod per) + stride \<le> stride * per"
    by (metis Suc_leI mult_Suc_right mult_le_mono2 add.commute)
  with sector_fits record_fits assms
  show "rg_start r + 0x1000 * (i div per) \<le> rg_addr r i"
    and "rg_addr r i + 8 + fsize \<le> rg_start r + 0x1000 * (i div per) + 0x1000"
    by (simp_all add: addr_eq)
qed

lemma slots_ordered:
  assumes "i < j" "j < cap"
  shows "rg_addr r i + 8 + fsize \<le> rg_addr r j"
proof (cases "i div per = j div per")
  case True
  have "i mod per < j mod per"
    using assms(1) True by (metis div_mult_mod_eq add_less_cancel_left)
  then have "stride * (i mod per) + stride \<le> stride * (j mod per)"
    by (metis Suc_leI mult_Suc_right mult_le_mono2 add.commute)
  with True assms record_fits show ?thesis by (simp add: addr_eq)
next
  case False
  then have "i div per + 1 \<le> j div per"
    using assms(1) div_le_mono [of i j per] by simp
  then have "0x1000 * (i div per) + 0x1000 \<le> 0x1000 * (j div per)" by simp
  with slot_in_sector(2) [of i] slot_in_sector(1) [of j] assms show ?thesis by linarith
qed

lemma slots_disjoint:
  assumes "i < cap" "j < cap" "i \<noteq> j"
  shows "rg_addr r i + 8 + fsize \<le> rg_addr r j \<or> rg_addr r j + 8 + fsize \<le> rg_addr r i"
  using slots_ordered [of i j] slots_ordered [of j i] assms by linarith

definition slot_bytes :: "memory \<Rightarrow> nat \<Rightarrow> byte list" where
  "slot_bytes m i = read_bytes m (rg_addr r i) (8 + fsize)"

definition blank :: "memory \<Rightarrow> nat \<Rightarrow> bool" where
  "blank m i \<longleftrightarrow> slot_bytes m i = replicate (8 + fsize) 0xFF"

lemma GetNVPtr_cap: "i < cap \<Longrightarrow> GetNVPtr r m i v =
   (if \<not> v \<or> word_of_bytes (m (rg_addr r i)) (m (rg_addr r i + 1)) =
               UpdateCRC16 0xFFFF (read_bytes m (rg_addr r i + 8) (rg_size r))
    then Some (rg_addr r i + 8) else None)"
  using addr_ge [of i] slot_in_region [of i] record_fits cap_le
  by (auto simp: GetNVPtr_def Let_def add.commute)

lemma slot_bytes_cong: "slot_bytes m i = slot_bytes m' i \<Longrightarrow> k < 8 + fsize \<Longrightarrow>
   m (rg_addr r i + k) = m' (rg_addr r i + k)"
  by (metis slot_bytes_def nth_read_bytes)

lemma ReadNV_cong:
  assumes "i < cap" "slot_bytes m i = slot_bytes m' i"
  shows "ReadNV r m i = ReadNV r m' i" "GetNVPtr r m i v = GetNVPtr r m' i v"
proof -
  have b: "m (rg_addr r i + k) = m' (rg_addr r i + k)" if "k < 8 + fsize" for k
    using slot_bytes_cong [OF assms(2) that] .
  have "read_bytes m (rg_addr r i + 8) (rg_size r) = read_bytes m' (rg_addr r i + 8) (rg_size r)"
    using b [of "8 + k" for k] record_fits(1) by (auto simp: read_bytes_eq_iff add.assoc)
  with b [of 0] b [of 1] show "ReadNV r m i = ReadNV r m' i" "GetNVPtr r m i v = GetNVPtr r m' i v"
    using assms(1) by (simp_all add: ReadNV_def GetNVPtr_cap)
qed

lemma blank_bytes: "blank m i \<Longrightarrow> k < 8 + fsize \<Longrightarrow> m (rg_addr r i + k) = 0xFF"
  by (metis blank_def slot_bytes_def nth_read_bytes nth_replicate)

lemma GetNVPtr_blank: "i < cap \<Longrightarrow> blank m i \<Longrightarrow> GetNVPtr r m i True = None"
proof -
  assume i: "i < cap" and bl: "blank m i"
  have "read_bytes m (rg_addr r i + 8) (rg_size r) = replicate (rg_size r) 0xFF"
    using blank_bytes [OF bl, of "8 + k" for k] record_fits(1) by (auto simp: read_bytes_eq_iff add.assoc)
  with i blank_bytes [OF bl, of 0] blank_bytes [OF bl, of 1] crc_of_erased show ?thesis
    by (auto simp: GetNVPtr_cap)
qed

lemma ReadNV_blank: "i < cap \<Longrightarrow> blank m i \<Longrightarrow> ReadNV r m i = replicate (rg_size r) 0xFF"
  by (simp add: ReadNV_def GetNVPtr_blank)

lemma length_ReadNV [simp]: "length (ReadNV r m i) = rg_size r"
  by (simp add: ReadNV_def split: option.split)

text \<open>What a routine that stays inside the sector or slot leaves alone.\<close>

lemma slot_outside_slot:
  assumes "\<And>x. x < rg_addr r i \<or> rg_addr r i + 8 + fsize \<le> x \<Longrightarrow> m' x = m x"
    and "i < cap" "j < cap" "i \<noteq> j"
  shows "slot_bytes m' j = slot_bytes m j"
  unfolding slot_bytes_def
  by (rule read_bytes_cong) (use assms(1) slots_disjoint [OF assms(2-4)] in auto)

lemma GetNVPtr_beyond: "cap \<le> i \<Longrightarrow> GetNVPtr r m i v = None"
  using beyond_region [of i] by (auto simp: GetNVPtr_def Let_def)

lemma WriteNV_beyond:
  "cap \<le> i \<Longrightarrow> fst (WriteNV r hw m i ram src) = m \<and> snd (WriteNV r hw m i ram src) \<noteq> FTFx_OK"
  using beyond_region [of i] record_fits(1) by (auto simp: WriteNV_def Let_def fsize_eq flash_sizeof_values)

lemma WriteNV_uninitialized:
  "\<not> memory_initialized (read_bytes ram src (rg_size r)) \<Longrightarrow>
   WriteNV r hw m i ram src = (m, 0xFFFFFFFF)"
  by (simp add: WriteNV_def)

lemma WriteNV_cap:
  assumes "i < cap" "memory_initialized (read_bytes ram src (rg_size r))"
  shows "WriteNV r hw m i ram src =
    FlashProgramPhrase hw ftfl_cfg
      (fst (FlashProgramPhrase hw ftfl_cfg m (rg_addr r i) 8
        (array_ram (crcArray (UpdateCRC16 0xFFFF (read_bytes ram src (rg_size r)))) ram) 0))
      (rg_addr r i + 8) fsize ram src"
  using assms cap_le addr_ge [of i] slot_in_region [of i]
  by (simp add: WriteNV_def Let_def flash_sizeof_values fsize_eq [symmetric] split: prod.split)

definition slot_ok :: "memory \<Rightarrow> nat \<Rightarrow> bool" where
  "slot_ok m i \<longleftrightarrow>
     blank m i \<or> GetNVPtr r m i True = Some (rg_addr r i + 8) \<and> memory_initialized (ReadNV r m i)"

lemma slot_ok_cong: "i < cap \<Longrightarrow> slot_bytes m i = slot_bytes m' i \<Longrightarrow> slot_ok m i = slot_ok m' i"
  using ReadNV_cong [of i m m'] by (simp add: slot_ok_def blank_def)

lemma slot_ok_GetNVPtr:
  "i < cap \<Longrightarrow> slot_ok m i \<Longrightarrow>
   GetNVPtr r m i True = (if memory_initialized (ReadNV r m i) then Some (rg_addr r i + 8) else None)"
  by (auto simp: slot_ok_def GetNVPtr_blank ReadNV_blank)

end

text \<open>A region on a controller that keeps to its documentation.\<close>

locale flash_store = flash_region r per stride cap fsize + ftfe_reliable hw
  for r :: region and per stride cap fsize :: nat and hw :: ftfe_hw
begin

lemma WriteNV_blank:
  assumes i: "i < cap" and init: "memory_initialized (read_bytes ram src (rg_size r))"
    and bl: "blank m i"
  shows "WriteNV r hw m i ram src =
    (write_bytes m (rg_addr r i)
       (crcArray (UpdateCRC16 0xFFFF (read_bytes ram src (rg_size r))) @ read_bytes ram src fsize), FTFx_OK)"
proof -
  let ?a = "rg_addr r i" and ?c = "crcArray (UpdateCRC16 0xFFFF (read_bytes ram src (rg_size r)))"
  have ff: "read_bytes m ?a 8 = replicate 8 0xFF" "read_bytes m (?a + 8) fsize = replicate fsize 0xFF"
    using bl read_bytes_add [of m ?a 8 fsize]
    by (auto simp: blank_def slot_bytes_def replicate_add append_eq_append_conv)
  have 1: "FlashProgramPhrase hw ftfl_cfg m ?a 8 (array_ram ?c ram) 0 = (write_bytes m ?a ?c, FTFx_OK)"
    using driver.prog_ok [of ?a 8 m "array_ram ?c ram" 0] addr_aligned [OF i] addr_in_flash [OF i] ff
      read_array_ram [of ?c ram] by simp
  have a8: "(?a + 8) mod 8 = 0" using addr_aligned [OF i] by simp
  have 2: "FlashProgramPhrase hw ftfl_cfg (write_bytes m ?a ?c) (?a + 8) fsize ram src =
      (write_bytes (write_bytes m ?a ?c) (?a + 8) (read_bytes ram src fsize), FTFx_OK)"
    using addr_in_flash [OF i] ff phrase_aligned
    by (intro driver.prog_ok a8) (simp_all add: mem_simps)
  show ?thesis
    using write_bytes_append [of m ?a ?c "read_bytes ram src fsize"]
    by (simp add: WriteNV_cap [OF i init] 1 2)
qed

lemma WriteNV_read:
  assumes i: "i < cap" and init: "memory_initialized (read_bytes ram src (rg_size r))"
    and bl: "blank m i"
  defines "m' \<equiv> fst (WriteNV r hw m i ram src)"
  shows "GetNVPtr r m' i v = Some (rg_addr r i + 8)" "ReadNV r m' i = read_bytes ram src (rg_size r)"
proof -
  let ?a = "rg_addr r i" and ?crc = "UpdateCRC16 0xFFFF (read_bytes ram src (rg_size r))"
  have m': "m' = write_bytes m ?a (crcArray ?crc @ read_bytes ram src fsize)"
    by (simp add: m'_def WriteNV_blank [OF i init bl])
  have "m' = write_bytes (write_bytes m ?a (crcArray ?crc)) (?a + 8) (read_bytes ram src fsize)"
    using write_bytes_append [of m ?a "crcArray ?crc" "read_bytes ram src fsize"] by (simp add: m')
  then have data: "read_bytes m' (?a + 8) (rg_size r) = read_bytes ram src (rg_size r)"
    using record_fits by (simp add: mem_simps)
  have "m' ?a = HighByteOfWord ?crc" "m' (?a + 1) = LowByteOfWord ?crc"
    by (simp_all add: m' write_bytes_def crcArray_def)
  with data i show "GetNVPtr r m' i v = Some (?a + 8)" "ReadNV r m' i = read_bytes ram src (rg_size r)"
    by (simp_all add: GetNVPtr_cap ReadNV_def)
qed

lemma WriteNV_outside:
  assumes "i < cap" "blank m i" "x < rg_addr r i \<or> rg_addr r i + 8 + fsize \<le> x"
  shows "fst (WriteNV r hw m i ram src) x = m x"
proof (cases "memory_initialized (read_bytes ram src (rg_size r))")
  case True
  with assms show ?thesis by (auto simp: WriteNV_blank mem_simps)
next
  case False
  then show ?thesis by (simp add: WriteNV_uninitialized)
qed

lemma WriteNV_slot:
  assumes i: "i < cap" and bl: "blank m i"
  shows "ReadNV r (fst (WriteNV r hw m i ram src)) i = read_bytes ram src (rg_size r) \<and>
         slot_ok (fst (WriteNV r hw m i ram src)) i"
proof (cases "memory_initialized (read_bytes ram src (rg_size r))")
  case True
  then show ?thesis using WriteNV_read [OF i True bl] by (simp add: slot_ok_def)
next
  case False
  then have "read_bytes ram src (rg_size r) = replicate (rg_size r) 0xFF"
    by (metis not_initialized_iff length_read_bytes)
  with False show ?thesis using i bl
    by (simp add: WriteNV_uninitialized ReadNV_blank slot_ok_def)
qed

text \<open>Writing an array into erased slots. Slot numbers beyond the region are ignored.\<close>

lemma write_slots_Suc:
  "write_slots r hw ix arr junk (Suc n) m =
   fst (WriteNV r hw (write_slots r hw ix arr junk n m) (ix n) (array_ram (concat arr) junk) (n * rg_size r))"
  by (simp add: write_slots_def)

text \<open>\<open>written ix arr n m m'\<close>: the first \<open>n\<close> elements of the array are in their slots, every other
  slot and every byte outside the slots is as before.\<close>

definition written ::
  "(nat \<Rightarrow> nat) \<Rightarrow> byte list list \<Rightarrow> nat \<Rightarrow> memory \<Rightarrow> memory \<Rightarrow> bool" where
  "written ix arr n m m' \<longleftrightarrow>
     (\<forall>i < n. ix i < cap \<longrightarrow> ReadNV r m' (ix i) = arr ! i \<and> slot_ok m' (ix i)) \<and>
     (\<forall>j < cap. j \<notin> ix ` {..<n} \<longrightarrow> slot_bytes m' j = slot_bytes m j) \<and>
     (\<forall>x. (\<forall>i < n. ix i < cap \<longrightarrow> x < rg_addr r (ix i) \<or> rg_addr r (ix i) + 8 + fsize \<le> x)
        \<longrightarrow> m' x = m x)"

lemma written_step:
  assumes w: "written ix arr n m m1" and new: "ix n \<notin> ix ` {..<n}" and cap: "ix n < cap"
    and out: "\<And>x. x < rg_addr r (ix n) \<or> rg_addr r (ix n) + 8 + fsize \<le> x \<Longrightarrow> m2 x = m1 x"
    and here: "ReadNV r m2 (ix n) = arr ! n" "slot_ok m2 (ix n)"
  shows "written ix arr (Suc n) m m2"
proof -
  have other: "slot_bytes m2 j = slot_bytes m1 j" if "j < cap" "j \<noteq> ix n" for j
    by (rule slot_outside_slot [OF out cap that(1) that(2) [symmetric]])
  have "ReadNV r m2 (ix i) = arr ! i \<and> slot_ok m2 (ix i)" if "i < Suc n" "ix i < cap" for i
  proof (cases "i = n")
    case False
    with that have i: "i < n" by simp
    with new have "ix i \<noteq> ix n" by (metis image_eqI lessThan_iff)
    from other [OF that(2) this] show ?thesis
      using w i that(2) ReadNV_cong(1) [OF that(2)] slot_ok_cong [OF that(2)]
      unfolding written_def by metis
  qed (use here in simp)
  moreover have "slot_bytes m2 j = slot_bytes m j" if "j < cap" "j \<notin> ix ` {..<Suc n}" for j
    using other [OF that(1)] w that by (auto simp: lessThan_Suc written_def)
  moreover have "m2 x = m x"
    if "\<forall>i < Suc n. ix i < cap \<longrightarrow> x < rg_addr r (ix i) \<or> rg_addr r (ix i) + 8 + fsize \<le> x" for x
    using out [of x] w that cap by (auto simp: written_def)
  ultimately show ?thesis unfolding written_def by blast
qed

lemma write_slots_spec:
  assumes len: "\<forall>x \<in> set arr. length x = rg_size r" and n: "n \<le> length arr"
    and inj: "inj_on ix {..<n}" and bl: "\<forall>i < n. ix i < cap \<longrightarrow> blank m (ix i)"
  shows "written ix arr n m (write_slots r hw ix arr junk n m)"
  using n inj bl
proof (induction n)
  case 0
  then show ?case by (simp add: write_slots_def written_def)
next
  case (Suc n)
  let ?m1 = "write_slots r hw ix arr junk n m"
  let ?ram = "array_ram (concat arr) junk"
  from Suc have IH: "written ix arr n m ?m1" by (auto simp: inj_on_def)
  have new: "ix n \<notin> ix ` {..<n}" using Suc.prems(2) by (fastforce simp: inj_on_def)
  show ?case
  proof (cases "ix n < cap")
    case False
    then have "write_slots r hw ix arr junk (Suc n) m = ?m1"
      by (simp add: write_slots_Suc WriteNV_beyond)
    with IH False show ?thesis by (auto simp: less_Suc_eq lessThan_Suc written_def)
  next
    case True
    have bln: "blank ?m1 (ix n)"
      using IH True new Suc.prems(3) by (simp add: blank_def written_def)
    have rd: "read_bytes ?ram (n * rg_size r) (rg_size r) = arr ! n"
      using read_array_elem [OF len, of n junk] Suc.prems(1) by simp
    show ?thesis unfolding write_slots_Suc
      by (rule written_step [OF IH new True])
        (use WriteNV_slot [OF True bln] WriteNV_outside [OF True bln] rd in simp_all)
  qed
qed

text \<open>Erasing a sector blanks exactly its slots.\<close>

lemma EraseSectorNV_eq:
  assumes "index < cap"
  shows "EraseSectorNV r per hw m index =
    fill_bytes m (rg_start r + 0x1000 * (index div per)) 0x1000 0xFF"
proof -
  have "index div per \<le> (cap - 1) div per" using assms by (intro div_le_mono) simp
  then have "rg_start r + 0x1000 * (index div per) + 0x1000 \<le> 0x100000"
    using region_in_flash(1) by linarith
  then show ?thesis
    using phrase_aligned(3) by (simp add: EraseSectorNV_def driver.erase_ok mod_add_left_eq [symmetric])
qed

lemma EraseSectorNV_slots:
  assumes "index < cap" "j < cap"
  shows "j div per = index div per \<Longrightarrow> blank (EraseSectorNV r per hw m index) j"
    and "j div per \<noteq> index div per \<Longrightarrow>
      slot_bytes (EraseSectorNV r per hw m index) j = slot_bytes m j"
proof -
  note j = slot_in_sector [OF assms(2)]
  show "blank (EraseSectorNV r per hw m index) j" if "j div per = index div per"
    using j that unfolding EraseSectorNV_eq [OF assms(1)] blank_def slot_bytes_def
    by (intro read_fill_inside) simp_all
  show "slot_bytes (EraseSectorNV r per hw m index) j = slot_bytes m j" if "j div per \<noteq> index div per"
  proof -
    have "j div per + 1 \<le> index div per \<or> index div per + 1 \<le> j div per" using that by linarith
    then have "0x1000 * (j div per) + 0x1000 \<le> 0x1000 * (index div per) \<or>
       0x1000 * (index div per) + 0x1000 \<le> 0x1000 * (j div per)" by linarith
    with j show ?thesis unfolding EraseSectorNV_eq [OF assms(1)] slot_bytes_def
      by (intro read_fill_disjoint) linarith
  qed
qed

text \<open>The save cycle: erase the sector of a slot and write an array back into its slots.\<close>

lemma write_slots_cong:
  "(\<And>i. i < n \<Longrightarrow> ix i = iy i) \<Longrightarrow> write_slots r hw ix arr junk n m = write_slots r hw iy arr junk n m"
  unfolding write_slots_def by (rule foldl_cong) simp_all

lemma sector_index_of: "j div per = index div per \<Longrightarrow> j = j mod per + index div per * per"
  by (metis add.commute div_mult_mod_eq)

lemma rewrite_sector:
  assumes index: "index < cap" and len: "\<forall>x \<in> set arr. length x = rg_size r" "length arr = per"
  defines "m' m junk \<equiv> write_slots r hw (\<lambda>i. i + index div per * per) arr junk per
                  (EraseSectorNV r per hw m index)"
  shows "\<And>j. j < cap \<Longrightarrow> j div per = index div per \<Longrightarrow>
      ReadNV r (m' m junk) j = arr ! (j mod per) \<and> slot_ok (m' m junk) j"
    and "\<And>j. j < cap \<Longrightarrow> j div per \<noteq> index div per \<Longrightarrow> slot_bytes (m' m junk) j = slot_bytes m j"
    and "\<And>x. x < rg_start r + 0x1000 * (index div per) \<or> rg_start r + 0x1000 * (index div per) + 0x1000 \<le> x
      \<Longrightarrow> m' m junk x = m x"
proof -
  let ?ix = "\<lambda>i. i + index div per * per" and ?m1 = "EraseSectorNV r per hw m index"
  have div: "?ix i div per = index div per" if "i < per" for i using that per_pos by simp
  have w: "written ?ix arr per ?m1 (m' m junk)"
    unfolding m'_def using len EraseSectorNV_slots(1) [OF index] div
    by (intro write_slots_spec) (auto simp: inj_on_def)
  show "ReadNV r (m' m junk) j = arr ! (j mod per) \<and> slot_ok (m' m junk) j"
    if "j < cap" "j div per = index div per" for j
    using w that sector_index_of [OF that(2)] per_pos unfolding written_def
    by (metis mod_less_divisor)
  show "slot_bytes (m' m junk) j = slot_bytes m j" if j: "j < cap" "j div per \<noteq> index div per" for j
  proof -
    have "j \<notin> ?ix ` {..<per}" using j(2) div by auto
    with w j EraseSectorNV_slots(2) [OF index j] show ?thesis unfolding written_def by metis
  qed
  show "m' m junk x = m x" if x: "x < rg_start r + 0x1000 * (index div per) \<or>
      rg_start r + 0x1000 * (index div per) + 0x1000 \<le> x" for x
  proof -
    have "x < rg_addr r (?ix i) \<or> rg_addr r (?ix i) + 8 + fsize \<le> x" if "i < per" "?ix i < cap" for i
      using slot_in_sector [OF that(2)] x div [OF that(1)] by simp linarith
    with w have "m' m junk x = ?m1 x" unfolding written_def by blast
    also have "\<dots> = m x" using x by (simp add: EraseSectorNV_eq [OF index] fill_bytes_outside)
    finally show ?thesis .
  qed
qed

lemma sector_byte: "index < cap \<Longrightarrow> i < per \<Longrightarrow> (i + index div per * per) mod 256 = i + index div per * per"
proof -
  assume "index < cap" "i < per"
  then have "index div per \<le> (cap - 1) div per" by (intro div_le_mono) simp
  then have "index div per * per \<le> (cap - 1) div per * per" by (rule mult_le_mono1)
  with \<open>i < per\<close> index_is_byte have "i + index div per * per < 256" by linarith
  then show ?thesis by simp
qed

end

subsection \<open>The five regions\<close>

lemmas region_defs = zone_region_def scene_region_def scene_controller_region_def
  eliot_zone_region_def eliot_scene_region_def

interpretation zones: flash_region zone_region MAX_NUMBER_OF_ZONES "0x28" MAX_NUMBER_OF_ZONES 32
  by unfold_locales (use crc_erased in \<open>auto simp: zone_region_def flash_sizeof_values UpdateCRC16_FF\<close>)

interpretation scene_controllers: flash_region scene_controller_region
  MAX_NUMBER_OF_SCENE_CONTROLLERS "0x48" MAX_NUMBER_OF_SCENE_CONTROLLERS 48
  by unfold_locales (use crc_erased in \<open>auto simp: scene_controller_region_def flash_sizeof_values UpdateCRC16_FF\<close>)

interpretation scenes: flash_region scene_region NUM_SCENES_IN_FLASH_SECTOR "0x1C0"
  MAX_NUMBER_OF_SCENES 440
proof unfold_locales
  fix i :: nat
  assume "i < MAX_NUMBER_OF_SCENES"
  moreover have "9 * (i div 9) + i mod 9 = i" "i mod 9 < 9" by simp_all
  ultimately have "i div 9 \<le> 10 \<or> i div 9 = 11 \<and> i mod 9 = 0" by linarith
  with \<open>i mod 9 < 9\<close> have "0x1000 * (i div 9) + 0x1C0 * (i mod 9) \<le> 0x1000 * 11" by auto
  then show "rg_addr scene_region i + 8 + 440 \<le> rg_end scene_region"
    by (simp add: scene_region_def)
qed (use crc_erased in \<open>auto simp: scene_region_def flash_sizeof_values UpdateCRC16_FF\<close>)

interpretation eliot_zones: flash_region eliot_zone_region NUM_ELIOT_PROPERTIES_IN_FLASH_SECTOR "0x30"
  MAX_NUMBER_OF_ZONES 40
proof unfold_locales
  fix i :: nat
  assume "i < MAX_NUMBER_OF_ZONES"
  then have "i div 50 \<le> 1" "i mod 50 \<le> 49" by simp_all
  then have "0x1000 * (i div 50) + 0x30 * (i mod 50) \<le> 0x1000 + 0x30 * 49" by linarith
  then show "rg_addr eliot_zone_region i + 8 + 40 \<le> rg_end eliot_zone_region"
    by (simp add: eliot_zone_region_def)
qed (use crc_erased in \<open>auto simp: eliot_zone_region_def flash_sizeof_values UpdateCRC16_FF\<close>)

text \<open>Of the Eliot scene slots only the first sector lies in the region.\<close>

interpretation eliot_scenes: flash_region eliot_scene_region NUM_ELIOT_PROPERTIES_IN_FLASH_SECTOR "0x30"
  NUM_ELIOT_PROPERTIES_IN_FLASH_SECTOR 40
proof unfold_locales
  fix i :: nat
  assume "NUM_ELIOT_PROPERTIES_IN_FLASH_SECTOR \<le> i"
  then have "1 \<le> i div 50" by (simp add: div_greater_zero_iff Suc_le_eq)
  then show "rg_end eliot_scene_region < rg_addr eliot_scene_region i + 8 + rg_size eliot_scene_region"
    by (simp add: eliot_scene_region_def)
qed (use crc_erased in \<open>auto simp: eliot_scene_region_def flash_sizeof_values UpdateCRC16_FF\<close>)

subsection \<open>Derived facts\<close>

context flash_region
begin

lemma WriteNV_confined:
  assumes "ftfe hw" "i < cap" "x < rg_addr r i \<or> rg_addr r i + 8 + fsize \<le> x"
  shows "fst (WriteNV r hw m i ram src) x = m x"
proof (cases "memory_initialized (read_bytes ram src (rg_size r))")
  case True
  let ?c = "array_ram (crcArray (UpdateCRC16 0xFFFF (read_bytes ram src (rg_size r)))) ram"
  obtain m1 rc1 where 1: "FlashProgramPhrase hw ftfl_cfg m (rg_addr r i) 8 ?c 0 = (m1, rc1)"
    by fastforce
  obtain m2 rc2 where 2: "FlashProgramPhrase hw ftfl_cfg m1 (rg_addr r i + 8) fsize ram src = (m2, rc2)"
    by fastforce
  have "m1 x = m x" using addr_in_flash [OF assms(2)] assms(3)
    by (intro ftfe.prog_outside [OF assms(1) 1]) auto
  moreover have "m2 x = m1 x" using addr_in_flash [OF assms(2)] assms(3)
    by (intro ftfe.prog_outside [OF assms(1) 2]) auto
  ultimately show ?thesis by (simp add: WriteNV_cap [OF assms(2) True] 1 2)
qed (simp add: WriteNV_uninitialized)

lemma WriteNV_confined_region:
  assumes "ftfe hw" "x < rg_start r \<or> rg_end r \<le> x"
  shows "fst (WriteNV r hw m i ram src) x = m x"
proof (cases "i < cap")
  case True
  with WriteNV_confined [OF assms(1) True] addr_ge [OF True] slot_in_region [OF True] assms(2)
  show ?thesis by auto
next
  case False
  then show ?thesis using WriteNV_beyond [of i] by simp
qed

lemma GetNVPtr_some:
  "GetNVPtr r m i v = Some p \<Longrightarrow> i < cap \<and> p = rg_addr r i + 8"
  using GetNVPtr_beyond [of i m v] GetNVPtr_cap [of i m v] by (cases "i < cap") (auto split: if_splits)

lemma GetNVPtr_inside:
  "GetNVPtr r m i v = Some p \<Longrightarrow> rg_start r \<le> p \<and> p + rg_size r \<le> rg_end r"
  by (auto simp: GetNVPtr_def Let_def split: if_splits)

lemma GetNVPtr_apart:
  assumes "GetNVPtr r m i v = Some p" "GetNVPtr r m' j w = Some q" "i \<noteq> j"
  shows "p + rg_size r \<le> q \<or> q + rg_size r \<le> p"
proof -
  note p = GetNVPtr_some [OF assms(1)] and q = GetNVPtr_some [OF assms(2)]
  have "rg_addr r i + 8 + fsize \<le> rg_addr r j \<or> rg_addr r j + 8 + fsize \<le> rg_addr r i"
    using slots_disjoint p q assms(3) by blast
  with p q record_fits(1) show ?thesis by auto
qed

lemma corrupted_slot:
  assumes valid: "GetNVPtr r m i True = Some p" and k: "k + 1 < rg_size r"
    and changed: "b1 \<noteq> m (p + k) \<or> b2 \<noteq> m (p + k + 1)"
  shows "GetNVPtr r (m(p + k := b1, p + k + 1 := b2)) i True = None"
proof -
  let ?m = "m(p + k := b1, p + k + 1 := b2)"
  have i: "i < cap" and p: "p = rg_addr r i + 8" using GetNVPtr_some [OF valid] by simp_all
  have same: "read_bytes ?m p k = read_bytes m p k"
    "read_bytes ?m (p + k + 2) (rg_size r - (k + 2)) = read_bytes m (p + k + 2) (rg_size r - (k + 2))"
    by (auto intro!: read_bytes_cong)
  have k2: "k + 2 \<le> rg_size r" using k by simp
  have "UpdateCRC16 0xFFFF (read_bytes ?m p (rg_size r)) \<noteq> UpdateCRC16 0xFFFF (read_bytes m p (rg_size r))"
    using changed unfolding read_bytes_pair [OF k2] same crc16_burst by simp
  moreover have "?m (rg_addr r i) = m (rg_addr r i)" "?m (rg_addr r i + 1) = m (rg_addr r i + 1)"
    by (simp_all add: p)
  ultimately show ?thesis using valid i p by (auto simp: GetNVPtr_cap split: if_splits)
qed

end

context flash_store
begin

lemma sector_roundtrip:
  assumes index: "index < cap" and len: "\<forall>x \<in> set arr. length x = rg_size r" "length arr = per"
  defines "m' m junk \<equiv> snd (WriteSectorNV r per hw (EraseSectorNV r per hw m index) index arr junk per)"
  shows "i < per \<Longrightarrow> i + index div per * per < cap \<Longrightarrow>
      snd (ReadSectorNV r per (m' m junk) index old per) ! i = arr ! i"
    and "j < cap \<Longrightarrow> j div per \<noteq> index div per \<Longrightarrow> slot_bytes (m' m junk) j = slot_bytes m j"
    and "x < rg_start r + 0x1000 * (index div per) \<or> rg_start r + 0x1000 * (index div per) + 0x1000 \<le> x
      \<Longrightarrow> m' m junk x = m x"
proof -
  have m': "m' m junk = write_slots r hw (\<lambda>i. i + index div per * per) arr junk per
      (EraseSectorNV r per hw m index)"
    using sector_byte [OF index]
    by (simp add: m'_def WriteSectorNV_def Let_def cong: write_slots_cong)
  note rw = rewrite_sector [OF index len]
  show "snd (ReadSectorNV r per (m' m junk) index old per) ! i = arr ! i"
    if i: "i < per" "i + index div per * per < cap"
  proof -
    have "(i + index div per * per) div per = index div per" "(i + index div per * per) mod per = i"
      using i(1) by simp_all
    with rw(1) [OF i(2)] have "ReadNV r (m' m junk) (i + index div per * per) = arr ! i"
      unfolding m' by metis
    then show ?thesis using i sector_byte [OF index i(1)] by (simp add: ReadSectorNV_def Let_def)
  qed
  show "slot_bytes (m' m junk) j = slot_bytes m j" if "j < cap" "j div per \<noteq> index div per"
    using rw(2) [OF that] unfolding m' .
  show "m' m junk x = m x" if "x < rg_start r + 0x1000 * (index div per) \<or>
      rg_start r + 0x1000 * (index div per) + 0x1000 \<le> x"
    using rw(3) [OF that] unfolding m' .
qed

lemma array_roundtrip:
  assumes per: "per = cap" and len: "\<forall>x \<in> set arr. length x = rg_size r" "length arr = cap"
  defines "m' m junk \<equiv> write_slots r hw (\<lambda>i. i) arr junk cap (EraseSectorNV r per hw m 0)"
  shows "WriteAllNV r hw (EraseSectorNV r per hw m 0) arr junk cap = Some (m' m junk)"
    and "ReadAllNV r (m' m junk) cap = Some arr"
    and "j < cap \<Longrightarrow> slot_ok (m' m junk) j"
    and "x < rg_start r \<or> rg_start r + 0x1000 \<le> x \<Longrightarrow> m' m junk x = m x"
proof -
  have z: "(0 :: nat) < cap" using cap_le by simp
  have "length arr = per" using len(2) per by simp
  note rw = rewrite_sector [OF z len(1) this]
  show "WriteAllNV r hw (EraseSectorNV r per hw m 0) arr junk cap = Some (m' m junk)"
    using cap_le by (simp add: WriteAllNV_def m'_def)
  have r: "ReadNV r (m' m junk) j = arr ! j \<and> slot_ok (m' m junk) j" if "j < cap" for j
    using rw(1) [OF that, where m = m and junk = junk] that by (simp add: m'_def per)
  then show "ReadAllNV r (m' m junk) cap = Some arr"
    using cap_le len by (simp add: ReadAllNV_def list_eq_iff_nth_eq)
  show "j < cap \<Longrightarrow> slot_ok (m' m junk) j" using r by simp
  show "x < rg_start r \<or> rg_start r + 0x1000 \<le> x \<Longrightarrow> m' m junk x = m x"
    using rw(3) [of x, where m = m and junk = junk] by (simp add: m'_def per)
qed

end

text \<open>The lemmas of a region on any reliable controller.\<close>

lemmas zone_store = flash_store.intro [OF zones.flash_region_axioms]
lemmas scene_controller_store = flash_store.intro [OF scene_controllers.flash_region_axioms]
lemmas scene_store = flash_store.intro [OF scenes.flash_region_axioms]
lemmas eliot_zone_store = flash_store.intro [OF eliot_zones.flash_region_axioms]
lemmas eliot_scene_store = flash_store.intro [OF eliot_scenes.flash_region_axioms]

interpretation zones_emulator: flash_store zone_region MAX_NUMBER_OF_ZONES "0x28"
  MAX_NUMBER_OF_ZONES 32 ftfe_emulator
  by (rule zone_store [OF emulator.ftfe_reliable_axioms])

lemma zones_array_cycle:
  assumes "ftfe_reliable hw" "length zs = MAX_NUMBER_OF_ZONES" "\<forall>x \<in> set zs. length x = sizeof_nv_zone"
  shows "\<exists>m'. WriteAllZonePropertiesToFlash hw (EraseZonesFromFlash hw m) zs junk MAX_NUMBER_OF_ZONES = Some m' \<and>
      ReadAllZonePropertiesFromFlash m' MAX_NUMBER_OF_ZONES = Some zs \<and>
      (\<forall>x. x < 0xdd000 \<or> 0xde000 \<le> x \<longrightarrow> m' x = m x)"
proof -
  have "\<forall>x \<in> set zs. length x = rg_size zone_region"
    using assms(3) by (simp add: zone_region_def)
  note cycle = flash_store.array_roundtrip [OF zone_store [OF assms(1)] refl this assms(2)]
  have "rg_start zone_region = 0xdd000" by (simp add: zone_region_def)
  with cycle show ?thesis
    unfolding WriteAllZonePropertiesToFlash_def EraseZonesFromFlash_def ReadAllZonePropertiesFromFlash_def
    by simp
qed

lemma scene_controllers_array_cycle:
  assumes "ftfe_reliable hw" "length cs = MAX_NUMBER_OF_SCENE_CONTROLLERS"
    "\<forall>x \<in> set cs. length x = sizeof_nv_scene_controller"
  shows "\<exists>m'. WriteAllSceneControllerPropertiesToFlash hw (EraseSceneControllersFromFlash hw m) cs junk
        MAX_NUMBER_OF_SCENE_CONTROLLERS = Some m' \<and>
      ReadAllSceneControllerPropertiesFromFlash m' MAX_NUMBER_OF_SCENE_CONTROLLERS = Some cs \<and>
      (\<forall>x. x < 0xea000 \<or> 0xeb000 \<le> x \<longrightarrow> m' x = m x)"
proof -
  have "\<forall>x \<in> set cs. length x = rg_size scene_controller_region"
    using assms(3) by (simp add: scene_controller_region_def)
  note cycle = flash_store.array_roundtrip [OF scene_controller_store [OF assms(1)] refl this assms(2)]
  have "rg_start scene_controller_region = 0xea000" by (simp add: scene_controller_region_def)
  with cycle show ?thesis
    unfolding WriteAllSceneControllerPropertiesToFlash_def EraseSceneControllersFromFlash_def
      ReadAllSceneControllerPropertiesFromFlash_def
    by simp
qed

context flash_region
begin

lemma GetNVPtr_region_cong:
  assumes "\<And>x. rg_start r \<le> x \<Longrightarrow> x < rg_end r \<Longrightarrow> m x = m' x"
  shows "GetNVPtr r m j v = GetNVPtr r m' j v"
proof (cases "j < cap")
  case True
  have "slot_bytes m j = slot_bytes m' j"
    unfolding slot_bytes_def using addr_ge [OF True] slot_in_region [OF True]
    by (intro read_bytes_cong assms) auto
  then show ?thesis by (rule ReadNV_cong(2) [OF True])
next
  case False
  then show ?thesis by (simp add: GetNVPtr_beyond)
qed

end

abbreviation record_regions :: "region set" where
  "record_regions \<equiv>
     {zone_region, scene_region, scene_controller_region, eliot_zone_region, eliot_scene_region}"

lemma regions_disjoint:
  "r \<in> record_regions \<Longrightarrow> s \<in> record_regions \<Longrightarrow> r \<noteq> s \<Longrightarrow>
   rg_end r \<le> rg_start s \<or> rg_end s \<le> rg_start r"
  by (auto simp: region_defs)

lemma regions_geometry:
  assumes "r \<in> record_regions"
  obtains per stride cap fsize where "flash_region r per stride cap fsize"
  using assms zones.flash_region_axioms scenes.flash_region_axioms scene_controllers.flash_region_axioms
    eliot_zones.flash_region_axioms eliot_scenes.flash_region_axioms by blast

lemma regions_confined:
  assumes "r \<in> record_regions" "ftfe hw" "x < rg_start r \<or> rg_end r \<le> x"
  shows "fst (WriteNV r hw m i ram src) x = m x"
  using regions_geometry [OF assms(1)] flash_region.WriteNV_confined_region [OF _ assms(2,3)] by metis

lemma regions_cong:
  assumes "r \<in> record_regions" "\<And>x. rg_start r \<le> x \<Longrightarrow> x < rg_end r \<Longrightarrow> m x = m' x"
  shows "GetNVPtr r m j v = GetNVPtr r m' j v"
proof -
  obtain per stride cap fsize where g: "flash_region r per stride cap fsize"
    using regions_geometry [OF assms(1)] .
  show ?thesis by (rule flash_region.GetNVPtr_region_cong [OF g assms(2)])
qed

lemma regions_inside:
  assumes "r \<in> record_regions" "GetNVPtr r m i v = Some p"
  shows "rg_start r \<le> p \<and> p + rg_size r \<le> rg_end r"
  using regions_geometry [OF assms(1)] flash_region.GetNVPtr_inside [OF _ assms(2)] by metis

lemma regions_apart:
  assumes "r \<in> record_regions" "GetNVPtr r m i v = Some p" "GetNVPtr r m' j w = Some q" "i \<noteq> j"
  shows "p + rg_size r \<le> q \<or> q + rg_size r \<le> p"
  using regions_geometry [OF assms(1)] flash_region.GetNVPtr_apart [OF _ assms(2-4)] by metis

lemma regions_corrupted:
  assumes "r \<in> record_regions" "GetNVPtr r m i True = Some p" "k + 1 < rg_size r"
    "b1 \<noteq> m (p + k) \<or> b2 \<noteq> m (p + k + 1)"
  shows "GetNVPtr r (m(p + k := b1, p + k + 1 := b2)) i True = None"
  using regions_geometry [OF assms(1)] flash_region.corrupted_slot [OF _ assms(2-4)] by metis

subsection \<open>Properties\<close>

text \<open>C5: the zone table survives a save cycle. Erasing the zone sector, writing an array of 100
  records and reading the table back returns exactly that array, whatever the flash held before and
  whatever lies behind the array in RAM, and no byte outside the sector changes. The same holds for
  the 20 scene controllers.\<close>

theorem table_save_cycle:
  assumes "ftfe_reliable hw"
    and "length zs = MAX_NUMBER_OF_ZONES" "\<forall>x \<in> set zs. length x = sizeof_nv_zone"
    and "length cs = MAX_NUMBER_OF_SCENE_CONTROLLERS"
      "\<forall>x \<in> set cs. length x = sizeof_nv_scene_controller"
  shows "(\<exists>m'. WriteAllZonePropertiesToFlash hw (EraseZonesFromFlash hw m) zs junk MAX_NUMBER_OF_ZONES = Some m' \<and>
      ReadAllZonePropertiesFromFlash m' MAX_NUMBER_OF_ZONES = Some zs \<and>
      (\<forall>x. x < 0xdd000 \<or> 0xde000 \<le> x \<longrightarrow> m' x = m x)) \<and>
    (\<exists>m'. WriteAllSceneControllerPropertiesToFlash hw (EraseSceneControllersFromFlash hw m) cs junk
        MAX_NUMBER_OF_SCENE_CONTROLLERS = Some m' \<and>
      ReadAllSceneControllerPropertiesFromFlash m' MAX_NUMBER_OF_SCENE_CONTROLLERS = Some cs \<and>
      (\<forall>x. x < 0xea000 \<or> 0xeb000 \<le> x \<longrightarrow> m' x = m x))"
  using zones_array_cycle [OF assms(1-3)] scene_controllers_array_cycle [OF assms(1,4,5)] by blast

theorem table_save_cycle_witness:
  "\<exists>m'. WriteAllZonePropertiesToFlash ftfe_emulator (EraseZonesFromFlash ftfe_emulator (\<lambda>x. 0))
      (replicate 100 (replicate 30 7)) (\<lambda>x. 0) MAX_NUMBER_OF_ZONES = Some m' \<and>
    ReadAllZonePropertiesFromFlash m' MAX_NUMBER_OF_ZONES = Some (replicate 100 (replicate 30 7)) \<and>
    (\<forall>x. x < 0xdd000 \<or> 0xde000 \<le> x \<longrightarrow> m' x = 0)"
  using table_save_cycle [OF emulator.ftfe_reliable_axioms, where m = "\<lambda>x. 0" and junk = "\<lambda>x. 0"
      and zs = "replicate 100 (replicate 30 7)" and cs = "replicate 20 (replicate 42 7)"] by simp

text \<open>Saving one sector of scenes. After EraseScenesFromFlash and WriteScenePropertiesToFlashSector
  for the sector of scene \<open>index\<close>, ReadScenePropertiesFromFlashSector reads the nine records just
  written back (as far as they are scenes, the last sector holds only scene 99), and every other
  sector of scenes reads as before.\<close>

lemma scene_sector_save_cycle:
  assumes "ftfe_reliable hw" "index < MAX_NUMBER_OF_SCENES"
    and "length arr = NUM_SCENES_IN_FLASH_SECTOR" "\<forall>x \<in> set arr. length x = sizeof_nv_scene"
  shows "case WriteScenePropertiesToFlashSector hw (EraseScenesFromFlash hw m index) index arr junk
           NUM_SCENES_IN_FLASH_SECTOR of (err, m') \<Rightarrow>
      \<not> err \<and>
      (\<forall>i < NUM_SCENES_IN_FLASH_SECTOR. i + index div 9 * 9 < MAX_NUMBER_OF_SCENES \<longrightarrow>
         snd (ReadScenePropertiesFromFlashSector m' index old NUM_SCENES_IN_FLASH_SECTOR) ! i = arr ! i) \<and>
      (\<forall>j < MAX_NUMBER_OF_SCENES. j div 9 \<noteq> index div 9 \<longrightarrow>
         GetNVScenePropertiesPtr m' j v = GetNVScenePropertiesPtr m j v)"
proof -
  have "\<forall>x \<in> set arr. length x = rg_size scene_region" using assms(4) by (simp add: scene_region_def)
  note cycle = flash_store.sector_roundtrip [OF scene_store [OF assms(1)] assms(2) this assms(3)]
  have err: "\<not> fst (WriteScenePropertiesToFlashSector hw (EraseScenesFromFlash hw m index) index arr junk
      NUM_SCENES_IN_FLASH_SECTOR)"
    by (simp add: WriteScenePropertiesToFlashSector_def WriteSectorNV_def Let_def)
  show ?thesis
    unfolding case_prod_beta
  proof (intro conjI allI impI err)
    fix i assume "i < NUM_SCENES_IN_FLASH_SECTOR" "i + index div 9 * 9 < MAX_NUMBER_OF_SCENES"
    then show "snd (ReadScenePropertiesFromFlashSector (snd (WriteScenePropertiesToFlashSector hw
        (EraseScenesFromFlash hw m index) index arr junk NUM_SCENES_IN_FLASH_SECTOR)) index old
        NUM_SCENES_IN_FLASH_SECTOR) ! i = arr ! i"
      unfolding WriteScenePropertiesToFlashSector_def EraseScenesFromFlash_def
        ReadScenePropertiesFromFlashSector_def by (rule cycle(1))
  next
    fix j assume j: "j < MAX_NUMBER_OF_SCENES" "j div 9 \<noteq> index div 9"
    show "GetNVScenePropertiesPtr (snd (WriteScenePropertiesToFlashSector hw
        (EraseScenesFromFlash hw m index) index arr junk NUM_SCENES_IN_FLASH_SECTOR)) j v =
        GetNVScenePropertiesPtr m j v"
      unfolding WriteScenePropertiesToFlashSector_def EraseScenesFromFlash_def GetNVScenePropertiesPtr_def
      by (rule scenes.ReadNV_cong(2) [OF j(1) cycle(2) [OF j]])
  qed
qed

lemma scene_sector_save_cycle_witness:
  "GetNVScenePropertiesPtr (snd (WriteScenePropertiesToFlashSector ftfe_emulator
      (EraseScenesFromFlash ftfe_emulator (\<lambda>x. 5) 20) 20 (replicate 9 (replicate 436 7)) (\<lambda>x. 0) 9)) 3 False =
   GetNVScenePropertiesPtr (\<lambda>x. 5) 3 False"
  using scene_sector_save_cycle [OF emulator.ftfe_reliable_axioms, where index = 20 and m = "\<lambda>x. 5"
      and arr = "replicate 9 (replicate 436 7)" and junk = "\<lambda>x. 0" and v = False]
  by (simp add: case_prod_beta)

text \<open>C6: no record store routine reaches out of its region, whatever the flash controller reports.
  A write to one of the five regions changes no byte outside that region, and the regions are
  disjoint, so that zones, scenes, scene controllers and Eliot ids cannot damage each other.\<close>

theorem record_write_confined:
  assumes "ftfe hw" "r \<in> record_regions" "s \<in> record_regions" "s \<noteq> r"
  shows "(x < rg_start r \<or> rg_end r \<le> x \<longrightarrow> fst (WriteNV r hw m i ram src) x = m x) \<and>
    GetNVPtr s (fst (WriteNV r hw m i ram src)) j v = GetNVPtr s m j v"
proof -
  have out: "fst (WriteNV r hw m i ram src) x = m x" if "x < rg_start r \<or> rg_end r \<le> x" for x
    by (rule regions_confined [OF assms(2,1) that])
  moreover have "GetNVPtr s (fst (WriteNV r hw m i ram src)) j v = GetNVPtr s m j v"
    using regions_disjoint [OF assms(2,3)] assms(4) by (intro regions_cong [OF assms(3)] out) auto
  ultimately show ?thesis by blast
qed

theorem record_write_confined_witness:
  "GetNVPtr scene_region (fst (WriteNV zone_region ftfe_emulator (\<lambda>x. 0xFF) 3 (\<lambda>x. 1) 0)) 4 False =
   GetNVPtr scene_region (\<lambda>x. 0xFF) 4 False"
  using record_write_confined [OF emulator.ftfe_axioms, where r = zone_region and s = scene_region
      and m = "\<lambda>x. 0xFF" and i = 3 and ram = "\<lambda>x. 1" and src = 0 and j = 4 and v = False]
  by (simp add: region_defs)

text \<open>Pointers to records are safe. Whatever the flash holds, a pointer one of the five lookup
  routines returns has its whole record inside the region, and the records of two different slots
  never overlap, in one region or across regions, so a field access through one pointer never reads
  another record.\<close>

lemma record_pointers_safe:
  assumes "r \<in> record_regions" "s \<in> record_regions"
    and "GetNVPtr r m i v = Some p" "GetNVPtr s m j w = Some q" "r \<noteq> s \<or> i \<noteq> j"
  shows "rg_start r \<le> p \<and> p + rg_size r \<le> rg_end r \<and> (p + rg_size r \<le> q \<or> q + rg_size s \<le> p)"
proof (cases "r = s")
  case True
  with assms regions_inside [OF assms(1,3)] regions_apart [OF assms(1,3)] show ?thesis by blast
next
  case False
  with regions_inside [OF assms(1,3)] regions_inside [OF assms(2,4)] regions_disjoint [OF assms(1,2)]
  show ?thesis by linarith
qed

lemma record_pointers_safe_witness:
  "(0xdd008 + 30 \<le> (0xde008 :: nat) \<or> 0xde008 + 436 \<le> (0xdd008 :: nat)) \<and>
   GetNVPtr zone_region (\<lambda>x. 0xFF) 0 False = Some 0xdd008 \<and>
   GetNVPtr scene_region (\<lambda>x. 0xFF) 0 False = Some 0xde008"
proof -
  have "GetNVPtr zone_region (\<lambda>x. 0xFF) 0 False = Some 0xdd008"
    "GetNVPtr scene_region (\<lambda>x. 0xFF) 0 False = Some 0xde008"
    by (simp_all add: GetNVPtr_def region_defs)
  with record_pointers_safe [OF _ _ this] show ?thesis by (simp add: region_defs)
qed

text \<open>C7: a valid record in which any two neighbouring bytes are corrupted is never handed out as
  valid: the validated lookup of each of the five record stores returns NULL.\<close>

theorem corrupted_record_rejected:
  assumes "r \<in> record_regions" "GetNVPtr r m i True = Some p" "k + 1 < rg_size r"
    and "b1 \<noteq> m (p + k) \<or> b2 \<noteq> m (p + k + 1)"
  shows "GetNVPtr r (m(p + k := b1, p + k + 1 := b2)) i True = None"
  by (rule regions_corrupted [OF assms])

theorem corrupted_record_rejected_witness:
  "\<exists>m. GetNVPtr zone_region m 0 True = Some 0xdd008 \<and>
     GetNVPtr zone_region (m(0xdd008 + 3 := 8, 0xdd008 + 3 + 1 := 9)) 0 True = None"
proof -
  let ?m = "fst (WriteNV zone_region ftfe_emulator (\<lambda>x. 0xFF) 0 (\<lambda>x. 7) 0)"
  have init: "memory_initialized (read_bytes (\<lambda>x. 7) 0 (rg_size zone_region))"
    by (simp add: zone_region_def)
  have blank: "zones.blank (\<lambda>x. 0xFF) 0"
    by (simp add: zones.blank_def zones.slot_bytes_def read_bytes_eq_iff)
  note written = zones_emulator.WriteNV_read [OF _ init blank]
  have p: "GetNVPtr zone_region ?m 0 True = Some 0xdd008"
    using written(1) [of True] by (simp add: zone_region_def)
  have "read_bytes ?m 0xdd008 30 = read_bytes (\<lambda>x. 7) 0 30"
    using written(2) p by (simp add: ReadNV_def zone_region_def)
  then have "read_bytes ?m 0xdd008 30 ! 3 = read_bytes (\<lambda>x. 7) 0 30 ! 3" by (simp only:)
  then have "?m (0xdd008 + 3) = 7" by simp
  with corrupted_record_rejected [OF _ p, where k = 3 and ?b1.0 = 8 and ?b2.0 = 9] p show ?thesis
    by (auto simp: zone_region_def intro!: exI [of _ ?m])
qed

text \<open>The Eliot scene ids have room for half of the scenes only. Scenes 50 to 99 are legal scene
  numbers and the memory map gives their ids the sector 0xee000, but the region ends at 0xedfff:
  the lookup returns NULL for them with and without validation, and writing an id returns
  FTFx_ERR_RANGE and changes nothing.\<close>

lemma eliot_scene_ids_upper_half:
  assumes "50 \<le> i" "i < MAX_NUMBER_OF_SCENES" "memory_initialized (read_bytes ram src sizeof_nv_eliot)"
  shows "GetNVEliotScenePropertiesPtr m i v = None \<and>
    WriteEliotScenePropertiesToFlash hw m i ram src = (m, FTFx_ERR_RANGE)"
proof -
  have "1 \<le> i div 50" using assms(1) by (simp add: div_greater_zero_iff Suc_le_eq)
  then have "0xee000 \<le> rg_addr eliot_scene_region i" by (simp add: eliot_scene_region_def)
  moreover have "rg_start eliot_scene_region = 0xed000" "rg_end eliot_scene_region = 0xedfff"
    "rg_max eliot_scene_region = 100" "rg_size eliot_scene_region = 37"
    by (simp_all add: eliot_scene_region_def)
  ultimately show ?thesis using assms
    by (simp add: WriteEliotScenePropertiesToFlash_def GetNVEliotScenePropertiesPtr_def GetNVPtr_def
        WriteNV_def Let_def flash_sizeof_values)
qed

lemma eliot_scene_ids_upper_half_witness:
  "GetNVEliotScenePropertiesPtr (\<lambda>x. 0xFF) 60 False = None \<and>
   WriteEliotScenePropertiesToFlash ftfe_emulator (\<lambda>x. 0xFF) 60 (\<lambda>x. 0x41) 0 =
     (\<lambda>x. 0xFF, FTFx_ERR_RANGE)"
  using eliot_scene_ids_upper_half [of 60 "\<lambda>x. 0x41" 0 "\<lambda>x. 0xFF" False ftfe_emulator]
  by simp

end
