(* ===== verification/Zones.thy ===== *)
theory Zones
  imports Flash_Store
begin

unbundle bit_operations_syntax

text \<open>
  Zones.c: the zone table. A zone has a volatile part in \<open>zoneArray\<close> and a record in flash its
  \<open>nvZoneProperties\<close> pointer refers to; its Eliot device id is a record of its own. Pointers into
  flash are addresses, NULL is \<open>None\<close>. The flash layout of the record (30 bytes: name, pad byte,
  little-endian group id, device type, ramp rate, building, house, room, pad byte) is that of the
  target's ABI.

  \<open>SetZoneProperties\<close> is modelled with its flash traffic. What the C compiler leaves undefined is an
  argument: \<open>stack\<close> is the content of the uninitialised local records, \<open>junk\<close> and \<open>junkE\<close> what lies
  behind the RAM arrays.
\<close>

record volatile_zone =
  AppContextId :: dword_t
  vz_state :: bool
  targetState :: bool
  powerLevel :: byte
  targetPowerLevel :: byte
  nvZoneProperties :: "nat option"
  nvEliotZoneProperties :: "nat option"

record zone_properties =
  zp_AppContextId :: dword_t
  zp_groupId :: word_t
  zp_state :: bool
  zp_targetState :: bool
  zp_powerLevel :: byte
  zp_targetPowerLevel :: byte
  zp_rampRate :: byte
  zp_deviceType :: byte
  zp_buildingId :: byte
  zp_houseId :: byte
  zp_roomId :: byte
  zp_ZoneNameString :: "byte list"
  zp_EliotDeviceId :: "byte list"

record zone_state =
  flash :: memory
  zoneArray :: "volatile_zone list"
  shadeIdStrings :: "byte list list"
  global_houseID :: byte

abbreviation MAX_SIZE_NAME_STRING :: nat where "MAX_SIZE_NAME_STRING \<equiv> 21"
abbreviation ELIOT_DEVICE_ID_SIZE :: nat where "ELIOT_DEVICE_ID_SIZE \<equiv> 37"
abbreviation SHADE_TYPE :: byte where "SHADE_TYPE \<equiv> 0xf0"
abbreviation SHADE_GROUP_TYPE :: byte where "SHADE_GROUP_TYPE \<equiv> 0xf1"

subsection \<open>The flash record of a zone\<close>

definition nz_name :: "byte list \<Rightarrow> byte list" where "nz_name b = take MAX_SIZE_NAME_STRING b"
definition nz_groupId :: "byte list \<Rightarrow> word_t" where "nz_groupId b = word_of_bytes (b ! 23) (b ! 22)"
definition nz_deviceType :: "byte list \<Rightarrow> byte" where "nz_deviceType b = b ! 24"
definition nz_rampRate :: "byte list \<Rightarrow> byte" where "nz_rampRate b = b ! 25"
definition nz_buildingId :: "byte list \<Rightarrow> byte" where "nz_buildingId b = b ! 26"
definition nz_houseId :: "byte list \<Rightarrow> byte" where "nz_houseId b = b ! 27"
definition nz_roomId :: "byte list \<Rightarrow> byte" where "nz_roomId b = b ! 28"

text \<open>Assigning the fields of a record that held the bytes \<open>old\<close>; padding keeps its value.\<close>

definition set_nv_zone :: "zone_properties \<Rightarrow> byte list \<Rightarrow> byte list" where
  "set_nv_zone p old =
     snprintf_s MAX_SIZE_NAME_STRING (take MAX_SIZE_NAME_STRING old) (zp_ZoneNameString p) @
     [old ! 21, LowByteOfWord (zp_groupId p), HighByteOfWord (zp_groupId p), zp_deviceType p,
      zp_rampRate p, zp_buildingId p, zp_houseId p, zp_roomId p, old ! 29]"

definition set_nv_eliot :: "byte list \<Rightarrow> byte list \<Rightarrow> byte list" where
  "set_nv_eliot deviceId old = snprintf_s ELIOT_DEVICE_ID_SIZE old deviceId"

definition zone_record :: "memory \<Rightarrow> nat \<Rightarrow> byte list" where
  "zone_record m p = read_bytes m p sizeof_nv_zone"

definition eliot_record :: "memory \<Rightarrow> nat \<Rightarrow> byte list" where
  "eliot_record m p = read_bytes m p sizeof_nv_eliot"

subsection \<open>The zone table\<close>

definition initial_zone :: volatile_zone where
  "initial_zone = \<lparr>AppContextId = 0, vz_state = False, targetState = False, powerLevel = 100,
     targetPowerLevel = 100, nvZoneProperties = None, nvEliotZoneProperties = None\<rparr>"

definition InitializeZoneArray :: "zone_state \<Rightarrow> zone_state" where
  "InitializeZoneArray st =
     st\<lparr>zoneArray := replicate MAX_NUMBER_OF_ZONES initial_zone,
        shadeIdStrings := map (\<lambda>s. replicate (length s) 0) (shadeIdStrings st)\<rparr>"

definition nv_zone_of :: "zone_state \<Rightarrow> nat \<Rightarrow> byte list option" where
  "nv_zone_of st i = map_option (zone_record (flash st)) (nvZoneProperties (zoneArray st ! i))"

definition AnyZonesInArray :: "zone_state \<Rightarrow> bool" where
  "AnyZonesInArray st \<longleftrightarrow>
     loop_find (\<lambda>i. case nv_zone_of st i of None \<Rightarrow> False
        | Some b \<Rightarrow> nz_name b ! 0 \<noteq> 0 \<and> nz_deviceType b \<noteq> SHADE_TYPE \<and> nz_deviceType b \<noteq> SHADE_GROUP_TYPE)
       0 MAX_NUMBER_OF_ZONES < MAX_NUMBER_OF_ZONES"

definition GetAvailableZoneIndex :: "zone_state \<Rightarrow> nat" where
  "GetAvailableZoneIndex st =
     loop_find (\<lambda>i. case nv_zone_of st i of None \<Rightarrow> True | Some b \<Rightarrow> nz_name b ! 0 = 0)
       0 MAX_NUMBER_OF_ZONES"

definition GetZoneIndex :: "zone_state \<Rightarrow> word_t \<Rightarrow> byte \<Rightarrow> byte \<Rightarrow> nat" where
  "GetZoneIndex st groupId buildingId houseId =
     loop_find (\<lambda>i. case nv_zone_of st i of None \<Rightarrow> False
        | Some b \<Rightarrow> nz_name b ! 0 \<noteq> 0 \<and> nz_groupId b = groupId \<and> nz_buildingId b = buildingId \<and>
                    nz_houseId b = houseId)
       0 MAX_NUMBER_OF_ZONES"

text \<open>\<open>out\<close> is the caller's structure; bytes behind the copied strings keep their value.\<close>

definition GetZoneProperties :: "zone_state \<Rightarrow> nat \<Rightarrow> zone_properties \<Rightarrow> bool \<times> zone_properties" where
  "GetZoneProperties st i out =
     (if i < MAX_NUMBER_OF_ZONES then
        let z = zoneArray st ! i in
        case nv_zone_of st i of
          None \<Rightarrow> (False, out)
        | Some b \<Rightarrow>
            (True,
             out\<lparr>zp_AppContextId := AppContextId z, zp_groupId := nz_groupId b, zp_state := vz_state z,
                 zp_targetState := targetState z, zp_powerLevel := powerLevel z,
                 zp_targetPowerLevel := targetPowerLevel z, zp_rampRate := nz_rampRate b,
                 zp_deviceType := nz_deviceType b, zp_buildingId := nz_buildingId b,
                 zp_houseId := nz_houseId b, zp_roomId := nz_roomId b,
                 zp_ZoneNameString :=
                   snprintf_s MAX_SIZE_NAME_STRING (zp_ZoneNameString out) (nz_name b),
                 zp_EliotDeviceId :=
                   (case nvEliotZoneProperties z of
                      None \<Rightarrow> replicate ELIOT_DEVICE_ID_SIZE 0
                    | Some p \<Rightarrow> snprintf_s ELIOT_DEVICE_ID_SIZE (zp_EliotDeviceId out)
                                  (eliot_record (flash st) p))\<rparr>)
      else (False, out))"

definition update_zone :: "nat \<Rightarrow> (volatile_zone \<Rightarrow> volatile_zone) \<Rightarrow> zone_state \<Rightarrow> zone_state" where
  "update_zone i f st = st\<lparr>zoneArray := (zoneArray st)[i := f (zoneArray st ! i)]\<rparr>"

definition clear_nv :: "nat \<Rightarrow> zone_state \<Rightarrow> zone_state" where
  "clear_nv i = update_zone i (\<lambda>z. z\<lparr>nvZoneProperties := None\<rparr>)"

definition clear_nv_eliot :: "nat \<Rightarrow> zone_state \<Rightarrow> zone_state" where
  "clear_nv_eliot i = update_zone i (\<lambda>z. z\<lparr>nvEliotZoneProperties := None\<rparr>)"

subsection \<open>SetZoneProperties\<close>

text \<open>RAM the routine reads without having written it: the uninitialised local records, and what
  lies behind the two static arrays.\<close>

record unset_ram =
  local_zone :: memory
  local_eliot :: memory
  behind_zones :: memory
  behind_eliots :: memory

definition zone_differs :: "zone_properties \<Rightarrow> byte list \<Rightarrow> bool" where
  "zone_differs p b \<longleftrightarrow>
     zp_groupId p \<noteq> nz_groupId b \<or> zp_deviceType p \<noteq> nz_deviceType b \<or>
     zp_rampRate p \<noteq> nz_rampRate b \<or> zp_buildingId p \<noteq> nz_buildingId b \<or>
     zp_houseId p \<noteq> nz_houseId b \<or> zp_roomId p \<noteq> nz_roomId b \<or>
     \<not> strncmp_eq MAX_SIZE_NAME_STRING (zp_ZoneNameString p) (nz_name b)"

text \<open>The slot of the zone is blank: the records are written without an erase.\<close>

definition store_new_zone ::
  "ftfe_hw \<Rightarrow> unset_ram \<Rightarrow> nat \<Rightarrow> zone_properties \<Rightarrow> nat \<Rightarrow> zone_state \<Rightarrow> zone_state" where
  "store_new_zone hw ur i p eliotPtr st =
     (if zp_ZoneNameString p ! 0 \<noteq> 0 then
        let nvZone = set_nv_zone p (read_bytes (local_zone ur) 0 sizeof_nv_zone);
            (m1, rc1) = WriteZonePropertiesToFlash hw (flash st) i (array_ram nvZone (local_zone ur)) 0;
            st1 = st\<lparr>flash := m1\<rparr>;
            st1 = (if rc1 \<noteq> FTFx_OK then clear_nv i st1 else st1)
        in if memory_initialized (eliot_record m1 eliotPtr) then clear_nv_eliot i st1
           else if zp_EliotDeviceId p ! 0 \<noteq> 0 then
             let nvEliot = set_nv_eliot (zp_EliotDeviceId p) (read_bytes (local_eliot ur) 0 sizeof_nv_eliot);
                 (m2, rc2) = WriteEliotZonePropertiesToFlash hw m1 i (array_ram nvEliot (local_eliot ur)) 0;
                 st2 = st1\<lparr>flash := m2\<rparr>
             in if rc2 \<noteq> FTFx_OK then clear_nv_eliot i st2 else st2
           else clear_nv_eliot i st1
      else clear_nv_eliot i (clear_nv i st))"

text \<open>The zone exists and differs: the whole table is read, changed, erased and written back. The
  array routines return, 100 fits their counter.\<close>

definition save_zone ::
  "ftfe_hw \<Rightarrow> unset_ram \<Rightarrow> nat \<Rightarrow> zone_properties \<Rightarrow> zone_state \<Rightarrow> zone_state" where
  "save_zone hw ur i p st =
     (let nvZoneArray = the (ReadAllZonePropertiesFromFlash (flash st) MAX_NUMBER_OF_ZONES);
          named = zp_ZoneNameString p ! 0 \<noteq> 0;
          nvZoneArray = nvZoneArray[i := if named then set_nv_zone p (nvZoneArray ! i)
                                         else replicate sizeof_nv_zone 0xFF];
          st1 = (if named then st else clear_nv i st);
          m1 = EraseZonesFromFlash hw (flash st)
      in st1\<lparr>flash := the (WriteAllZonePropertiesToFlash hw m1 nvZoneArray (behind_zones ur)
                             MAX_NUMBER_OF_ZONES)\<rparr>)"

definition save_eliot_zone ::
  "ftfe_hw \<Rightarrow> unset_ram \<Rightarrow> nat \<Rightarrow> zone_properties \<Rightarrow> zone_state \<Rightarrow> zone_state" where
  "save_eliot_zone hw ur i p st =
     (let k = i mod NUM_ELIOT_PROPERTIES_IN_FLASH_SECTOR;
          (_, nvEliotZoneArray) = ReadEliotZonePropertiesFromFlashSector (flash st) i []
                                    NUM_ELIOT_PROPERTIES_IN_FLASH_SECTOR;
          given = zp_EliotDeviceId p ! 0 \<noteq> 0;
          nvEliotZoneArray = nvEliotZoneArray[k := if given then set_nv_eliot (zp_EliotDeviceId p) (nvEliotZoneArray ! k)
                                                  else replicate sizeof_nv_eliot 0xFF];
          st1 = (if given then st else clear_nv_eliot i st);
          m1 = EraseEliotZonePropertiesFromFlash hw (flash st) i
      in st1\<lparr>flash := snd (WriteEliotZonePropertiesToFlashSector hw m1 i nvEliotZoneArray (behind_eliots ur)
                             NUM_ELIOT_PROPERTIES_IN_FLASH_SECTOR)\<rparr>)"

text \<open>The volatile part, assigned first.\<close>

definition assign_volatile :: "zone_properties \<Rightarrow> nat \<Rightarrow> nat \<Rightarrow> volatile_zone \<Rightarrow> volatile_zone" where
  "assign_volatile p nvPtr eliotPtr z =
     \<lparr>AppContextId = zp_AppContextId p, vz_state = zp_state p, targetState = zp_targetState p,
      powerLevel = zp_powerLevel p, targetPowerLevel = zp_targetPowerLevel p,
      nvZoneProperties = Some nvPtr, nvEliotZoneProperties = Some eliotPtr\<rparr>"

definition SetZoneProperties ::
  "ftfe_hw \<Rightarrow> unset_ram \<Rightarrow> zone_state \<Rightarrow> nat \<Rightarrow> zone_properties \<Rightarrow> bool \<times> zone_state" where
  "SetZoneProperties hw ur st i p =
     (if i < MAX_NUMBER_OF_ZONES then
        case (GetNVZonePropertiesPtr (flash st) i False, GetNVEliotZonePropertiesPtr (flash st) i False) of
          (Some nvPtr, Some eliotPtr) \<Rightarrow>
            let st1 = update_zone i (assign_volatile p nvPtr eliotPtr) st in
            if \<not> memory_initialized (zone_record (flash st1) nvPtr) then
              (True, store_new_zone hw ur i p eliotPtr st1)
            else
              let st2 = (if zone_differs p (zone_record (flash st1) nvPtr)
                         then save_zone hw ur i p st1 else st1)
              in (True,
                  if \<not> strncmp_eq ELIOT_DEVICE_ID_SIZE (zp_EliotDeviceId p) (eliot_record (flash st2) eliotPtr)
                  then save_eliot_zone hw ur i p st2 else st2)
        | _ \<Rightarrow> (False, st)
      else (False, st))"

text \<open>\<open>LoadZonesFromFlash\<close>: the valid records become the zones; the first zone decides the house.\<close>

definition load_zone :: "nat \<Rightarrow> zone_state \<times> nat \<Rightarrow> zone_state \<times> nat" where
  "load_zone i = (\<lambda>(st, n).
     case GetNVZonePropertiesPtr (flash st) i True of
       None \<Rightarrow> (st, n)
     | Some nvPtr \<Rightarrow>
         let st1 = (if global_houseID st = 0
                    then st\<lparr>global_houseID := nz_houseId (zone_record (flash st) nvPtr)\<rparr> else st)
         in (update_zone i (\<lambda>z. z\<lparr>nvZoneProperties := Some nvPtr,
               nvEliotZoneProperties := GetNVEliotZonePropertiesPtr (flash st) i True\<rparr>) st1, n + 1))"

definition LoadZonesFromFlash :: "zone_state \<Rightarrow> zone_state \<times> nat" where
  "LoadZonesFromFlash st = fold load_zone [0..<MAX_NUMBER_OF_ZONES] (st, 0)"

text \<open>\<open>strcmp\<close> of a string in flash with a string without its NUL.\<close>

definition strcmp_flash :: "memory \<Rightarrow> nat \<Rightarrow> byte list \<Rightarrow> bool" where
  "strcmp_flash m p s \<longleftrightarrow> read_bytes m p (length s + 1) = s @ [0]"

definition GetZoneIndexFromDeviceId :: "memory \<Rightarrow> byte list \<Rightarrow> nat" where
  "GetZoneIndexFromDeviceId m deviceId =
     loop_find (\<lambda>i. case GetNVEliotZonePropertiesPtr m i True of None \<Rightarrow> False
        | Some p \<Rightarrow> strcmp_flash m p deviceId) 0 MAX_NUMBER_OF_ZONES"

subsection \<open>Reading back a record\<close>

lemma length_set_nv_zone [simp]: "length old = sizeof_nv_zone \<Longrightarrow> length (set_nv_zone p old) = sizeof_nv_zone"
  by (simp add: set_nv_zone_def)

lemma length_set_nv_eliot [simp]: "length old = sizeof_nv_eliot \<Longrightarrow> length (set_nv_eliot d old) = sizeof_nv_eliot"
  by (simp add: set_nv_eliot_def)

lemma nth_21: "length xs = 21 \<Longrightarrow> (xs @ ys) ! (21 + k) = ys ! k"
  by (metis nth_append_length_plus)

lemma set_nv_zone_fields:
  assumes "length old = sizeof_nv_zone"
  shows "nz_groupId (set_nv_zone p old) = zp_groupId p" "nz_deviceType (set_nv_zone p old) = zp_deviceType p"
    "nz_rampRate (set_nv_zone p old) = zp_rampRate p" "nz_buildingId (set_nv_zone p old) = zp_buildingId p"
    "nz_houseId (set_nv_zone p old) = zp_houseId p" "nz_roomId (set_nv_zone p old) = zp_roomId p"
    "cstr MAX_SIZE_NAME_STRING (nz_name (set_nv_zone p old)) = cstr (MAX_SIZE_NAME_STRING - 1) (zp_ZoneNameString p)"
proof -
  let ?n = "snprintf_s 21 (take 21 old) (zp_ZoneNameString p)"
  have l: "length ?n = 21" using assms by (intro length_snprintf_s) simp_all
  note n = nth_21 [OF l]
  show "nz_groupId (set_nv_zone p old) = zp_groupId p" "nz_deviceType (set_nv_zone p old) = zp_deviceType p"
    "nz_rampRate (set_nv_zone p old) = zp_rampRate p" "nz_buildingId (set_nv_zone p old) = zp_buildingId p"
    "nz_houseId (set_nv_zone p old) = zp_houseId p" "nz_roomId (set_nv_zone p old) = zp_roomId p"
    using n [of _ 1] n [of _ 2] n [of _ 3] n [of _ 4] n [of _ 5] n [of _ 6] n [of _ 7]
    by (simp_all add: set_nv_zone_def nz_groupId_def nz_deviceType_def nz_rampRate_def
        nz_buildingId_def nz_houseId_def nz_roomId_def)
  have "nz_name (set_nv_zone p old) = ?n" using l by (simp add: nz_name_def set_nv_zone_def)
  then show "cstr MAX_SIZE_NAME_STRING (nz_name (set_nv_zone p old)) = cstr (MAX_SIZE_NAME_STRING - 1) (zp_ZoneNameString p)"
    by (simp add: cstr_snprintf_s)
qed

text \<open>A record that holds a string is not blank.\<close>

lemma snprintf_nul: "0 \<in> set (snprintf_s n dst src)"
  by (simp add: snprintf_s_def Let_def)

lemma initialized_nul: "0 \<in> set b \<Longrightarrow> memory_initialized b"
  by (auto simp: memory_initialized_def list_ex_iff intro: bexI [of _ 0])

lemma set_nv_zone_initialized [simp]: "memory_initialized (set_nv_zone p old)"
  by (rule initialized_nul) (simp add: set_nv_zone_def snprintf_nul)

lemma set_nv_eliot_initialized [simp]: "memory_initialized (set_nv_eliot d old)"
  by (rule initialized_nul) (simp add: set_nv_eliot_def snprintf_nul)

lemma cstr_set_nv_eliot: "cstr ELIOT_DEVICE_ID_SIZE (set_nv_eliot d old) = cstr (ELIOT_DEVICE_ID_SIZE - 1) d"
  by (simp add: set_nv_eliot_def cstr_snprintf_s)

subsection \<open>The two records of a zone\<close>

definition zrec :: "memory \<Rightarrow> nat \<Rightarrow> byte list" where "zrec m i = ReadNV zone_region m i"
definition erec :: "memory \<Rightarrow> nat \<Rightarrow> byte list" where "erec m i = ReadNV eliot_zone_region m i"

definition flash_ok :: "memory \<Rightarrow> bool" where
  "flash_ok m \<longleftrightarrow> (\<forall>j < MAX_NUMBER_OF_ZONES. zones.slot_ok m j \<and> eliot_zones.slot_ok m j)"

text \<open>The bytes outside the sectors of the zones and of their Eliot ids.\<close>

definition outside_zones :: "nat \<Rightarrow> bool" where
  "outside_zones x \<longleftrightarrow> x < 0xdd000 \<or> 0xde000 \<le> x \<and> x < 0xeb000 \<or> 0xed000 \<le> x"

text \<open>From \<open>m\<close> to \<open>m'\<close> the records of zone \<open>i\<close> became \<open>z\<close> and \<open>e\<close>; nothing else changed.\<close>

definition flash_step :: "memory \<Rightarrow> memory \<Rightarrow> nat \<Rightarrow> byte list \<Rightarrow> byte list \<Rightarrow> bool" where
  "flash_step m m' i z e \<longleftrightarrow> flash_ok m' \<and>
     (\<forall>j < MAX_NUMBER_OF_ZONES. zrec m' j = (if j = i then z else zrec m j) \<and>
                                 erec m' j = (if j = i then e else erec m j)) \<and>
     (\<forall>x. outside_zones x \<longrightarrow> m' x = m x)"

abbreviation zone_ptr :: "nat \<Rightarrow> nat" where "zone_ptr i \<equiv> rg_addr zone_region i + 8"
abbreviation eliot_ptr :: "nat \<Rightarrow> nat" where "eliot_ptr i \<equiv> rg_addr eliot_zone_region i + 8"

lemma length_zrec [simp]: "length (zrec m i) = sizeof_nv_zone"
  using zones.length_ReadNV [of m i] by (simp add: zrec_def zone_region_def)

lemma length_erec [simp]: "length (erec m i) = sizeof_nv_eliot"
  using eliot_zones.length_ReadNV [of m i] by (simp add: erec_def eliot_zone_region_def)

lemma region_sizes: "rg_size zone_region = 30" "rg_size eliot_zone_region = 37"
  by (simp_all add: region_defs)

lemma zone_lookup:
  assumes "flash_ok m" "i < MAX_NUMBER_OF_ZONES"
  shows "GetNVZonePropertiesPtr m i True = (if memory_initialized (zrec m i) then Some (zone_ptr i) else None)"
    and "GetNVZonePropertiesPtr m i False = Some (zone_ptr i)"
    and "zone_record m (zone_ptr i) = zrec m i"
    and "zones.blank m i \<longleftrightarrow> \<not> memory_initialized (zrec m i)"
proof -
  have ok: "zones.slot_ok m i" using assms by (simp add: flash_ok_def)
  show 1: "GetNVZonePropertiesPtr m i True = (if memory_initialized (zrec m i) then Some (zone_ptr i) else None)"
    using zones.slot_ok_GetNVPtr [OF assms(2) ok] by (simp add: GetNVZonePropertiesPtr_def zrec_def)
  show "GetNVZonePropertiesPtr m i False = Some (zone_ptr i)"
    by (simp add: GetNVZonePropertiesPtr_def zones.GetNVPtr_cap [OF assms(2)])
  show b: "zones.blank m i \<longleftrightarrow> \<not> memory_initialized (zrec m i)"
    using ok assms(2) by (auto simp: zones.slot_ok_def zones.ReadNV_blank zrec_def)
  show "zone_record m (zone_ptr i) = zrec m i"
  proof (cases "memory_initialized (zrec m i)")
    case True
    with 1 show ?thesis
      by (simp add: zrec_def ReadNV_def GetNVZonePropertiesPtr_def zone_record_def region_sizes)
  next
    case False
    with b have "zones.blank m i" by simp
    from zones.blank_bytes [OF this, of "8 + k" for k] zones.ReadNV_blank [OF assms(2) this] show ?thesis
      by (simp add: zone_record_def zrec_def region_sizes read_bytes_eq_iff add.assoc)
  qed
qed

lemma eliot_lookup:
  assumes "flash_ok m" "i < MAX_NUMBER_OF_ZONES"
  shows "GetNVEliotZonePropertiesPtr m i True = (if memory_initialized (erec m i) then Some (eliot_ptr i) else None)"
    and "GetNVEliotZonePropertiesPtr m i False = Some (eliot_ptr i)"
    and "eliot_record m (eliot_ptr i) = erec m i"
    and "eliot_zones.blank m i \<longleftrightarrow> \<not> memory_initialized (erec m i)"
proof -
  have ok: "eliot_zones.slot_ok m i" using assms by (simp add: flash_ok_def)
  show 1: "GetNVEliotZonePropertiesPtr m i True = (if memory_initialized (erec m i) then Some (eliot_ptr i) else None)"
    using eliot_zones.slot_ok_GetNVPtr [OF assms(2) ok] by (simp add: GetNVEliotZonePropertiesPtr_def erec_def)
  show "GetNVEliotZonePropertiesPtr m i False = Some (eliot_ptr i)"
    by (simp add: GetNVEliotZonePropertiesPtr_def eliot_zones.GetNVPtr_cap [OF assms(2)])
  show b: "eliot_zones.blank m i \<longleftrightarrow> \<not> memory_initialized (erec m i)"
    using ok assms(2) by (auto simp: eliot_zones.slot_ok_def eliot_zones.ReadNV_blank erec_def)
  show "eliot_record m (eliot_ptr i) = erec m i"
  proof (cases "memory_initialized (erec m i)")
    case True
    with 1 show ?thesis
      by (simp add: erec_def ReadNV_def GetNVEliotZonePropertiesPtr_def eliot_record_def region_sizes)
  next
    case False
    with b have "eliot_zones.blank m i" by simp
    from eliot_zones.blank_bytes [OF this, of "8 + k" for k] eliot_zones.ReadNV_blank [OF assms(2) this] show ?thesis
      by (simp add: eliot_record_def erec_def region_sizes read_bytes_eq_iff add.assoc)
  qed
qed

lemma eliot_slots_frame:
  assumes "\<And>x. 0xeb000 \<le> x \<Longrightarrow> m' x = m x" "j < MAX_NUMBER_OF_ZONES"
  shows "erec m' j = erec m j" "eliot_zones.slot_ok m' j \<longleftrightarrow> eliot_zones.slot_ok m j"
proof -
  have "rg_start eliot_zone_region = 0xeb000" by (simp add: eliot_zone_region_def)
  with eliot_zones.addr_ge [OF assms(2)] have start: "0xeb000 \<le> rg_addr eliot_zone_region j"
    by simp
  have "m' x = m x" if "rg_addr eliot_zone_region j \<le> x" for x
    using start that by (intro assms(1)) linarith
  then have "eliot_zones.slot_bytes m' j = eliot_zones.slot_bytes m j"
    unfolding eliot_zones.slot_bytes_def by (rule read_bytes_cong)
  from eliot_zones.ReadNV_cong(1) [OF assms(2) this] eliot_zones.slot_ok_cong [OF assms(2) this]
  show "erec m' j = erec m j" "eliot_zones.slot_ok m' j \<longleftrightarrow> eliot_zones.slot_ok m j"
    unfolding erec_def .
qed

lemma zone_slots_frame:
  assumes "\<And>x. x < 0xde000 \<Longrightarrow> m' x = m x" "j < MAX_NUMBER_OF_ZONES"
  shows "zrec m' j = zrec m j" "zones.slot_ok m' j \<longleftrightarrow> zones.slot_ok m j"
proof -
  have "rg_end zone_region = 0xddfff" by (simp add: zone_region_def)
  with zones.slot_in_region [OF assms(2)] have stop: "rg_addr zone_region j + 8 + 32 \<le> 0xddfff" by simp
  have "m' x = m x" if "x < rg_addr zone_region j + (8 + 32)" for x
    using stop that by (intro assms(1)) linarith
  then have "zones.slot_bytes m' j = zones.slot_bytes m j"
    unfolding zones.slot_bytes_def by (intro read_bytes_cong)
  from zones.ReadNV_cong(1) [OF assms(2) this] zones.slot_ok_cong [OF assms(2) this]
  show "zrec m' j = zrec m j" "zones.slot_ok m' j \<longleftrightarrow> zones.slot_ok m j"
    unfolding zrec_def .
qed

lemma read_local: "length b = n \<Longrightarrow> read_bytes (array_ram b ram) 0 n = b"
  using read_array_ram [of b ram] by simp

lemma write_new_zone:
  assumes "ftfe_reliable hw" "flash_ok m" "i < MAX_NUMBER_OF_ZONES" "\<not> memory_initialized (zrec m i)"
    and b: "length b = sizeof_nv_zone" "memory_initialized b"
  obtains m' where "WriteZonePropertiesToFlash hw m i (array_ram b ram) 0 = (m', FTFx_OK)"
    and "flash_step m m' i b (erec m i)"
proof -
  let ?w = "WriteNV zone_region hw m i (array_ram b ram) 0"
  let ?m = "fst ?w"
  note store = zone_store [OF assms(1)]
  have bl: "zones.blank m i" using zone_lookup(4) [OF assms(2,3)] assms(4) by simp
  have rd: "read_bytes (array_ram b ram) 0 (rg_size zone_region) = b"
    using b(1) by (simp add: region_sizes read_local)
  have init: "memory_initialized (read_bytes (array_ram b ram) 0 (rg_size zone_region))"
    using b(2) by (simp add: rd)
  have out: "?m x = m x" if "x < rg_addr zone_region i \<or> rg_addr zone_region i + 8 + 32 \<le> x" for x
    by (rule flash_store.WriteNV_outside [OF store assms(3) bl that])
  have away: "?m x = m x" if "x < 0xdd000 \<or> 0xde000 \<le> x" for x
  proof (rule out)
    show "x < rg_addr zone_region i \<or> rg_addr zone_region i + 8 + 32 \<le> x"
      using that assms(3) by (auto simp: zone_region_def)
  qed
  then have far: "?m x = m x" if "0xeb000 \<le> x" for x using that by simp
  have e: "erec ?m j = erec m j" "eliot_zones.slot_ok ?m j \<longleftrightarrow> eliot_zones.slot_ok m j"
    if "j < MAX_NUMBER_OF_ZONES" for j
    using eliot_slots_frame [of ?m m j, OF far that] by blast+
  have "zones.slot_bytes ?m j = zones.slot_bytes m j" if "j < MAX_NUMBER_OF_ZONES" "j \<noteq> i" for j
    by (rule zones.slot_outside_slot [of i ?m m j, OF out assms(3) that(1) that(2) [symmetric]])
  from zones.ReadNV_cong(1) [OF _ this] zones.slot_ok_cong [OF _ this]
  have z: "zrec ?m j = zrec m j" "zones.slot_ok ?m j = zones.slot_ok m j"
    if "j < MAX_NUMBER_OF_ZONES" "j \<noteq> i" for j
    using that unfolding zrec_def by blast+
  have "zrec ?m i = b" "zones.slot_ok ?m i"
    using flash_store.WriteNV_slot [OF store assms(3) bl, of "array_ram b ram" 0] rd by (simp_all add: zrec_def)
  with e z assms(2) have "flash_step m ?m i b (erec m i)"
    by (auto simp: flash_step_def flash_ok_def outside_zones_def intro: away)
  moreover have "?w = (?m, FTFx_OK)"
    using flash_store.WriteNV_blank [OF store assms(3) init bl] by simp
  ultimately show thesis using that by (simp add: WriteZonePropertiesToFlash_def)
qed

lemma write_new_eliot:
  assumes "ftfe_reliable hw" "flash_ok m" "i < MAX_NUMBER_OF_ZONES" "\<not> memory_initialized (erec m i)"
    and b: "length b = sizeof_nv_eliot" "memory_initialized b"
  obtains m' where "WriteEliotZonePropertiesToFlash hw m i (array_ram b ram) 0 = (m', FTFx_OK)"
    and "flash_step m m' i (zrec m i) b"
proof -
  let ?w = "WriteNV eliot_zone_region hw m i (array_ram b ram) 0"
  let ?m = "fst ?w"
  note store = eliot_zone_store [OF assms(1)]
  have bl: "eliot_zones.blank m i" using eliot_lookup(4) [OF assms(2,3)] assms(4) by simp
  have rd: "read_bytes (array_ram b ram) 0 (rg_size eliot_zone_region) = b"
    using b(1) by (simp add: region_sizes read_local)
  have init: "memory_initialized (read_bytes (array_ram b ram) 0 (rg_size eliot_zone_region))"
    using b(2) by (simp add: rd)
  have out: "?m x = m x" if "x < rg_addr eliot_zone_region i \<or> rg_addr eliot_zone_region i + 8 + 40 \<le> x" for x
    by (rule flash_store.WriteNV_outside [OF store assms(3) bl that])
  have bounds: "rg_start eliot_zone_region = 0xeb000" "rg_end eliot_zone_region = 0xecfff"
    by (simp_all add: eliot_zone_region_def)
  have away: "?m x = m x" if "x < 0xeb000 \<or> 0xed000 \<le> x" for x
  proof (rule out)
    show "x < rg_addr eliot_zone_region i \<or> rg_addr eliot_zone_region i + 8 + 40 \<le> x"
      using that bounds eliot_zones.addr_ge [OF assms(3)] eliot_zones.slot_in_region [OF assms(3)] by linarith
  qed
  then have far: "?m x = m x" if "x < 0xde000" for x using that by simp
  have e: "zrec ?m j = zrec m j" "zones.slot_ok ?m j \<longleftrightarrow> zones.slot_ok m j"
    if "j < MAX_NUMBER_OF_ZONES" for j
    using zone_slots_frame [of ?m m j, OF far that] by blast+
  have "eliot_zones.slot_bytes ?m j = eliot_zones.slot_bytes m j" if "j < MAX_NUMBER_OF_ZONES" "j \<noteq> i" for j
    by (rule eliot_zones.slot_outside_slot [of i ?m m j, OF out assms(3) that(1) that(2) [symmetric]])
  from eliot_zones.ReadNV_cong(1) [OF _ this] eliot_zones.slot_ok_cong [OF _ this]
  have z: "erec ?m j = erec m j" "eliot_zones.slot_ok ?m j = eliot_zones.slot_ok m j"
    if "j < MAX_NUMBER_OF_ZONES" "j \<noteq> i" for j
    using that unfolding erec_def by blast+
  have "erec ?m i = b" "eliot_zones.slot_ok ?m i"
    using flash_store.WriteNV_slot [OF store assms(3) bl, of "array_ram b ram" 0] rd by (simp_all add: erec_def)
  with e z assms(2) have "flash_step m ?m i (zrec m i) b"
    by (auto simp: flash_step_def flash_ok_def outside_zones_def intro: away)
  moreover have "?w = (?m, FTFx_OK)"
    using flash_store.WriteNV_blank [OF store assms(3) init bl] by simp
  ultimately show thesis using that by (simp add: WriteEliotZonePropertiesToFlash_def)
qed

lemma map_eq_nth: "map f [0..<n] = xs \<Longrightarrow> j < n \<Longrightarrow> f j = xs ! j"
  by auto

lemma ReadAllZones: "ReadAllZonePropertiesFromFlash m MAX_NUMBER_OF_ZONES = Some (map (zrec m) [0..<MAX_NUMBER_OF_ZONES])"
  by (simp add: ReadAllZonePropertiesFromFlash_def ReadAllNV_def zrec_def [abs_def])

lemma rewrite_zones:
  assumes "ftfe_reliable hw" "flash_ok m" "i < MAX_NUMBER_OF_ZONES" "length b = sizeof_nv_zone"
  shows "flash_step m (the (WriteAllZonePropertiesToFlash hw (EraseZonesFromFlash hw m)
      ((map (zrec m) [0..<MAX_NUMBER_OF_ZONES])[i := b]) junk MAX_NUMBER_OF_ZONES)) i b (erec m i)"
proof -
  let ?arr = "(map (zrec m) [0..<MAX_NUMBER_OF_ZONES])[i := b]"
  have "\<forall>x \<in> set ?arr. length x = rg_size zone_region" "length ?arr = MAX_NUMBER_OF_ZONES"
    using assms(4) by (auto simp: region_sizes dest!: set_update_subset_insert [THEN subsetD])
  note cycle = flash_store.array_roundtrip [OF zone_store [OF assms(1)] refl this]
  let ?m = "write_slots zone_region hw (\<lambda>i. i) ?arr junk MAX_NUMBER_OF_ZONES
              (EraseSectorNV zone_region MAX_NUMBER_OF_ZONES hw m 0)"
  have start: "rg_start zone_region = 0xdd000" by (simp add: zone_region_def)
  have away: "?m x = m x" if "x < 0xdd000 \<or> 0xde000 \<le> x" for x using cycle(4) [of x junk m] that by (simp add: start)
  then have far: "?m x = m x" if "0xeb000 \<le> x" for x using that by simp
  have e: "erec ?m j = erec m j" "eliot_zones.slot_ok ?m j \<longleftrightarrow> eliot_zones.slot_ok m j"
    if "j < MAX_NUMBER_OF_ZONES" for j
    using eliot_slots_frame [of ?m m j, OF far that] by blast+
  have "map (zrec ?m) [0..<MAX_NUMBER_OF_ZONES] = ?arr"
    using cycle(2) [of junk m] by (simp add: ReadAllNV_def zrec_def [abs_def])
  from map_eq_nth [OF this] have z: "zrec ?m j = (if j = i then b else zrec m j)"
    if "j < MAX_NUMBER_OF_ZONES" for j
    using that by (simp add: nth_list_update)
  have "zones.slot_ok ?m j" if "j < MAX_NUMBER_OF_ZONES" for j using cycle(3) [OF that] .
  with e z assms(2) away have "flash_step m ?m i b (erec m i)"
    by (simp add: flash_step_def flash_ok_def outside_zones_def)
  then show ?thesis
    using cycle(1) [of m junk] by (simp add: WriteAllZonePropertiesToFlash_def EraseZonesFromFlash_def)
qed

text \<open>The index of a slot in its sector of 50.\<close>

lemma sector_of_zone:
  assumes "i < MAX_NUMBER_OF_ZONES" "k < 50"
  shows "(k + i div 50 * 50) mod 256 = k + i div 50 * 50" "k + i div 50 * 50 < MAX_NUMBER_OF_ZONES"
proof -
  have "i div 50 \<le> 1" using assms(1) by simp
  then show "k + i div 50 * 50 < MAX_NUMBER_OF_ZONES" using assms(2) by linarith
  then show "(k + i div 50 * 50) mod 256 = k + i div 50 * 50" by simp
qed

lemma ReadEliotZones:
  assumes "i < MAX_NUMBER_OF_ZONES"
  shows "ReadEliotZonePropertiesFromFlashSector m i old NUM_ELIOT_PROPERTIES_IN_FLASH_SECTOR =
    (False, map (\<lambda>k. erec m (k + i div 50 * 50)) [0..<NUM_ELIOT_PROPERTIES_IN_FLASH_SECTOR])"
  using sector_of_zone(1) [OF assms]
  by (simp add: ReadEliotZonePropertiesFromFlashSector_def ReadSectorNV_def Let_def erec_def)

lemma rewrite_eliots:
  assumes "ftfe_reliable hw" "flash_ok m" "i < MAX_NUMBER_OF_ZONES" "length b = sizeof_nv_eliot"
  shows "flash_step m (snd (WriteEliotZonePropertiesToFlashSector hw (EraseEliotZonePropertiesFromFlash hw m i) i
      ((map (\<lambda>k. erec m (k + i div 50 * 50)) [0..<NUM_ELIOT_PROPERTIES_IN_FLASH_SECTOR])[i mod 50 := b])
      junk NUM_ELIOT_PROPERTIES_IN_FLASH_SECTOR)) i (zrec m i) b"
proof -
  let ?arr = "(map (\<lambda>k. erec m (k + i div 50 * 50)) [0..<NUM_ELIOT_PROPERTIES_IN_FLASH_SECTOR])[i mod 50 := b]"
  have len: "\<forall>x \<in> set ?arr. length x = rg_size eliot_zone_region" "length ?arr = NUM_ELIOT_PROPERTIES_IN_FLASH_SECTOR"
    using assms(4) by (auto simp: region_sizes dest!: set_update_subset_insert [THEN subsetD])
  let ?m = "write_slots eliot_zone_region hw (\<lambda>k. k + i div 50 * 50) ?arr junk 50
              (EraseSectorNV eliot_zone_region 50 hw m i)"
  note rw = flash_store.rewrite_sector [OF eliot_zone_store [OF assms(1)] assms(3) len]
  have start: "rg_start eliot_zone_region = 0xeb000" by (simp add: eliot_zone_region_def)
  have "i div 50 \<le> 1" using assms(3) by simp
  then have away: "?m x = m x" if "x < 0xeb000 \<or> 0xed000 \<le> x" for x using that by (intro rw(3)) (auto simp: start)
  then have far: "?m x = m x" if "x < 0xde000" for x using that by simp
  have z: "zrec ?m j = zrec m j" "zones.slot_ok ?m j \<longleftrightarrow> zones.slot_ok m j"
    if "j < MAX_NUMBER_OF_ZONES" for j
    using zone_slots_frame [of ?m m j, OF far that] by blast+
  have same: "erec ?m j = ?arr ! (j mod 50) \<and> eliot_zones.slot_ok ?m j"
    if "j < MAX_NUMBER_OF_ZONES" "j div 50 = i div 50" for j
    using rw(1) [OF that] by (simp add: erec_def)
  have arr: "?arr ! (j mod 50) = (if j = i then b else erec m j)" if "j div 50 = i div 50" for j
  proof -
    have "j mod 50 + i div 50 * 50 = j" using that by (metis add.commute div_mult_mod_eq)
    moreover have "i mod 50 = j mod 50 \<longleftrightarrow> i = j" using that by (metis div_mult_mod_eq)
    ultimately show ?thesis by (auto simp: nth_list_update)
  qed
  have other: "erec ?m j = erec m j \<and> eliot_zones.slot_ok ?m j = eliot_zones.slot_ok m j"
    if "j < MAX_NUMBER_OF_ZONES" "j div 50 \<noteq> i div 50" for j
    using eliot_zones.ReadNV_cong(1) [OF that(1) rw(2) [OF that]] eliot_zones.slot_ok_cong [OF that(1) rw(2) [OF that]]
    by (simp add: erec_def)
  have "erec ?m j = (if j = i then b else erec m j) \<and> eliot_zones.slot_ok ?m j"
    if "j < MAX_NUMBER_OF_ZONES" for j
    using same [OF that] other [OF that] arr [of j] assms(2) that
    by (cases "j div 50 = i div 50") (auto simp: flash_ok_def)
  with z assms(2) away have "flash_step m ?m i (zrec m i) b"
    by (simp add: flash_step_def flash_ok_def outside_zones_def)
  moreover have "snd (WriteEliotZonePropertiesToFlashSector hw (EraseEliotZonePropertiesFromFlash hw m i) i
      ?arr junk 50) = ?m"
    unfolding WriteEliotZonePropertiesToFlashSector_def EraseEliotZonePropertiesFromFlash_def WriteSectorNV_def Let_def
    using sector_of_zone(1) [OF assms(3)] by (simp cong: flash_store.write_slots_cong [OF eliot_zone_store [OF assms(1)]])
  ultimately show ?thesis by simp
qed

lemma flash_step_trans:
  "flash_step m m1 i z e \<Longrightarrow> flash_step m1 m2 i z' e' \<Longrightarrow> flash_step m m2 i z' e'"
  by (simp add: flash_step_def)

lemma flash_step_refl: "flash_ok m \<Longrightarrow> flash_step m m i (zrec m i) (erec m i)"
  by (simp add: flash_step_def)

lemma flash_step_ok: "flash_step m m' i z e \<Longrightarrow> flash_ok m'"
  by (simp add: flash_step_def)

lemma flash_step_at:
  "flash_step m m' i z e \<Longrightarrow> i < MAX_NUMBER_OF_ZONES \<Longrightarrow> zrec m' i = z \<and> erec m' i = e"
  by (simp add: flash_step_def)

subsection \<open>The invariant of the zone table\<close>

text \<open>Every record is valid or erased; the pointers of \<open>zoneArray\<close> are exactly those a reload would
  find; a stored zone has a
  name, and a stored Eliot id is a non-empty string and belongs to a zone.\<close>

definition zone_inv :: "zone_state \<Rightarrow> bool" where
  "zone_inv st \<longleftrightarrow> length (zoneArray st) = MAX_NUMBER_OF_ZONES \<and> flash_ok (flash st) \<and>
     (\<forall>i < MAX_NUMBER_OF_ZONES.
        nvZoneProperties (zoneArray st ! i) = GetNVZonePropertiesPtr (flash st) i True \<and>
        nvEliotZoneProperties (zoneArray st ! i) = GetNVEliotZonePropertiesPtr (flash st) i True \<and>
        (memory_initialized (zrec (flash st) i) \<longrightarrow> nz_name (zrec (flash st) i) ! 0 \<noteq> 0) \<and>
        (memory_initialized (erec (flash st) i) \<longrightarrow>
           memory_initialized (zrec (flash st) i) \<and> erec (flash st) i ! 0 \<noteq> 0))"

text \<open>What the callers pass: terminated strings, and a deleted zone loses its Eliot id.\<close>

definition zone_args_ok :: "zone_properties \<Rightarrow> bool" where
  "zone_args_ok p \<longleftrightarrow>
     length (zp_ZoneNameString p) = MAX_SIZE_NAME_STRING \<and> 0 \<in> set (zp_ZoneNameString p) \<and>
     length (zp_EliotDeviceId p) = ELIOT_DEVICE_ID_SIZE \<and> 0 \<in> set (zp_EliotDeviceId p) \<and>
     (zp_ZoneNameString p ! 0 = 0 \<longrightarrow> zp_EliotDeviceId p ! 0 = 0)"

definition zone_matches :: "zone_properties \<Rightarrow> byte list \<Rightarrow> bool" where
  "zone_matches p b \<longleftrightarrow>
     nz_groupId b = zp_groupId p \<and> nz_deviceType b = zp_deviceType p \<and> nz_rampRate b = zp_rampRate p \<and>
     nz_buildingId b = zp_buildingId p \<and> nz_houseId b = zp_houseId p \<and> nz_roomId b = zp_roomId p \<and>
     cstr MAX_SIZE_NAME_STRING (nz_name b) = cstr MAX_SIZE_NAME_STRING (zp_ZoneNameString p)"

lemma cstr_terminated:
  assumes "length a = Suc n" "0 \<in> set a"
  shows "cstr n a = cstr (Suc n) a"
proof -
  obtain x xs where a: "a = xs @ [x]" "length xs = n"
    using assms(1) by (metis length_Suc_conv_rev)
  show ?thesis
  proof (cases "0 \<in> set xs")
    case True
    then show ?thesis using a by (auto simp: cstr_def takeWhile_append1)
  next
    case False
    then have "takeWhile (\<lambda>b. b \<noteq> 0) xs = xs" by (auto simp: takeWhile_eq_all_conv)
    moreover have "x = 0" using False assms(2) a by auto
    ultimately show ?thesis using a by (auto simp: cstr_def takeWhile_append2)
  qed
qed

lemma set_nv_zone_matches:
  "zone_args_ok p \<Longrightarrow> length old = sizeof_nv_zone \<Longrightarrow> zone_matches p (set_nv_zone p old)"
  using cstr_terminated [of "zp_ZoneNameString p" 20]
  by (simp add: zone_matches_def zone_args_ok_def set_nv_zone_fields)

lemma not_differs_matches:
  assumes "zone_args_ok p" "length b = sizeof_nv_zone" "\<not> zone_differs p b"
  shows "zone_matches p b"
  using assms strncmp_eq_cstr [of 21 "zp_ZoneNameString p" "nz_name b"]
  by (auto simp: zone_matches_def zone_args_ok_def zone_differs_def nz_name_def)

lemma nonempty_cstr: "a ! 0 \<noteq> 0 \<longleftrightarrow> cstr n a \<noteq> []" if "0 < n" "a \<noteq> []"
  using that by (cases a; cases n) (auto simp: cstr_def)

lemma named_cstr:
  assumes "cstr 21 a = cstr 21 b" "a \<noteq> []" "b \<noteq> []"
  shows "a ! 0 \<noteq> 0 \<longleftrightarrow> b ! 0 \<noteq> 0"
  using assms nonempty_cstr [of 21 a] nonempty_cstr [of 21 b] by simp

text \<open>A blank record never compares equal to a terminated string.\<close>

lemma erased_differs:
  assumes "length d = n" "0 \<in> set d" "length b = n" "\<not> memory_initialized b"
  shows "\<not> strncmp_eq n d b"
proof -
  have "b = replicate n 0xFF" using assms(3,4) not_initialized_iff by metis
  then have "cstr n b = replicate n 0xFF" by (simp add: cstr_def takeWhile_eq_all_conv)
  moreover have "cstr n d \<noteq> replicate n 0xFF"
  proof
    assume "cstr n d = replicate n 0xFF"
    then have "length (takeWhile (\<lambda>b. b \<noteq> 0) d) = length d" using assms(1) by (simp add: cstr_def)
    then have "takeWhile (\<lambda>b. b \<noteq> 0) d = d" by (metis takeWhile_eq_take take_all_iff order_refl)
    with assms(2) show False by (metis (mono_tags) set_takeWhileD)
  qed
  ultimately show ?thesis using assms strncmp_eq_cstr [of n d b] by simp
qed

subsection \<open>The branches of SetZoneProperties\<close>

lemma update_zone_simps [simp]:
  "flash (update_zone i f st) = flash st"
  "zoneArray (update_zone i f st) = (zoneArray st)[i := f (zoneArray st ! i)]"
  "flash (clear_nv i st) = flash st" "flash (clear_nv_eliot i st) = flash st"
  "zoneArray (clear_nv i st) = (zoneArray st)[i := (zoneArray st ! i)\<lparr>nvZoneProperties := None\<rparr>]"
  "zoneArray (clear_nv_eliot i st) = (zoneArray st)[i := (zoneArray st ! i)\<lparr>nvEliotZoneProperties := None\<rparr>]"
  by (simp_all add: update_zone_def clear_nv_def clear_nv_eliot_def)

lemma store_new_zone_effect:
  fixes ur :: unset_ram and st :: zone_state and p :: zone_properties
  assumes "ftfe_reliable hw" "flash_ok (flash st)" "i < MAX_NUMBER_OF_ZONES"
    and blank: "\<not> memory_initialized (zrec (flash st) i)" "\<not> memory_initialized (erec (flash st) i)"
    and named: "zp_ZoneNameString p ! 0 \<noteq> 0"
  defines "z \<equiv> set_nv_zone p (read_bytes (local_zone ur) 0 sizeof_nv_zone)"
    and "e \<equiv> set_nv_eliot (zp_EliotDeviceId p) (read_bytes (local_eliot ur) 0 sizeof_nv_eliot)"
  shows "\<exists>m'. flash_step (flash st) m' i z (if zp_EliotDeviceId p ! 0 \<noteq> 0 then e else erec (flash st) i) \<and>
    store_new_zone hw ur i p (eliot_ptr i) st =
      (if zp_EliotDeviceId p ! 0 \<noteq> 0 then st\<lparr>flash := m'\<rparr> else clear_nv_eliot i (st\<lparr>flash := m'\<rparr>))"
proof -
  obtain m1 where m1: "WriteZonePropertiesToFlash hw (flash st) i (array_ram z (local_zone ur)) 0 = (m1, FTFx_OK)"
    "flash_step (flash st) m1 i z (erec (flash st) i)"
    using write_new_zone [OF assms(1-3) blank(1), of z "local_zone ur"] by (auto simp: z_def)
  have ok1: "flash_ok m1" using m1(2) by (rule flash_step_ok)
  have e1: "\<not> memory_initialized (erec m1 i)" using flash_step_at [OF m1(2) assms(3)] blank(2) by simp
  obtain m2 where m2: "WriteEliotZonePropertiesToFlash hw m1 i (array_ram e (local_eliot ur)) 0 = (m2, FTFx_OK)"
    "flash_step m1 m2 i (zrec m1 i) e"
    using write_new_eliot [OF assms(1) ok1 assms(3) e1, of e "local_eliot ur"] by (auto simp: e_def)
  have "flash_step (flash st) m2 i z e"
    using flash_step_trans [OF m1(2) m2(2)] flash_step_at [OF m1(2) assms(3)] by simp
  with m1 m2 named e1 show ?thesis
    by (intro exI [of _ "if zp_EliotDeviceId p ! 0 \<noteq> 0 then m2 else m1"])
      (simp add: store_new_zone_def eliot_lookup(3) [OF ok1 assms(3)] Let_def z_def e_def)
qed

lemma save_zone_effect:
  fixes ur :: unset_ram and st :: zone_state and p :: zone_properties
  assumes "ftfe_reliable hw" "flash_ok (flash st)" "i < MAX_NUMBER_OF_ZONES"
  defines "z \<equiv> if zp_ZoneNameString p ! 0 \<noteq> 0 then set_nv_zone p (zrec (flash st) i)
               else replicate sizeof_nv_zone 0xFF"
  shows "\<exists>m'. flash_step (flash st) m' i z (erec (flash st) i) \<and>
    save_zone hw ur i p st =
      (if zp_ZoneNameString p ! 0 \<noteq> 0 then st else clear_nv i st)\<lparr>flash := m'\<rparr>"
proof -
  have "length z = sizeof_nv_zone" by (simp add: z_def)
  from rewrite_zones [OF assms(1-3) this, of "behind_zones ur"] assms(3) show ?thesis
    by (intro exI conjI) (simp_all add: save_zone_def Let_def ReadAllZones z_def cong: if_cong)
qed

lemma save_eliot_zone_effect:
  fixes ur :: unset_ram and st :: zone_state and p :: zone_properties
  assumes "ftfe_reliable hw" "flash_ok (flash st)" "i < MAX_NUMBER_OF_ZONES"
  defines "e \<equiv> if zp_EliotDeviceId p ! 0 \<noteq> 0 then set_nv_eliot (zp_EliotDeviceId p) (erec (flash st) i)
               else replicate sizeof_nv_eliot 0xFF"
  shows "\<exists>m'. flash_step (flash st) m' i (zrec (flash st) i) e \<and>
    save_eliot_zone hw ur i p st =
      (if zp_EliotDeviceId p ! 0 \<noteq> 0 then st else clear_nv_eliot i st)\<lparr>flash := m'\<rparr>"
proof -
  have "length e = sizeof_nv_eliot" by (simp add: e_def)
  moreover have "i mod 50 + i div 50 * 50 = i" by simp
  ultimately show ?thesis using rewrite_eliots [OF assms(1-3), of e "behind_eliots ur"] assms(3)
    by (intro exI conjI) (simp_all add: save_eliot_zone_def Let_def ReadEliotZones e_def cong: if_cong)
qed

text \<open>The outcome of a save: \<open>z\<close> and \<open>e\<close> are the records of the zone afterwards.\<close>

definition set_outcome ::
  "zone_properties \<Rightarrow> nat \<Rightarrow> zone_state \<Rightarrow> zone_state \<Rightarrow> byte list \<Rightarrow> byte list \<Rightarrow> bool" where
  "set_outcome p i st st' z e \<longleftrightarrow>
     flash_step (flash st) (flash st') i z e \<and>
     (let named = zp_ZoneNameString p ! 0 \<noteq> 0; given = zp_EliotDeviceId p ! 0 \<noteq> 0 in
      (memory_initialized z \<longleftrightarrow> named) \<and> (named \<longrightarrow> zone_matches p z) \<and>
      (memory_initialized e \<longleftrightarrow> given) \<and>
      (given \<longrightarrow> cstr ELIOT_DEVICE_ID_SIZE e = cstr ELIOT_DEVICE_ID_SIZE (zp_EliotDeviceId p)) \<and>
      zoneArray st' = (zoneArray st)[i := (assign_volatile p (zone_ptr i) (eliot_ptr i) undefined)
         \<lparr>nvZoneProperties := if named then Some (zone_ptr i) else None,
          nvEliotZoneProperties := if given then Some (eliot_ptr i) else None\<rparr>])"

lemma assign_volatile_undefined:
  "assign_volatile p a b z = assign_volatile p a b undefined"
  "nvZoneProperties (assign_volatile p a b z) = Some a"
  "nvEliotZoneProperties (assign_volatile p a b z) = Some b"
  by (simp_all add: assign_volatile_def)

lemma zone_invD:
  assumes "zone_inv st" "i < MAX_NUMBER_OF_ZONES"
  shows "flash_ok (flash st)" "length (zoneArray st) = MAX_NUMBER_OF_ZONES"
    "memory_initialized (erec (flash st) i) \<Longrightarrow> memory_initialized (zrec (flash st) i)"
    "memory_initialized (erec (flash st) i) \<Longrightarrow> erec (flash st) i ! 0 \<noteq> 0"
    "memory_initialized (zrec (flash st) i) \<Longrightarrow> nz_name (zrec (flash st) i) ! 0 \<noteq> 0"
  using assms by (auto simp: zone_inv_def)

lemma cstr_eliot_terminated:
  "zone_args_ok p \<Longrightarrow> cstr 36 (zp_EliotDeviceId p) = cstr 37 (zp_EliotDeviceId p)"
  using cstr_terminated [of "zp_EliotDeviceId p" 36] by (simp add: zone_args_ok_def)

lemma set_new_zone:
  assumes "ftfe_reliable hw" "zone_inv st" "i < MAX_NUMBER_OF_ZONES" "zone_args_ok p"
    and blank: "\<not> memory_initialized (zrec (flash st) i)"
  shows "\<exists>st' z e. SetZoneProperties hw ur st i p = (True, st') \<and> set_outcome p i st st' z e"
proof -
  note inv = zone_invD [OF assms(2,3)]
  let ?st1 = "update_zone i (assign_volatile p (zone_ptr i) (eliot_ptr i)) st"
  have eblank: "\<not> memory_initialized (erec (flash st) i)" using inv(3) blank by blast
  have set: "SetZoneProperties hw ur st i p = (True, store_new_zone hw ur i p (eliot_ptr i) ?st1)"
    using assms(3) blank zone_lookup [OF inv(1) assms(3)] eliot_lookup [OF inv(1) assms(3)]
    by (simp add: SetZoneProperties_def Let_def)
  show ?thesis
  proof (cases "zp_ZoneNameString p ! 0 \<noteq> 0")
    case True
    let ?z = "set_nv_zone p (read_bytes (local_zone ur) 0 sizeof_nv_zone)"
    let ?e = "if zp_EliotDeviceId p ! 0 \<noteq> 0
      then set_nv_eliot (zp_EliotDeviceId p) (read_bytes (local_eliot ur) 0 sizeof_nv_eliot) else erec (flash st) i"
    have "flash_ok (flash ?st1)" using inv(1) by simp
    from store_new_zone_effect [OF assms(1) this assms(3) _ _ True, of ur] blank eblank
    obtain m' where "flash_step (flash st) m' i ?z ?e"
      "store_new_zone hw ur i p (eliot_ptr i) ?st1 =
       (if zp_EliotDeviceId p ! 0 \<noteq> 0 then ?st1\<lparr>flash := m'\<rparr> else clear_nv_eliot i (?st1\<lparr>flash := m'\<rparr>))"
      unfolding update_zone_simps by blast
    then have "set_outcome p i st (store_new_zone hw ur i p (eliot_ptr i) ?st1) ?z ?e"
      using True eblank inv(2) assms(3) set_nv_zone_matches [OF assms(4)] cstr_eliot_terminated [OF assms(4)]
      by (auto simp: set_outcome_def Let_def cstr_set_nv_eliot assign_volatile_def)
    with set show ?thesis by blast
  next
    case False
    have "set_outcome p i st (store_new_zone hw ur i p (eliot_ptr i) ?st1) (zrec (flash st) i) (erec (flash st) i)"
      using False blank eblank assms(3,4) inv(1,2) flash_step_refl
      by (auto simp: set_outcome_def Let_def store_new_zone_def assign_volatile_def zone_args_ok_def)
    with set show ?thesis by blast
  qed
qed

lemma deleted_differs:
  assumes "zone_args_ok p" "zp_ZoneNameString p ! 0 = 0" "length b = sizeof_nv_zone" "nz_name b ! 0 \<noteq> 0"
  shows "zone_differs p b"
proof (rule ccontr)
  assume "\<not> zone_differs p b"
  with not_differs_matches [OF assms(1,3)]
  have c: "cstr 21 (nz_name b) = cstr 21 (zp_ZoneNameString p)" by (auto simp: zone_matches_def)
  have "nz_name b \<noteq> []" "zp_ZoneNameString p \<noteq> []" using assms(1,3) by (auto simp: nz_name_def zone_args_ok_def)
  with c assms(2,4) show False
    using nonempty_cstr [of 21 "nz_name b"] nonempty_cstr [of 21 "zp_ZoneNameString p"] by simp
qed

text \<open>The zone part of a save of an existing zone.\<close>

lemma save_zone_part:
  assumes "ftfe_reliable hw" "flash_ok (flash st)" "i < MAX_NUMBER_OF_ZONES" "zone_args_ok p"
    and init: "memory_initialized (zrec (flash st) i)" "nz_name (zrec (flash st) i) ! 0 \<noteq> 0"
  shows "\<exists>m' z. flash_step (flash st) m' i z (erec (flash st) i) \<and>
    (memory_initialized z \<longleftrightarrow> zp_ZoneNameString p ! 0 \<noteq> 0) \<and> (zp_ZoneNameString p ! 0 \<noteq> 0 \<longrightarrow> zone_matches p z) \<and>
    (if zone_differs p (zrec (flash st) i) then save_zone hw ur i p st else st) =
      (if zp_ZoneNameString p ! 0 \<noteq> 0 then st else clear_nv i st)\<lparr>flash := m'\<rparr>"
proof (cases "zone_differs p (zrec (flash st) i)")
  case True
  let ?z = "if zp_ZoneNameString p ! 0 \<noteq> 0 then set_nv_zone p (zrec (flash st) i)
            else replicate sizeof_nv_zone 0xFF"
  obtain m' where "flash_step (flash st) m' i ?z (erec (flash st) i)"
    "save_zone hw ur i p st = (if zp_ZoneNameString p ! 0 \<noteq> 0 then st else clear_nv i st)\<lparr>flash := m'\<rparr>"
    using save_zone_effect [OF assms(1-3), of p ur] by blast
  with True set_nv_zone_matches [OF assms(4)] show ?thesis
    by (intro exI [of _ m'] exI [of _ ?z]) simp
next
  case False
  then have "zp_ZoneNameString p ! 0 \<noteq> 0" using deleted_differs [OF assms(4) _ _ init(2)] by auto
  moreover have "zone_matches p (zrec (flash st) i)" using not_differs_matches [OF assms(4)] False by simp
  ultimately show ?thesis using False init(1) flash_step_refl [OF assms(2), of i]
    by (intro exI [of _ "flash st"] exI [of _ "zrec (flash st) i"]) simp
qed

text \<open>The Eliot part.\<close>

lemma save_eliot_part:
  assumes "ftfe_reliable hw" "flash_ok (flash st)" "i < MAX_NUMBER_OF_ZONES" "zone_args_ok p"
    and init: "memory_initialized (erec (flash st) i) \<Longrightarrow> erec (flash st) i ! 0 \<noteq> 0"
  shows "\<exists>m' e. flash_step (flash st) m' i (zrec (flash st) i) e \<and>
    (memory_initialized e \<longleftrightarrow> zp_EliotDeviceId p ! 0 \<noteq> 0) \<and>
    (zp_EliotDeviceId p ! 0 \<noteq> 0 \<longrightarrow> cstr 37 e = cstr 37 (zp_EliotDeviceId p)) \<and>
    (if \<not> strncmp_eq 37 (zp_EliotDeviceId p) (erec (flash st) i) then save_eliot_zone hw ur i p st else st) =
      (if zp_EliotDeviceId p ! 0 \<noteq> 0 then st else clear_nv_eliot i st)\<lparr>flash := m'\<rparr>"
proof (cases "strncmp_eq 37 (zp_EliotDeviceId p) (erec (flash st) i)")
  case False
  let ?e = "if zp_EliotDeviceId p ! 0 \<noteq> 0 then set_nv_eliot (zp_EliotDeviceId p) (erec (flash st) i)
            else replicate sizeof_nv_eliot 0xFF"
  obtain m' where "flash_step (flash st) m' i (zrec (flash st) i) ?e"
    "save_eliot_zone hw ur i p st = (if zp_EliotDeviceId p ! 0 \<noteq> 0 then st else clear_nv_eliot i st)\<lparr>flash := m'\<rparr>"
    using save_eliot_zone_effect [OF assms(1-3), of p ur] by blast
  with False cstr_eliot_terminated [OF assms(4)] show ?thesis
    by (intro exI [of _ m'] exI [of _ ?e]) (simp add: cstr_set_nv_eliot)
next
  case True
  have d: "length (zp_EliotDeviceId p) = 37" "0 \<in> set (zp_EliotDeviceId p)" "zp_EliotDeviceId p \<noteq> []"
    using assms(4) by (auto simp: zone_args_ok_def)
  from True d have i: "memory_initialized (erec (flash st) i)" using erased_differs [OF d(1,2) length_erec] by blast
  have c: "cstr 37 (zp_EliotDeviceId p) = cstr 37 (erec (flash st) i)"
    using True d strncmp_eq_cstr [of 37 "zp_EliotDeviceId p" "erec (flash st) i"] by simp
  have "erec (flash st) i \<noteq> []" using length_erec [of "flash st" i] by force
  with c d(3) init [OF i] have "zp_EliotDeviceId p ! 0 \<noteq> 0"
    using nonempty_cstr [of 37 "zp_EliotDeviceId p"] nonempty_cstr [of 37 "erec (flash st) i"] by simp
  then show ?thesis using True c i flash_step_refl [OF assms(2), of i]
    by (intro exI [of _ "flash st"] exI [of _ "erec (flash st) i"]) simp
qed

lemma set_old_zone:
  assumes "ftfe_reliable hw" "zone_inv st" "i < MAX_NUMBER_OF_ZONES" "zone_args_ok p"
    and init: "memory_initialized (zrec (flash st) i)"
  shows "\<exists>st' z e. SetZoneProperties hw ur st i p = (True, st') \<and> set_outcome p i st st' z e"
proof -
  note inv = zone_invD [OF assms(2,3)]
  let ?st1 = "update_zone i (assign_volatile p (zone_ptr i) (eliot_ptr i)) st"
  let ?st2 = "if zone_differs p (zrec (flash st) i) then save_zone hw ur i p ?st1 else ?st1"
  have "flash_ok (flash ?st1)" using inv(1) by simp
  from save_zone_part [OF assms(1) this assms(3,4), of ur] init inv(5)
  obtain m1 z where 1: "flash_step (flash st) m1 i z (erec (flash st) i)"
    "memory_initialized z \<longleftrightarrow> zp_ZoneNameString p ! 0 \<noteq> 0" "zp_ZoneNameString p ! 0 \<noteq> 0 \<longrightarrow> zone_matches p z"
    and st2: "?st2 = (if zp_ZoneNameString p ! 0 \<noteq> 0 then ?st1 else clear_nv i ?st1)\<lparr>flash := m1\<rparr>"
    unfolding update_zone_simps by blast
  have f2: "flash ?st2 = m1" unfolding st2 by simp
  have ok2: "flash_ok (flash ?st2)" unfolding f2 using 1(1) by (rule flash_step_ok)
  note at = flash_step_at [OF 1(1) assms(3)]
  from save_eliot_part [OF assms(1) ok2 assms(3,4), of ur] inv(4)
  obtain m2 e where 2: "flash_step m1 m2 i z e"
    "memory_initialized e \<longleftrightarrow> zp_EliotDeviceId p ! 0 \<noteq> 0"
    "zp_EliotDeviceId p ! 0 \<noteq> 0 \<longrightarrow> cstr 37 e = cstr 37 (zp_EliotDeviceId p)"
    and st3: "(if \<not> strncmp_eq 37 (zp_EliotDeviceId p) (erec m1 i) then save_eliot_zone hw ur i p ?st2 else ?st2) =
      (if zp_EliotDeviceId p ! 0 \<noteq> 0 then ?st2 else clear_nv_eliot i ?st2)\<lparr>flash := m2\<rparr>"
    unfolding f2 using at by metis
  let ?st3 = "(if zp_EliotDeviceId p ! 0 \<noteq> 0 then ?st2 else clear_nv_eliot i ?st2)\<lparr>flash := m2\<rparr>"
  have ok1: "flash_ok m1" using 1(1) by (rule flash_step_ok)
  have "SetZoneProperties hw ur st i p = (True, ?st3)"
    unfolding st3 [symmetric] using assms(3) init zone_lookup [OF inv(1) assms(3)] eliot_lookup [OF inv(1) assms(3)]
      eliot_lookup(3) [OF ok1 assms(3)] f2
    by (simp add: SetZoneProperties_def Let_def)
  moreover have "set_outcome p i st ?st3 z e"
    using 1 2 flash_step_trans [OF 1(1) 2(1)] inv(2) assms(3)
    by (simp add: set_outcome_def Let_def st2 assign_volatile_def)
  ultimately show ?thesis by blast
qed

lemma SetZoneProperties_outcome:
  assumes "ftfe_reliable hw" "zone_inv st" "i < MAX_NUMBER_OF_ZONES" "zone_args_ok p"
  obtains st' z e where "SetZoneProperties hw ur st i p = (True, st')" "set_outcome p i st st' z e"
  using set_new_zone [OF assms] set_old_zone [OF assms] by blast

lemma takeWhile_take: "takeWhile P (take n xs) = take n (takeWhile P xs)"
  by (induction xs arbitrary: n) (auto simp: take_Cons')

lemma cstr_take: "cstr n a = take n (takeWhile (\<lambda>b. b \<noteq> 0) a)"
  by (simp add: cstr_def takeWhile_take)

lemma cstr_short: "length (cstr (Suc n) a) \<le> n \<Longrightarrow> cstr n a = cstr (Suc n) a"
  by (auto simp: cstr_take min_def split: if_splits)

subsection \<open>Preservation of the invariant\<close>

lemma set_outcome_inv:
  assumes "zone_inv st" "i < MAX_NUMBER_OF_ZONES" "zone_args_ok p" "set_outcome p i st st' z e"
  shows "zone_inv st'"
proof -
  let ?named = "zp_ZoneNameString p ! 0 \<noteq> 0" and ?given = "zp_EliotDeviceId p ! 0 \<noteq> 0"
  have step: "flash_step (flash st) (flash st') i z e"
    and named: "memory_initialized z \<longleftrightarrow> ?named" "?named \<Longrightarrow> zone_matches p z"
    and given: "memory_initialized e \<longleftrightarrow> ?given"
      "?given \<Longrightarrow> cstr ELIOT_DEVICE_ID_SIZE e = cstr ELIOT_DEVICE_ID_SIZE (zp_EliotDeviceId p)"
    and arr: "zoneArray st' = (zoneArray st)[i := (assign_volatile p (zone_ptr i) (eliot_ptr i) undefined)
         \<lparr>nvZoneProperties := if ?named then Some (zone_ptr i) else None,
          nvEliotZoneProperties := if ?given then Some (eliot_ptr i) else None\<rparr>]"
    using assms(4) by (simp_all add: set_outcome_def Let_def)
  have ok: "flash_ok (flash st')" using step by (rule flash_step_ok)
  have args: "?given \<Longrightarrow> ?named" "zp_ZoneNameString p \<noteq> []" "zp_EliotDeviceId p \<noteq> []"
    using assms(3) by (auto simp: zone_args_ok_def)
  have ne: "z \<noteq> []" "e \<noteq> []"
    using flash_step_at [OF step assms(2)] length_zrec [of "flash st'" i] length_erec [of "flash st'" i] by force+
  have zname: "nz_name z ! 0 \<noteq> 0" if ?named
  proof -
    have "cstr 21 (nz_name z) = cstr 21 (zp_ZoneNameString p)" using named(2) [OF that] by (simp add: zone_matches_def)
    then show ?thesis using that args(2) ne(1) nonempty_cstr [of 21 "nz_name z"]
        nonempty_cstr [of 21 "zp_ZoneNameString p"] by (simp add: nz_name_def)
  qed
  have eid: "e ! 0 \<noteq> 0" if ?given
    using given(2) [OF that] that args(3) ne(2) nonempty_cstr [of 37 e] nonempty_cstr [of 37 "zp_EliotDeviceId p"]
    by simp
  have entry: "nvZoneProperties (zoneArray st' ! j) = GetNVZonePropertiesPtr (flash st') j True \<and>
      nvEliotZoneProperties (zoneArray st' ! j) = GetNVEliotZonePropertiesPtr (flash st') j True \<and>
      (memory_initialized (zrec (flash st') j) \<longrightarrow> nz_name (zrec (flash st') j) ! 0 \<noteq> 0) \<and>
      (memory_initialized (erec (flash st') j) \<longrightarrow>
         memory_initialized (zrec (flash st') j) \<and> erec (flash st') j ! 0 \<noteq> 0)"
    if j: "j < MAX_NUMBER_OF_ZONES" for j
  proof (cases "j = i")
    case True
    then show ?thesis
      using flash_step_at [OF step assms(2)] zone_lookup(1) [OF ok j] eliot_lookup(1) [OF ok j] named(1) given(1)
        args(1) zname eid arr zone_invD(2) [OF assms(1,2)] j by simp
  next
    case False
    then have r: "zrec (flash st') j = zrec (flash st) j" "erec (flash st') j = erec (flash st) j"
      using step j by (simp_all add: flash_step_def)
    have ok0: "flash_ok (flash st)" by (rule zone_invD(1) [OF assms(1,2)])
    show ?thesis
      using False arr assms(1) j zone_lookup(1) [OF ok j] eliot_lookup(1) [OF ok j]
        zone_lookup(1) [OF ok0 j] eliot_lookup(1) [OF ok0 j]
      by (simp add: zone_inv_def r)
  qed
  then show ?thesis using ok arr zone_invD(2) [OF assms(1,2)] by (simp add: zone_inv_def)
qed

lemma nv_zone_of_inv:
  assumes "zone_inv st" "i < MAX_NUMBER_OF_ZONES"
  shows "nv_zone_of st i = (if memory_initialized (zrec (flash st) i) then Some (zrec (flash st) i) else None)"
  using assms zone_lookup [OF zone_invD(1) [OF assms] assms(2)]
  by (simp add: zone_inv_def nv_zone_of_def)

lemma eliot_of_inv:
  assumes "zone_inv st" "i < MAX_NUMBER_OF_ZONES"
  shows "nvEliotZoneProperties (zoneArray st ! i) =
      (if memory_initialized (erec (flash st) i) then Some (eliot_ptr i) else None)"
    "eliot_record (flash st) (eliot_ptr i) = erec (flash st) i"
  using assms eliot_lookup [OF zone_invD(1) [OF assms] assms(2)]
  by (simp_all add: zone_inv_def)

text \<open>The non-volatile properties two structures share.\<close>

definition same_nonvolatile :: "zone_properties \<Rightarrow> zone_properties \<Rightarrow> bool" where
  "same_nonvolatile p q \<longleftrightarrow>
     zp_groupId q = zp_groupId p \<and> zp_deviceType q = zp_deviceType p \<and> zp_rampRate q = zp_rampRate p \<and>
     zp_buildingId q = zp_buildingId p \<and> zp_houseId q = zp_houseId p \<and> zp_roomId q = zp_roomId p \<and>
     cstr MAX_SIZE_NAME_STRING (zp_ZoneNameString q) = cstr MAX_SIZE_NAME_STRING (zp_ZoneNameString p) \<and>
     cstr ELIOT_DEVICE_ID_SIZE (zp_EliotDeviceId q) = cstr ELIOT_DEVICE_ID_SIZE (zp_EliotDeviceId p)"

definition same_volatile :: "zone_properties \<Rightarrow> zone_properties \<Rightarrow> bool" where
  "same_volatile p q \<longleftrightarrow>
     zp_AppContextId q = zp_AppContextId p \<and> zp_state q = zp_state p \<and> zp_targetState q = zp_targetState p \<and>
     zp_powerLevel q = zp_powerLevel p \<and> zp_targetPowerLevel q = zp_targetPowerLevel p"

lemma cstr_zeros: "cstr n (replicate k 0) = []"
  by (cases n; cases k) (simp_all add: cstr_def)

text \<open>What \<open>GetZoneProperties\<close> returns for a zone whose records are \<open>z\<close> and \<open>e\<close>.\<close>

lemma GetZoneProperties_records:
  assumes "zone_inv st" "i < MAX_NUMBER_OF_ZONES" "zone_args_ok p"
    and "memory_initialized (zrec (flash st) i)" "zone_matches p (zrec (flash st) i)"
    and "memory_initialized (erec (flash st) i) \<longleftrightarrow> zp_EliotDeviceId p ! 0 \<noteq> 0"
    and "zp_EliotDeviceId p ! 0 \<noteq> 0 \<Longrightarrow> cstr 37 (erec (flash st) i) = cstr 37 (zp_EliotDeviceId p)"
  shows "fst (GetZoneProperties st i out)" "same_nonvolatile p (snd (GetZoneProperties st i out))"
proof -
  let ?z = "zrec (flash st) i" and ?e = "erec (flash st) i"
  have c: "cstr 21 (nz_name ?z) = cstr 21 (zp_ZoneNameString p)" using assms(5) by (simp add: zone_matches_def)
  have "length (cstr 21 (zp_ZoneNameString p)) \<le> 20"
    using cstr_terminated [of "zp_ZoneNameString p" 20] assms(3) length_cstr_le [of 20] by (metis eval_nat_numeral(3) zone_args_ok_def semiring_norm(26-28))
  then have n: "cstr 20 (nz_name ?z) = cstr 21 (zp_ZoneNameString p)"
    using cstr_short [of 20 "nz_name ?z"] c by simp
  have "length (cstr 37 (zp_EliotDeviceId p)) \<le> 36"
    using cstr_eliot_terminated [OF assms(3)] length_cstr_le [of 36 "zp_EliotDeviceId p"] by simp
  then have e: "cstr 36 ?e = cstr 37 (zp_EliotDeviceId p)" if "zp_EliotDeviceId p ! 0 \<noteq> 0"
    using cstr_short [of 36 ?e] assms(7) [OF that] by simp
  have "zp_EliotDeviceId p \<noteq> []" using assms(3) by (auto simp: zone_args_ok_def)
  then have none: "cstr 37 (zp_EliotDeviceId p) = []" if "zp_EliotDeviceId p ! 0 = 0"
    using that nonempty_cstr [of 37 "zp_EliotDeviceId p"] by simp
  show "fst (GetZoneProperties st i out)" "same_nonvolatile p (snd (GetZoneProperties st i out))"
    using assms(2,4-6) n e none nv_zone_of_inv [OF assms(1,2)] eliot_of_inv [OF assms(1,2)]
    by (simp_all add: GetZoneProperties_def Let_def same_nonvolatile_def zone_matches_def cstr_snprintf_s
        cstr_zeros)
qed

subsection \<open>Reloading after a restart\<close>

definition loaded :: "zone_state \<Rightarrow> nat \<Rightarrow> volatile_zone \<Rightarrow> volatile_zone" where
  "loaded st j z =
     (if memory_initialized (zrec (flash st) j)
      then z\<lparr>nvZoneProperties := Some (zone_ptr j),
             nvEliotZoneProperties := GetNVEliotZonePropertiesPtr (flash st) j True\<rparr>
      else z)"

lemma load_zone_step:
  assumes "flash_ok (flash st)" "flash st1 = flash st" "n < MAX_NUMBER_OF_ZONES"
    "length (zoneArray st1) = MAX_NUMBER_OF_ZONES"
  shows "\<exists>st2. load_zone n (st1, c) =
      (st2, if memory_initialized (zrec (flash st) n) then c + 1 else c) \<and>
    flash st2 = flash st \<and> zoneArray st2 = (zoneArray st1)[n := loaded st n (zoneArray st1 ! n)]"
  using zone_lookup(1) [OF assms(1,3)] assms(2,4)
  by (auto simp: load_zone_def Let_def loaded_def)

lemma load_zones_upto:
  assumes "flash_ok (flash st)" "length (zoneArray st) = MAX_NUMBER_OF_ZONES" "n \<le> MAX_NUMBER_OF_ZONES"
  shows "\<exists>st'. fold load_zone [0..<n] (st, 0) = (st', card {j. j < n \<and> memory_initialized (zrec (flash st) j)}) \<and>
    flash st' = flash st \<and> length (zoneArray st') = MAX_NUMBER_OF_ZONES \<and>
    (\<forall>j < MAX_NUMBER_OF_ZONES. zoneArray st' ! j =
       (if j < n then loaded st j (zoneArray st ! j) else zoneArray st ! j))"
  using assms(3)
proof (induction n)
  case 0
  then show ?case using assms(2) by simp
next
  case (Suc n)
  then obtain st1 where 1: "fold load_zone [0..<n] (st, 0) = (st1, card {j. j < n \<and> memory_initialized (zrec (flash st) j)})"
    "flash st1 = flash st" "length (zoneArray st1) = MAX_NUMBER_OF_ZONES"
    "\<forall>j < MAX_NUMBER_OF_ZONES. zoneArray st1 ! j =
       (if j < n then loaded st j (zoneArray st ! j) else zoneArray st ! j)" by auto
  have n: "n < MAX_NUMBER_OF_ZONES" using Suc.prems by simp
  have set: "{j. j < Suc n \<and> P j} = (if P n then insert n {j. j < n \<and> P j} else {j. j < n \<and> P j})"
    for P :: "nat \<Rightarrow> bool" by (auto simp: less_Suc_eq)
  have card: "card {j. j < Suc n \<and> P j} = (if P n then card {j. j < n \<and> P j} + 1 else card {j. j < n \<and> P j})"
    for P :: "nat \<Rightarrow> bool" unfolding set by simp
  let ?c = "card {j. j < n \<and> memory_initialized (zrec (flash st) j)}"
  from load_zone_step [OF assms(1) 1(2) n 1(3), of ?c] obtain st2 where
    2: "load_zone n (st1, ?c) = (st2, if memory_initialized (zrec (flash st) n) then ?c + 1 else ?c)"
      "flash st2 = flash st" "zoneArray st2 = (zoneArray st1)[n := loaded st n (zoneArray st1 ! n)]" by blast
  have "zoneArray st2 ! j = (if j < Suc n then loaded st j (zoneArray st ! j) else zoneArray st ! j)"
    if "j < MAX_NUMBER_OF_ZONES" for j
    using that 1(3,4) n by (simp add: 2(3) nth_list_update less_Suc_eq)
  moreover have "fold load_zone [0..<Suc n] (st, 0) = (st2, card {j. j < Suc n \<and> memory_initialized (zrec (flash st) j)})"
    by (simp add: 1(1) 2(1) card)
  ultimately show ?case using 1(3) 2(2,3) by auto
qed

lemma reload:
  assumes "zone_inv st"
  shows "zone_inv (fst (LoadZonesFromFlash (InitializeZoneArray st)))"
    and "flash (fst (LoadZonesFromFlash (InitializeZoneArray st))) = flash st"
    and "snd (LoadZonesFromFlash (InitializeZoneArray st)) =
      card {j. j < MAX_NUMBER_OF_ZONES \<and> memory_initialized (zrec (flash st) j)}"
proof -
  let ?st0 = "InitializeZoneArray st"
  have ok: "flash_ok (flash st)" using assms by (simp add: zone_inv_def)
  have "flash_ok (flash ?st0)" "length (zoneArray ?st0) = MAX_NUMBER_OF_ZONES"
    using ok by (simp_all add: InitializeZoneArray_def)
  from load_zones_upto [OF this order_refl] obtain st' where
    st': "LoadZonesFromFlash ?st0 = (st', card {j. j < MAX_NUMBER_OF_ZONES \<and> memory_initialized (zrec (flash st) j)})"
    "flash st' = flash st" "length (zoneArray st') = MAX_NUMBER_OF_ZONES"
    "\<forall>j < MAX_NUMBER_OF_ZONES. zoneArray st' ! j = loaded ?st0 j initial_zone"
    by (auto simp: LoadZonesFromFlash_def InitializeZoneArray_def)
  show "flash (fst (LoadZonesFromFlash ?st0)) = flash st" "snd (LoadZonesFromFlash ?st0) =
      card {j. j < MAX_NUMBER_OF_ZONES \<and> memory_initialized (zrec (flash st) j)}"
    using st' by simp_all
  have "nvZoneProperties (zoneArray st' ! j) = GetNVZonePropertiesPtr (flash st) j True \<and>
        nvEliotZoneProperties (zoneArray st' ! j) = GetNVEliotZonePropertiesPtr (flash st) j True"
    if "j < MAX_NUMBER_OF_ZONES" for j
    using st'(4) that assms zone_lookup(1) [OF ok that] eliot_lookup(1) [OF ok that]
    by (auto simp: loaded_def InitializeZoneArray_def initial_zone_def zone_inv_def)
  then show "zone_inv (fst (LoadZonesFromFlash ?st0))"
    using st' assms by (simp add: zone_inv_def)
qed

text \<open>Only the records matter for the non-volatile part of what is returned.\<close>

lemma GetZoneProperties_same_flash:
  assumes "zone_inv st" "zone_inv st'" "flash st' = flash st" "i < MAX_NUMBER_OF_ZONES"
  shows "fst (GetZoneProperties st' i out) = fst (GetZoneProperties st i out)"
    "same_nonvolatile (snd (GetZoneProperties st i out)) (snd (GetZoneProperties st' i out))"
  using assms(3,4) nv_zone_of_inv [OF assms(1,4)] nv_zone_of_inv [OF assms(2,4)]
    eliot_of_inv [OF assms(1,4)] eliot_of_inv [OF assms(2,4)]
  by (simp_all add: GetZoneProperties_def Let_def same_nonvolatile_def)

lemma GetZoneProperties_other:
  assumes "set_outcome p i st st' z e" "zone_inv st" "zone_inv st'" "j < MAX_NUMBER_OF_ZONES" "j \<noteq> i"
  shows "GetZoneProperties st' j out = GetZoneProperties st j out"
proof -
  have "zrec (flash st') j = zrec (flash st) j" "erec (flash st') j = erec (flash st) j"
    "zoneArray st' ! j = zoneArray st ! j"
    using assms by (simp_all add: set_outcome_def flash_step_def Let_def)
  then show ?thesis
    using assms(4) nv_zone_of_inv [OF assms(2,4)] nv_zone_of_inv [OF assms(3,4)]
      eliot_of_inv [OF assms(2,4)] eliot_of_inv [OF assms(3,4)]
    by (simp add: GetZoneProperties_def Let_def)
qed

lemma set_outcome_named:
  assumes "set_outcome p i st st' z e" "zp_ZoneNameString p ! 0 \<noteq> 0"
    "zone_inv st" "zone_inv st'" "i < MAX_NUMBER_OF_ZONES" "zone_args_ok p"
  shows "fst (GetZoneProperties st' i out)" "same_nonvolatile p (snd (GetZoneProperties st' i out))"
    "same_volatile p (snd (GetZoneProperties st' i out))"
proof -
  have step: "flash_step (flash st) (flash st') i z e" using assms(1) by (simp add: set_outcome_def)
  note at = flash_step_at [OF step assms(5)]
  have zi: "memory_initialized z" using assms(1,2) by (simp add: set_outcome_def Let_def)
  show "fst (GetZoneProperties st' i out)" "same_nonvolatile p (snd (GetZoneProperties st' i out))"
    using assms at by (auto simp: set_outcome_def Let_def intro!: GetZoneProperties_records)
  show "same_volatile p (snd (GetZoneProperties st' i out))"
    using assms(1,2,5) at nv_zone_of_inv [OF assms(4,5)] zi zone_invD(2) [OF assms(3,5)]
    by (simp add: set_outcome_def Let_def GetZoneProperties_def same_volatile_def assign_volatile_def)
qed

lemma set_outcome_deleted:
  assumes "set_outcome p i st st' z e" "zp_ZoneNameString p ! 0 = 0" "zone_inv st'" "i < MAX_NUMBER_OF_ZONES"
  shows "GetZoneProperties st' i out = (False, out)"
proof -
  have step: "flash_step (flash st) (flash st') i z e" using assms(1) by (simp add: set_outcome_def)
  have "\<not> memory_initialized (zrec (flash st') i)"
    using assms(1,2) flash_step_at [OF step assms(4)] by (simp add: set_outcome_def Let_def)
  then show ?thesis using assms(4) nv_zone_of_inv [OF assms(3,4)] by (simp add: GetZoneProperties_def Let_def)
qed

subsection \<open>A fresh device\<close>

definition fresh_zones :: zone_state where
  "fresh_zones = \<lparr>flash = (\<lambda>x. 0xFF), zoneArray = replicate MAX_NUMBER_OF_ZONES initial_zone,
     shadeIdStrings = [], global_houseID = 0\<rparr>"

lemma fresh_zones_blank:
  assumes "i < MAX_NUMBER_OF_ZONES"
  shows "zones.blank (flash fresh_zones) i" "eliot_zones.blank (flash fresh_zones) i"
  by (simp_all add: fresh_zones_def zones.blank_def eliot_zones.blank_def zones.slot_bytes_def
      eliot_zones.slot_bytes_def read_bytes_eq_iff)

lemma fresh_zones_inv: "zone_inv fresh_zones"
proof -
  have ok: "flash_ok (flash fresh_zones)"
    using fresh_zones_blank by (simp add: flash_ok_def zones.slot_ok_def eliot_zones.slot_ok_def)
  have r: "\<not> memory_initialized (zrec (flash fresh_zones) i)" "\<not> memory_initialized (erec (flash fresh_zones) i)"
    if "i < MAX_NUMBER_OF_ZONES" for i
    using fresh_zones_blank [OF that] zone_lookup(4) [OF ok that] eliot_lookup(4) [OF ok that] by simp_all
  have a: "zoneArray fresh_zones = replicate MAX_NUMBER_OF_ZONES initial_zone"
    by (simp add: fresh_zones_def)
  show ?thesis
    unfolding zone_inv_def a
    using ok r zone_lookup(1) [OF ok] eliot_lookup(1) [OF ok] by (simp add: initial_zone_def)
qed

definition sample_zone :: zone_properties where
  "sample_zone = \<lparr>zp_AppContextId = 7, zp_groupId = 0x123, zp_state = True, zp_targetState = True,
     zp_powerLevel = 60, zp_targetPowerLevel = 60, zp_rampRate = 50, zp_deviceType = 0x41,
     zp_buildingId = 0, zp_houseId = 3, zp_roomId = 9,
     zp_ZoneNameString = 0x4C # 0x31 # replicate 19 0,
     zp_EliotDeviceId = 0x65 # replicate 36 0\<rparr>"

definition zero_ram :: unset_ram where
  "zero_ram = \<lparr>local_zone = \<lambda>x. 0, local_eliot = \<lambda>x. 0, behind_zones = \<lambda>x. 0, behind_eliots = \<lambda>x. 0\<rparr>"

lemma sample_zone_ok: "zone_args_ok sample_zone" "zp_ZoneNameString sample_zone ! 0 \<noteq> 0"
  by (simp_all add: zone_args_ok_def sample_zone_def)

lemma emulator_reliable: "ftfe_reliable ftfe_emulator"
  by (rule emulator.ftfe_reliable_axioms)

subsection \<open>Properties\<close>

text \<open>C1: SetZoneProperties does what its callers rely on. Starting from a consistent zone table and
  arguments as the callers pass them, it returns TRUE and the table stays consistent (every record
  valid or erased, every pointer the one a reload would find); afterwards GetZoneProperties returns
  the properties that were set, volatile and non-volatile, strings included, or FALSE when the name
  was empty; and GetZoneProperties of every other zone returns exactly what it returned before,
  although the whole sector was erased and rewritten.\<close>

theorem SetZoneProperties_correct:
  assumes "ftfe_reliable hw" "zone_inv st" "i < MAX_NUMBER_OF_ZONES" "zone_args_ok p"
    and "SetZoneProperties hw ur st i p = (ok, st')"
  shows "ok \<and> zone_inv st' \<and>
    (if zp_ZoneNameString p ! 0 \<noteq> 0
     then fst (GetZoneProperties st' i out) \<and> same_nonvolatile p (snd (GetZoneProperties st' i out)) \<and>
          same_volatile p (snd (GetZoneProperties st' i out))
     else GetZoneProperties st' i out = (False, out)) \<and>
    (\<forall>j < MAX_NUMBER_OF_ZONES. j \<noteq> i \<longrightarrow> GetZoneProperties st' j out = GetZoneProperties st j out)"
proof -
  obtain z e where ok and o: "set_outcome p i st st' z e"
    using SetZoneProperties_outcome [OF assms(1-4), of ur] assms(5) by (metis prod.inject)
  have inv: "zone_inv st'" by (rule set_outcome_inv [OF assms(2-4) o])
  show ?thesis
    using \<open>ok\<close> inv set_outcome_named [OF o _ assms(2) inv assms(3,4)] set_outcome_deleted [OF o _ inv assms(3)]
      GetZoneProperties_other [OF o assms(2) inv] by simp
qed

theorem SetZoneProperties_correct_witness:
  "fst (SetZoneProperties ftfe_emulator zero_ram fresh_zones 12 sample_zone) \<and>
   same_nonvolatile sample_zone (snd (GetZoneProperties
     (snd (SetZoneProperties ftfe_emulator zero_ram fresh_zones 12 sample_zone)) 12 sample_zone))"
  using SetZoneProperties_correct [OF emulator_reliable fresh_zones_inv _ sample_zone_ok(1) prod.collapse [symmetric],
      of 12 zero_ram sample_zone] sample_zone_ok(2) by simp

text \<open>C2: zones survive a restart. After SetZoneProperties the firmware may restart at any time:
  InitializeZoneArray and LoadZonesFromFlash then rebuild a consistent table in which the zone has
  the properties that were set (or does not exist, if its name was empty) and every other zone has
  the non-volatile properties it had before.\<close>

theorem zones_survive_restart:
  assumes "ftfe_reliable hw" "zone_inv st" "i < MAX_NUMBER_OF_ZONES" "zone_args_ok p"
    and "SetZoneProperties hw ur st i p = (ok, st')"
    and "st'' = fst (LoadZonesFromFlash (InitializeZoneArray st'))"
  shows "zone_inv st'' \<and>
    fst (GetZoneProperties st'' i out) = (zp_ZoneNameString p ! 0 \<noteq> 0) \<and>
    (zp_ZoneNameString p ! 0 \<noteq> 0 \<longrightarrow> same_nonvolatile p (snd (GetZoneProperties st'' i out))) \<and>
    (\<forall>j < MAX_NUMBER_OF_ZONES. j \<noteq> i \<longrightarrow>
       fst (GetZoneProperties st'' j out) = fst (GetZoneProperties st j out) \<and>
       same_nonvolatile (snd (GetZoneProperties st j out)) (snd (GetZoneProperties st'' j out)))"
proof -
  obtain z e where o: "set_outcome p i st st' z e"
    using SetZoneProperties_outcome [OF assms(1-4), of ur] assms(5) by (metis prod.inject)
  have inv: "zone_inv st'" by (rule set_outcome_inv [OF assms(2-4) o])
  have inv2: "zone_inv st''" and fl: "flash st'' = flash st'" using reload [OF inv] assms(6) by simp_all
  note same = GetZoneProperties_same_flash [OF inv inv2 fl]
  have trans: "same_nonvolatile p q \<Longrightarrow> same_nonvolatile q r \<Longrightarrow> same_nonvolatile p r" for p q r
    by (simp add: same_nonvolatile_def)
  show ?thesis
  proof (intro conjI allI impI)
    show "fst (GetZoneProperties st'' i out) = (zp_ZoneNameString p ! 0 \<noteq> 0)"
      using same(1) [OF assms(3)] set_outcome_named(1) [OF o _ assms(2) inv assms(3,4)]
        set_outcome_deleted [OF o _ inv assms(3)] by (cases "zp_ZoneNameString p ! 0 = 0") auto
    show "same_nonvolatile p (snd (GetZoneProperties st'' i out))" if "zp_ZoneNameString p ! 0 \<noteq> 0"
      using trans [OF set_outcome_named(2) [OF o that assms(2) inv assms(3,4)] same(2) [OF assms(3)]] .
  next
    fix j assume j: "j < MAX_NUMBER_OF_ZONES" "j \<noteq> i"
    note other = GetZoneProperties_other [OF o assms(2) inv j]
    show "fst (GetZoneProperties st'' j out) = fst (GetZoneProperties st j out)"
      using same(1) [OF j(1)] other by simp
    show "same_nonvolatile (snd (GetZoneProperties st j out)) (snd (GetZoneProperties st'' j out))"
      using same(2) [OF j(1)] other by metis
  qed (rule inv2)
qed

theorem zones_survive_restart_witness:
  "same_nonvolatile sample_zone (snd (GetZoneProperties (fst (LoadZonesFromFlash (InitializeZoneArray
     (snd (SetZoneProperties ftfe_emulator zero_ram fresh_zones 99 sample_zone))))) 99 sample_zone))"
  using zones_survive_restart [OF emulator_reliable fresh_zones_inv _ sample_zone_ok(1) prod.collapse [symmetric] refl,
      of 99 zero_ram sample_zone] sample_zone_ok(2) by simp

text \<open>The searches over a consistent zone table are exact. GetAvailableZoneIndex returns the
  first slot without a zone and 100 only when all are taken; GetZoneIndex returns the first zone
  with the given group, building and house and 100 only when there is none.\<close>

lemma zone_searches_exact:
  assumes "zone_inv st"
  shows "(let a = GetAvailableZoneIndex st in
      (\<forall>j < a. nvZoneProperties (zoneArray st ! j) \<noteq> None) \<and>
      (if a < MAX_NUMBER_OF_ZONES then nvZoneProperties (zoneArray st ! a) = None else a = MAX_NUMBER_OF_ZONES)) \<and>
    (let k = GetZoneIndex st g b h;
         is_zone = (\<lambda>j. \<exists>r. nv_zone_of st j = Some r \<and> nz_groupId r = g \<and> nz_buildingId r = b \<and> nz_houseId r = h) in
      (\<forall>j < k. \<not> is_zone j) \<and> (if k < MAX_NUMBER_OF_ZONES then is_zone k else k = MAX_NUMBER_OF_ZONES))"
proof -
  have named: "nz_name r ! 0 \<noteq> 0" if "nv_zone_of st j = Some r" "j < MAX_NUMBER_OF_ZONES" for j r
    using that nv_zone_of_inv [OF assms that(2)] zone_invD(5) [OF assms that(2)] by (auto split: if_splits)
  have empty: "nv_zone_of st j = None \<longleftrightarrow> nvZoneProperties (zoneArray st ! j) = None" for j
    by (simp add: nv_zone_of_def)
  let ?P = "\<lambda>i. case nv_zone_of st i of None \<Rightarrow> True | Some b \<Rightarrow> nz_name b ! 0 = 0"
  let ?Q = "\<lambda>i. case nv_zone_of st i of None \<Rightarrow> False
        | Some r \<Rightarrow> nz_name r ! 0 \<noteq> 0 \<and> nz_groupId r = g \<and> nz_buildingId r = b \<and> nz_houseId r = h"
  have P: "?P j \<longleftrightarrow> nvZoneProperties (zoneArray st ! j) = None" if "j < MAX_NUMBER_OF_ZONES" for j
    using named [OF _ that] empty [of j] by (auto split: option.split)
  have Q: "?Q j \<longleftrightarrow> (\<exists>r. nv_zone_of st j = Some r \<and> nz_groupId r = g \<and> nz_buildingId r = b \<and> nz_houseId r = h)"
    if "j < MAX_NUMBER_OF_ZONES" for j
    using named [OF _ that] by (auto split: option.split)
  show ?thesis
    unfolding Let_def GetAvailableZoneIndex_def GetZoneIndex_def
    using loop_find_exact [of MAX_NUMBER_OF_ZONES ?P "\<lambda>j. nvZoneProperties (zoneArray st ! j) = None", OF P]
      loop_find_exact [of MAX_NUMBER_OF_ZONES ?Q
        "\<lambda>j. \<exists>r. nv_zone_of st j = Some r \<and> nz_groupId r = g \<and> nz_buildingId r = b \<and> nz_houseId r = h", OF Q]
    by blast
qed

lemma zone_searches_exact_witness: "GetAvailableZoneIndex fresh_zones = 0"
proof -
  have "nvZoneProperties (zoneArray fresh_zones ! 0) = None"
    by (simp add: fresh_zones_def initial_zone_def)
  with zone_searches_exact [OF fresh_zones_inv, of 0 0 0] show ?thesis
    by (auto simp: Let_def)
qed

end
