(* ===== verification/Sent_Queue.thy ===== *)
theory Sent_Queue
  imports Zones
begin

unbundle bit_operations_syntax

text \<open>
  RFM100_Tasks.c: the ring of recently transmitted ramp messages, with which the LCM recognises
  the echoes of its own ramps (repeaters send them again with a smaller time-to-live). The ring has
  100 entries and byte-wide read and write indices; the clock is an argument of the operations.
\<close>

record time_struct =
  SECONDS :: dword_t
  MILLISECONDS :: dword_t

record sent_message =
  timeSent :: time_struct
  sm_groupId :: word_t
  sm_buildingId :: byte
  sm_houseId :: byte
  sm_powerLevel :: byte

record sent_queue =
  sentMessages :: "sent_message list"
  sentMessageReadIndex :: byte
  sentMessageWriteIndex :: byte

abbreviation MAX_NUMBER_OF_SENT_MESSAGES :: nat where "MAX_NUMBER_OF_SENT_MESSAGES \<equiv> 100"
abbreviation SENT_MESSAGE_PURGE_SECONDS :: dword_t where "SENT_MESSAGE_PURGE_SECONDS \<equiv> 5"

definition next_index :: "byte \<Rightarrow> byte" where
  "next_index i = of_nat ((unat i + 1) mod MAX_NUMBER_OF_SENT_MESSAGES)"

text \<open>The count is computed in \<open>int\<close> and stored in a byte; an impossible count resets both indices.\<close>

definition GetNumItemsInSentMessageQueue :: "sent_queue \<Rightarrow> byte \<times> sent_queue" where
  "GetNumItemsInSentMessageQueue q =
     (let w = uint (sentMessageWriteIndex q); r = uint (sentMessageReadIndex q);
          numItemsInQueue = (if r \<le> w then word_of_int (w - r)
                             else word_of_int (int MAX_NUMBER_OF_SENT_MESSAGES - (r - w)) :: byte)
      in if MAX_NUMBER_OF_SENT_MESSAGES < unat numItemsInQueue
         then (0, q\<lparr>sentMessageWriteIndex := 0, sentMessageReadIndex := 0\<rparr>)
         else (numItemsInQueue, q))"

definition sent_at :: "sent_queue \<Rightarrow> byte \<Rightarrow> sent_message" where
  "sent_at q i = sentMessages q ! unat i"

definition purgeable :: "dword_t \<Rightarrow> sent_message \<Rightarrow> bool" where
  "purgeable now m \<longleftrightarrow> SENT_MESSAGE_PURGE_SECONDS < now - SECONDS (timeSent m)"

text \<open>The loop of \<open>ClearMessagesFromSentQueue\<close>; the first argument is \<open>numItemsToRead - itemsRead\<close>.\<close>

fun purge_loop :: "nat \<Rightarrow> dword_t \<Rightarrow> byte \<Rightarrow> sent_queue \<Rightarrow> sent_queue" where
  "purge_loop 0 now currentIndex q = q"
| "purge_loop (Suc n) now currentIndex q =
     (if purgeable now (sent_at q currentIndex)
      then purge_loop n now (next_index currentIndex)
             (q\<lparr>sentMessageReadIndex := next_index (sentMessageReadIndex q)\<rparr>)
      else q)"

definition ClearMessagesFromSentQueue :: "dword_t \<Rightarrow> sent_queue \<Rightarrow> sent_queue" where
  "ClearMessagesFromSentQueue now q =
     (let (numItemsToRead, q) = GetNumItemsInSentMessageQueue q
      in purge_loop (unat numItemsToRead) now (sentMessageReadIndex q) q)"

text \<open>A NULL pointer stamps the entry and keeps its other fields.\<close>

definition stamp_message :: "time_struct \<Rightarrow> zone_properties option \<Rightarrow> sent_message \<Rightarrow> sent_message" where
  "stamp_message now zp old =
     (case zp of
        None \<Rightarrow> old\<lparr>timeSent := now\<rparr>
      | Some z \<Rightarrow> old\<lparr>timeSent := now, sm_groupId := zp_groupId z, sm_buildingId := zp_buildingId z,
                     sm_houseId := zp_houseId z, sm_powerLevel := zp_powerLevel z\<rparr>)"

text \<open>The clock is read twice: by the purge and for the stamp.\<close>

definition AddToSentMessageQueue ::
  "dword_t \<Rightarrow> time_struct \<Rightarrow> zone_properties option \<Rightarrow> sent_queue \<Rightarrow> sent_queue" where
  "AddToSentMessageQueue purgeTime currentTime zoneProperties q =
     (let q = ClearMessagesFromSentQueue purgeTime q;
          (numItemsInQueue, q) = GetNumItemsInSentMessageQueue q
      in if unat numItemsInQueue < MAX_NUMBER_OF_SENT_MESSAGES
         then let w = sentMessageWriteIndex q
              in q\<lparr>sentMessages := (sentMessages q)[unat w := stamp_message currentTime zoneProperties (sent_at q w)],
                   sentMessageWriteIndex := next_index w\<rparr>
         else q)"

definition matches_message :: "byte \<Rightarrow> byte \<Rightarrow> word_t \<Rightarrow> byte \<Rightarrow> sent_message \<Rightarrow> bool" where
  "matches_message buildingId houseId groupId level m \<longleftrightarrow>
     sm_buildingId m = buildingId \<and> sm_houseId m = houseId \<and> sm_groupId m = groupId \<and>
     sm_powerLevel m = level"

fun repeat_loop :: "nat \<Rightarrow> byte \<Rightarrow> (sent_message \<Rightarrow> bool) \<Rightarrow> sent_queue \<Rightarrow> bool" where
  "repeat_loop 0 currentIndex P q = False"
| "repeat_loop (Suc n) currentIndex P q =
     (if P (sent_at q currentIndex) then True else repeat_loop n (next_index currentIndex) P q)"

definition IsMessageARepeat ::
  "byte \<Rightarrow> byte \<Rightarrow> word_t \<Rightarrow> byte \<Rightarrow> byte \<Rightarrow> sent_queue \<Rightarrow> bool \<times> sent_queue" where
  "IsMessageARepeat buildingId houseId groupId level timeToLive q =
     (if timeToLive < 2
      then let (numItemsToRead, q) = GetNumItemsInSentMessageQueue q
           in (repeat_loop (unat numItemsToRead) (sentMessageReadIndex q)
                 (matches_message buildingId houseId groupId level) q, q)
      else (False, q))"

subsection \<open>The ring as a list\<close>

definition queue_inv :: "sent_queue \<Rightarrow> bool" where
  "queue_inv q \<longleftrightarrow> length (sentMessages q) = MAX_NUMBER_OF_SENT_MESSAGES \<and>
     unat (sentMessageReadIndex q) < MAX_NUMBER_OF_SENT_MESSAGES \<and>
     unat (sentMessageWriteIndex q) < MAX_NUMBER_OF_SENT_MESSAGES"

fun ring_entries :: "nat \<Rightarrow> byte \<Rightarrow> sent_queue \<Rightarrow> sent_message list" where
  "ring_entries 0 i q = []"
| "ring_entries (Suc n) i q = sent_at q i # ring_entries n (next_index i) q"

definition queue_count :: "sent_queue \<Rightarrow> nat" where
  "queue_count q = (unat (sentMessageWriteIndex q) + MAX_NUMBER_OF_SENT_MESSAGES -
     unat (sentMessageReadIndex q)) mod MAX_NUMBER_OF_SENT_MESSAGES"

definition queue_contents :: "sent_queue \<Rightarrow> sent_message list" where
  "queue_contents q = ring_entries (queue_count q) (sentMessageReadIndex q) q"

lemma unat_next_index: "unat (next_index i) = (unat i + 1) mod MAX_NUMBER_OF_SENT_MESSAGES"
  by (simp add: next_index_def unat_of_nat)

lemma next_index_bound [simp]: "unat (next_index i) < MAX_NUMBER_OF_SENT_MESSAGES"
  by (simp add: unat_next_index)

lemma length_ring_entries [simp]: "length (ring_entries n i q) = n"
  by (induction n i q rule: ring_entries.induct) auto

lemma ring_entries_read [simp]:
  "ring_entries n i (q\<lparr>sentMessageReadIndex := r\<rparr>) = ring_entries n i q"
  "ring_entries n i (q\<lparr>sentMessageWriteIndex := r\<rparr>) = ring_entries n i q"
  by (induction n i q rule: ring_entries.induct) (auto simp: sent_at_def)

lemma nth_ring_entries:
  "k < n \<Longrightarrow> unat i < MAX_NUMBER_OF_SENT_MESSAGES \<Longrightarrow>
   ring_entries n i q ! k = sentMessages q ! ((unat i + k) mod MAX_NUMBER_OF_SENT_MESSAGES)"
proof (induction n i q arbitrary: k rule: ring_entries.induct)
  case (2 n i q)
  then show ?case
    by (cases k) (auto simp: sent_at_def unat_next_index mod_add_left_eq)
qed simp

lemma queue_count_bound: "queue_count q < MAX_NUMBER_OF_SENT_MESSAGES"
  by (simp add: queue_count_def)

lemma count_arith:
  "w < 100 \<Longrightarrow> r < 100 \<Longrightarrow>
   (if int r \<le> int w then int w - int r else 100 - (int r - int w)) = int ((w + 100 - r) mod 100)"
  for w r :: nat
  by (auto simp: mod_if)

lemma count_eq:
  assumes "queue_inv q"
  shows "GetNumItemsInSentMessageQueue q = (of_nat (queue_count q), q)"
proof -
  let ?w = "unat (sentMessageWriteIndex q)" and ?r = "unat (sentMessageReadIndex q)"
  have b: "?w < 100" "?r < 100" using assms by (auto simp: queue_inv_def)
  have "(if int ?r \<le> int ?w then int ?w - int ?r else 100 - (int ?r - int ?w)) = int (queue_count q)"
    unfolding queue_count_def by (rule count_arith [OF b])
  then have "(if int ?r \<le> int ?w then word_of_int (int ?w - int ?r)
              else word_of_int (100 - (int ?r - int ?w)) :: byte) = of_nat (queue_count q)"
    by (metis of_int_of_nat_eq)
  moreover have "\<not> 100 < unat (of_nat (queue_count q) :: byte)"
    using queue_count_bound [of q] by (simp add: unat_of_nat)
  ultimately show ?thesis
    by (simp only: GetNumItemsInSentMessageQueue_def Let_def uint_nat of_nat_numeral if_False)
qed

lemma unat_count [simp]: "unat (of_nat (queue_count q) :: byte) = queue_count q"
  using queue_count_bound [of q] by (simp add: unat_of_nat)

lemma length_queue_contents: "length (queue_contents q) = queue_count q"
  by (simp add: queue_contents_def)

lemma contents_cong:
  assumes "sentMessages q' = sentMessages q" "sentMessageReadIndex q' = sentMessageReadIndex q"
    "sentMessageWriteIndex q' = sentMessageWriteIndex q"
  shows "queue_contents q' = queue_contents q"
  using assms by (metis sent_queue.equality old.unit.exhaust)

lemma count_advance:
  assumes "queue_inv q" "queue_count q = Suc n"
  shows "queue_count (q\<lparr>sentMessageReadIndex := next_index (sentMessageReadIndex q)\<rparr>) = n"
  using assms by (simp add: queue_inv_def queue_count_def unat_next_index mod_if split: if_splits; linarith?)

lemma purge_loop_contents:
  assumes "queue_inv q" "n = queue_count q"
  shows "queue_inv (purge_loop n now (sentMessageReadIndex q) q) \<and>
    queue_contents (purge_loop n now (sentMessageReadIndex q) q) = dropWhile (purgeable now) (queue_contents q)"
  using assms
proof (induction n arbitrary: q)
  case 0
  then show ?case by (simp add: queue_contents_def)
next
  case (Suc n)
  let ?q = "q\<lparr>sentMessageReadIndex := next_index (sentMessageReadIndex q)\<rparr>"
  have c: "queue_contents q = sent_at q (sentMessageReadIndex q) # ring_entries n (next_index (sentMessageReadIndex q)) q"
    using Suc.prems(2) [symmetric] by (simp add: queue_contents_def)
  show ?case
  proof (cases "purgeable now (sent_at q (sentMessageReadIndex q))")
    case True
    have "queue_inv ?q" using Suc.prems(1) by (simp add: queue_inv_def)
    moreover have n: "n = queue_count ?q" using count_advance [of q n] Suc.prems by simp
    ultimately have "queue_inv (purge_loop n now (sentMessageReadIndex ?q) ?q) \<and>
      queue_contents (purge_loop n now (sentMessageReadIndex ?q) ?q) = dropWhile (purgeable now) (queue_contents ?q)"
      by (rule Suc.IH)
    moreover have "queue_contents ?q = ring_entries n (next_index (sentMessageReadIndex q)) q"
      by (simp add: queue_contents_def n [symmetric])
    ultimately show ?thesis using True by (simp add: c)
  next
    case False
    then show ?thesis using Suc.prems(1) by (simp add: c)
  qed
qed

lemma ClearMessages_contents:
  assumes "queue_inv q"
  shows "queue_inv (ClearMessagesFromSentQueue now q)"
    and "queue_contents (ClearMessagesFromSentQueue now q) = dropWhile (purgeable now) (queue_contents q)"
  using purge_loop_contents [OF assms refl, of now]
  by (simp_all add: ClearMessagesFromSentQueue_def count_eq [OF assms])

lemma count_push:
  assumes "queue_inv q" "sentMessageReadIndex q' = sentMessageReadIndex q"
    "sentMessageWriteIndex q' = next_index (sentMessageWriteIndex q)"
  shows "queue_count q' = (if queue_count q = 99 then 0 else Suc (queue_count q))"
  using assms by (auto simp: queue_inv_def queue_count_def unat_next_index mod_if split: if_splits)

lemma write_slot:
  assumes "queue_inv q"
  shows "unat (sentMessageWriteIndex q) = (unat (sentMessageReadIndex q) + queue_count q) mod MAX_NUMBER_OF_SENT_MESSAGES"
  using assms by (auto simp: queue_inv_def queue_count_def mod_if split: if_splits)

lemma slot_distinct:
  "k < n \<Longrightarrow> n < 100 \<Longrightarrow> (r + k) mod 100 \<noteq> (r + n) mod (100 :: nat)"
  by (metis add_less_cancel_left add_diff_cancel_left le_eq_less_or_eq less_imp_diff_less mod_eq_dvd_iff_nat
      nat_dvd_not_less zero_less_diff diff_diff_left)

lemma AddToSentMessageQueue_contents:
  fixes q t ts zp
  defines "live \<equiv> dropWhile (purgeable t) (queue_contents q)"
    and "q' \<equiv> AddToSentMessageQueue t ts zp q"
  assumes inv: "queue_inv q"
  shows "queue_inv q'"
    and "length live < 99 \<Longrightarrow> \<exists>old. queue_contents q' = live @ [stamp_message ts zp old]"
    and "length live = 99 \<Longrightarrow> queue_contents q' = []"
proof -
  let ?c = "ClearMessagesFromSentQueue t q"
  let ?w = "sentMessageWriteIndex ?c" and ?r = "sentMessageReadIndex ?c"
  let ?m = "stamp_message ts zp (sent_at ?c ?w)"
  have ci: "queue_inv ?c" and cc: "queue_contents ?c = live"
    using ClearMessages_contents [OF inv, of t] by (auto simp: live_def)
  have n: "queue_count ?c = length live"
    using length_queue_contents [of ?c] cc by simp
  have q': "q' = ?c\<lparr>sentMessages := (sentMessages ?c)[unat ?w := ?m], sentMessageWriteIndex := next_index ?w\<rparr>"
    using queue_count_bound [of ?c]
    by (simp add: q'_def AddToSentMessageQueue_def Let_def count_eq [OF ci])
  have len: "length (sentMessages ?c) = 100" and wr: "unat ?w < 100" "unat ?r < 100"
    using ci by (auto simp: queue_inv_def)
  show "queue_inv q'" using ci by (simp add: q' queue_inv_def)
  have cnt: "queue_count q' = (if length live = 99 then 0 else Suc (length live))"
    using count_push [OF ci, of q'] by (simp add: q' n)
  show "length live = 99 \<Longrightarrow> queue_contents q' = []"
    by (simp add: queue_contents_def cnt)
  assume small: "length live < 99"
  have "queue_contents q' = live @ [?m]"
  proof (rule nth_equalityI)
    show "length (queue_contents q') = length (live @ [?m])"
      using small by (simp add: length_queue_contents cnt)
    fix k
    assume "k < length (queue_contents q')"
    then have k: "k \<le> length live" using small by (simp add: length_queue_contents cnt)
    have r': "unat (sentMessageReadIndex q') < 100" using wr by (simp add: q')
    have e: "queue_contents q' ! k = (sentMessages ?c)[unat ?w := ?m] ! ((unat ?r + k) mod 100)"
      using k small nth_ring_entries [of k "queue_count q'" "sentMessageReadIndex q'" q'] wr r'
      by (simp add: queue_contents_def cnt) (simp add: q')
    have ws: "unat ?w = (unat ?r + length live) mod 100" using write_slot [OF ci] by (simp add: n)
    show "queue_contents q' ! k = (live @ [?m]) ! k"
    proof (cases "k = length live")
      case True
      then show ?thesis using e ws len wr by simp
    next
      case False
      then have kl: "k < length live" using k by simp
      have "(unat ?r + k) mod 100 \<noteq> unat ?w"
        unfolding ws by (rule slot_distinct [OF kl]) (use small in simp)
      then have "queue_contents q' ! k = sentMessages ?c ! ((unat ?r + k) mod 100)" using e by simp
      also have "\<dots> = queue_contents ?c ! k"
        using nth_ring_entries [of k "queue_count ?c" ?r ?c] kl wr by (simp add: queue_contents_def n)
      finally show ?thesis using kl by (simp add: cc nth_append)
    qed
  qed
  then show "\<exists>old. queue_contents q' = live @ [stamp_message ts zp old]" by blast
qed

lemma repeat_loop_exact: "repeat_loop n i P q \<longleftrightarrow> (\<exists>m \<in> set (ring_entries n i q). P m)"
  by (induction n i P q rule: repeat_loop.induct) auto

lemma IsMessageARepeat_exact:
  assumes "queue_inv q"
  shows "IsMessageARepeat b h g l ttl q =
    (ttl < 2 \<and> (\<exists>m \<in> set (queue_contents q). matches_message b h g l m), q)"
  by (simp add: IsMessageARepeat_def count_eq [OF assms] repeat_loop_exact queue_contents_def)

subsection \<open>The contract of the echo filter\<close>

text \<open>
  What the transmit and receive paths rely on: adding a message drops the expired prefix of the log
  and appends the message while fewer than \<open>cap\<close> messages are live; the query answers for the log.
\<close>

locale echo_filter =
  fixes inv :: "'q \<Rightarrow> bool"
    and log :: "'q \<Rightarrow> 'm list"
    and add :: "dword_t \<Rightarrow> 'z \<Rightarrow> 'q \<Rightarrow> 'q"
    and entry :: "'z \<Rightarrow> 'm"
    and expired :: "dword_t \<Rightarrow> 'm \<Rightarrow> bool"
    and query :: "('m \<Rightarrow> bool) \<Rightarrow> 'q \<Rightarrow> bool"
    and cap :: nat
  assumes inv_add: "inv q \<Longrightarrow> inv (add t z q)"
    and log_add: "inv q \<Longrightarrow> length (dropWhile (expired t) (log q)) < cap \<Longrightarrow>
      log (add t z q) = dropWhile (expired t) (log q) @ [entry z]"
    and query_log: "inv q \<Longrightarrow> query P q \<longleftrightarrow> (\<exists>m \<in> set (log q). P m)"
begin

lemma inv_fold: "inv q \<Longrightarrow> inv (fold (\<lambda>(t, z). add t z) zs q)"
  by (induction zs arbitrary: q) (auto simp: inv_add)

lemma log_run:
  assumes "inv q" "length (log q) + length zs \<le> cap"
    "\<And>m t z. m \<in> set (log q) \<Longrightarrow> (t, z) \<in> set zs \<Longrightarrow> \<not> expired t m"
    "sorted_wrt (\<lambda>(t, z) (t', z'). \<not> expired t' (entry z)) zs"
  shows "log (fold (\<lambda>(t, z). add t z) zs q) = log q @ map (entry \<circ> snd) zs"
  using assms
proof (induction zs arbitrary: q)
  case Nil
  then show ?case by simp
next
  case (Cons p zs)
  obtain t z where p: "p = (t, z)" by (cases p)
  have d: "dropWhile (expired t) (log q) = log q"
    using Cons.prems(3) by (cases "log q") (auto simp: p)
  have l: "log (add t z q) = log q @ [entry z]"
    using log_add [OF Cons.prems(1), of t z] Cons.prems(2) by (simp add: d)
  have "log (fold (\<lambda>(t, z). add t z) zs (add t z q)) = log (add t z q) @ map (entry \<circ> snd) zs"
  proof (rule Cons.IH)
    show "inv (add t z q)" using Cons.prems(1) by (rule inv_add)
    show "length (log (add t z q)) + length zs \<le> cap" using Cons.prems(2) by (simp add: l)
    show "\<not> expired t' m" if "m \<in> set (log (add t z q))" "(t', z') \<in> set zs" for m t' z'
      using that Cons.prems(3,4) by (auto simp: l p)
    show "sorted_wrt (\<lambda>(t, z) (t', z'). \<not> expired t' (entry z)) zs" using Cons.prems(4) by (simp add: p)
  qed
  then show ?case by (simp add: p l)
qed

lemma query_run:
  assumes "inv q" "log q = []" "length zs \<le> cap"
    "sorted_wrt (\<lambda>(t, z) (t', z'). \<not> expired t' (entry z)) zs"
  shows "query P (fold (\<lambda>(t, z). add t z) zs q) \<longleftrightarrow> (\<exists>(t, z) \<in> set zs. P (entry z))"
proof -
  have "log (fold (\<lambda>(t, z). add t z) zs q) = map (entry \<circ> snd) zs"
    using log_run [OF assms(1), of zs] assms by simp
  then show ?thesis using query_log [OF inv_fold [OF assms(1)], of P zs] by (auto simp: case_prod_beta)
qed

end

definition sent_entry :: "time_struct \<times> zone_properties \<Rightarrow> sent_message" where
  "sent_entry = (\<lambda>(ts, z). \<lparr>timeSent = ts, sm_groupId = zp_groupId z, sm_buildingId = zp_buildingId z,
     sm_houseId = zp_houseId z, sm_powerLevel = zp_powerLevel z\<rparr>)"

lemma stamp_message_entry: "stamp_message ts (Some z) old = sent_entry (ts, z)"
  by (simp add: stamp_message_def sent_entry_def)

definition add_sent :: "dword_t \<Rightarrow> time_struct \<times> zone_properties \<Rightarrow> sent_queue \<Rightarrow> sent_queue" where
  "add_sent t = (\<lambda>(ts, z). AddToSentMessageQueue t ts (Some z))"

definition query_sent :: "(sent_message \<Rightarrow> bool) \<Rightarrow> sent_queue \<Rightarrow> bool" where
  "query_sent P q = repeat_loop (unat (fst (GetNumItemsInSentMessageQueue q))) (sentMessageReadIndex q) P q"

lemma query_sent_contents: "queue_inv q \<Longrightarrow> query_sent P q \<longleftrightarrow> (\<exists>m \<in> set (queue_contents q). P m)"
  by (simp add: query_sent_def count_eq repeat_loop_exact queue_contents_def)

interpretation sent: echo_filter queue_inv queue_contents add_sent sent_entry purgeable query_sent 99
proof unfold_locales
  fix q t and z :: "time_struct \<times> zone_properties" and P
  assume q: "queue_inv q"
  show "queue_inv (add_sent t z q)"
    using AddToSentMessageQueue_contents(1) [OF q] by (simp add: add_sent_def case_prod_beta)
  show "query_sent P q = (\<exists>m \<in> set (queue_contents q). P m)" using q by (rule query_sent_contents)
  assume "length (dropWhile (purgeable t) (queue_contents q)) < 99"
  then show "queue_contents (add_sent t z q) = dropWhile (purgeable t) (queue_contents q) @ [sent_entry z]"
    using AddToSentMessageQueue_contents(2) [OF q, of t "fst z" "Some (snd z)"]
    by (auto simp: add_sent_def case_prod_beta stamp_message_entry)
qed

definition empty_queue :: sent_queue where
  "empty_queue = \<lparr>sentMessages = replicate 100 \<lparr>timeSent = \<lparr>SECONDS = 0, MILLISECONDS = 0\<rparr>,
     sm_groupId = 0, sm_buildingId = 0, sm_houseId = 0, sm_powerLevel = 0\<rparr>,
     sentMessageReadIndex = 0, sentMessageWriteIndex = 0\<rparr>"

lemma empty_queue_inv [simp]: "queue_inv empty_queue" and empty_queue_contents [simp]: "queue_contents empty_queue = []"
  by (simp_all add: empty_queue_def queue_inv_def queue_contents_def queue_count_def)

lemma IsMessageARepeat_query:
  "queue_inv q \<Longrightarrow> fst (IsMessageARepeat b h g l ttl q) \<longleftrightarrow> ttl < 2 \<and> query_sent (matches_message b h g l) q"
  by (simp add: IsMessageARepeat_exact query_sent_contents)

text \<open>C15: the sent-message ring implements a log of live messages. Adding drops the expired prefix
  (entries more than five seconds old, in 32-bit arithmetic) and appends the new entry as long as
  fewer than 99 entries are live; the query is exact for the log and reports nothing for a
  time-to-live of 2 or more; both keep the index invariant.\<close>

theorem sent_queue_refines_log:
  assumes "queue_inv q"
  shows "queue_inv (AddToSentMessageQueue t ts (Some z) q) \<and>
    (length (dropWhile (purgeable t) (queue_contents q)) < 99 \<longrightarrow>
      queue_contents (AddToSentMessageQueue t ts (Some z) q) =
        dropWhile (purgeable t) (queue_contents q) @ [sent_entry (ts, z)]) \<and>
    IsMessageARepeat b h g l ttl q =
      (ttl < 2 \<and> (\<exists>m \<in> set (queue_contents q). matches_message b h g l m), q)"
  using sent.inv_add [OF assms, of t "(ts, z)"] sent.log_add [OF assms, of t "(ts, z)"]
    IsMessageARepeat_exact [OF assms, of b h g l ttl]
  by (simp_all add: add_sent_def)

text \<open>Every message of a run of at most 99 ramps sent within the purge time is recognised when
  its echo comes back with time-to-live 0 or 1, and nothing else is taken for an echo.\<close>

lemma echoes_recognised:
  assumes "length zs \<le> 99"
    and "sorted_wrt (\<lambda>(t, z) (t', z'). \<not> purgeable t' (sent_entry z)) zs"
  shows "fst (IsMessageARepeat b h g l ttl
      (fold (\<lambda>(t, ts, z). AddToSentMessageQueue t ts (Some z)) zs empty_queue)) \<longleftrightarrow>
    ttl < 2 \<and> (\<exists>(t, ts, z) \<in> set zs. zp_buildingId z = b \<and> zp_houseId z = h \<and> zp_groupId z = g \<and>
      zp_powerLevel z = l)"
proof -
  have f: "(\<lambda>(t, ts, z). AddToSentMessageQueue t ts (Some z)) = (\<lambda>(t, z). add_sent t z)"
    by (simp add: fun_eq_iff add_sent_def)
  have "queue_inv (fold (\<lambda>(t, z). add_sent t z) zs empty_queue)"
    by (rule sent.inv_fold) simp
  then show ?thesis
    unfolding f using sent.query_run [OF empty_queue_inv empty_queue_contents assms, of "matches_message b h g l"]
    by (simp add: IsMessageARepeat_query matches_message_def sent_entry_def case_prod_beta)
qed

text \<open>C16: the ring loses everything when it fills up. With 99 live entries one more message makes the
  write index meet the read index, the count is 0 and no message is recognised as a repeat any more,
  although the capacity check admitted the message.\<close>

theorem full_ring_forgets:
  assumes "queue_inv q" "length (dropWhile (purgeable t) (queue_contents q)) = 99"
  shows "queue_contents (AddToSentMessageQueue t ts zp q) = [] \<and>
    fst (IsMessageARepeat b h g l ttl (AddToSentMessageQueue t ts zp q)) = False"
  using AddToSentMessageQueue_contents(1,3) [OF assms(1), of t ts zp] assms(2)
  by (simp_all add: IsMessageARepeat_exact)

definition full_queue :: sent_queue where
  "full_queue = empty_queue\<lparr>sentMessageWriteIndex := 99\<rparr>"

lemma full_queue_inv: "queue_inv full_queue"
  by (simp add: full_queue_def empty_queue_def queue_inv_def)

lemma full_queue_live: "length (dropWhile (purgeable 0) (queue_contents full_queue)) = 99"
proof -
  have c: "queue_count full_queue = 99" by (simp add: queue_count_def full_queue_def empty_queue_def)
  then have "queue_contents full_queue ! 0 = sentMessages full_queue ! 0"
    using nth_ring_entries [of 0 99 "sentMessageReadIndex full_queue" full_queue]
    by (simp add: queue_contents_def full_queue_def empty_queue_def)
  then have "\<not> purgeable 0 (queue_contents full_queue ! 0)"
    by (simp add: purgeable_def full_queue_def empty_queue_def)
  moreover obtain m ms where "queue_contents full_queue = m # ms"
    using length_queue_contents [of full_queue] c by (cases "queue_contents full_queue") auto
  ultimately show ?thesis using length_queue_contents [of full_queue] c by simp
qed

definition sample_ramp :: zone_properties where
  "sample_ramp = \<lparr>zp_AppContextId = 0, zp_groupId = 0x123, zp_state = True, zp_targetState = True,
     zp_powerLevel = 60, zp_targetPowerLevel = 60, zp_rampRate = 50, zp_deviceType = 0x41,
     zp_buildingId = 1, zp_houseId = 77, zp_roomId = 0, zp_ZoneNameString = replicate 21 0,
     zp_EliotDeviceId = replicate 37 0\<rparr>"

lemma sent_queue_refines_log_witness:
  "queue_contents (AddToSentMessageQueue 9 \<lparr>SECONDS = 9, MILLISECONDS = 5\<rparr> (Some sample_ramp) empty_queue) =
     [sent_entry (\<lparr>SECONDS = 9, MILLISECONDS = 5\<rparr>, sample_ramp)]"
  using sent_queue_refines_log [OF empty_queue_inv, of 9 "\<lparr>SECONDS = 9, MILLISECONDS = 5\<rparr>" sample_ramp]
  by simp

lemma echoes_recognised_witness:
  "fst (IsMessageARepeat 1 77 0x123 60 1
     (fold (\<lambda>(t, ts, z). AddToSentMessageQueue t ts (Some z))
       [(9, \<lparr>SECONDS = 9, MILLISECONDS = 5\<rparr>, sample_ramp),
        (14, \<lparr>SECONDS = 14, MILLISECONDS = 0\<rparr>, sample_ramp\<lparr>zp_powerLevel := 10\<rparr>)] empty_queue))"
proof -
  have "length [(9 :: dword_t, \<lparr>SECONDS = 9, MILLISECONDS = 5\<rparr>, sample_ramp),
        (14, \<lparr>SECONDS = 14, MILLISECONDS = 0\<rparr>, sample_ramp\<lparr>zp_powerLevel := 10\<rparr>)] \<le> 99"
    and "sorted_wrt (\<lambda>(t, z) (t', z'). \<not> purgeable t' (sent_entry z))
      [(9, \<lparr>SECONDS = 9, MILLISECONDS = 5\<rparr>, sample_ramp),
        (14, \<lparr>SECONDS = 14, MILLISECONDS = 0\<rparr>, sample_ramp\<lparr>zp_powerLevel := 10\<rparr>)]"
    by (simp_all add: purgeable_def sent_entry_def)
  from echoes_recognised [OF this, of 1 77 "0x123" 60 1] show ?thesis
    by (simp add: sample_ramp_def)
qed

lemma full_ring_forgets_witness:
  "queue_contents (AddToSentMessageQueue 0 \<lparr>SECONDS = 0, MILLISECONDS = 1\<rparr> (Some sample_ramp) full_queue) = []"
  using full_ring_forgets [OF full_queue_inv full_queue_live] by blast

end
