(* ===== verification/Rfm100_Receive.thy ===== *)
theory Rfm100_Receive
  imports Sent_Queue
begin

unbundle bit_operations_syntax

text \<open>
  The receiving half of RFM100_Tasks.c: \<open>BuildReceivedPacket\<close> collects the bytes of the RF module
  in the 64-byte \<open>receivedPacket\<close>, \<open>ProcessReceivedPacket\<close> checks and decodes a packet and
  \<open>RFM100Receive_Task\<close> is the loop around both. One iteration of the loop is \<open>receive_iteration\<close>;
  its input is what \<open>_msgq_receive\<close> returned. The calls into other components (the \<open>Handle...\<close>
  functions, the JSON broadcast of the test mode, the ACK queue) are the actions it emits, in order.
  An access outside \<open>receivedPacket\<close> is the error value of the sum type.
\<close>

datatype receive_state = IDLE | RECEIVING_RF100_LENGTH | RECEIVING_RF100_RSSI | RECEIVING_RF100_PAYLOAD

datatype radio_action =
    HandleRampReceived byte byte word_t byte byte
  | HandleStatusReceived byte byte word_t byte byte
  | HandleSceneControllerMasterOff byte byte word_t byte byte
  | HandleSceneControllerSceneRequest byte byte word_t byte bool byte byte
  | HandleSceneControllerSceneAdjust byte byte word_t byte byte byte byte
  | MTMReceivedRFPacket byte byte "byte list"
  | PublishedAck byte

record radio =
  receivedPacket :: "byte list"
  receivedPacketIndex :: byte
  currentReceiveState :: receive_state
  recvdLen :: byte
  oldSequenceNumber :: byte
  newSequenceNumber :: byte
  sentQueue :: sent_queue
  manufacturingTestModeFlag :: bool
  ackMessagePool :: bool
  receiveAckCounter :: dword_t
  rfm100TransmitTaskMsgAllocErr :: dword_t

abbreviation sizeof_receivedPacket :: nat where "sizeof_receivedPacket \<equiv> 64"
abbreviation START_BYTE :: byte where "START_BYTE \<equiv> 0xb2"
abbreviation RFM100_ACK_BYTE :: byte where "RFM100_ACK_BYTE \<equiv> 0xC5"
abbreviation RFM100_NAK_BYTE :: byte where "RFM100_NAK_BYTE \<equiv> 0xC6"
abbreviation TOPDOG_F1 :: byte where "TOPDOG_F1 \<equiv> 0x01"
abbreviation TOPDOG_F2 :: byte where "TOPDOG_F2 \<equiv> 0x06"
abbreviation TOPDOG_CADIR :: byte where "TOPDOG_CADIR \<equiv> 0x04"
abbreviation TDAM_BROADCAST :: byte where "TDAM_BROADCAST \<equiv> 0"
abbreviation TDAM_ANON_MULTICAST :: byte where "TDAM_ANON_MULTICAST \<equiv> 1"
abbreviation TDAM_MULTICAST :: byte where "TDAM_MULTICAST \<equiv> 3"
abbreviation MAX_TD_POWER :: nat where "MAX_TD_POWER \<equiv> 0xff"
abbreviation SLOW_DEACTIVATION_RAMP_VALUE :: byte where "SLOW_DEACTIVATION_RAMP_VALUE \<equiv> 3"
abbreviation PERCENT_CHANGE_FOR_ADJUST :: byte where "PERCENT_CHANGE_FOR_ADJUST \<equiv> 5"

text \<open>The values of \<open>TopDogCommand\<close> that are received or sent.\<close>

abbreviation RAMP :: word_t where "RAMP \<equiv> 0x0005"
abbreviation CANCEL_RAMP :: word_t where "CANCEL_RAMP \<equiv> 0x0006"
abbreviation STATUS :: word_t where "STATUS \<equiv> 0x0013"
abbreviation ASSIGN_SCENE :: word_t where "ASSIGN_SCENE \<equiv> 0x002A"
abbreviation SCENE_REQUESTED :: word_t where "SCENE_REQUESTED \<equiv> 0x002B"
abbreviation SCENE_EXECUTED :: word_t where "SCENE_EXECUTED \<equiv> 0x002C"
abbreviation SCENE_ADJUST :: word_t where "SCENE_ADJUST \<equiv> 0x002D"
abbreviation SCENE_CTL_SETTING :: word_t where "SCENE_CTL_SETTING \<equiv> 0x002E"
abbreviation SCENE_CONTROLLER_MASTER_OFF :: word_t where "SCENE_CONTROLLER_MASTER_OFF \<equiv> 0x002F"

subsection \<open>Collecting a packet\<close>

definition BuildReceivedPacket :: "byte \<Rightarrow> radio \<Rightarrow> memory_error + bool \<times> radio" where
  "BuildReceivedPacket inByte st =
     (if sizeof_receivedPacket \<le> unat (receivedPacketIndex st) then Inl OutOfBoundsWrite
      else
        let st = st\<lparr>receivedPacket := (receivedPacket st)[unat (receivedPacketIndex st) := inByte],
                    receivedPacketIndex := receivedPacketIndex st + 1\<rparr>
        in if sizeof_receivedPacket \<le> unat (receivedPacketIndex st)
           then Inr (False, st\<lparr>currentReceiveState := IDLE\<rparr>)
           else
             (case currentReceiveState st of
                IDLE \<Rightarrow>
                  Inr (False, if inByte = START_BYTE
                              then st\<lparr>currentReceiveState := RECEIVING_RF100_LENGTH\<rparr> else st)
              | RECEIVING_RF100_LENGTH \<Rightarrow>
                  let st = st\<lparr>recvdLen := inByte + 1\<rparr>
                  in Inr (False, if sizeof_receivedPacket < unat (recvdLen st)
                                 then st\<lparr>currentReceiveState := IDLE\<rparr>
                                 else st\<lparr>currentReceiveState := RECEIVING_RF100_RSSI\<rparr>)
              | RECEIVING_RF100_RSSI \<Rightarrow>
                  Inr (False, st\<lparr>currentReceiveState := RECEIVING_RF100_PAYLOAD\<rparr>)
              | RECEIVING_RF100_PAYLOAD \<Rightarrow>
                  if unat (recvdLen st) + 1 < unat (receivedPacketIndex st)
                  then Inr (True, st\<lparr>currentReceiveState := IDLE\<rparr>)
                  else Inr (False, st)))"

subsection \<open>Checking a packet\<close>

text \<open>\<open>UpdateCRC8(0, &receivedPacket[3], packetLength - k)\<close>: the difference is computed in \<open>int\<close>
  and converted to the unsigned 32-bit size.\<close>

definition packet_crc :: "byte list \<Rightarrow> int \<Rightarrow> memory_error + byte" where
  "packet_crc p n =
     (let buffSize = unat (word_of_int n :: dword_t)
      in if sizeof_receivedPacket < 3 + buffSize then Inl OutOfBoundsRead
         else Inr (UpdateCRC8 0 (take buffSize (drop 3 p))))"

definition packet_byte :: "byte list \<Rightarrow> nat \<Rightarrow> memory_error + byte" where
  "packet_byte p i = (if i < sizeof_receivedPacket then Inr (p ! i) else Inl OutOfBoundsRead)"

definition topdogFamily :: "byte list \<Rightarrow> byte" where "topdogFamily p = drop_bit 5 (p ! 3 AND 0xe0)"
definition topdogAddressMode :: "byte list \<Rightarrow> byte" where "topdogAddressMode p = drop_bit 3 (p ! 3 AND 0x18)"
definition timeToLive :: "byte list \<Rightarrow> byte" where "timeToLive p = p ! 3 AND 0x03"

definition valid_packet :: "byte list \<Rightarrow> memory_error + bool" where
  "valid_packet p =
     (let packetLength = unat (p ! 1) in
      if topdogFamily p = TOPDOG_F1 then
        bind_sum (packet_crc p (int packetLength - 1)) (\<lambda>crc.
        bind_sum (packet_byte p (packetLength + 2)) (\<lambda>b. Inr (crc = b)))
      else if topdogFamily p = TOPDOG_F2 \<or> topdogFamily p = TOPDOG_CADIR then
        bind_sum (packet_crc p (int packetLength - 2)) (\<lambda>crc.
        bind_sum (packet_byte p (packetLength + 1)) (\<lambda>b.
          if b = crc then bind_sum (packet_byte p (packetLength + 2)) (\<lambda>b. Inr (b = NOT crc))
          else Inr False))
      else Inr False)"

subsection \<open>Decoding a packet\<close>

text \<open>The address fields of a group-addressed packet (bytes 4 to 6).\<close>

definition pk_buildingId :: "byte list \<Rightarrow> byte" where
  "pk_buildingId p = drop_bit 5 (p ! 4 AND 0xe0)"

definition pk_houseId :: "byte list \<Rightarrow> byte" where
  "pk_houseId p = push_bit 3 (p ! 4 AND 0x1f) OR drop_bit 5 (p ! 5 AND 0xe0)"

definition pk_groupId :: "byte list \<Rightarrow> word_t" where
  "pk_groupId p = word_of_bytes (p ! 5 AND 0x0f) (p ! 6)"

text \<open>The command and the index of its parameters.\<close>

definition packet_command :: "byte list \<Rightarrow> word_t \<times> nat" where
  "packet_command p =
     (let cmd = ucast (p ! 7 AND 0x3f) :: word_t
      in if 0x30 \<le> cmd then (push_bit 8 cmd OR ucast (p ! 8), 9) else (cmd, 8))"

text \<open>Normalising a received level to a percentage; the quotient is truncated to a byte.\<close>

definition level_of_power :: "byte \<Rightarrow> byte" where
  "level_of_power b = of_nat ((unat b * 100 + MAX_TD_POWER div 2) div MAX_TD_POWER)"

definition slow_mode :: "bool \<Rightarrow> byte" where
  "slow_mode b = (if b then SLOW_DEACTIVATION_RAMP_VALUE else 0)"

definition new_sequence :: "radio \<Rightarrow> bool" where
  "new_sequence st \<longleftrightarrow> newSequenceNumber st \<noteq> oldSequenceNumber st \<or> newSequenceNumber st = 0"

text \<open>The switch over the command; \<open>i\<close> is \<open>packIdx\<close>.\<close>

definition dispatch_command :: "byte list \<Rightarrow> word_t \<Rightarrow> nat \<Rightarrow> radio \<Rightarrow> radio_action list \<times> radio" where
  "dispatch_command p cmd i st =
     (let b = pk_buildingId p; h = pk_houseId p; g = pk_groupId p in
      if cmd = RAMP \<or> cmd = CANCEL_RAMP then
        let targetValue = level_of_power (p ! i);
            (rep, q) = IsMessageARepeat b h g targetValue (timeToLive p) (sentQueue st);
            st = st\<lparr>sentQueue := q\<rparr>
        in (if rep then [] else [HandleRampReceived b h g targetValue (p ! (i + 2))], st)
      else if cmd = STATUS then
        ([HandleStatusReceived b h g (p ! (i + 1)) (level_of_power (p ! i))], st)
      else if cmd = SCENE_CONTROLLER_MASTER_OFF then
        let st = st\<lparr>newSequenceNumber := p ! (i + 1)\<rparr>
        in (if new_sequence st
            then [HandleSceneControllerMasterOff b h g (p ! (i + 2)) (slow_mode (p ! (i + 2) \<noteq> 0))]
            else [], st)
      else if cmd = SCENE_REQUESTED then
        let bankIndex = p ! (i + 1) AND 0x3f;
            st = st\<lparr>newSequenceNumber := p ! (i + 3)\<rparr>;
            sceneState = (p ! (i + 1) AND 0x40 \<noteq> 0);
            slowDeactivateMode = slow_mode (p ! (i + 1) AND 0x80 \<noteq> 0)
        in if new_sequence st
           then ([HandleSceneControllerSceneRequest b h g bankIndex sceneState (p ! (i + 2)) slowDeactivateMode],
                 st\<lparr>oldSequenceNumber := newSequenceNumber st\<rparr>)
           else ([], st)
      else if cmd = SCENE_ADJUST then
        let st = st\<lparr>newSequenceNumber := p ! (i + 3)\<rparr>;
            chgUporDown = drop_bit 7 (p ! (i + 1) AND 0x80)
        in if new_sequence st
           then ([HandleSceneControllerSceneAdjust b h g (p ! i) PERCENT_CHANGE_FOR_ADJUST chgUporDown 0],
                 st\<lparr>oldSequenceNumber := newSequenceNumber st\<rparr>)
           else ([], st)
      else ([], st))"

definition decode_packet :: "radio \<Rightarrow> radio_action list \<times> radio" where
  "decode_packet st =
     (let p = receivedPacket st in
      if manufacturingTestModeFlag st
      then ([MTMReceivedRFPacket (p ! 2) (p ! 0) (take (unat (p ! 1)) (drop 3 p))], st)
      else if topdogAddressMode p \<in> {TDAM_BROADCAST, TDAM_ANON_MULTICAST, TDAM_MULTICAST} \<and>
              p ! 5 AND 0x10 = 0
      then (case packet_command p of (cmd, i) \<Rightarrow> dispatch_command p cmd i st)
      else ([], st))"

definition ProcessReceivedPacket :: "radio \<Rightarrow> memory_error + radio_action list \<times> radio" where
  "ProcessReceivedPacket st =
     bind_sum (valid_packet (receivedPacket st)) (\<lambda>ok.
     Inr (if ok then decode_packet st else ([], st)))"

subsection \<open>The receive task\<close>

text \<open>\<open>allocated\<close> says whether \<open>_msg_alloc\<close> returns a message.\<close>

definition PublishAckToQueue :: "bool \<Rightarrow> byte \<Rightarrow> radio \<Rightarrow> radio_action list \<times> radio" where
  "PublishAckToQueue allocated ackByte st =
     (if ackMessagePool st then
        if allocated then ([PublishedAck ackByte], st\<lparr>receiveAckCounter := receiveAckCounter st + 1\<rparr>)
        else ([], st\<lparr>rfm100TransmitTaskMsgAllocErr := rfm100TransmitTaskMsgAllocErr st + 1\<rparr>)
      else ([], st))"

datatype radio_input = ReceivedByte bool byte | ReceiveTimeout

text \<open>One iteration of the loop of \<open>RFM100Receive_Task\<close>.\<close>

definition receive_iteration :: "radio_input \<Rightarrow> radio \<Rightarrow> memory_error + radio_action list \<times> radio" where
  "receive_iteration inp st =
     (let st = (if currentReceiveState st = IDLE then st\<lparr>receivedPacketIndex := 0\<rparr> else st) in
      case inp of
        ReceiveTimeout \<Rightarrow> Inr ([], st\<lparr>currentReceiveState := IDLE\<rparr>)
      | ReceivedByte allocated inByte \<Rightarrow>
          if currentReceiveState st = IDLE \<and> (inByte = RFM100_ACK_BYTE \<or> inByte = RFM100_NAK_BYTE)
          then Inr (PublishAckToQueue allocated inByte st)
          else bind_sum (BuildReceivedPacket inByte st) (\<lambda>(gotAPacketFlag, st).
               if gotAPacketFlag then ProcessReceivedPacket st else Inr ([], st)))"

fun receive_run :: "radio_input list \<Rightarrow> radio \<Rightarrow> memory_error + radio_action list \<times> radio" where
  "receive_run [] st = Inr ([], st)"
| "receive_run (x # xs) st =
     bind_sum (receive_iteration x st) (\<lambda>(as, st).
     bind_sum (receive_run xs st) (\<lambda>(bs, st). Inr (as @ bs, st)))"

subsection \<open>The receive buffer\<close>

text \<open>
  The invariant of the receive task between two iterations: the write position belongs to the state,
  and the length field the state machine works with is the one stored in the packet.
\<close>

definition rx_position_ok :: "radio \<Rightarrow> bool" where
  "rx_position_ok st =
     (let n = unat (receivedPacketIndex st) in
      case currentReceiveState st of
        IDLE \<Rightarrow> True
      | RECEIVING_RF100_LENGTH \<Rightarrow> n = 1
      | RECEIVING_RF100_RSSI \<Rightarrow> n = 2 \<and> recvdLen st = receivedPacket st ! 1 + 1 \<and> unat (recvdLen st) \<le> 64
      | RECEIVING_RF100_PAYLOAD \<Rightarrow> 3 \<le> n \<and> n < 64 \<and> recvdLen st = receivedPacket st ! 1 + 1 \<and>
          unat (recvdLen st) \<le> 64 \<and> (n = 3 \<or> n \<le> unat (recvdLen st) + 1))"

definition rx_inv :: "radio \<Rightarrow> bool" where
  "rx_inv st \<longleftrightarrow> length (receivedPacket st) = 64 \<and> queue_inv (sentQueue st) \<and> rx_position_ok st"

lemma unat_Suc_byte: "unat (w :: byte) < 255 \<Longrightarrow> unat (w + 1) = unat w + 1"
  by (simp add: unat_plus_if')

lemma packet_crc_ok:
  "3 + n \<le> 64 \<Longrightarrow> packet_crc p (int n) = Inr (UpdateCRC8 0 (take n (drop 3 p)))"
  by (simp add: packet_crc_def Let_def unat_of_nat)

lemma valid_packet_ok:
  assumes "2 \<le> unat (p ! 1)" "unat (p ! 1) \<le> 60"
  shows "valid_packet p =
    (let n = unat (p ! 1) in
     Inr (if topdogFamily p = TOPDOG_F1 then UpdateCRC8 0 (take (n - 1) (drop 3 p)) = p ! (n + 2)
      else (topdogFamily p = TOPDOG_F2 \<or> topdogFamily p = TOPDOG_CADIR) \<and>
        p ! (n + 1) = UpdateCRC8 0 (take (n - 2) (drop 3 p)) \<and>
        p ! (n + 2) = NOT (UpdateCRC8 0 (take (n - 2) (drop 3 p)))))"
proof -
  have "packet_crc p (int (unat (p ! 1)) - 1) = Inr (UpdateCRC8 0 (take (unat (p ! 1) - 1) (drop 3 p)))"
    and "packet_crc p (int (unat (p ! 1)) - 2) = Inr (UpdateCRC8 0 (take (unat (p ! 1) - 2) (drop 3 p)))"
    using assms packet_crc_ok [of "unat (p ! 1) - 1" p] packet_crc_ok [of "unat (p ! 1) - 2" p]
    by (simp_all only: of_nat_diff of_nat_1 of_nat_numeral)
  then show ?thesis
    using assms unfolding valid_packet_def Let_def
    by (simp add: packet_byte_def)
qed

lemma valid_packet_one:
  assumes "unat (p ! 1) = 1" "valid_packet p = Inl e"
  shows "e = OutOfBoundsRead \<and> (topdogFamily p = TOPDOG_F2 \<or> topdogFamily p = TOPDOG_CADIR)"
  using assms packet_crc_ok [of 0 p]
  by (auto simp: valid_packet_def packet_byte_def packet_crc_def bind_sum_Inl Let_def split: if_splits)

lemma valid_packet_Inl: "valid_packet p = Inl e \<Longrightarrow> e = OutOfBoundsRead"
  by (auto simp: valid_packet_def packet_byte_def packet_crc_def bind_sum_Inl Let_def split: if_splits)

lemma dispatch_frame:
  assumes "dispatch_command p cmd i st = (as, st')" "queue_inv (sentQueue st)"
  shows "receivedPacket st' = receivedPacket st \<and> receivedPacketIndex st' = receivedPacketIndex st \<and>
    currentReceiveState st' = currentReceiveState st \<and> recvdLen st' = recvdLen st \<and> sentQueue st' = sentQueue st"
  using assms
  by (auto simp: dispatch_command_def Let_def IsMessageARepeat_exact split: if_splits)

lemma process_frame:
  assumes "ProcessReceivedPacket st = Inr (as, st')" "queue_inv (sentQueue st)"
  shows "receivedPacket st' = receivedPacket st \<and> receivedPacketIndex st' = receivedPacketIndex st \<and>
    currentReceiveState st' = currentReceiveState st \<and> recvdLen st' = recvdLen st \<and> sentQueue st' = sentQueue st"
  using assms
  by (auto simp: ProcessReceivedPacket_def bind_sum_Inr decode_packet_def Let_def
      split: if_splits prod.splits dest!: dispatch_frame)

lemma publish_frame:
  assumes "PublishAckToQueue al b st = (as, st')"
  shows "receivedPacket st' = receivedPacket st \<and> receivedPacketIndex st' = receivedPacketIndex st \<and>
    currentReceiveState st' = currentReceiveState st \<and> recvdLen st' = recvdLen st \<and> sentQueue st' = sentQueue st"
  using assms by (auto simp: PublishAckToQueue_def split: if_splits)

lemma rx_inv_cong:
  assumes "receivedPacket st' = receivedPacket st" "receivedPacketIndex st' = receivedPacketIndex st"
    "currentReceiveState st' = currentReceiveState st" "recvdLen st' = recvdLen st" "sentQueue st' = sentQueue st"
  shows "rx_inv st' \<longleftrightarrow> rx_inv st"
  using assms by (simp add: rx_inv_def rx_position_ok_def Let_def split: receive_state.split)

text \<open>Where the byte of the next iteration is written.\<close>

definition rx_ready :: "radio \<Rightarrow> bool" where
  "rx_ready st \<longleftrightarrow> rx_inv st \<and> (currentReceiveState st = IDLE \<longrightarrow> receivedPacketIndex st = 0)"

lemma rx_ready_index: "rx_ready st \<Longrightarrow> unat (receivedPacketIndex st) < 64"
  by (cases "currentReceiveState st") (auto simp: rx_ready_def rx_inv_def rx_position_ok_def Let_def)

lemma Build_no_error:
  assumes "rx_ready st"
  obtains fin st' where "BuildReceivedPacket b st = Inr (fin, st')"
proof (cases "BuildReceivedPacket b st")
  case (Inl e)
  then show ?thesis using rx_ready_index [OF assms]
    by (auto simp: BuildReceivedPacket_def Let_def split: receive_state.splits if_splits)
next
  case (Inr x)
  then show ?thesis using that by (cases x) auto
qed

lemma Build_idle:
  assumes "rx_ready st" "currentReceiveState st = IDLE" "BuildReceivedPacket b st = Inr (fin, st')"
  shows "\<not> fin \<and> rx_inv st'"
  using assms
  by (auto simp: BuildReceivedPacket_def Let_def rx_ready_def rx_inv_def rx_position_ok_def split: if_splits)

lemma Build_length:
  assumes "rx_ready st" "currentReceiveState st = RECEIVING_RF100_LENGTH" "BuildReceivedPacket b st = Inr (fin, st')"
  shows "\<not> fin \<and> rx_inv st'"
proof -
  have "unat (receivedPacketIndex st + 1) = 2"
    using assms by (simp add: unat_Suc_byte rx_ready_def rx_inv_def rx_position_ok_def Let_def)
  then show ?thesis using assms
    by (auto simp: BuildReceivedPacket_def Let_def rx_ready_def rx_inv_def rx_position_ok_def split: if_splits)
qed

lemma Build_rssi:
  assumes "rx_ready st" "currentReceiveState st = RECEIVING_RF100_RSSI" "BuildReceivedPacket b st = Inr (fin, st')"
  shows "\<not> fin \<and> rx_inv st'"
proof -
  have "unat (receivedPacketIndex st + 1) = 3"
    using assms by (simp add: unat_Suc_byte rx_ready_def rx_inv_def rx_position_ok_def Let_def)
  then show ?thesis using assms
    by (auto simp: BuildReceivedPacket_def Let_def rx_ready_def rx_inv_def rx_position_ok_def split: if_splits)
qed

lemma unat_byte_succ: "unat (b + 1) = (if b = 0xFF then 0 else unat b + 1)" for b :: byte
proof (cases "b = 0xFF")
  case False
  then have "unat b \<noteq> unat (0xFF :: byte)" by (metis unsigned_word_eqI)
  then have "unat b < 255" using byte_index [of b] by simp
  then show ?thesis using False by (simp add: unat_Suc_byte)
qed simp

lemma Build_payload:
  assumes "rx_ready st" "currentReceiveState st = RECEIVING_RF100_PAYLOAD" "BuildReceivedPacket b st = Inr (fin, st')"
  shows "rx_inv st' \<and> receivedPacket st' ! 1 = receivedPacket st ! 1 \<and>
    (fin \<longrightarrow> currentReceiveState st' = IDLE \<and>
       (unat (receivedPacket st ! 1) \<le> 60 \<or> receivedPacket st ! 1 = 0xFF))"
proof -
  have n: "3 \<le> unat (receivedPacketIndex st)" "unat (receivedPacketIndex st) < 64"
    "recvdLen st = receivedPacket st ! 1 + 1" "length (receivedPacket st) = 64"
    "unat (receivedPacketIndex st) = 3 \<or> unat (receivedPacketIndex st) \<le> unat (recvdLen st) + 1"
    using assms by (auto simp: rx_ready_def rx_inv_def rx_position_ok_def Let_def)
  have s: "unat (receivedPacketIndex st + 1) = unat (receivedPacketIndex st) + 1"
    using n by (simp add: unat_Suc_byte)
  have i: "(receivedPacket st)[unat (receivedPacketIndex st) := b] ! 1 = receivedPacket st ! 1"
    using n by simp
  have l: "unat (receivedPacket st ! 1 + 1) = (if receivedPacket st ! 1 = 0xFF then 0 else unat (receivedPacket st ! 1) + 1)"
    using unat_byte_succ .
  show ?thesis using assms n s i l
    by (auto simp: BuildReceivedPacket_def Let_def rx_ready_def rx_inv_def rx_position_ok_def split: if_splits)
qed

definition rx_start :: "radio \<Rightarrow> radio" where
  "rx_start st = (if currentReceiveState st = IDLE then st\<lparr>receivedPacketIndex := 0\<rparr> else st)"

lemma rx_start_ready: "rx_inv st \<Longrightarrow> rx_ready (rx_start st)"
  by (auto simp: rx_start_def rx_ready_def rx_inv_def rx_position_ok_def)

lemma rx_start_simps [simp]:
  "currentReceiveState (rx_start st) = currentReceiveState st"
  "receivedPacket (rx_start st) = receivedPacket st"
  "sentQueue (rx_start st) = sentQueue st"
  "recvdLen (rx_start st) = recvdLen st"
  by (simp_all add: rx_start_def)

lemma receive_iteration_eq:
  "receive_iteration inp st =
     (case inp of
        ReceiveTimeout \<Rightarrow> Inr ([], (rx_start st)\<lparr>currentReceiveState := IDLE\<rparr>)
      | ReceivedByte allocated inByte \<Rightarrow>
          if currentReceiveState st = IDLE \<and> (inByte = RFM100_ACK_BYTE \<or> inByte = RFM100_NAK_BYTE)
          then Inr (PublishAckToQueue allocated inByte (rx_start st))
          else bind_sum (BuildReceivedPacket inByte (rx_start st)) (\<lambda>(got, st).
               if got then ProcessReceivedPacket st else Inr ([], st)))"
  unfolding receive_iteration_def rx_start_def [symmetric] Let_def by (simp only: rx_start_simps)

lemma process_short_errors:
  assumes "unat (receivedPacket st ! 1) \<le> 60 \<or> receivedPacket st ! 1 = 0xFF"
    "ProcessReceivedPacket st = Inl e"
  shows "e = OutOfBoundsRead \<and> receivedPacket st ! 1 \<in> {0, 1, 0xFF}"
proof -
  have v: "valid_packet (receivedPacket st) = Inl e"
    using assms(2) by (auto simp: ProcessReceivedPacket_def bind_sum_Inl)
  have "\<not> (2 \<le> unat (receivedPacket st ! 1) \<and> unat (receivedPacket st ! 1) \<le> 60)"
    using v valid_packet_ok [of "receivedPacket st"] by (auto simp: Let_def)
  then have "unat (receivedPacket st ! 1) = 0 \<or> unat (receivedPacket st ! 1) = 1 \<or> receivedPacket st ! 1 = 0xFF"
    using assms(1) by linarith
  then have "receivedPacket st ! 1 \<in> {0, 1, 0xFF}"
    by (metis insertCI unat_0 unat_1 unsigned_word_eqI)
  then show ?thesis using valid_packet_Inl [OF v] by blast
qed

lemma receive_iteration_inv:
  assumes inv: "rx_inv st"
  shows "case receive_iteration inp st of
      Inr (as, st') \<Rightarrow> rx_inv st'
    | Inl e \<Rightarrow> e = OutOfBoundsRead \<and> currentReceiveState st = RECEIVING_RF100_PAYLOAD \<and>
        receivedPacket st ! 1 \<in> {0, 1, 0xFF}"
proof (cases inp)
  case ReceiveTimeout
  then show ?thesis using inv by (simp add: receive_iteration_eq rx_inv_def rx_position_ok_def)
next
  case (ReceivedByte al b)
  let ?s = "rx_start st"
  have r: "rx_ready ?s" using inv by (rule rx_start_ready)
  obtain fin st1 where B: "BuildReceivedPacket b ?s = Inr (fin, st1)" using Build_no_error [OF r] .
  show ?thesis
  proof (cases "currentReceiveState st = IDLE \<and> (b = RFM100_ACK_BYTE \<or> b = RFM100_NAK_BYTE)")
    case True
    have "rx_inv (snd (PublishAckToQueue al b ?s))"
      using rx_inv_cong [of "snd (PublishAckToQueue al b ?s)" ?s] publish_frame [of al b ?s] r
      by (metis prod.collapse rx_ready_def)
    then show ?thesis using True by (simp add: ReceivedByte receive_iteration_eq case_prod_beta)
  next
    case False
    then have e: "receive_iteration inp st = (if fin then ProcessReceivedPacket st1 else Inr ([], st1))"
      by (auto simp: ReceivedByte receive_iteration_eq B)
    show ?thesis
    proof (cases "currentReceiveState st = RECEIVING_RF100_PAYLOAD")
      case False
      then have "\<not> fin \<and> rx_inv st1"
        using Build_idle [OF r _ B] Build_length [OF r _ B] Build_rssi [OF r _ B]
        by (cases "currentReceiveState st") auto
      then show ?thesis by (simp add: e)
    next
      case True
      have p: "rx_inv st1" "receivedPacket st1 ! 1 = receivedPacket st ! 1"
        "fin \<Longrightarrow> unat (receivedPacket st1 ! 1) \<le> 60 \<or> receivedPacket st1 ! 1 = 0xFF"
        using Build_payload [OF r _ B] True by auto
      show ?thesis
      proof (cases fin)
        case False
        then show ?thesis using p by (simp add: e)
      next
        case fin: True
        show ?thesis
        proof (cases "ProcessReceivedPacket st1")
          case (Inl x)
          then show ?thesis using process_short_errors [OF p(3) Inl] fin p(2) True by (simp add: e)
        next
          case (Inr x)
          then obtain as st' where x: "ProcessReceivedPacket st1 = Inr (as, st')" by (cases x) auto
          have "rx_inv st'"
            using process_frame [OF x] rx_inv_cong [of st' st1] p(1) by (simp add: rx_inv_def)
          then show ?thesis using fin by (simp add: e x)
        qed
      qed
    qed
  qed
qed

subsection \<open>The receive task as a step relation\<close>

inductive radio_step :: "radio \<Rightarrow> radio_input \<Rightarrow> radio_action list \<Rightarrow> radio \<Rightarrow> bool" where
  step: "receive_iteration inp st = Inr (as, st') \<Longrightarrow> radio_step st inp as st'"

inductive radio_reaches :: "radio \<Rightarrow> radio_action list \<Rightarrow> radio \<Rightarrow> bool" for st0 where
  start: "radio_reaches st0 [] st0"
| more: "radio_reaches st0 as st \<Longrightarrow> radio_step st inp bs st' \<Longrightarrow> radio_reaches st0 (as @ bs) st'"

inductive_simps radio_step_iff: "radio_step st inp as st'"

lemma reaches_inv: "radio_reaches st0 as st \<Longrightarrow> rx_inv st0 \<Longrightarrow> rx_inv st"
proof (induction rule: radio_reaches.induct)
  case (more as st inp bs st')
  then show ?case using receive_iteration_inv [of st inp] by (simp add: radio_step_iff)
qed

subsection \<open>Receiving a frame\<close>

definition bytes_in :: "bool \<Rightarrow> byte list \<Rightarrow> radio_input list" where
  "bytes_in al bs = map (ReceivedByte al) bs"

text \<open>The receiver state after the last byte of a frame, when the packet is processed.\<close>

definition with_frame :: "byte list \<Rightarrow> radio \<Rightarrow> radio" where
  "with_frame f st = st\<lparr>receivedPacket := f @ drop (length f) (receivedPacket st),
     receivedPacketIndex := of_nat (length f), currentReceiveState := IDLE, recvdLen := f ! 1 + 1\<rparr>"

lemma run_silent:
  "receive_iteration x st = Inr ([], st') \<Longrightarrow> receive_run (x # xs) st = receive_run xs st'"
  by simp

lemma list_update_split: "k < length xs \<Longrightarrow> xs[k := b] = take k xs @ b # drop (Suc k) xs"
  by (simp add: upd_conv_take_nth_drop)

lemma payload_iteration:
  fixes st k b len
  assumes "currentReceiveState st = RECEIVING_RF100_PAYLOAD" "unat (receivedPacketIndex st) = k" "k < 63"
    "unat (recvdLen st) = len + 1" "k \<le> len + 2"
  defines "st' \<equiv> st\<lparr>receivedPacket := (receivedPacket st)[k := b], receivedPacketIndex := of_nat (Suc k)\<rparr>"
  shows "receive_iteration (ReceivedByte al b) st =
    (if k = len + 2 then ProcessReceivedPacket (st'\<lparr>currentReceiveState := IDLE\<rparr>) else Inr ([], st'))"
proof -
  have u: "unat (receivedPacketIndex st + 1) = Suc k"
    using assms(2,3) by (simp add: unat_Suc_byte)
  then have i: "receivedPacketIndex st + 1 = of_nat (Suc k)"
    using assms(3) by (intro word_unat_eq_iff [THEN iffD2]) (simp add: unat_of_nat del: of_nat_Suc)
  have s: "rx_start st = st" using assms(1) by (simp add: rx_start_def)
  have u': "unat (of_nat (Suc k) :: byte) = Suc k" using u i by simp
  show ?thesis
    using assms(1-5) u u' by (simp add: receive_iteration_eq s BuildReceivedPacket_def Let_def i st'_def del: of_nat_Suc)
qed

lemma payload_run:
  assumes "currentReceiveState st = RECEIVING_RF100_PAYLOAD" "unat (receivedPacketIndex st) = k"
    "unat (recvdLen st) = len + 1" "len \<le> 60" "bs \<noteq> []" "k + length bs = len + 3"
    "length (receivedPacket st) = 64"
  shows "receive_run (bytes_in al bs) st =
    ProcessReceivedPacket (st\<lparr>receivedPacket := take k (receivedPacket st) @ bs @ drop (len + 3) (receivedPacket st),
      receivedPacketIndex := of_nat (len + 3), currentReceiveState := IDLE\<rparr>)"
  using assms
proof (induction bs arbitrary: st k)
  case Nil
  then show ?case by simp
next
  case (Cons b bs)
  let ?s = "st\<lparr>receivedPacket := (receivedPacket st)[k := b], receivedPacketIndex := of_nat (Suc k)\<rparr>"
  have k: "k < 63" "k \<le> len + 2" using Cons.prems by auto
  note it = payload_iteration [OF Cons.prems(1,2) k(1) Cons.prems(3) k(2), of al b]
  have up: "(receivedPacket st)[k := b] = take k (receivedPacket st) @ b # drop (Suc k) (receivedPacket st)"
    using k Cons.prems by (intro list_update_split) simp
  show ?case
  proof (cases "bs = []")
    case True
    then have kl: "k = len + 2" and lk: "len + 3 = Suc k" using Cons.prems by simp_all
    show ?thesis unfolding lk bytes_in_def using it [unfolded if_P [OF kl]] True
      by (simp add: up del: of_nat_Suc)
  next
    case False
    then have "k \<noteq> len + 2" using Cons.prems by (cases bs) auto
    then have "receive_iteration (ReceivedByte al b) st = Inr ([], ?s)" using it by simp
    then have "receive_run (bytes_in al (b # bs)) st = receive_run (bytes_in al bs) ?s"
      by (simp only: bytes_in_def list.map run_silent)
    also have "\<dots> = ProcessReceivedPacket (?s\<lparr>receivedPacket := take (Suc k) (receivedPacket ?s) @ bs @ drop (len + 3) (receivedPacket ?s),
        receivedPacketIndex := of_nat (len + 3), currentReceiveState := IDLE\<rparr>)"
      using Cons.prems False k by (intro Cons.IH) (simp_all add: unat_of_nat del: of_nat_Suc)
    also have "take (Suc k) (receivedPacket ?s) @ bs @ drop (len + 3) (receivedPacket ?s) =
        take k (receivedPacket st) @ (b # bs) @ drop (len + 3) (receivedPacket st)"
      using k Cons.prems by (simp add: up min_def Suc_diff_le numeral_3_eq_3)
    finally show ?thesis by simp
  qed
qed

lemma frame_run:
  assumes idle: "currentReceiveState st = IDLE" and p: "length (receivedPacket st) = 64"
    and len: "length body = unat len" "1 \<le> unat len" "unat len \<le> 60"
  shows "receive_run (bytes_in al (START_BYTE # len # rssi # body)) st =
    ProcessReceivedPacket (with_frame (START_BYTE # len # rssi # body) st)"
proof -
  let ?p = "receivedPacket st"
  obtain p0 p1 p2 ps where ps: "?p = p0 # p1 # p2 # ps" "length ps = 61"
    using p by (auto simp: numeral_eq_Suc length_Suc_conv)
  have lu: "unat (len + 1) = unat len + 1" using len by (simp add: unat_Suc_byte)
  let ?s1 = "st\<lparr>receivedPacket := START_BYTE # p1 # p2 # ps, receivedPacketIndex := 1, currentReceiveState := RECEIVING_RF100_LENGTH\<rparr>"
  let ?s2 = "st\<lparr>receivedPacket := START_BYTE # len # p2 # ps, receivedPacketIndex := 2, currentReceiveState := RECEIVING_RF100_RSSI,
      recvdLen := len + 1\<rparr>"
  let ?s3 = "st\<lparr>receivedPacket := START_BYTE # len # rssi # ps, receivedPacketIndex := 3, currentReceiveState := RECEIVING_RF100_PAYLOAD,
      recvdLen := len + 1\<rparr>"
  have 1: "receive_iteration (ReceivedByte al START_BYTE) st = Inr ([], ?s1)"
    using idle by (simp add: receive_iteration_eq rx_start_def BuildReceivedPacket_def Let_def ps)
  have 2: "receive_iteration (ReceivedByte al len) ?s1 = Inr ([], ?s2)"
    using len lu by (simp add: receive_iteration_eq rx_start_def BuildReceivedPacket_def Let_def)
  have 3: "receive_iteration (ReceivedByte al rssi) ?s2 = Inr ([], ?s3)"
    by (simp add: receive_iteration_eq rx_start_def BuildReceivedPacket_def Let_def)
  have "receive_run (bytes_in al (START_BYTE # len # rssi # body)) st = receive_run (bytes_in al body) ?s3"
    unfolding bytes_in_def list.map run_silent [OF 1] run_silent [OF 2] run_silent [OF 3] ..
  also have "\<dots> = ProcessReceivedPacket (?s3\<lparr>receivedPacket := take 3 (receivedPacket ?s3) @ body @ drop (unat len + 3) (receivedPacket ?s3),
      receivedPacketIndex := of_nat (unat len + 3), currentReceiveState := IDLE\<rparr>)"
    using len lu ps by (intro payload_run) (auto simp: unat_of_nat)
  also have "\<dots> = ProcessReceivedPacket (with_frame (START_BYTE # len # rssi # body) st)"
  proof -
    have sz: "length (START_BYTE # len # rssi # body) = unat len + 3" using len by simp
    show ?thesis unfolding with_frame_def sz
      by (intro arg_cong [where f = ProcessReceivedPacket] radio.equality) (simp_all add: ps numeral_3_eq_3)
  qed
  finally show ?thesis .
qed

subsection \<open>Properties of the receive path\<close>

text \<open>C12: whatever bytes and timeouts the RF module delivers, a receive task that started with its
  buffer in order never writes outside \<open>receivedPacket\<close> and keeps the position of the next byte,
  the state and the stored length in step. It can leave the buffer in one way only: by reading past
  its end while checking a packet whose length byte is 0, 1 or 255.\<close>

theorem receive_task_safe:
  assumes "rx_inv st0" "radio_reaches st0 as st"
  shows "rx_inv st \<and> receive_iteration inp st \<noteq> Inl OutOfBoundsWrite \<and>
    (receive_iteration inp st = Inl OutOfBoundsRead \<longrightarrow>
      currentReceiveState st = RECEIVING_RF100_PAYLOAD \<and> receivedPacket st ! 1 \<in> {0, 1, 0xFF})"
proof (intro conjI)
  show inv: "rx_inv st" using reaches_inv [OF assms(2,1)] .
  show "receive_iteration inp st \<noteq> Inl OutOfBoundsWrite"
    and "receive_iteration inp st = Inl OutOfBoundsRead \<longrightarrow>
      currentReceiveState st = RECEIVING_RF100_PAYLOAD \<and> receivedPacket st ! 1 \<in> {0, 1, 0xFF}"
    using receive_iteration_inv [OF inv, of inp] by (cases "receive_iteration inp st"; auto)+
qed

lemma short_frame_run:
  assumes idle: "currentReceiveState st = IDLE" and p: "length (receivedPacket st) = 64"
    and len: "len = 0 \<or> len = 0xFF"
  shows "receive_run (bytes_in al [START_BYTE, len, rssi, hdr]) st =
    ProcessReceivedPacket (with_frame [START_BYTE, len, rssi, hdr] st)"
proof -
  obtain p0 p1 p2 p3 ps where ps: "receivedPacket st = p0 # p1 # p2 # p3 # ps"
    using p by (auto simp: numeral_eq_Suc length_Suc_conv)
  show ?thesis
    using idle len
    by (auto simp: bytes_in_def receive_iteration_eq rx_start_def BuildReceivedPacket_def Let_def ps with_frame_def
        intro!: arg_cong [where f = ProcessReceivedPacket])
qed

lemma packet_crc_far: "n \<in> {- 1, - 2, 253, 254} \<Longrightarrow> packet_crc p n = Inl OutOfBoundsRead"
proof -
  assume n: "n \<in> {- 1, - 2, 253, 254}"
  have w: "word_of_int (- 1) = (4294967295 :: dword_t)" "word_of_int (- 2) = (4294967294 :: dword_t)"
    "word_of_int 253 = (253 :: dword_t)" "word_of_int 254 = (254 :: dword_t)"
    by simp_all
  from n have "n = - 1 \<or> n = - 2 \<or> n = 253 \<or> n = 254" by simp
  then have "61 < unat (word_of_int n :: dword_t)"
    by (elim disjE; simp only: w unat_numeral) simp_all
  then show ?thesis by (simp add: packet_crc_def Let_def)
qed

text \<open>C18: the length check does not keep such packets out. The received length is incremented in a
  byte before it is compared with the buffer size, so 255 passes as 0; length 0 is accepted as well.
  In both cases the fourth byte completes the packet, and if it names one of the three message
  families the checksum is computed over memory behind the buffer.\<close>

theorem length_check_bypassed:
  assumes "rx_inv st" "currentReceiveState st = IDLE" "len = 0 \<or> len = 0xFF"
    and "drop_bit 5 (hdr AND 0xe0) \<in> {TOPDOG_F1, TOPDOG_F2, TOPDOG_CADIR}"
  shows "receive_run (bytes_in al [START_BYTE, len, rssi, hdr]) st = Inl OutOfBoundsRead"
proof -
  have "topdogFamily (receivedPacket (with_frame [START_BYTE, len, rssi, hdr] st)) \<in> {TOPDOG_F1, TOPDOG_F2, TOPDOG_CADIR}"
    using assms(4) by (simp add: topdogFamily_def with_frame_def)
  moreover have "receivedPacket (with_frame [START_BYTE, len, rssi, hdr] st) ! 1 = len"
    by (simp add: with_frame_def)
  ultimately have "valid_packet (receivedPacket (with_frame [START_BYTE, len, rssi, hdr] st)) = Inl OutOfBoundsRead"
    using assms(3) by (auto simp: valid_packet_def packet_crc_far Let_def)
  then show ?thesis
    using short_frame_run [of st len al rssi hdr] assms by (simp add: rx_inv_def ProcessReceivedPacket_def)
qed

text \<open>C17: from any state the task can be in, one timeout returns it to the idle state, and from an
  idle state every frame of two to sixty bytes behind its length byte is collected completely and
  handed to \<open>ProcessReceivedPacket\<close> with its last byte, for every content.\<close>

theorem receiver_resynchronises:
  assumes "rx_inv st" and len: "2 \<le> unat len" "unat len \<le> 60" "length body = unat len"
  shows "(\<exists>st'. receive_run [ReceiveTimeout] st = Inr ([], st') \<and> currentReceiveState st' = IDLE \<and>
      rx_inv st' \<and> receivedPacket st' = receivedPacket st) \<and>
    (currentReceiveState st = IDLE \<longrightarrow>
      receive_run (bytes_in al (START_BYTE # len # rssi # body)) st =
        ProcessReceivedPacket (with_frame (START_BYTE # len # rssi # body) st) \<and>
      (\<exists>r. ProcessReceivedPacket (with_frame (START_BYTE # len # rssi # body) st) = Inr r))"
proof (intro conjI [rotated])
  show "\<exists>st'. receive_run [ReceiveTimeout] st = Inr ([], st') \<and> currentReceiveState st' = IDLE \<and>
      rx_inv st' \<and> receivedPacket st' = receivedPacket st"
    using assms(1) by (simp add: receive_iteration_eq rx_inv_def rx_position_ok_def)
  let ?s = "with_frame (START_BYTE # len # rssi # body) st"
  have "unat (receivedPacket ?s ! 1) = unat len" by (simp add: with_frame_def)
  then obtain v where v: "valid_packet (receivedPacket ?s) = Inr v"
    using valid_packet_ok [of "receivedPacket ?s"] len unfolding Let_def by fastforce
  have "ProcessReceivedPacket ?s = Inr (if v then decode_packet ?s else ([], ?s))"
    by (simp add: ProcessReceivedPacket_def v)
  then have "\<exists>r. ProcessReceivedPacket ?s = Inr r" by (rule exI)
  moreover have "receive_run (bytes_in al (START_BYTE # len # rssi # body)) st =
        ProcessReceivedPacket (with_frame (START_BYTE # len # rssi # body) st)"
    if "currentReceiveState st = IDLE"
    using assms that by (intro frame_run) (auto simp: rx_inv_def)
  ultimately show "currentReceiveState st = IDLE \<longrightarrow>
      receive_run (bytes_in al (START_BYTE # len # rssi # body)) st =
        ProcessReceivedPacket (with_frame (START_BYTE # len # rssi # body) st) \<and>
      (\<exists>r. ProcessReceivedPacket (with_frame (START_BYTE # len # rssi # body) st) = Inr r)" by blast
qed

lemma crc8_differs:
  assumes "i < length msg" "x \<noteq> msg ! i"
  shows "UpdateCRC8 c (msg[i := x]) \<noteq> UpdateCRC8 c msg"
proof -
  have "msg = take i msg @ msg ! i # drop (Suc i) msg" using assms(1) by (rule id_take_nth_drop)
  moreover have "msg[i := x] = take i msg @ x # drop (Suc i) msg"
    using assms(1) by (rule upd_conv_take_nth_drop)
  ultimately show ?thesis using crc8_byte [of c "take i msg" x "drop (Suc i) msg" "msg ! i"] assms(2) by metis
qed

text \<open>A two-byte-CRC packet with any one byte of its message or of its two check bytes changed on
  the way is dropped without any action, whatever the byte and its new value, as long as the change
  does not turn it into a packet of the one-byte-CRC family.\<close>

lemma corrupted_frame_dropped:
  fixes msg rssi
  defines "body \<equiv> msg @ [UpdateCRC8 0 msg, NOT (UpdateCRC8 0 msg)]"
  assumes "rx_inv st" "currentReceiveState st = IDLE" "msg \<noteq> []" "length msg \<le> 58"
    and i: "i < length body" "x \<noteq> body ! i" and fam: "drop_bit 5 (body[i := x] ! 0 AND 0xe0) \<noteq> TOPDOG_F1"
  shows "receive_run (bytes_in al (START_BYTE # of_nat (length body) # rssi # body[i := x])) st =
    Inr ([], with_frame (START_BYTE # of_nat (length body) # rssi # body[i := x]) st)"
proof -
  define n where "n = length msg"
  define b where "b = body[i := x]"
  define p where "p = receivedPacket (with_frame (START_BYTE # of_nat (length body) # rssi # b) st)"
  have lb: "length body = n + 2" "length b = n + 2" by (simp_all add: body_def b_def n_def)
  have len: "unat (of_nat (length body) :: byte) = n + 2"
  proof -
    have "n + 2 < 256" using assms(5) by (simp add: n_def)
    then show ?thesis by (simp only: lb unat_of_nat) simp
  qed
  have p1: "unat (p ! 1) = n + 2" using len by (simp add: p_def with_frame_def)
  have pb: "p ! (j + 3) = b ! j" if "j < n + 2" for j
    using that lb by (simp add: p_def with_frame_def nth_append)
  have dr: "take n (drop 3 p) = take n b"
    using lb by (simp add: p_def with_frame_def numeral_3_eq_3)
  have fp: "topdogFamily p \<noteq> TOPDOG_F1"
    using fam pb [of 0] by (simp add: topdogFamily_def b_def)
  have bad: "\<not> (b ! n = UpdateCRC8 0 (take n b) \<and> b ! Suc n = NOT (UpdateCRC8 0 (take n b)))"
  proof (cases "i < n")
    case True
    then have "b ! n = UpdateCRC8 0 msg" "take n b = msg[i := x]" "x \<noteq> msg ! i"
      using i by (auto simp: b_def body_def n_def nth_append list_update_append)
    then show ?thesis using crc8_differs [of i msg x 0] True by (auto simp: n_def)
  next
    case False
    then have "i = n \<or> i = Suc n" using i lb by auto
    then show ?thesis using i
      by (auto simp: b_def body_def n_def nth_append list_update_append)
  qed
  have "valid_packet p = Inr False"
  proof -
    have "2 \<le> unat (p ! 1)" "unat (p ! 1) \<le> 60" using p1 assms(5) by (simp_all add: n_def)
    note v = valid_packet_ok [OF this]
    have e: "n + 2 + 1 = n + 3" "n + 2 + 2 = n + 4" "n + 2 - 2 = n" by simp_all
    have pb': "p ! (n + 4) = b ! Suc n" using pb [of "Suc n"] by (simp add: add.commute [of n])
    show ?thesis using v fp bad pb [of n] pb' dr unfolding p1 Let_def e by auto
  qed
  then have "ProcessReceivedPacket (with_frame (START_BYTE # of_nat (length body) # rssi # b) st) =
      Inr ([], with_frame (START_BYTE # of_nat (length body) # rssi # b) st)"
    by (simp add: ProcessReceivedPacket_def p_def)
  moreover have "receive_run (bytes_in al (START_BYTE # of_nat (length body) # rssi # b)) st =
        ProcessReceivedPacket (with_frame (START_BYTE # of_nat (length body) # rssi # b) st)"
    using assms len lb by (intro frame_run) (simp_all add: rx_inv_def n_def)
  ultimately show ?thesis by (simp add: b_def)
qed

text \<open>A repeated scene request or scene adjustment with the sequence number of the last one is
  dropped, sequence number 0 excepted. Master-off packets are compared with that number too but do
  not record their own, so a repeated master-off is executed again each time it arrives.\<close>

lemma sequence_numbers:
  shows "(p ! (i + 3) \<noteq> 0 \<longrightarrow>
    fst (dispatch_command p SCENE_REQUESTED i (snd (dispatch_command p SCENE_REQUESTED i st))) = [] \<and>
    fst (dispatch_command p SCENE_ADJUST i (snd (dispatch_command p SCENE_ADJUST i st))) = []) \<and>
    fst (dispatch_command p SCENE_CONTROLLER_MASTER_OFF i
        (snd (dispatch_command p SCENE_CONTROLLER_MASTER_OFF i st))) =
      fst (dispatch_command p SCENE_CONTROLLER_MASTER_OFF i st)"
  by (simp_all add: dispatch_command_def Let_def new_sequence_def)

definition idle_radio :: radio where
  "idle_radio = \<lparr>receivedPacket = replicate 64 0, receivedPacketIndex = 0, currentReceiveState = IDLE,
     recvdLen = 0, oldSequenceNumber = 0, newSequenceNumber = 0, sentQueue = empty_queue,
     manufacturingTestModeFlag = False, ackMessagePool = True, receiveAckCounter = 0,
     rfm100TransmitTaskMsgAllocErr = 0\<rparr>"

lemma idle_radio_simps:
  "currentReceiveState idle_radio = IDLE" "\<not> manufacturingTestModeFlag idle_radio"
  "sentQueue idle_radio = empty_queue" "rx_inv idle_radio"
  by (simp_all add: idle_radio_def rx_inv_def rx_position_ok_def)

lemmas idle_radio_inv = idle_radio_simps(4)

lemma receive_task_safe_witness:
  "\<exists>as st. radio_reaches idle_radio as st \<and> currentReceiveState st = RECEIVING_RF100_LENGTH \<and> rx_inv st \<and>
     receive_iteration ReceiveTimeout st \<noteq> Inl OutOfBoundsWrite"
proof -
  let ?st = "idle_radio\<lparr>receivedPacket := (receivedPacket idle_radio)[0 := START_BYTE], receivedPacketIndex := 1,
     currentReceiveState := RECEIVING_RF100_LENGTH\<rparr>"
  have "receive_iteration (ReceivedByte True START_BYTE) idle_radio = Inr ([], ?st)"
    by (simp add: receive_iteration_eq rx_start_def BuildReceivedPacket_def Let_def idle_radio_def)
  then have "radio_reaches idle_radio ([] @ []) ?st"
    by (intro radio_reaches.more [OF radio_reaches.start] radio_step.step)
  from receive_task_safe [OF idle_radio_inv this] this show ?thesis by fastforce
qed

lemma length_check_bypassed_witness:
  "receive_run (bytes_in True [START_BYTE, 0xFF, 0x30, 0xCA]) idle_radio = Inl OutOfBoundsRead"
  by (rule length_check_bypassed) (simp_all add: idle_radio_simps)

lemma receiver_resynchronises_witness:
  "\<exists>r. receive_run (bytes_in True [START_BYTE, 2, 0x30, 0xCA, 7]) idle_radio = Inr r"
  using receiver_resynchronises [OF idle_radio_inv, of 2 "[0xCA, 7]" True "0x30"] by (simp add: idle_radio_simps)

lemma corrupted_frame_dropped_witness:
  "map_sum id fst (receive_run (bytes_in True
     (START_BYTE # 4 # 0x30 # [0xCA, 9] @ [UpdateCRC8 0 [0xCA, 7], NOT (UpdateCRC8 0 [0xCA, 7])])) idle_radio) = Inr []"
  using corrupted_frame_dropped [OF idle_radio_inv, of "[0xCA, 7]" 1 9 True "0x30"] by (simp add: idle_radio_simps)

lemma sequence_numbers_witness:
  "fst (dispatch_command (replicate 64 5) SCENE_REQUESTED 8
     (snd (dispatch_command (replicate 64 5) SCENE_REQUESTED 8 idle_radio))) = []"
  using sequence_numbers [of "replicate 64 5" 8 idle_radio] by simp

end
