(* ===== verification/Rfm100_Build.thy ===== *)
theory Rfm100_Build
  imports Rfm100_Receive
begin

unbundle bit_operations_syntax

text \<open>
  The packets RFM100_Tasks.c transmits. A builder fills the first \<open>payldCt\<close> bytes of the caller's
  buffer; here it returns those bytes. The first three bytes go to the RF module (command, header,
  length), the rest is the Top Dog message that reaches the air.
\<close>

abbreviation SHORT_RANDOM_TIME :: byte where "SHORT_RANDOM_TIME \<equiv> 0"
abbreviation TTL_TWO :: byte where "TTL_TWO \<equiv> 2"
abbreviation RAMP_FUNCTION_BYTE :: byte where "RAMP_FUNCTION_BYTE \<equiv> 0x85"
abbreviation ASSIGN_SCENE_FUNCTION_BYTE :: byte where "ASSIGN_SCENE_FUNCTION_BYTE \<equiv> 0xAA"
abbreviation SCENE_EXECUTED_FUNCTION_BYTE :: byte where "SCENE_EXECUTED_FUNCTION_BYTE \<equiv> 0xAC"
abbreviation SCENE_CTL_SET_FUNCTION_BYTE :: byte where "SCENE_CTL_SET_FUNCTION_BYTE \<equiv> 0xAE"
abbreviation DIMMER_TYPE :: byte where "DIMMER_TYPE \<equiv> 0x41"

definition topdog_header :: byte where
  "topdog_header = push_bit 5 TOPDOG_F2 OR push_bit 3 TDAM_ANON_MULTICAST OR SHORT_RANDOM_TIME OR TTL_TWO"

definition first_address :: "byte \<Rightarrow> byte \<Rightarrow> byte" where
  "first_address buildingId houseId = (push_bit 5 buildingId AND 0xe0) OR (drop_bit 3 houseId AND 0x1f)"

definition group_address :: "byte \<Rightarrow> word_t \<Rightarrow> byte list" where
  "group_address houseId groupId =
     [(push_bit 5 houseId AND 0xe0) OR ucast (drop_bit 8 groupId AND 0x0f), ucast (groupId AND 0x0ff)]"

definition room_address :: "byte \<Rightarrow> byte \<Rightarrow> byte list" where
  "room_address houseId roomId =
     [(push_bit 5 houseId AND 0xe0) OR 0x10 OR (drop_bit 3 roomId AND 0x07), push_bit 5 roomId AND 0xe0]"

text \<open>\<open>(byte_t) ((((word_t) powerLevel) * MAX_TD_POWER) + 50) / 100\<close>.\<close>

definition power_of_level :: "byte \<Rightarrow> byte" where
  "power_of_level l = of_nat ((unat l * MAX_TD_POWER + 50) div 100)"

text \<open>The message from the Top Dog header on, its two CRC bytes and the length byte in front.\<close>

definition finish_packet :: "byte list \<Rightarrow> byte list" where
  "finish_packet msg =
     (let crcValue = UpdateCRC8 0 msg
      in [0x86, 0xb4, of_nat (length msg + 2)] @ msg @ [crcValue, NOT crcValue])"

definition group_packet :: "byte \<Rightarrow> byte \<Rightarrow> word_t \<Rightarrow> byte list \<Rightarrow> byte list" where
  "group_packet buildingId houseId groupId parameters =
     finish_packet ([topdog_header, first_address buildingId houseId] @ group_address houseId groupId @ parameters)"

definition ramp_packet :: "zone_properties \<Rightarrow> byte list" where
  "ramp_packet p =
     group_packet (zp_buildingId p) (zp_houseId p) (zp_groupId p)
       [RAMP_FUNCTION_BYTE, if \<not> zp_targetState p then 0 else power_of_level (zp_powerLevel p),
        zp_rampRate p, zp_deviceType p]"

text \<open>\<open>stack\<close> is the content of the uninitialised local structure, the clock readings are those of
  \<open>AddToSentMessageQueue\<close>. Without zone properties nothing is built.\<close>

definition BuildRamp ::
  "zone_state \<Rightarrow> nat \<Rightarrow> zone_properties \<Rightarrow> dword_t \<Rightarrow> time_struct \<Rightarrow> sent_queue \<Rightarrow> byte list \<times> sent_queue" where
  "BuildRamp zones zoneIdx stack purgeTime currentTime q =
     (let (ok, zoneProperties) = GetZoneProperties zones zoneIdx stack
      in if ok
         then (ramp_packet zoneProperties,
               AddToSentMessageQueue purgeTime currentTime (Some zoneProperties) q)
         else ([], q))"

definition BuildRampAll :: "byte \<Rightarrow> byte \<Rightarrow> byte \<Rightarrow> byte \<Rightarrow> byte list" where
  "BuildRampAll buildingId roomId houseId level =
     finish_packet ([topdog_header, first_address buildingId houseId] @ room_address houseId roomId @
       [RAMP_FUNCTION_BYTE, power_of_level level, 50, DIMMER_TYPE])"

definition BuildAssignScene ::
  "word_t \<Rightarrow> byte \<Rightarrow> byte \<Rightarrow> byte \<Rightarrow> byte \<Rightarrow> bool \<Rightarrow> bool \<Rightarrow> byte \<Rightarrow> byte list" where
  "BuildAssignScene groupId buildingId houseId sceneId buttonIndex toggled toggleable avgLevel =
     group_packet buildingId houseId groupId
       [ASSIGN_SCENE_FUNCTION_BYTE, sceneId,
        (buttonIndex AND 0x3f) OR (push_bit 6 (of_bool toggled) AND 0x40) OR
          (push_bit 7 (of_bool toggleable) AND 0x80),
        avgLevel]"

definition BuildSceneSettings :: "byte \<Rightarrow> word_t \<Rightarrow> byte \<Rightarrow> byte \<Rightarrow> byte list" where
  "BuildSceneSettings mode groupId buildingId houseId =
     group_packet buildingId houseId groupId [SCENE_CTL_SET_FUNCTION_BYTE, mode, 0, 0]"

subsection \<open>Address and level round trips\<close>

lemma first_address_building: "drop_bit 5 (first_address b h AND 0xe0) = b AND 7"
  by (rule byte_eqI) (simp_all add: first_address_def bit_simps)

lemma group_address_house:
  "push_bit 3 (first_address b h AND 0x1f) OR drop_bit 5 (group_address h g ! 0 AND 0xe0) = h"
  by (rule byte_eqI) (simp_all add: first_address_def group_address_def bit_simps)

lemma group_address_is_group: "group_address h g ! 0 AND 0x10 = 0"
  by (rule byte_eqI) (simp_all add: group_address_def bit_simps)

lemma room_address_is_room: "room_address h r ! 0 AND 0x10 \<noteq> 0"
proof
  assume "room_address h r ! 0 AND 0x10 = 0"
  then have "bit (room_address h r ! 0 AND 0x10) 4 = bit (0 :: byte) 4" by simp
  then show False by (simp add: room_address_def bit_simps)
qed

lemma group_address_group:
  "word_of_bytes (group_address h g ! 0 AND 0xf) (group_address h g ! 1) = g AND 0xFFF"
  by (rule word_t_eqI) (simp_all add: group_address_def word_of_bytes_def bit_simps)

lemma level_roundtrip_nat:
  "l \<le> 100 \<Longrightarrow> ((l * 255 + 50) div 100 * 100 + 127) div 255 = (l :: nat)"
  by linarith

lemma level_roundtrip: "unat l \<le> 100 \<Longrightarrow> level_of_power (power_of_level l) = l"
proof -
  assume l: "unat l \<le> 100"
  then have "(unat l * 255 + 50) div 100 < 256" by linarith
  then have "unat (power_of_level l) = (unat l * 255 + 50) div 100"
    by (simp add: power_of_level_def unat_of_nat)
  then have "level_of_power (power_of_level l) = of_nat (unat l)"
    using level_roundtrip_nat [OF l] by (simp add: level_of_power_def)
  then show ?thesis by simp
qed

subsection \<open>From the buffer to the air and back\<close>

text \<open>The frame another RF module hands to its host when it receives a transmitted packet.\<close>

definition on_air :: "byte \<Rightarrow> byte list \<Rightarrow> byte list" where
  "on_air rssi packet = START_BYTE # packet ! 2 # rssi # drop 3 packet"

lemma on_air_finish:
  "on_air rssi (finish_packet msg) =
     START_BYTE # of_nat (length msg + 2) # rssi # msg @ [UpdateCRC8 0 msg, NOT (UpdateCRC8 0 msg)]"
  by (simp add: on_air_def finish_packet_def Let_def numeral_3_eq_3 numeral_2_eq_2)

lemma unat_length_byte: "n < 254 \<Longrightarrow> unat (2 + of_nat n :: byte) = Suc (Suc n)"
proof -
  assume "n < 254"
  then have "unat (of_nat (n + 2) :: byte) = n + 2" by (simp only: unat_of_nat) simp
  then show ?thesis by (simp add: add.commute)
qed

lemma on_air_valid:
  assumes "msg \<noteq> []" "length msg \<le> 58" "drop_bit 5 (msg ! 0 AND 0xe0) = TOPDOG_F2"
  shows "valid_packet (on_air rssi (finish_packet msg) @ rest) = Inr True"
proof -
  define p where "p = on_air rssi (finish_packet msg) @ rest"
  have n: "unat (p ! 1) = length msg + 2"
    using assms(2) by (simp add: p_def on_air_finish unat_length_byte)
  have h: "p ! 3 = msg ! 0" using assms(1) by (simp add: p_def on_air_finish nth_append numeral_3_eq_3)
  have d: "drop 3 p = msg @ [UpdateCRC8 0 msg, NOT (UpdateCRC8 0 msg)] @ rest"
    by (simp add: p_def on_air_finish numeral_3_eq_3)
  have c: "p ! (length msg + 3) = UpdateCRC8 0 msg" "p ! (length msg + 4) = NOT (UpdateCRC8 0 msg)"
    by (simp_all add: p_def on_air_finish nth_append numeral_3_eq_3 eval_nat_numeral)
  have f: "topdogFamily p = TOPDOG_F2" using assms(3) by (simp add: topdogFamily_def h)
  have "valid_packet p = Inr (p ! (length msg + 3) = UpdateCRC8 0 (take (length msg) (drop 3 p)) \<and>
      p ! (length msg + 4) = NOT (UpdateCRC8 0 (take (length msg) (drop 3 p))))"
  proof -
    have e: "length msg + 2 + 1 = length msg + 3" "length msg + 2 + 2 = length msg + 4"
      "length msg + 2 - 2 = length msg" "2 \<le> length msg + 2" "length msg + 2 \<le> 60"
      using assms(2) by simp_all
    have ff: "(TOPDOG_F2 = TOPDOG_F1) = False" by simp
    show ?thesis using valid_packet_ok [of p] unfolding n f Let_def e ff by (simp only: e if_False simp_thms)
  qed
  then show ?thesis by (simp add: d c p_def [symmetric])
qed

lemma receive_packet:
  assumes st: "rx_inv st" "currentReceiveState st = IDLE"
    and msg: "msg \<noteq> []" "length msg \<le> 58" "drop_bit 5 (msg ! 0 AND 0xe0) = TOPDOG_F2"
  shows "receive_run (bytes_in al (on_air rssi (finish_packet msg))) st =
    Inr (decode_packet (with_frame (on_air rssi (finish_packet msg)) st))"
proof -
  have "receive_run (bytes_in al (on_air rssi (finish_packet msg))) st =
      ProcessReceivedPacket (with_frame (on_air rssi (finish_packet msg)) st)"
    unfolding on_air_finish using st msg
    by (intro frame_run) (auto simp: rx_inv_def unat_length_byte)
  also have "\<dots> = Inr (decode_packet (with_frame (on_air rssi (finish_packet msg)) st))"
    by (simp add: ProcessReceivedPacket_def with_frame_def on_air_valid [OF msg])
  finally show ?thesis .
qed

lemma on_air_nth:
  assumes "i < length msg"
  shows "receivedPacket (with_frame (on_air rssi (finish_packet msg)) st) ! (i + 3) = msg ! i"
  using assms by (simp add: with_frame_def on_air_finish nth_append numeral_3_eq_3)

lemma topdog_header_value: "topdog_header = 0xCA"
  by (simp add: topdog_header_def)

text \<open>The message part of a group-addressed packet and what the receiver reads from it.\<close>

definition group_message :: "byte \<Rightarrow> byte \<Rightarrow> byte \<Rightarrow> word_t \<Rightarrow> byte list \<Rightarrow> byte list" where
  "group_message hdr b h g ps = [hdr, first_address b h] @ group_address h g @ ps"

lemma group_packet_message: "group_packet b h g ps = finish_packet (group_message topdog_header b h g ps)"
  by (simp add: group_packet_def group_message_def)

lemma length_group_message [simp]: "length (group_message hdr b h g ps) = length ps + 4"
  by (simp add: group_message_def group_address_def)

lemma group_message_nth:
  "group_message hdr b h g ps ! 0 = hdr"
  "group_message hdr b h g ps ! 1 = first_address b h"
  "group_message hdr b h g ps ! 2 = group_address h g ! 0"
  "group_message hdr b h g ps ! 3 = group_address h g ! 1"
  "group_message hdr b h g ps ! (i + 4) = ps ! i"
  by (simp_all add: group_message_def group_address_def numeral_eq_Suc)

lemma receive_group_packet:
  fixes st rssi hdr b h g ps i
  assumes st: "rx_inv st" "currentReceiveState st = IDLE" "\<not> manufacturingTestModeFlag st"
    and hdr: "drop_bit 5 (hdr AND 0xe0) = TOPDOG_F2" "drop_bit 3 (hdr AND 0x18) = TDAM_ANON_MULTICAST"
    and ps: "ps \<noteq> []" "length ps \<le> 50"
  defines "st' \<equiv> with_frame (on_air rssi (finish_packet (group_message hdr b h g ps))) st"
    and "p \<equiv> receivedPacket (with_frame (on_air rssi (finish_packet (group_message hdr b h g ps))) st)"
  shows "receive_run (bytes_in al (on_air rssi (finish_packet (group_message hdr b h g ps)))) st =
      Inr (case packet_command p of (cmd, i) \<Rightarrow> dispatch_command p cmd i st')"
    and "pk_buildingId p = b AND 7" "pk_houseId p = h" "pk_groupId p = g AND 0xFFF" "timeToLive p = hdr AND 3"
    and "i < length ps \<Longrightarrow> p ! (i + 7) = ps ! i"
proof -
  note nth = on_air_nth [of _ "group_message hdr b h g ps" rssi st, folded p_def]
  have p: "p ! 3 = hdr" "p ! 4 = first_address b h" "p ! 5 = group_address h g ! 0"
    "p ! 6 = group_address h g ! 1"
    using nth [of 0] nth [of 1] nth [of 2] nth [of 3] by (simp_all add: group_message_nth group_message_nth [unfolded One_nat_def])
  show "i < length ps \<Longrightarrow> p ! (i + 7) = ps ! i" for i
    using nth [of "i + 4"] by (simp add: group_message_nth add.commute)
  show "pk_buildingId p = b AND 7" "pk_houseId p = h" "pk_groupId p = g AND 0xFFF" "timeToLive p = hdr AND 3"
    unfolding pk_buildingId_def pk_houseId_def pk_groupId_def timeToLive_def p
    by (rule first_address_building, rule group_address_house, rule group_address_group, rule refl)
  have "topdogAddressMode p = TDAM_ANON_MULTICAST" unfolding topdogAddressMode_def p by (rule hdr(2))
  then have "decode_packet st' = (case packet_command p of (cmd, i) \<Rightarrow> dispatch_command p cmd i st')"
  proof -
    have rp: "receivedPacket st' = p" by (simp only: st'_def p_def)
    have m: "manufacturingTestModeFlag st' = False" using st(3) by (simp add: st'_def with_frame_def)
    have g: "p ! 5 AND 0x10 = 0" unfolding p by (rule group_address_is_group)
    show ?thesis unfolding decode_packet_def Let_def rp m if_False g
      by (simp add: \<open>topdogAddressMode p = TDAM_ANON_MULTICAST\<close>)
  qed
  moreover have "receive_run (bytes_in al (on_air rssi (finish_packet (group_message hdr b h g ps)))) st = Inr (decode_packet st')"
    unfolding st'_def using st ps hdr(1)
    by (intro receive_packet) (simp_all add: group_message_nth, simp_all add: group_message_def group_address_def)
  ultimately show "receive_run (bytes_in al (on_air rssi (finish_packet (group_message hdr b h g ps)))) st =
      Inr (case packet_command p of (cmd, i) \<Rightarrow> dispatch_command p cmd i st')" by simp
qed

subsection \<open>Ramps over the air\<close>

text \<open>A ramp message with a given Top Dog header, as a repeater relays it: the time-to-live in the
  header is smaller, the CRC is the relayed message's own.\<close>

definition ramp_parameters :: "zone_properties \<Rightarrow> byte list" where
  "ramp_parameters p = [RAMP_FUNCTION_BYTE, if \<not> zp_targetState p then 0 else power_of_level (zp_powerLevel p),
     zp_rampRate p, zp_deviceType p]"

definition ramp_frame :: "byte \<Rightarrow> byte \<Rightarrow> zone_properties \<Rightarrow> byte list" where
  "ramp_frame rssi hdr p =
     on_air rssi (finish_packet (group_message hdr (zp_buildingId p) (zp_houseId p) (zp_groupId p) (ramp_parameters p)))"

lemma ramp_packet_frame: "on_air rssi (ramp_packet p) = ramp_frame rssi topdog_header p"
  by (simp add: ramp_packet_def ramp_frame_def ramp_parameters_def group_packet_message)

definition ramp_level :: "zone_properties \<Rightarrow> byte" where
  "ramp_level p = (if zp_targetState p then zp_powerLevel p else 0)"

lemma level_of_ramp:
  "unat (zp_powerLevel p) \<le> 100 \<Longrightarrow> level_of_power (ramp_parameters p ! 1) = ramp_level p"
  by (simp add: ramp_parameters_def ramp_level_def level_roundtrip) (simp add: level_of_power_def)

lemma with_frame_inv:
  assumes "rx_inv st" "length f \<le> 64"
  shows "rx_inv (with_frame f st)"
  using assms by (simp add: rx_inv_def with_frame_def rx_position_ok_def)

lemma with_frame_simps [simp]:
  "sentQueue (with_frame f st) = sentQueue st"
  "manufacturingTestModeFlag (with_frame f st) = manufacturingTestModeFlag st"
  "oldSequenceNumber (with_frame f st) = oldSequenceNumber st"
  by (simp_all add: with_frame_def)

lemma length_ramp_frame [simp]: "length (ramp_frame rssi hdr p) = 13"
  by (simp add: ramp_frame_def on_air_finish ramp_parameters_def)

lemma receive_ramp_frame:
  assumes st: "rx_inv st" "currentReceiveState st = IDLE" "\<not> manufacturingTestModeFlag st"
    and hdr: "drop_bit 5 (hdr AND 0xe0) = TOPDOG_F2" "drop_bit 3 (hdr AND 0x18) = TDAM_ANON_MULTICAST"
    and l: "unat (zp_powerLevel p) \<le> 100"
  shows "receive_run (bytes_in al (ramp_frame rssi hdr p)) st =
    Inr (if fst (IsMessageARepeat (zp_buildingId p AND 7) (zp_houseId p) (zp_groupId p AND 0xFFF) (ramp_level p)
               (hdr AND 3) (sentQueue st))
         then [] else [HandleRampReceived (zp_buildingId p AND 7) (zp_houseId p) (zp_groupId p AND 0xFFF)
               (ramp_level p) (zp_deviceType p)],
         with_frame (ramp_frame rssi hdr p) st)"
proof -
  let ?ps = "ramp_parameters p"
  define q where "q = receivedPacket (with_frame (ramp_frame rssi hdr p) st)"
  have len: "?ps \<noteq> []" "length ?ps \<le> 50" by (simp_all add: ramp_parameters_def)
  note R = receive_group_packet [OF st hdr len, where rssi = rssi and b = "zp_buildingId p"
      and h = "zp_houseId p" and g = "zp_groupId p", folded ramp_frame_def, folded q_def]
  have nth: "q ! 7 = RAMP_FUNCTION_BYTE" "q ! 8 = ?ps ! 1" "q ! 10 = zp_deviceType p"
    using R(6) [of 0] R(6) [of 1] R(6) [of 3] by (simp_all add: ramp_parameters_def)
  have cmd: "packet_command q = (RAMP, 8)" by (simp add: packet_command_def nth)
  have "queue_inv (sentQueue st)" using st(1) by (simp add: rx_inv_def)
  then have rep: "IsMessageARepeat b h g v t (sentQueue st) = (fst (IsMessageARepeat b h g v t (sentQueue st)), sentQueue st)"
    for b h g v t by (simp add: IsMessageARepeat_exact)
  have lev: "level_of_power (q ! 8) = ramp_level p" unfolding nth by (rule level_of_ramp [OF l])
  have id: "st\<lparr>sentQueue := sentQueue st\<rparr> = st" for st :: radio by simp
  have "dispatch_command q RAMP 8 (with_frame (ramp_frame rssi hdr p) st) =
    (if fst (IsMessageARepeat (zp_buildingId p AND 7) (zp_houseId p) (zp_groupId p AND 0xFFF) (ramp_level p)
               (hdr AND 3) (sentQueue st))
         then [] else [HandleRampReceived (zp_buildingId p AND 7) (zp_houseId p) (zp_groupId p AND 0xFFF)
               (ramp_level p) (zp_deviceType p)],
         with_frame (ramp_frame rssi hdr p) st)"
    unfolding dispatch_command_def Let_def R(2-5) lev with_frame_simps
    by (subst rep) (simp add: nth with_frame_def)
  then show ?thesis unfolding R(1) cmd by simp
qed

subsection \<open>Properties\<close>

lemma BuildRamp_eq:
  assumes "GetZoneProperties zones i stack = (True, p)"
  shows "BuildRamp zones i stack t ts q = (ramp_packet p, AddToSentMessageQueue t ts (Some p) q)"
  by (simp add: BuildRamp_def assms)

text \<open>C13: a ramp built for a zone of the table reaches the receive path of another controller
  unchanged: fed byte by byte to an idle receiver, the frame is accepted and decoded to the zone's
  building (modulo 8), house, group (modulo 4096) and device type and to its level, which is the
  stored percentage when the target state is on and 0 otherwise. Percentages up to 100 survive the
  conversion to the 8-bit radio scale and back exactly.\<close>

theorem ramp_roundtrip:
  assumes "rx_inv st" "currentReceiveState st = IDLE" "\<not> manufacturingTestModeFlag st"
    and zone: "GetZoneProperties zones i stack = (True, p)" and level: "unat (zp_powerLevel p) \<le> 100"
  shows "\<exists>st'. receive_run (bytes_in al (on_air rssi (fst (BuildRamp zones i stack t ts q)))) st =
    Inr ([HandleRampReceived (zp_buildingId p AND 7) (zp_houseId p) (zp_groupId p AND 0xFFF)
            (if zp_targetState p then zp_powerLevel p else 0) (zp_deviceType p)], st') \<and> rx_inv st'"
proof -
  have "queue_inv (sentQueue st)" using assms(1) by (simp add: rx_inv_def)
  then show ?thesis
    using receive_ramp_frame [OF assms(1-3) _ _ level, of topdog_header al rssi] with_frame_inv [OF assms(1), of "ramp_frame rssi topdog_header p"]
    by (simp add: BuildRamp_eq [OF zone] ramp_packet_frame topdog_header_value IsMessageARepeat_exact ramp_level_def)
qed

text \<open>C14: what the sent-message log achieves for a controller's own ramps. While fewer than 99 of the logged
  messages are live, the log being otherwise arbitrary, and the level is at most 100: when a repeater relays the
  ramp with time-to-live 0 or 1, the controller that sent it drops the echo exactly if it matches an older live entry
  or the entry of the ramp itself, and the latter exactly if the zone's building id fits three bits, its group id
  twelve bits, and the ramp was not a switch-off: for a zone that is ramped off the log holds the zone's level while
  the air carries 0, so the echo of an off-ramp is processed as a foreign message.\<close>

theorem echo_suppression_exact:
  assumes st: "rx_inv st" "currentReceiveState st = IDLE" "\<not> manufacturingTestModeFlag st"
    and zone: "GetZoneProperties zones i stack = (True, p)" and level: "unat (zp_powerLevel p) \<le> 100"
    and q: "queue_inv q" "length (dropWhile (purgeable t) (queue_contents q)) < 99" "sentQueue st = snd (BuildRamp zones i stack t ts q)"
    and ttl: "hdr = 0xC8 \<or> hdr = 0xC9"
  shows "map_sum id fst (receive_run (bytes_in al (ramp_frame rssi hdr p)) st) =
    Inr (if (\<exists>m \<in> set (dropWhile (purgeable t) (queue_contents q)).
              matches_message (zp_buildingId p AND 7) (zp_houseId p) (zp_groupId p AND 0xFFF) (ramp_level p) m) \<or>
            zp_buildingId p AND 7 = zp_buildingId p \<and> zp_groupId p AND 0xFFF = zp_groupId p \<and>
            (zp_targetState p \<or> zp_powerLevel p = 0)
         then [] else [HandleRampReceived (zp_buildingId p AND 7) (zp_houseId p) (zp_groupId p AND 0xFFF)
            (ramp_level p) (zp_deviceType p)])"
proof -
  let ?live = "dropWhile (purgeable t) (queue_contents q)"
  have c: "queue_contents (sentQueue st) = ?live @ [sent_entry (ts, p)]"
    using sent.log_add [OF q(1), of t "(ts, p)"] q(2)
    by (simp add: q(3) BuildRamp_eq [OF zone] add_sent_def)
  have "queue_inv (sentQueue st)" using st(1) by (simp add: rx_inv_def)
  note run = receive_ramp_frame [OF st _ _ level, of hdr al rssi] IsMessageARepeat_exact [OF this]
  have own: "matches_message (zp_buildingId p AND 7) (zp_houseId p) (zp_groupId p AND 0xFFF) (ramp_level p) (sent_entry (ts, p)) \<longleftrightarrow>
      zp_buildingId p AND 7 = zp_buildingId p \<and> zp_groupId p AND 0xFFF = zp_groupId p \<and> (zp_targetState p \<or> zp_powerLevel p = 0)"
    by (auto simp: sent_entry_def matches_message_def ramp_level_def)
  show ?thesis using run ttl by (auto simp: c own)
qed

text \<open>The packets the LCM sends to scene controllers and the whole-house ramp never act on a
  receiving LCM: assign, executed and settings commands have no handler and room addresses are
  filtered, whatever the arguments.\<close>

lemma scene_packets_ignored:
  assumes st: "rx_inv st" "currentReceiveState st = IDLE" "\<not> manufacturingTestModeFlag st"
    and pk: "pk \<in> {BuildAssignScene g b h s k toggled toggleable avg, BuildSceneSettings mode g b h,
        BuildRampAll b r h avg}"
  shows "receive_run (bytes_in al (on_air rssi pk)) st = Inr ([], with_frame (on_air rssi pk) st)"
proof -
  have hdr: "drop_bit 5 (topdog_header AND 0xe0) = TOPDOG_F2" "drop_bit 3 (topdog_header AND 0x18) = TDAM_ANON_MULTICAST"
    by (simp_all add: topdog_header_value)
  have group: "receive_run (bytes_in al (on_air rssi (group_packet b h g [c, x, y, z]))) st =
      Inr ([], with_frame (on_air rssi (group_packet b h g [c, x, y, z])) st)"
    if "c = ASSIGN_SCENE_FUNCTION_BYTE \<or> c = SCENE_CTL_SET_FUNCTION_BYTE" for c x y z
  proof -
    let ?f = "on_air rssi (finish_packet (group_message topdog_header b h g [c, x, y, z]))"
    have "receivedPacket (with_frame ?f st) ! 7 = c"
      using receive_group_packet(6) [OF st hdr, where ps = "[c, x, y, z]" and i = 0 and b = b and h = h and g = g and rssi = rssi]
      by simp
    then have "packet_command (receivedPacket (with_frame ?f st)) = (ucast (c AND 0x3f), 8)"
      using that by (auto simp: packet_command_def)
    then show ?thesis
      using receive_group_packet(1) [OF st hdr, where ps = "[c, x, y, z]" and b = b and h = h and g = g and rssi = rssi and al = al] that
      by (auto simp: group_packet_message dispatch_command_def)
  qed
  have room: "receive_run (bytes_in al (on_air rssi (BuildRampAll b r h avg))) st =
      Inr ([], with_frame (on_air rssi (BuildRampAll b r h avg)) st)"
  proof -
    let ?m = "[topdog_header, first_address b h] @ room_address h r @ [RAMP_FUNCTION_BYTE, power_of_level avg, 50, DIMMER_TYPE]"
    have nth: "receivedPacket (with_frame (on_air rssi (finish_packet ?m)) st) ! 5 = room_address h r ! 0"
      using on_air_nth [of 2 ?m rssi st] by (simp add: room_address_def)
    have "receive_run (bytes_in al (on_air rssi (finish_packet ?m))) st =
        Inr (decode_packet (with_frame (on_air rssi (finish_packet ?m)) st))"
      using st hdr by (intro receive_packet) (simp_all add: room_address_def)
    then show ?thesis
      using st(3) nth room_address_is_room [of h r] unfolding BuildRampAll_def
      by (simp add: decode_packet_def Let_def del: append.simps append_Cons)
  qed
  show ?thesis using pk group room
    by (auto simp: BuildAssignScene_def BuildSceneSettings_def)
qed

definition one_zone :: zone_state where
  "one_zone = \<lparr>flash = write_bytes (\<lambda>a. 0xFF) 0 (set_nv_zone sample_ramp (replicate 30 0)),
     zoneArray = [initial_zone\<lparr>targetState := True, powerLevel := 60, nvZoneProperties := Some 0\<rparr>],
     shadeIdStrings = [], global_houseID = 77\<rparr>"

lemma one_zone_ramp:
  "GetZoneProperties one_zone 0 sample_ramp = (True, snd (GetZoneProperties one_zone 0 sample_ramp))"
  "zp_powerLevel (snd (GetZoneProperties one_zone 0 sample_ramp)) = 60"
  "zp_targetState (snd (GetZoneProperties one_zone 0 sample_ramp))"
  "zp_buildingId (snd (GetZoneProperties one_zone 0 sample_ramp)) = 1"
  "zp_houseId (snd (GetZoneProperties one_zone 0 sample_ramp)) = 77"
  "zp_groupId (snd (GetZoneProperties one_zone 0 sample_ramp)) = 0x123"
  "zp_deviceType (snd (GetZoneProperties one_zone 0 sample_ramp)) = 0x41"
proof -
  have r: "read_bytes (flash one_zone) 0 30 = set_nv_zone sample_ramp (replicate 30 0)"
    unfolding one_zone_def by (simp add: mem_simps set_nv_zone_def)
  have b: "nv_zone_of one_zone 0 = Some (set_nv_zone sample_ramp (replicate 30 0))"
    using r by (simp add: nv_zone_of_def zone_record_def) (simp add: one_zone_def)
  have f: "nz_buildingId (set_nv_zone sample_ramp (replicate 30 0)) = 1"
    "nz_houseId (set_nv_zone sample_ramp (replicate 30 0)) = 77"
    "nz_groupId (set_nv_zone sample_ramp (replicate 30 0)) = 0x123"
    "nz_deviceType (set_nv_zone sample_ramp (replicate 30 0)) = 0x41"
    by (simp_all add: set_nv_zone_def sample_ramp_def nth_append nz_buildingId_def nz_houseId_def nz_groupId_def
        nz_deviceType_def)
  have z: "powerLevel (zoneArray one_zone ! 0) = 60" "targetState (zoneArray one_zone ! 0)"
    by (simp_all add: one_zone_def)
  have g: "GetZoneProperties one_zone 0 sample_ramp = (True, snd (GetZoneProperties one_zone 0 sample_ramp))"
    by (simp add: GetZoneProperties_def Let_def b)
  show "GetZoneProperties one_zone 0 sample_ramp = (True, snd (GetZoneProperties one_zone 0 sample_ramp))"
    by (rule g)
  show "zp_powerLevel (snd (GetZoneProperties one_zone 0 sample_ramp)) = 60"
    "zp_targetState (snd (GetZoneProperties one_zone 0 sample_ramp))"
    "zp_buildingId (snd (GetZoneProperties one_zone 0 sample_ramp)) = 1"
    "zp_houseId (snd (GetZoneProperties one_zone 0 sample_ramp)) = 77"
    "zp_groupId (snd (GetZoneProperties one_zone 0 sample_ramp)) = 0x123"
    "zp_deviceType (snd (GetZoneProperties one_zone 0 sample_ramp)) = 0x41"
    by (simp_all add: GetZoneProperties_def Let_def b f z)
qed

lemma ramp_roundtrip_witness:
  "\<exists>st'. receive_run (bytes_in True (on_air 0x30 (fst (BuildRamp one_zone 0 sample_ramp 9
       \<lparr>SECONDS = 9, MILLISECONDS = 0\<rparr> empty_queue)))) idle_radio =
     Inr ([HandleRampReceived 1 77 0x123 60 0x41], st')"
  using ramp_roundtrip [OF idle_radio_simps(4,1,2) one_zone_ramp(1), of True "0x30" 9
      "\<lparr>SECONDS = 9, MILLISECONDS = 0\<rparr>" empty_queue]
  by (auto simp: one_zone_ramp(2-))

lemma echo_suppression_exact_witness:
  "map_sum id fst (receive_run (bytes_in True (ramp_frame 0x30 0xC9 (snd (GetZoneProperties one_zone 0 sample_ramp))))
     (idle_radio\<lparr>sentQueue := snd (BuildRamp one_zone 0 sample_ramp 9 \<lparr>SECONDS = 9, MILLISECONDS = 0\<rparr> empty_queue)\<rparr>)) = Inr []"
proof -
  let ?q = "snd (BuildRamp one_zone 0 sample_ramp 9 \<lparr>SECONDS = 9, MILLISECONDS = 0\<rparr> empty_queue)"
  have "queue_inv ?q"
    unfolding BuildRamp_eq [OF one_zone_ramp(1)] snd_conv
    using sent.inv_add [OF empty_queue_inv, of 9 "(\<lparr>SECONDS = 9, MILLISECONDS = 0\<rparr>, snd (GetZoneProperties one_zone 0 sample_ramp))"]
    by (simp add: add_sent_def)
  then have "rx_inv (idle_radio\<lparr>sentQueue := ?q\<rparr>)"
    by (simp add: rx_inv_def idle_radio_def rx_position_ok_def)
  from echo_suppression_exact [OF this _ _ one_zone_ramp(1) _ empty_queue_inv, where t = 9
      and ts = "\<lparr>SECONDS = 9, MILLISECONDS = 0\<rparr>" and hdr = "0xC9" and al = True and rssi = "0x30"]
  show ?thesis by (simp add: idle_radio_simps one_zone_ramp(2-) empty_queue_contents)
qed

lemma scene_packets_ignored_witness:
  "map_sum id fst (receive_run (bytes_in True (on_air 0x30 (BuildAssignScene 0x123 1 77 3 2 True False 50))) idle_radio) = Inr []"
  using scene_packets_ignored [OF idle_radio_simps(4,1,2), of "BuildAssignScene 0x123 1 77 3 2 True False 50"
      "0x123" 1 77 3 2 True False 50 0 0 True "0x30"] by simp

end
