(* ===== verification/Record_Table.thy ===== *)
theory Record_Table
  imports Flash_Store
begin

unbundle bit_operations_syntax

text \<open>
  The record regions as tables: with every slot valid or erased, a lookup is a table lookup, writing
  into an erased slot and rewriting a sector with one changed record are table updates. The component
  theories interpret these facts for their regions.
\<close>

context flash_region
begin

definition table_ok :: "memory \<Rightarrow> bool" where
  "table_ok m \<longleftrightarrow> (\<forall>j < cap. slot_ok m j)"

abbreviation (input) rec_ptr :: "nat \<Rightarrow> nat" where "rec_ptr i \<equiv> rg_addr r i + 8"

lemma slot_lookup:
  assumes "table_ok m" "i < cap"
  shows "GetNVPtr r m i True = (if memory_initialized (ReadNV r m i) then Some (rec_ptr i) else None)"
    and "GetNVPtr r m i False = Some (rec_ptr i)"
    and "read_bytes m (rec_ptr i) (rg_size r) = ReadNV r m i"
    and "blank m i \<longleftrightarrow> \<not> memory_initialized (ReadNV r m i)"
proof -
  have ok: "slot_ok m i" using assms by (simp add: table_ok_def)
  show 1: "GetNVPtr r m i True = (if memory_initialized (ReadNV r m i) then Some (rec_ptr i) else None)"
    using slot_ok_GetNVPtr [OF assms(2) ok] .
  show "GetNVPtr r m i False = Some (rec_ptr i)" by (simp add: GetNVPtr_cap [OF assms(2)])
  show b: "blank m i \<longleftrightarrow> \<not> memory_initialized (ReadNV r m i)"
    using ok assms(2) by (auto simp: slot_ok_def ReadNV_blank)
  show "read_bytes m (rec_ptr i) (rg_size r) = ReadNV r m i"
  proof (cases "memory_initialized (ReadNV r m i)")
    case True
    with 1 show ?thesis by (simp add: ReadNV_def)
  next
    case False
    with b have "blank m i" by simp
    from blank_bytes [OF this, of "8 + k" for k] ReadNV_blank [OF assms(2) this] record_fits(1) show ?thesis
      by (simp add: read_bytes_eq_iff add.assoc)
  qed
qed

text \<open>From \<open>m\<close> to \<open>m'\<close> record \<open>i\<close> became \<open>b\<close>; no other record and no byte outside the region's
  sectors changed.\<close>

definition table_step :: "memory \<Rightarrow> memory \<Rightarrow> nat \<Rightarrow> byte list \<Rightarrow> bool" where
  "table_step m m' i b \<longleftrightarrow> table_ok m' \<and>
     (\<forall>j < cap. ReadNV r m' j = (if j = i then b else ReadNV r m j)) \<and>
     (\<forall>x. x < rg_start r \<or> rg_start r + 0x1000 * ((cap - 1) div per) + 0x1000 \<le> x \<longrightarrow> m' x = m x)"

lemma table_step_refl: "table_ok m \<Longrightarrow> i < cap \<Longrightarrow> table_step m m i (ReadNV r m i)"
  by (simp add: table_step_def)

lemma table_step_ok: "table_step m m' i b \<Longrightarrow> table_ok m'"
  by (simp add: table_step_def)

lemma table_step_at: "table_step m m' i b \<Longrightarrow> i < cap \<Longrightarrow> ReadNV r m' i = b"
  by (simp add: table_step_def)

lemma table_step_other: "table_step m m' i b \<Longrightarrow> j < cap \<Longrightarrow> j \<noteq> i \<Longrightarrow> ReadNV r m' j = ReadNV r m j"
  by (simp add: table_step_def)

lemma table_frame:
  assumes "\<And>x. rg_start r \<le> x \<Longrightarrow> x < rg_start r + 0x1000 * ((cap - 1) div per) + 0x1000 \<Longrightarrow> m' x = m x"
  shows "table_ok m' = table_ok m" and "j < cap \<Longrightarrow> ReadNV r m' j = ReadNV r m j"
proof -
  have b: "slot_bytes m' j = slot_bytes m j" if j: "j < cap" for j
    unfolding slot_bytes_def
  proof (rule read_bytes_cong)
    fix x
    assume x: "rg_addr r j \<le> x" "x < rg_addr r j + (8 + fsize)"
    have "j div per \<le> (cap - 1) div per" using j by (intro div_le_mono) simp
    then show "m' x = m x"
      using x slot_in_sector [OF j] addr_ge [OF j] by (intro assms) linarith+
  qed
  show "table_ok m' = table_ok m" using slot_ok_cong [OF _ b] by (simp add: table_ok_def)
  show "j < cap \<Longrightarrow> ReadNV r m' j = ReadNV r m j" using ReadNV_cong(1) [OF _ b] by simp
qed

end

context flash_store
begin

lemma write_new_slot:
  assumes ok: "table_ok m" and i: "i < cap" and bl: "\<not> memory_initialized (ReadNV r m i)"
    and b: "length b = rg_size r" "memory_initialized b"
  shows "\<exists>m'. WriteNV r hw m i (array_ram b ram) 0 = (m', FTFx_OK) \<and> table_step m m' i b"
proof -
  let ?w = "WriteNV r hw m i (array_ram b ram) 0"
  let ?m = "fst ?w"
  have blank: "blank m i" using slot_lookup(4) [OF ok i] bl by simp
  have rd: "read_bytes (array_ram b ram) 0 (rg_size r) = b"
    using read_array_ram [of b ram] b(1) by simp
  have init: "memory_initialized (read_bytes (array_ram b ram) 0 (rg_size r))" by (simp add: rd b(2))
  have out: "?m x = m x" if "x < rg_addr r i \<or> rg_addr r i + 8 + fsize \<le> x" for x
    by (rule WriteNV_outside [OF i blank that])
  have div: "i div per \<le> (cap - 1) div per" using i by (intro div_le_mono) simp
  have far: "?m x = m x" if "x < rg_start r \<or> rg_start r + 0x1000 * ((cap - 1) div per) + 0x1000 \<le> x" for x
    using that slot_in_sector [OF i] addr_ge [OF i] div by (intro out) linarith
  have other: "slot_bytes ?m j = slot_bytes m j" if "j < cap" "j \<noteq> i" for j
    by (rule slot_outside_slot [OF out i that(1) that(2) [symmetric]])
  have "ReadNV r ?m j = (if j = i then b else ReadNV r m j) \<and> slot_ok ?m j" if j: "j < cap" for j
    using WriteNV_slot [OF i blank, of "array_ram b ram" 0] rd other [OF j] ok j
      ReadNV_cong(1) [OF j, of ?m m] slot_ok_cong [OF j, of ?m m]
    by (cases "j = i") (auto simp: table_ok_def)
  then have "table_step m ?m i b" using far by (simp add: table_step_def table_ok_def)
  moreover have "?w = (?m, FTFx_OK)" using WriteNV_blank [OF i init blank] by simp
  ultimately show ?thesis by blast
qed

lemma rewrite_slot:
  assumes ok: "table_ok m" and i: "i < cap" and b: "length b = rg_size r"
    and arr: "length arr = per" "\<And>k. k < per \<Longrightarrow>
      arr ! k = (if k = i mod per then b else ReadNV r m (k + i div per * per))"
  shows "table_step m (write_slots r hw (\<lambda>k. k + i div per * per) arr junk per (EraseSectorNV r per hw m i)) i b"
proof -
  let ?m = "write_slots r hw (\<lambda>k. k + i div per * per) arr junk per (EraseSectorNV r per hw m i)"
  have len: "\<forall>x \<in> set arr. length x = rg_size r"
    using arr b by (auto simp: in_set_conv_nth)
  note R = rewrite_sector [OF i len arr(1), where m = m and junk = junk]
  have "ReadNV r ?m j = (if j = i then b else ReadNV r m j) \<and> slot_ok ?m j" if j: "j < cap" for j
  proof (cases "j div per = i div per")
    case True
    have k: "j mod per < per" using per_pos by simp
    have jj: "j mod per + i div per * per = j" using sector_index_of [OF True] by simp
    have "j mod per = i mod per \<longleftrightarrow> j = i" using jj by (metis div_mult_mod_eq add.commute)
    then show ?thesis using R(1) [OF j True] arr(2) [OF k] jj by simp
  next
    case False
    then have "j \<noteq> i" by auto
    then show ?thesis
      using R(2) [OF j False] ok j ReadNV_cong(1) [OF j, of ?m m] slot_ok_cong [OF j, of ?m m]
      by (auto simp: table_ok_def)
  qed
  moreover have "i div per \<le> (cap - 1) div per" using i by (intro div_le_mono) simp
  moreover have "?m x = m x"
    if "x < rg_start r \<or> rg_start r + 0x1000 * ((cap - 1) div per) + 0x1000 \<le> x" for x
    using that calculation(2) by (intro R(3)) linarith
  ultimately show ?thesis by (simp add: table_step_def table_ok_def)
qed

lemma rewrite_sector_slot:
  assumes ok: "table_ok m" and i: "i < cap" and b: "length b = rg_size r"
  shows "table_step m (snd (WriteSectorNV r per hw (EraseSectorNV r per hw m i) i
     ((snd (ReadSectorNV r per m i old per))[i mod per := b]) junk per)) i b"
proof -
  have ix: "k < per \<Longrightarrow> (k + i div per * per) mod 256 = k + i div per * per" for k by (rule sector_byte [OF i])
  have w: "write_slots r hw (\<lambda>k. (k + i div per * per) mod 256) arr junk per m1 =
      write_slots r hw (\<lambda>k. k + i div per * per) arr junk per m1" for arr m1
    by (rule write_slots_cong) (rule ix)
  show ?thesis
    unfolding WriteSectorNV_def ReadSectorNV_def Let_def
    by (simp add: w, rule rewrite_slot [OF ok i b]) (auto simp: nth_list_update ix)
qed

lemma rewrite_array_slot:
  assumes ok: "table_ok m" and i: "i < cap" and b: "length b = rg_size r" and one: "per = cap"
  shows "table_step m (the (WriteAllNV r hw (EraseSectorNV r per hw m 0)
     ((the (ReadAllNV r m cap))[i := b]) junk cap)) i b"
proof -
  have e: "EraseSectorNV r per hw m 0 = EraseSectorNV r per hw m i"
    using i one by (simp add: EraseSectorNV_def)
  have w: "the (WriteAllNV r hw m1 arr junk cap) = write_slots r hw (\<lambda>i. i) arr junk per m1" for m1 arr
    using cap_le one by (simp add: WriteAllNV_def)
  have d: "i div per = 0" "i mod per = i" using i one by simp_all
  let ?arr = "(the (ReadAllNV r m cap))[i := b]"
  have "length ?arr = per" "k < per \<Longrightarrow> ?arr ! k = (if k = i mod per then b else ReadNV r m (k + i div per * per))" for k
    using cap_le i one d by (simp_all add: ReadAllNV_def nth_list_update)
  from rewrite_slot [OF ok i b this, of junk] show ?thesis by (simp add: w e d)
qed

end

end
