(* ===== verification/Scene_Controllers.thy ===== *)
theory Scene_Controllers
  imports Zones Record_Table
begin

unbundle bit_operations_syntax

text \<open>
  SceneController.c: the table of scene controllers. \<open>sceneControllerArray\<close> holds a pointer per
  controller into the record region of Flash\_Slots; the record (42 bytes) is the name, four banks of
  scene id, toggleable and toggled flag, a pad byte, the little-endian group id, building, house, room,
  night mode, device type and a pad byte. The structure of the model follows Zones.
\<close>

record scene_controller_bank =
  bk_sceneId :: byte
  bk_toggleable :: byte
  bk_toggled :: byte

record scene_controller_properties =
  sc_NameString :: "byte list"
  sc_bank :: "scene_controller_bank list"
  sc_groupId :: word_t
  sc_buildingId :: byte
  sc_houseId :: byte
  sc_roomId :: byte
  sc_nightMode :: byte
  sc_deviceType :: byte

record controller_state =
  sc_flash :: memory
  sceneControllerArray :: "nat option list"
  sc_global_houseID :: byte

abbreviation MAX_SCENES_IN_SCENE_CONTROLLER :: nat where "MAX_SCENES_IN_SCENE_CONTROLLER \<equiv> 4"

subsection \<open>The flash record of a scene controller\<close>

definition nc_name :: "byte list \<Rightarrow> byte list" where "nc_name b = take MAX_SIZE_NAME_STRING b"
definition nc_bank :: "byte list \<Rightarrow> nat \<Rightarrow> scene_controller_bank" where
  "nc_bank b k = \<lparr>bk_sceneId = b ! (21 + 3 * k), bk_toggleable = b ! (22 + 3 * k), bk_toggled = b ! (23 + 3 * k)\<rparr>"
definition nc_groupId :: "byte list \<Rightarrow> word_t" where "nc_groupId b = word_of_bytes (b ! 35) (b ! 34)"
definition nc_buildingId :: "byte list \<Rightarrow> byte" where "nc_buildingId b = b ! 36"
definition nc_houseId :: "byte list \<Rightarrow> byte" where "nc_houseId b = b ! 37"
definition nc_roomId :: "byte list \<Rightarrow> byte" where "nc_roomId b = b ! 38"
definition nc_nightMode :: "byte list \<Rightarrow> byte" where "nc_nightMode b = b ! 39"
definition nc_deviceType :: "byte list \<Rightarrow> byte" where "nc_deviceType b = b ! 40"

definition bank_bytes :: "scene_controller_bank \<Rightarrow> byte list" where
  "bank_bytes k = [bk_sceneId k, bk_toggleable k, bk_toggled k]"

definition set_nv_controller :: "scene_controller_properties \<Rightarrow> byte list \<Rightarrow> byte list" where
  "set_nv_controller p old =
     snprintf_s MAX_SIZE_NAME_STRING (take MAX_SIZE_NAME_STRING old) (sc_NameString p) @
     concat (map (\<lambda>k. bank_bytes (sc_bank p ! k)) [0..<MAX_SCENES_IN_SCENE_CONTROLLER]) @
     [old ! 33, LowByteOfWord (sc_groupId p), HighByteOfWord (sc_groupId p), sc_buildingId p,
      sc_houseId p, sc_roomId p, sc_nightMode p, sc_deviceType p, old ! 41]"

definition controller_record :: "memory \<Rightarrow> nat \<Rightarrow> byte list" where
  "controller_record m p = read_bytes m p sizeof_nv_scene_controller"

subsection \<open>The scene controller table\<close>

definition InitializeSceneControllerArray :: "controller_state \<Rightarrow> controller_state" where
  "InitializeSceneControllerArray st =
     st\<lparr>sceneControllerArray := replicate MAX_NUMBER_OF_SCENE_CONTROLLERS None\<rparr>"

definition nv_controller_of :: "controller_state \<Rightarrow> nat \<Rightarrow> byte list option" where
  "nv_controller_of st i = map_option (controller_record (sc_flash st)) (sceneControllerArray st ! i)"

definition AnySceneControllersInArray :: "controller_state \<Rightarrow> bool" where
  "AnySceneControllersInArray st \<longleftrightarrow>
     loop_find (\<lambda>i. case nv_controller_of st i of None \<Rightarrow> False | Some b \<Rightarrow> nc_name b ! 0 \<noteq> 0)
       0 MAX_NUMBER_OF_SCENE_CONTROLLERS < MAX_NUMBER_OF_SCENE_CONTROLLERS"

definition GetAvailableSceneControllerIndex :: "controller_state \<Rightarrow> nat" where
  "GetAvailableSceneControllerIndex st =
     loop_find (\<lambda>i. case nv_controller_of st i of None \<Rightarrow> True | Some b \<Rightarrow> nc_name b ! 0 = 0)
       0 MAX_NUMBER_OF_SCENE_CONTROLLERS"

definition GetSceneControllerIndex :: "controller_state \<Rightarrow> word_t \<Rightarrow> byte \<Rightarrow> byte \<Rightarrow> nat" where
  "GetSceneControllerIndex st groupId buildingId houseId =
     loop_find (\<lambda>i. case nv_controller_of st i of None \<Rightarrow> False
        | Some b \<Rightarrow> nc_name b ! 0 \<noteq> 0 \<and> nc_groupId b = groupId \<and> nc_buildingId b = buildingId \<and>
                    nc_houseId b = houseId)
       0 MAX_NUMBER_OF_SCENE_CONTROLLERS"

definition GetSceneControllerProperties ::
  "controller_state \<Rightarrow> nat \<Rightarrow> scene_controller_properties \<Rightarrow> bool \<times> scene_controller_properties" where
  "GetSceneControllerProperties st i out =
     (if i < MAX_NUMBER_OF_SCENE_CONTROLLERS then
        case nv_controller_of st i of
          None \<Rightarrow> (False, out)
        | Some b \<Rightarrow>
            (True,
             out\<lparr>sc_groupId := nc_groupId b, sc_buildingId := nc_buildingId b, sc_houseId := nc_houseId b,
                 sc_roomId := nc_roomId b, sc_nightMode := nc_nightMode b, sc_deviceType := nc_deviceType b,
                 sc_bank := map (nc_bank b) [0..<MAX_SCENES_IN_SCENE_CONTROLLER],
                 sc_NameString := snprintf_s MAX_SIZE_NAME_STRING (sc_NameString out) (nc_name b)\<rparr>)
      else (False, out))"

definition set_controller_ptr :: "nat \<Rightarrow> nat option \<Rightarrow> controller_state \<Rightarrow> controller_state" where
  "set_controller_ptr i ptr st = st\<lparr>sceneControllerArray := (sceneControllerArray st)[i := ptr]\<rparr>"

definition bank_differs :: "scene_controller_properties \<Rightarrow> byte list \<Rightarrow> bool" where
  "bank_differs p b \<longleftrightarrow>
     loop_find (\<lambda>k. sc_bank p ! k \<noteq> nc_bank b k) 0 MAX_SCENES_IN_SCENE_CONTROLLER < MAX_SCENES_IN_SCENE_CONTROLLER"

definition controller_differs :: "scene_controller_properties \<Rightarrow> byte list \<Rightarrow> bool" where
  "controller_differs p b \<longleftrightarrow>
     bank_differs p b \<or> sc_groupId p \<noteq> nc_groupId b \<or> sc_buildingId p \<noteq> nc_buildingId b \<or>
     sc_houseId p \<noteq> nc_houseId b \<or> sc_roomId p \<noteq> nc_roomId b \<or> sc_nightMode p \<noteq> nc_nightMode b \<or>
     sc_deviceType p \<noteq> nc_deviceType b \<or>
     \<not> strncmp_eq MAX_SIZE_NAME_STRING (sc_NameString p) (nc_name b)"

text \<open>\<open>local\<close> is the uninitialised local record and what lies behind it, \<open>behind\<close> what lies behind
  \<open>nvSceneControllerArray\<close>.\<close>

definition store_new_controller ::
  "ftfe_hw \<Rightarrow> memory \<Rightarrow> nat \<Rightarrow> scene_controller_properties \<Rightarrow> controller_state \<Rightarrow> controller_state" where
  "store_new_controller hw local_ram i p st =
     (if sc_NameString p ! 0 \<noteq> 0 then
        let nvController = set_nv_controller p (read_bytes local_ram 0 sizeof_nv_scene_controller);
            (m1, rc) = WriteSceneControllerPropertiesToFlash hw (sc_flash st) i (array_ram nvController local_ram) 0;
            st1 = st\<lparr>sc_flash := m1\<rparr>
        in if rc \<noteq> FTFx_OK then set_controller_ptr i None st1 else st1
      else set_controller_ptr i None st)"

definition save_controller ::
  "ftfe_hw \<Rightarrow> memory \<Rightarrow> nat \<Rightarrow> scene_controller_properties \<Rightarrow> controller_state \<Rightarrow> controller_state" where
  "save_controller hw behind i p st =
     (let nvArray = the (ReadAllSceneControllerPropertiesFromFlash (sc_flash st) MAX_NUMBER_OF_SCENE_CONTROLLERS);
          named = sc_NameString p ! 0 \<noteq> 0;
          nvArray = nvArray[i := if named then set_nv_controller p (nvArray ! i)
                                 else replicate sizeof_nv_scene_controller 0xFF];
          st1 = (if named then st else set_controller_ptr i None st);
          m1 = EraseSceneControllersFromFlash hw (sc_flash st)
      in st1\<lparr>sc_flash := the (WriteAllSceneControllerPropertiesToFlash hw m1 nvArray behind
                                MAX_NUMBER_OF_SCENE_CONTROLLERS)\<rparr>)"

definition SetSceneControllerProperties ::
  "ftfe_hw \<Rightarrow> memory \<Rightarrow> memory \<Rightarrow> controller_state \<Rightarrow> nat \<Rightarrow> scene_controller_properties
     \<Rightarrow> bool \<times> controller_state" where
  "SetSceneControllerProperties hw local_ram behind st i p =
     (if i < MAX_NUMBER_OF_SCENE_CONTROLLERS then
        case GetNVSceneControllerPropertiesPtr (sc_flash st) i False of
          None \<Rightarrow> (False, st)
        | Some nvPtr \<Rightarrow>
            let st1 = set_controller_ptr i (Some nvPtr) st;
                nvController = controller_record (sc_flash st1) nvPtr
            in (True,
                if \<not> memory_initialized nvController then store_new_controller hw local_ram i p st1
                else if controller_differs p nvController then save_controller hw behind i p st1
                else st1)
      else (False, st))"

definition load_controller :: "nat \<Rightarrow> controller_state \<times> nat \<Rightarrow> controller_state \<times> nat" where
  "load_controller i = (\<lambda>(st, n).
     case GetNVSceneControllerPropertiesPtr (sc_flash st) i True of
       None \<Rightarrow> (st, n)
     | Some nvPtr \<Rightarrow>
         let st1 = (if sc_global_houseID st = 0
                    then st\<lparr>sc_global_houseID := nc_houseId (controller_record (sc_flash st) nvPtr)\<rparr> else st)
         in (set_controller_ptr i (Some nvPtr) st1, n + 1))"

definition LoadSceneControllersFromFlash :: "controller_state \<Rightarrow> controller_state \<times> nat" where
  "LoadSceneControllersFromFlash st = fold load_controller [0..<MAX_NUMBER_OF_SCENE_CONTROLLERS] (st, 0)"

subsection \<open>Records\<close>

abbreviation crec :: "memory \<Rightarrow> nat \<Rightarrow> byte list" where "crec \<equiv> ReadNV scene_controller_region"
abbreviation controller_ptr :: "nat \<Rightarrow> nat" where "controller_ptr i \<equiv> rg_addr scene_controller_region i + 8"

lemma controller_size: "rg_size scene_controller_region = 42"
  by (simp add: region_defs)

lemma length_bank_bytes [simp]: "length (bank_bytes k) = 3"
  by (simp add: bank_bytes_def)

lemma banks_unfold:
  "concat (map (\<lambda>k. bank_bytes (f k)) [0..<4]) = bank_bytes (f 0) @ bank_bytes (f 1) @ bank_bytes (f 2) @ bank_bytes (f 3)"
  by (simp add: upt_rec numeral_2_eq_2 numeral_3_eq_3)

lemma length_set_nv_controller [simp]:
  "length old = sizeof_nv_scene_controller \<Longrightarrow> length (set_nv_controller p old) = sizeof_nv_scene_controller"
  by (simp add: set_nv_controller_def banks_unfold)

lemma set_nv_controller_initialized [simp]: "memory_initialized (set_nv_controller p old)"
  by (rule initialized_nul) (simp add: set_nv_controller_def snprintf_nul)

text \<open>The record agrees with the properties.\<close>

definition controller_matches :: "scene_controller_properties \<Rightarrow> byte list \<Rightarrow> bool" where
  "controller_matches p b \<longleftrightarrow>
     (\<forall>k < MAX_SCENES_IN_SCENE_CONTROLLER. nc_bank b k = sc_bank p ! k) \<and> nc_groupId b = sc_groupId p \<and>
     nc_buildingId b = sc_buildingId p \<and> nc_houseId b = sc_houseId p \<and> nc_roomId b = sc_roomId p \<and>
     nc_nightMode b = sc_nightMode p \<and> nc_deviceType b = sc_deviceType p \<and>
     cstr MAX_SIZE_NAME_STRING (nc_name b) = cstr MAX_SIZE_NAME_STRING (sc_NameString p)"

definition controller_args_ok :: "scene_controller_properties \<Rightarrow> bool" where
  "controller_args_ok p \<longleftrightarrow> length (sc_NameString p) = MAX_SIZE_NAME_STRING \<and> 0 \<in> set (sc_NameString p) \<and>
     length (sc_bank p) = MAX_SCENES_IN_SCENE_CONTROLLER"

lemma all_less_4: "(\<forall>k < 4. P k) \<longleftrightarrow> P 0 \<and> P 1 \<and> P 2 \<and> P (3 :: nat)"
proof -
  have "k < 4 \<longleftrightarrow> k = 0 \<or> k = 1 \<or> k = 2 \<or> k = 3" for k :: nat by linarith
  then show ?thesis by auto
qed

lemma set_nv_controller_matches:
  assumes "controller_args_ok p" "length old = sizeof_nv_scene_controller"
  shows "controller_matches p (set_nv_controller p old)"
proof -
  let ?n = "snprintf_s 21 (take 21 old) (sc_NameString p)" and ?b = "set_nv_controller p old"
  have l: "length ?n = 21" using assms by (intro length_snprintf_s) simp_all
  note n = nth_21 [OF l]
  have e: "?b = ?n @ [bk_sceneId (sc_bank p ! 0), bk_toggleable (sc_bank p ! 0), bk_toggled (sc_bank p ! 0),
      bk_sceneId (sc_bank p ! 1), bk_toggleable (sc_bank p ! 1), bk_toggled (sc_bank p ! 1),
      bk_sceneId (sc_bank p ! 2), bk_toggleable (sc_bank p ! 2), bk_toggled (sc_bank p ! 2),
      bk_sceneId (sc_bank p ! 3), bk_toggleable (sc_bank p ! 3), bk_toggled (sc_bank p ! 3),
      old ! 33, LowByteOfWord (sc_groupId p), HighByteOfWord (sc_groupId p), sc_buildingId p,
      sc_houseId p, sc_roomId p, sc_nightMode p, sc_deviceType p, old ! 41]"
    unfolding set_nv_controller_def banks_unfold by (simp add: bank_bytes_def)
  have banks: "nc_bank ?b 0 = sc_bank p ! 0" "nc_bank ?b 1 = sc_bank p ! 1" "nc_bank ?b 2 = sc_bank p ! 2"
    "nc_bank ?b 3 = sc_bank p ! 3"
    using n [of _ 0] n [of _ 1] n [of _ 2] n [of _ 3] n [of _ 4] n [of _ 5] n [of _ 6] n [of _ 7] n [of _ 8]
      n [of _ 9] n [of _ 10] n [of _ 11]
    by (simp_all add: nc_bank_def e)
  have name: "nc_name ?b = ?n" using l by (simp add: nc_name_def e)
  have "cstr 21 (nc_name ?b) = cstr 21 (sc_NameString p)"
    using cstr_terminated [of "sc_NameString p" 20] assms(1)
    by (simp add: name cstr_snprintf_s controller_args_ok_def)
  then show ?thesis
    using banks n [of _ 13] n [of _ 14] n [of _ 15] n [of _ 16] n [of _ 17] n [of _ 18] n [of _ 19]
    by (simp add: controller_matches_def all_less_4 e nc_groupId_def nc_buildingId_def nc_houseId_def nc_roomId_def nc_nightMode_def nc_deviceType_def)
qed

lemma bank_differs_iff: "bank_differs p b \<longleftrightarrow> (\<exists>k < MAX_SCENES_IN_SCENE_CONTROLLER. sc_bank p ! k \<noteq> nc_bank b k)"
  using loop_find_none [of "\<lambda>k. sc_bank p ! k \<noteq> nc_bank b k" 4] loop_find_le [of "\<lambda>k. sc_bank p ! k \<noteq> nc_bank b k" 4]
  by (auto simp: bank_differs_def)

lemma not_differs_controller_matches:
  assumes "controller_args_ok p" "length b = sizeof_nv_scene_controller" "\<not> controller_differs p b"
  shows "controller_matches p b"
  using assms strncmp_eq_cstr [of 21 "sc_NameString p" "nc_name b"]
  by (auto simp: controller_matches_def controller_args_ok_def controller_differs_def bank_differs_iff nc_name_def)

subsection \<open>The invariant\<close>

text \<open>Every record is valid or erased, the pointers are those a reload finds, and a stored
  controller has a name.\<close>

definition controller_inv :: "controller_state \<Rightarrow> bool" where
  "controller_inv st \<longleftrightarrow> length (sceneControllerArray st) = MAX_NUMBER_OF_SCENE_CONTROLLERS \<and>
     scene_controllers.table_ok (sc_flash st) \<and>
     (\<forall>i < MAX_NUMBER_OF_SCENE_CONTROLLERS.
        sceneControllerArray st ! i = GetNVSceneControllerPropertiesPtr (sc_flash st) i True \<and>
        (memory_initialized (crec (sc_flash st) i) \<longrightarrow> nc_name (crec (sc_flash st) i) ! 0 \<noteq> 0))"

lemmas controller_lookup = scene_controllers.slot_lookup [unfolded controller_size, folded GetNVSceneControllerPropertiesPtr_def controller_record_def]

lemma length_crec [simp]: "length (crec m i) = sizeof_nv_scene_controller"
  using scene_controllers.length_ReadNV [of m i] by (simp add: controller_size)

text \<open>The outcome of a call on index \<open>i\<close>: record \<open>b\<close> in flash, pointer set or cleared.\<close>

definition controller_outcome ::
  "scene_controller_properties \<Rightarrow> nat \<Rightarrow> controller_state \<Rightarrow> controller_state \<Rightarrow> byte list \<Rightarrow> bool" where
  "controller_outcome p i st st' b \<longleftrightarrow>
     scene_controllers.table_step (sc_flash st) (sc_flash st') i b \<and>
     (memory_initialized b \<longleftrightarrow> sc_NameString p ! 0 \<noteq> 0) \<and>
     (sc_NameString p ! 0 \<noteq> 0 \<longrightarrow> controller_matches p b) \<and>
     sceneControllerArray st' = (sceneControllerArray st)
       [i := if sc_NameString p ! 0 \<noteq> 0 then Some (controller_ptr i) else None] \<and>
     sc_global_houseID st' = sc_global_houseID st"

lemma save_controller_effect:
  fixes p :: scene_controller_properties and st :: controller_state
  assumes "ftfe_reliable hw" "scene_controllers.table_ok (sc_flash st)" "i < MAX_NUMBER_OF_SCENE_CONTROLLERS"
  defines "b \<equiv> if sc_NameString p ! 0 \<noteq> 0 then set_nv_controller p (crec (sc_flash st) i)
               else replicate sizeof_nv_scene_controller 0xFF"
  shows "\<exists>m'. scene_controllers.table_step (sc_flash st) m' i b \<and>
    save_controller hw behind i p st =
      (if sc_NameString p ! 0 \<noteq> 0 then st else set_controller_ptr i None st)\<lparr>sc_flash := m'\<rparr>"
proof -
  have l: "length b = rg_size scene_controller_region" by (simp add: b_def controller_size)
  have a: "the (ReadAllNV scene_controller_region (sc_flash st) 20) = map (crec (sc_flash st)) [0..<20]"
    by (simp add: ReadAllNV_def)
  show ?thesis
    using flash_store.rewrite_array_slot [OF scene_controller_store [OF assms(1)] assms(2,3) l refl, of behind] assms(3)
    by (intro exI conjI) (simp_all add: save_controller_def Let_def a b_def EraseSceneControllersFromFlash_def
        ReadAllSceneControllerPropertiesFromFlash_def WriteAllSceneControllerPropertiesToFlash_def cong: if_cong)
qed

lemma crec_not_Nil [simp]: "crec m i \<noteq> []"
  by (metis length_crec list.size(3) zero_neq_numeral)

lemma controller_invD:
  assumes "controller_inv st" "i < MAX_NUMBER_OF_SCENE_CONTROLLERS"
  shows "scene_controllers.table_ok (sc_flash st)" "length (sceneControllerArray st) = MAX_NUMBER_OF_SCENE_CONTROLLERS"
    "memory_initialized (crec (sc_flash st) i) \<Longrightarrow> nc_name (crec (sc_flash st) i) ! 0 \<noteq> 0"
    "sceneControllerArray st ! i = (if memory_initialized (crec (sc_flash st) i) then Some (controller_ptr i) else None)"
  using assms controller_lookup(1) [of "sc_flash st" i] by (simp_all add: controller_inv_def)

lemma set_controller_ptr_simps [simp]:
  "sc_flash (set_controller_ptr i v st) = sc_flash st"
  "sceneControllerArray (set_controller_ptr i v st) = (sceneControllerArray st)[i := v]"
  "sc_global_houseID (set_controller_ptr i v st) = sc_global_houseID st"
  by (simp_all add: set_controller_ptr_def)

lemma set_new_controller:
  assumes "ftfe_reliable hw" "controller_inv st" "i < MAX_NUMBER_OF_SCENE_CONTROLLERS" "controller_args_ok p"
    and new: "\<not> memory_initialized (crec (sc_flash st) i)"
  shows "\<exists>st' b. SetSceneControllerProperties hw lram behind st i p = (True, st') \<and> controller_outcome p i st st' b"
proof -
  note inv = controller_invD [OF assms(2,3)]
  note look = controller_lookup [OF inv(1) assms(3)]
  let ?st1 = "set_controller_ptr i (Some (controller_ptr i)) st"
  let ?b = "set_nv_controller p (read_bytes lram 0 42)"
  have set: "SetSceneControllerProperties hw lram behind st i p = (True, store_new_controller hw lram i p ?st1)"
    using assms(3) new look by (simp add: SetSceneControllerProperties_def Let_def)
  show ?thesis
  proof (cases "sc_NameString p ! 0 = 0")
    case True
    then have "controller_outcome p i st (store_new_controller hw lram i p ?st1) (crec (sc_flash st) i)"
      using scene_controllers.table_step_refl [OF inv(1) assms(3)] new
      by (simp add: controller_outcome_def store_new_controller_def)
    with set show ?thesis by blast
  next
    case False
    obtain m' where m': "WriteNV scene_controller_region hw (sc_flash st) i (array_ram ?b lram) 0 = (m', FTFx_OK)"
      "scene_controllers.table_step (sc_flash st) m' i ?b"
      using flash_store.write_new_slot [OF scene_controller_store [OF assms(1)] inv(1) assms(3) new, of ?b lram]
      by (auto simp: controller_size)
    have "controller_outcome p i st (store_new_controller hw lram i p ?st1) ?b"
      using False m' set_nv_controller_matches [OF assms(4)]
      by (simp add: controller_outcome_def store_new_controller_def Let_def WriteSceneControllerPropertiesToFlash_def)
    with set show ?thesis by blast
  qed
qed

lemma set_old_controller:
  assumes "ftfe_reliable hw" "controller_inv st" "i < MAX_NUMBER_OF_SCENE_CONTROLLERS" "controller_args_ok p"
    and old: "memory_initialized (crec (sc_flash st) i)"
  shows "\<exists>st' b. SetSceneControllerProperties hw lram behind st i p = (True, st') \<and> controller_outcome p i st st' b"
proof -
  note inv = controller_invD [OF assms(2,3)]
  note look = controller_lookup [OF inv(1) assms(3)]
  let ?st1 = "set_controller_ptr i (Some (controller_ptr i)) st"
  have set: "SetSceneControllerProperties hw lram behind st i p =
      (True, if controller_differs p (crec (sc_flash st) i) then save_controller hw behind i p ?st1 else ?st1)"
    using assms(3) old look by (simp add: SetSceneControllerProperties_def Let_def)
  show ?thesis
  proof (cases "controller_differs p (crec (sc_flash st) i)")
    case True
    have "scene_controllers.table_ok (sc_flash ?st1)" using inv(1) by simp
    from save_controller_effect [OF assms(1) this assms(3), of p behind]
    obtain m' where m': "scene_controllers.table_step (sc_flash st) m' i
        (if sc_NameString p ! 0 \<noteq> 0 then set_nv_controller p (crec (sc_flash st) i) else replicate 42 0xFF)"
      "save_controller hw behind i p ?st1 =
        (if sc_NameString p ! 0 \<noteq> 0 then ?st1 else set_controller_ptr i None ?st1)\<lparr>sc_flash := m'\<rparr>"
      unfolding set_controller_ptr_simps by blast
    have "controller_outcome p i st (save_controller hw behind i p ?st1)
        (if sc_NameString p ! 0 \<noteq> 0 then set_nv_controller p (crec (sc_flash st) i) else replicate 42 0xFF)"
      using m' set_nv_controller_matches [OF assms(4) length_crec] by (simp add: controller_outcome_def)
    with set True show ?thesis by auto
  next
    case False
    have m: "controller_matches p (crec (sc_flash st) i)"
      using not_differs_controller_matches [OF assms(4) length_crec False] .
    have "nc_name (crec (sc_flash st) i) \<noteq> []" "sc_NameString p \<noteq> []"
      using assms(4) by (auto simp: nc_name_def controller_args_ok_def controller_size)
    then have "sc_NameString p ! 0 \<noteq> 0"
      using named_cstr [of "nc_name (crec (sc_flash st) i)" "sc_NameString p"] m inv(3) [OF old]
      by (simp add: controller_matches_def)
    then have "controller_outcome p i st ?st1 (crec (sc_flash st) i)"
      using m old scene_controllers.table_step_refl [OF inv(1) assms(3)] by (simp add: controller_outcome_def)
    with set False show ?thesis by auto
  qed
qed

lemma SetSceneControllerProperties_outcome:
  assumes "ftfe_reliable hw" "controller_inv st" "i < MAX_NUMBER_OF_SCENE_CONTROLLERS" "controller_args_ok p"
  obtains st' b where "SetSceneControllerProperties hw lram behind st i p = (True, st')" "controller_outcome p i st st' b"
  using set_new_controller [OF assms] set_old_controller [OF assms] by blast

lemma controller_outcome_inv:
  assumes "controller_inv st" "i < MAX_NUMBER_OF_SCENE_CONTROLLERS" "controller_args_ok p"
    and out: "controller_outcome p i st st' b"
  shows "controller_inv st'"
proof -
  have step: "scene_controllers.table_step (sc_flash st) (sc_flash st') i b"
    using out by (simp add: controller_outcome_def)
  have ok: "scene_controllers.table_ok (sc_flash st')" using scene_controllers.table_step_ok [OF step] .
  have at: "crec (sc_flash st') i = b" using scene_controllers.table_step_at [OF step assms(2)] .
  have entry: "sceneControllerArray st' ! j = GetNVSceneControllerPropertiesPtr (sc_flash st') j True \<and>
      (memory_initialized (crec (sc_flash st') j) \<longrightarrow> nc_name (crec (sc_flash st') j) ! 0 \<noteq> 0)"
    if j: "j < MAX_NUMBER_OF_SCENE_CONTROLLERS" for j
  proof (cases "j = i")
    case True
    have "nc_name b \<noteq> []" "sc_NameString p \<noteq> []"
      using assms(3) at crec_not_Nil [of "sc_flash st'" i] by (auto simp: nc_name_def controller_args_ok_def controller_size)
    then have "nc_name b ! 0 \<noteq> 0" if "sc_NameString p ! 0 \<noteq> 0"
      using that named_cstr [of "nc_name b" "sc_NameString p"] out
      by (simp add: controller_outcome_def controller_matches_def)
    then show ?thesis
      using True out at controller_lookup(1) [OF ok j] controller_invD(2) [OF assms(1,2)] assms(2)
      by (simp add: controller_outcome_def)
  next
    case False
    then show ?thesis
      using out controller_invD [OF assms(1) j] controller_lookup(1) [OF ok j] scene_controllers.table_step_other [OF step j]
      by (simp add: controller_outcome_def)
  qed
  then show ?thesis using ok out controller_invD(2) [OF assms(1,2)]
    by (simp add: controller_inv_def controller_outcome_def)
qed

lemma nv_controller_of_inv:
  assumes "controller_inv st" "i < MAX_NUMBER_OF_SCENE_CONTROLLERS"
  shows "nv_controller_of st i = (if memory_initialized (crec (sc_flash st) i) then Some (crec (sc_flash st) i) else None)"
  using controller_invD [OF assms] controller_lookup(3) [OF controller_invD(1) [OF assms] assms(2)]
  by (simp add: nv_controller_of_def)

text \<open>The properties two structures share: all of them, names as strings.\<close>

definition same_controller :: "scene_controller_properties \<Rightarrow> scene_controller_properties \<Rightarrow> bool" where
  "same_controller p q \<longleftrightarrow> sc_bank q = sc_bank p \<and> sc_groupId q = sc_groupId p \<and>
     sc_buildingId q = sc_buildingId p \<and> sc_houseId q = sc_houseId p \<and> sc_roomId q = sc_roomId p \<and>
     sc_nightMode q = sc_nightMode p \<and> sc_deviceType q = sc_deviceType p \<and>
     cstr MAX_SIZE_NAME_STRING (sc_NameString q) = cstr MAX_SIZE_NAME_STRING (sc_NameString p)"

lemma GetSceneController_record:
  assumes "controller_inv st" "i < MAX_NUMBER_OF_SCENE_CONTROLLERS" "controller_args_ok p"
    and "memory_initialized (crec (sc_flash st) i)" "controller_matches p (crec (sc_flash st) i)"
  shows "fst (GetSceneControllerProperties st i out)" "same_controller p (snd (GetSceneControllerProperties st i out))"
proof -
  let ?b = "crec (sc_flash st) i"
  have c: "cstr 21 (nc_name ?b) = cstr 21 (sc_NameString p)" using assms(5) by (simp add: controller_matches_def)
  have "cstr 20 (sc_NameString p) = cstr 21 (sc_NameString p)"
    using cstr_terminated [of "sc_NameString p" 20] assms(3) by (simp add: controller_args_ok_def)
  then have "length (cstr 21 (nc_name ?b)) \<le> 20" using c length_cstr_le [of 20 "sc_NameString p"] by simp
  then have n: "cstr 20 (nc_name ?b) = cstr 21 (sc_NameString p)" using cstr_short [of 20 "nc_name ?b"] c by simp
  have bank: "map (nc_bank ?b) [0..<4] = sc_bank p"
    using assms(3,5) by (auto simp: list_eq_iff_nth_eq controller_matches_def controller_args_ok_def)
  show "fst (GetSceneControllerProperties st i out)" "same_controller p (snd (GetSceneControllerProperties st i out))"
    using assms(2,4,5) n bank nv_controller_of_inv [OF assms(1,2)]
    by (simp_all add: GetSceneControllerProperties_def same_controller_def controller_matches_def cstr_snprintf_s
        del: upt_rec_numeral)
qed

subsection \<open>Reloading after a restart\<close>

lemma load_controller_step:
  fixes st :: controller_state and n :: nat
  defines "found \<equiv> GetNVSceneControllerPropertiesPtr (sc_flash st) n True"
  shows "sc_flash (fst (load_controller n (st, c))) = sc_flash st"
    and "sceneControllerArray (fst (load_controller n (st, c))) =
      (if found \<noteq> None then (sceneControllerArray st)[n := found] else sceneControllerArray st)"
    and "snd (load_controller n (st, c)) = (if found \<noteq> None then c + 1 else c)"
  by (auto simp: load_controller_def Let_def found_def set_controller_ptr_def split: option.split)

lemma load_controllers_upto:
  assumes "length (sceneControllerArray st) = MAX_NUMBER_OF_SCENE_CONTROLLERS" "n \<le> MAX_NUMBER_OF_SCENE_CONTROLLERS"
  defines "found j \<equiv> GetNVSceneControllerPropertiesPtr (sc_flash st) j True"
  shows "sc_flash (fst (fold load_controller [0..<n] (st, 0))) = sc_flash st \<and>
    length (sceneControllerArray (fst (fold load_controller [0..<n] (st, 0)))) = MAX_NUMBER_OF_SCENE_CONTROLLERS \<and>
    snd (fold load_controller [0..<n] (st, 0)) = length (filter (\<lambda>j. found j \<noteq> None) [0..<n]) \<and>
    (\<forall>j < MAX_NUMBER_OF_SCENE_CONTROLLERS. sceneControllerArray (fst (fold load_controller [0..<n] (st, 0))) ! j =
       (if j < n \<and> found j \<noteq> None then found j else sceneControllerArray st ! j))"
  using assms(2)
proof (induction n)
  case 0
  then show ?case using assms(1) by simp
next
  case (Suc n)
  obtain st1 c where r: "fold load_controller [0..<n] (st, 0) = (st1, c)" by fastforce
  have s: "fold load_controller [0..<Suc n] (st, 0) = load_controller n (st1, c)" by (simp add: r)
  have IH: "sc_flash st1 = sc_flash st" "length (sceneControllerArray st1) = MAX_NUMBER_OF_SCENE_CONTROLLERS"
    "c = length (filter (\<lambda>j. found j \<noteq> None) [0..<n])"
    "\<forall>j < MAX_NUMBER_OF_SCENE_CONTROLLERS. sceneControllerArray st1 ! j =
       (if j < n \<and> found j \<noteq> None then found j else sceneControllerArray st ! j)"
    using Suc by (simp_all add: r)
  note L = load_controller_step [of n st1 c, unfolded IH(1), folded found_def]
  show ?case
    unfolding s L using IH Suc.prems by (auto simp: nth_list_update less_Suc_eq)
qed

lemma reload_controllers:
  assumes "controller_inv st"
  defines "st' \<equiv> fst (LoadSceneControllersFromFlash (InitializeSceneControllerArray st))"
  shows "sc_flash st' = sc_flash st" "sceneControllerArray st' = sceneControllerArray st" "controller_inv st'"
proof -
  let ?st0 = "InitializeSceneControllerArray st"
  have "length (sceneControllerArray ?st0) = MAX_NUMBER_OF_SCENE_CONTROLLERS"
    by (simp add: InitializeSceneControllerArray_def)
  note L = load_controllers_upto [OF this order_refl, folded LoadSceneControllersFromFlash_def, folded st'_def]
  have f0: "sc_flash ?st0 = sc_flash st" "\<And>j. j < MAX_NUMBER_OF_SCENE_CONTROLLERS \<Longrightarrow> sceneControllerArray ?st0 ! j = None"
    by (simp_all add: InitializeSceneControllerArray_def)
  show f: "sc_flash st' = sc_flash st" using L f0 by simp
  show a: "sceneControllerArray st' = sceneControllerArray st"
  proof (rule nth_equalityI)
    show "length (sceneControllerArray st') = length (sceneControllerArray st)"
      using L assms(1) by (simp add: controller_inv_def)
    fix j
    assume "j < length (sceneControllerArray st')"
    then have j: "j < MAX_NUMBER_OF_SCENE_CONTROLLERS" using L by simp
    then show "sceneControllerArray st' ! j = sceneControllerArray st ! j"
      using L f0 assms(1) by (simp add: controller_inv_def)
  qed
  show "controller_inv st'" using assms(1) f a by (simp add: controller_inv_def)
qed

lemma GetSceneController_cong:
  "sc_flash st' = sc_flash st \<Longrightarrow> sceneControllerArray st' = sceneControllerArray st \<Longrightarrow>
   GetSceneControllerProperties st' i out = GetSceneControllerProperties st i out"
  by (simp add: GetSceneControllerProperties_def nv_controller_of_def)

lemma GetSceneController_other:
  assumes "controller_inv st" "controller_inv st'" "controller_outcome p i st st' b"
    "j < MAX_NUMBER_OF_SCENE_CONTROLLERS" "j \<noteq> i"
  shows "GetSceneControllerProperties st' j out = GetSceneControllerProperties st j out"
proof -
  have "crec (sc_flash st') j = crec (sc_flash st) j"
    using assms(3-5) scene_controllers.table_step_other unfolding controller_outcome_def by blast
  then show ?thesis
    using nv_controller_of_inv [OF assms(1,4)] nv_controller_of_inv [OF assms(2,4)]
    by (simp add: GetSceneControllerProperties_def)
qed

subsection \<open>Properties\<close>

text \<open>C19: SetSceneControllerProperties stores what it is given. From a consistent table it returns
  TRUE and keeps the table consistent; afterwards, and also after a restart (InitializeSceneControllerArray
  and LoadSceneControllersFromFlash), GetSceneControllerProperties returns the four banks, the address
  and the name that were set, or FALSE when the name was empty, and for every other controller exactly
  what it returned before. No byte outside the controllers' sector changes.\<close>

theorem SetSceneControllerProperties_correct:
  assumes "ftfe_reliable hw" "controller_inv st" "i < MAX_NUMBER_OF_SCENE_CONTROLLERS" "controller_args_ok p"
    and "SetSceneControllerProperties hw lram behind st i p = (ok, st')"
    and "restarted = fst (LoadSceneControllersFromFlash (InitializeSceneControllerArray st'))"
  shows "ok \<and> controller_inv st' \<and> controller_inv restarted \<and>
    (if sc_NameString p ! 0 \<noteq> 0
     then fst (GetSceneControllerProperties st' i out) \<and> same_controller p (snd (GetSceneControllerProperties st' i out))
     else GetSceneControllerProperties st' i out = (False, out)) \<and>
    (\<forall>j < MAX_NUMBER_OF_SCENE_CONTROLLERS. j \<noteq> i \<longrightarrow>
       GetSceneControllerProperties st' j out = GetSceneControllerProperties st j out) \<and>
    (\<forall>j < MAX_NUMBER_OF_SCENE_CONTROLLERS.
       GetSceneControllerProperties restarted j out = GetSceneControllerProperties st' j out) \<and>
    (\<forall>x. x < rg_start scene_controller_region \<or> rg_start scene_controller_region + 0x1000 \<le> x \<longrightarrow>
       sc_flash st' x = sc_flash st x)"
proof -
  obtain b where ok: ok and o: "controller_outcome p i st st' b"
    using SetSceneControllerProperties_outcome [OF assms(1-4), of lram behind] assms(5) by (metis prod.inject)
  have inv: "controller_inv st'" by (rule controller_outcome_inv [OF assms(2-4) o])
  have step: "scene_controllers.table_step (sc_flash st) (sc_flash st') i b" using o by (simp add: controller_outcome_def)
  have at: "crec (sc_flash st') i = b" using scene_controllers.table_step_at [OF step assms(3)] .
  have here: "if sc_NameString p ! 0 \<noteq> 0
     then fst (GetSceneControllerProperties st' i out) \<and> same_controller p (snd (GetSceneControllerProperties st' i out))
     else GetSceneControllerProperties st' i out = (False, out)"
    using o at GetSceneController_record [OF inv assms(3,4)] nv_controller_of_inv [OF inv assms(3)]
    by (simp add: controller_outcome_def GetSceneControllerProperties_def)
  have out: "sc_flash st' x = sc_flash st x"
    if "x < rg_start scene_controller_region \<or> rg_start scene_controller_region + 0x1000 \<le> x" for x
    using step that by (auto simp: scene_controllers.table_step_def)
  show ?thesis
    using ok inv here out GetSceneController_other [OF assms(2) inv o] reload_controllers [OF inv]
      GetSceneController_cong [of restarted st'] unfolding assms(6) by blast
qed

definition fresh_controllers :: controller_state where
  "fresh_controllers = \<lparr>sc_flash = (\<lambda>x. 0xFF), sceneControllerArray = replicate MAX_NUMBER_OF_SCENE_CONTROLLERS None,
     sc_global_houseID = 0\<rparr>"

lemma fresh_controllers_inv: "controller_inv fresh_controllers"
proof -
  have b: "scene_controllers.blank (sc_flash fresh_controllers) i" for i
    by (simp add: fresh_controllers_def scene_controllers.blank_def scene_controllers.slot_bytes_def read_bytes_eq_iff)
  then have ok: "scene_controllers.table_ok (sc_flash fresh_controllers)"
    by (simp add: scene_controllers.table_ok_def scene_controllers.slot_ok_def)
  have "\<not> memory_initialized (crec (sc_flash fresh_controllers) i)" if "i < MAX_NUMBER_OF_SCENE_CONTROLLERS" for i
    using controller_lookup(4) [OF ok that] b by simp
  then show ?thesis
    using ok controller_lookup(1) [OF ok] by (simp add: controller_inv_def) (simp add: fresh_controllers_def)
qed

definition sample_controller :: scene_controller_properties where
  "sample_controller = \<lparr>sc_NameString = [0x44, 0x65, 0x6e] @ replicate 18 0,
     sc_bank = [\<lparr>bk_sceneId = 3, bk_toggleable = 1, bk_toggled = 0\<rparr>, \<lparr>bk_sceneId = 0xFF, bk_toggleable = 0, bk_toggled = 0\<rparr>,
       \<lparr>bk_sceneId = 7, bk_toggleable = 1, bk_toggled = 1\<rparr>, \<lparr>bk_sceneId = 100, bk_toggleable = 0, bk_toggled = 0\<rparr>],
     sc_groupId = 0x123, sc_buildingId = 1, sc_houseId = 77, sc_roomId = 2, sc_nightMode = 1, sc_deviceType = 0x2B\<rparr>"

theorem SetSceneControllerProperties_correct_witness:
  "same_controller sample_controller (snd (GetSceneControllerProperties
     (snd (SetSceneControllerProperties ftfe_emulator (\<lambda>x. 0) (\<lambda>x. 0) fresh_controllers 19 sample_controller)) 19 sample_controller))"
proof -
  have "controller_args_ok sample_controller" "sc_NameString sample_controller ! 0 \<noteq> 0"
    by (simp_all add: controller_args_ok_def sample_controller_def)
  then show ?thesis
    using SetSceneControllerProperties_correct [OF emulator_reliable fresh_controllers_inv _ _ prod.collapse [symmetric] refl,
        of 19 sample_controller "\<lambda>x. 0" "\<lambda>x. 0" sample_controller] by simp
qed

text \<open>The searches over a consistent controller table are exact: the first free index, the first
  controller with the given group, building and house, and whether there is any controller at all.\<close>

lemma controller_searches_exact:
  assumes "controller_inv st"
  shows "(let a = GetAvailableSceneControllerIndex st in
      (\<forall>j < a. sceneControllerArray st ! j \<noteq> None) \<and>
      (if a < MAX_NUMBER_OF_SCENE_CONTROLLERS then sceneControllerArray st ! a = None
       else a = MAX_NUMBER_OF_SCENE_CONTROLLERS)) \<and>
    (let k = GetSceneControllerIndex st g b h;
         is_ctl = (\<lambda>j. \<exists>r. nv_controller_of st j = Some r \<and> nc_groupId r = g \<and> nc_buildingId r = b \<and> nc_houseId r = h) in
      (\<forall>j < k. \<not> is_ctl j) \<and>
      (if k < MAX_NUMBER_OF_SCENE_CONTROLLERS then is_ctl k else k = MAX_NUMBER_OF_SCENE_CONTROLLERS)) \<and>
    (AnySceneControllersInArray st \<longleftrightarrow> (\<exists>j < MAX_NUMBER_OF_SCENE_CONTROLLERS. sceneControllerArray st ! j \<noteq> None))"
proof -
  have named: "nc_name r ! 0 \<noteq> 0" if "nv_controller_of st j = Some r" "j < MAX_NUMBER_OF_SCENE_CONTROLLERS" for j r
    using that nv_controller_of_inv [OF assms that(2)] controller_invD(3) [OF assms that(2)] by (auto split: if_splits)
  have empty: "nv_controller_of st j = None \<longleftrightarrow> sceneControllerArray st ! j = None" for j
    by (simp add: nv_controller_of_def)
  let ?P = "\<lambda>i. case nv_controller_of st i of None \<Rightarrow> True | Some b \<Rightarrow> nc_name b ! 0 = 0"
  let ?Q = "\<lambda>i. case nv_controller_of st i of None \<Rightarrow> False
        | Some r \<Rightarrow> nc_name r ! 0 \<noteq> 0 \<and> nc_groupId r = g \<and> nc_buildingId r = b \<and> nc_houseId r = h"
  let ?R = "\<lambda>i. case nv_controller_of st i of None \<Rightarrow> False | Some b \<Rightarrow> nc_name b ! 0 \<noteq> 0"
  have P: "?P j \<longleftrightarrow> sceneControllerArray st ! j = None" if "j < MAX_NUMBER_OF_SCENE_CONTROLLERS" for j
    using named [OF _ that] empty [of j] by (auto split: option.split)
  have Q: "?Q j \<longleftrightarrow> (\<exists>r. nv_controller_of st j = Some r \<and> nc_groupId r = g \<and> nc_buildingId r = b \<and> nc_houseId r = h)"
    if "j < MAX_NUMBER_OF_SCENE_CONTROLLERS" for j
    using named [OF _ that] by (auto split: option.split)
  have R: "?R j \<longleftrightarrow> sceneControllerArray st ! j \<noteq> None" if "j < MAX_NUMBER_OF_SCENE_CONTROLLERS" for j
    using named [OF _ that] empty [of j] by (auto split: option.split)
  have any: "AnySceneControllersInArray st \<longleftrightarrow> (\<exists>j < MAX_NUMBER_OF_SCENE_CONTROLLERS. sceneControllerArray st ! j \<noteq> None)"
    using loop_find_exact [of MAX_NUMBER_OF_SCENE_CONTROLLERS ?R, OF R]
    unfolding AnySceneControllersInArray_def by (metis less_irrefl)
  show ?thesis
    unfolding Let_def GetAvailableSceneControllerIndex_def GetSceneControllerIndex_def
    using loop_find_exact [of MAX_NUMBER_OF_SCENE_CONTROLLERS ?P "\<lambda>j. sceneControllerArray st ! j = None", OF P]
      loop_find_exact [of MAX_NUMBER_OF_SCENE_CONTROLLERS ?Q
        "\<lambda>j. \<exists>r. nv_controller_of st j = Some r \<and> nc_groupId r = g \<and> nc_buildingId r = b \<and> nc_houseId r = h", OF Q] any
    by blast
qed

lemma controller_searches_exact_witness:
  "GetAvailableSceneControllerIndex fresh_controllers = 0 \<and> \<not> AnySceneControllersInArray fresh_controllers"
proof -
  have "sceneControllerArray fresh_controllers ! j = None" if "j < MAX_NUMBER_OF_SCENE_CONTROLLERS" for j
    using that by (simp add: fresh_controllers_def)
  with controller_searches_exact [OF fresh_controllers_inv, of 0 0 0] show ?thesis
    unfolding Let_def by (metis gr0I zero_less_numeral)
qed

end
