(* ===== verification/Scenes.thy ===== *)
theory Scenes
  imports Zones Record_Table
begin

unbundle bit_operations_syntax

text \<open>
  Scenes.c: the scene table. A scene's record (436 bytes in flash) is the number of its zones, 100
  zone entries of four bytes, three pad bytes, the little-endian trigger time, frequency, trigger kind,
  day mask, delta, skip flag, the name and two pad bytes; its Eliot id is a record of its own. The
  static array \<open>nvEliotSceneArray\<close> has nine entries while the Eliot routines work on 50: that access, and
  a zone count above 100, are error values.
\<close>

record zone_in_scene =
  zs_zoneId :: byte
  zs_powerLevel :: byte
  zs_rampRate :: byte
  zs_state :: byte

record scene_properties =
  sp_numZonesInScene :: byte
  sp_zoneData :: "zone_in_scene list"
  sp_nextTriggerTime :: dword_t
  sp_freq :: byte
  sp_trigger :: byte
  sp_days :: byte
  sp_delta :: byte
  sp_running :: byte
  sp_skipNext :: byte
  sp_SceneNameString :: "byte list"
  sp_EliotDeviceId :: "byte list"

record volatile_scene =
  running :: byte
  nvSceneProperties :: "nat option"
  nvEliotSceneProperties :: "nat option"

record scene_state =
  sn_flash :: memory
  sceneArray :: "volatile_scene list"

abbreviation MAX_ZONES_IN_SCENE :: nat where "MAX_ZONES_IN_SCENE \<equiv> 100"

text \<open>\<open>nvEliotSceneArray[NUM_SCENES_IN_FLASH_SECTOR]\<close>.\<close>

definition length_nvEliotSceneArray :: nat where
  "length_nvEliotSceneArray = NUM_SCENES_IN_FLASH_SECTOR"

subsection \<open>The flash record of a scene\<close>

definition dword_bytes :: "dword_t \<Rightarrow> byte list" where
  "dword_bytes w = [ucast w, ucast (drop_bit 8 w), ucast (drop_bit 16 w), ucast (drop_bit 24 w)]"

definition dword_of_bytes :: "byte \<Rightarrow> byte \<Rightarrow> byte \<Rightarrow> byte \<Rightarrow> dword_t" where
  "dword_of_bytes a b c d = ucast a OR push_bit 8 (ucast b) OR push_bit 16 (ucast c) OR push_bit 24 (ucast d)"

definition ns_numZones :: "byte list \<Rightarrow> byte" where "ns_numZones b = b ! 0"
definition ns_zone :: "byte list \<Rightarrow> nat \<Rightarrow> zone_in_scene" where
  "ns_zone b k = \<lparr>zs_zoneId = b ! (1 + 4 * k), zs_powerLevel = b ! (2 + 4 * k),
     zs_rampRate = b ! (3 + 4 * k), zs_state = b ! (4 + 4 * k)\<rparr>"
definition ns_nextTriggerTime :: "byte list \<Rightarrow> dword_t" where
  "ns_nextTriggerTime b = dword_of_bytes (b ! 404) (b ! 405) (b ! 406) (b ! 407)"
definition ns_freq :: "byte list \<Rightarrow> byte" where "ns_freq b = b ! 408"
definition ns_trigger :: "byte list \<Rightarrow> byte" where "ns_trigger b = b ! 409"
definition ns_days :: "byte list \<Rightarrow> byte" where "ns_days b = b ! 410"
definition ns_delta :: "byte list \<Rightarrow> byte" where "ns_delta b = b ! 411"
definition ns_skipNext :: "byte list \<Rightarrow> byte" where "ns_skipNext b = b ! 412"
definition ns_name :: "byte list \<Rightarrow> byte list" where "ns_name b = take MAX_SIZE_NAME_STRING (drop 413 b)"

definition zone_entry :: "zone_in_scene \<Rightarrow> byte list" where
  "zone_entry z = [zs_zoneId z, zs_powerLevel z, zs_rampRate z, zs_state z]"

text \<open>Assigning the fields of a record that held the bytes \<open>old\<close>: the entries behind the last zone and
  the padding keep their bytes.\<close>

definition set_nv_scene :: "scene_properties \<Rightarrow> byte list \<Rightarrow> byte list" where
  "set_nv_scene p old =
     (let n = unat (sp_numZonesInScene p) in
      sp_numZonesInScene p # concat (map (\<lambda>k. zone_entry (sp_zoneData p ! k)) [0..<n]) @
      drop (1 + 4 * n) (take 404 old) @ dword_bytes (sp_nextTriggerTime p) @
      [sp_freq p, sp_trigger p, sp_days p, sp_delta p, sp_skipNext p] @
      snprintf_s MAX_SIZE_NAME_STRING (take MAX_SIZE_NAME_STRING (drop 413 old)) (sp_SceneNameString p) @
      drop 434 old)"

definition scene_record :: "memory \<Rightarrow> nat \<Rightarrow> byte list" where
  "scene_record m p = read_bytes m p sizeof_nv_scene"

subsection \<open>The scene table\<close>

definition initial_scene :: volatile_scene where
  "initial_scene = \<lparr>running = 0, nvSceneProperties = None, nvEliotSceneProperties = None\<rparr>"

definition InitializeSceneArray :: "scene_state \<Rightarrow> scene_state" where
  "InitializeSceneArray st = st\<lparr>sceneArray := replicate MAX_NUMBER_OF_SCENES initial_scene\<rparr>"

definition nv_scene_of :: "scene_state \<Rightarrow> nat \<Rightarrow> byte list option" where
  "nv_scene_of st i = map_option (scene_record (sn_flash st)) (nvSceneProperties (sceneArray st ! i))"

definition GetAvailableSceneIndex :: "scene_state \<Rightarrow> nat" where
  "GetAvailableSceneIndex st =
     loop_find (\<lambda>i. case nv_scene_of st i of None \<Rightarrow> True | Some b \<Rightarrow> ns_name b ! 0 = 0) 0 MAX_NUMBER_OF_SCENES"

definition GetSceneProperties ::
  "scene_state \<Rightarrow> nat \<Rightarrow> scene_properties \<Rightarrow> memory_error + bool \<times> scene_properties" where
  "GetSceneProperties st i out =
     (if i < MAX_NUMBER_OF_SCENES then
        let s = sceneArray st ! i in
        case nv_scene_of st i of
          None \<Rightarrow> Inr (False, out)
        | Some b \<Rightarrow>
            let n = unat (ns_numZones b) in
            if MAX_ZONES_IN_SCENE < n then Inl OutOfBoundsWrite
            else Inr (True,
              out\<lparr>sp_running := running s,
                  sp_zoneData := map (ns_zone b) [0..<n] @ drop n (sp_zoneData out),
                  sp_numZonesInScene := ns_numZones b, sp_nextTriggerTime := ns_nextTriggerTime b,
                  sp_freq := ns_freq b, sp_trigger := ns_trigger b, sp_days := ns_days b,
                  sp_delta := ns_delta b, sp_skipNext := ns_skipNext b,
                  sp_SceneNameString := snprintf_s MAX_SIZE_NAME_STRING (sp_SceneNameString out) (ns_name b),
                  sp_EliotDeviceId :=
                    (case nvEliotSceneProperties s of
                       None \<Rightarrow> replicate ELIOT_DEVICE_ID_SIZE 0
                     | Some p \<Rightarrow> snprintf_s ELIOT_DEVICE_ID_SIZE (sp_EliotDeviceId out)
                                   (eliot_record (sn_flash st) p))\<rparr>)
      else Inr (False, out))"

definition update_scene :: "nat \<Rightarrow> (volatile_scene \<Rightarrow> volatile_scene) \<Rightarrow> scene_state \<Rightarrow> scene_state" where
  "update_scene i f st = st\<lparr>sceneArray := (sceneArray st)[i := f (sceneArray st ! i)]\<rparr>"

definition clear_scene :: "nat \<Rightarrow> scene_state \<Rightarrow> scene_state" where
  "clear_scene i = update_scene i (\<lambda>s. s\<lparr>nvSceneProperties := None\<rparr>)"

definition clear_scene_eliot :: "nat \<Rightarrow> scene_state \<Rightarrow> scene_state" where
  "clear_scene_eliot i = update_scene i (\<lambda>s. s\<lparr>nvEliotSceneProperties := None\<rparr>)"

subsection \<open>SetSceneProperties\<close>

text \<open>RAM the routine reads without having written it.\<close>

record scene_ram =
  local_scene :: memory
  local_scene_eliot :: memory
  behind_scenes :: memory
  behind_scene_eliots :: memory

text \<open>The comparison of the zones: equal counts are compared entry by entry up to the first
  difference.\<close>

definition scene_zones_differ :: "scene_properties \<Rightarrow> byte list \<Rightarrow> memory_error + bool" where
  "scene_zones_differ p b =
     (if sp_numZonesInScene p \<noteq> ns_numZones b then Inr True
      else let n = unat (sp_numZonesInScene p); m = min n MAX_ZONES_IN_SCENE in
        if loop_find (\<lambda>k. sp_zoneData p ! k \<noteq> ns_zone b k) 0 m < m then Inr True
        else if MAX_ZONES_IN_SCENE < n then Inl OutOfBoundsRead
        else Inr False)"

definition scene_fields_differ :: "scene_properties \<Rightarrow> byte list \<Rightarrow> bool" where
  "scene_fields_differ p b \<longleftrightarrow>
     sp_nextTriggerTime p \<noteq> ns_nextTriggerTime b \<or> sp_freq p \<noteq> ns_freq b \<or> sp_trigger p \<noteq> ns_trigger b \<or>
     sp_days p \<noteq> ns_days b \<or> sp_delta p \<noteq> ns_delta b \<or> sp_skipNext p \<noteq> ns_skipNext b \<or>
     \<not> strncmp_eq MAX_SIZE_NAME_STRING (sp_SceneNameString p) (ns_name b)"

definition store_new_scene ::
  "ftfe_hw \<Rightarrow> scene_ram \<Rightarrow> nat \<Rightarrow> scene_properties \<Rightarrow> nat \<Rightarrow> scene_state \<Rightarrow> memory_error + scene_state" where
  "store_new_scene hw ur i p eliotPtr st =
     (if sp_SceneNameString p ! 0 \<noteq> 0 then
        if MAX_ZONES_IN_SCENE < unat (sp_numZonesInScene p) then Inl OutOfBoundsWrite
        else
        let nvScene = set_nv_scene p (read_bytes (local_scene ur) 0 sizeof_nv_scene);
            (m1, rc1) = WriteScenePropertiesToFlash hw (sn_flash st) i (array_ram nvScene (local_scene ur)) 0;
            st1 = st\<lparr>sn_flash := m1\<rparr>;
            st1 = (if rc1 \<noteq> FTFx_OK then clear_scene i st1 else st1)
        in Inr
          (if memory_initialized (eliot_record m1 eliotPtr) then clear_scene_eliot i st1
           else if sp_EliotDeviceId p ! 0 \<noteq> 0 then
             let nvEliot = set_nv_eliot (sp_EliotDeviceId p) (read_bytes (local_scene_eliot ur) 0 sizeof_nv_eliot);
                 (m2, rc2) = WriteEliotScenePropertiesToFlash hw m1 i (array_ram nvEliot (local_scene_eliot ur)) 0;
                 st2 = st1\<lparr>sn_flash := m2\<rparr>
             in if rc2 \<noteq> FTFx_OK then clear_scene_eliot i st2 else st2
           else clear_scene_eliot i st1)
      else Inr (clear_scene_eliot i (clear_scene i st)))"

definition save_scene ::
  "ftfe_hw \<Rightarrow> scene_ram \<Rightarrow> nat \<Rightarrow> scene_properties \<Rightarrow> scene_state \<Rightarrow> memory_error + scene_state" where
  "save_scene hw ur i p st =
     (let k = i mod NUM_SCENES_IN_FLASH_SECTOR;
          (_, nvSceneArray) = ReadScenePropertiesFromFlashSector (sn_flash st) i [] NUM_SCENES_IN_FLASH_SECTOR;
          named = sp_SceneNameString p ! 0 \<noteq> 0
      in if named \<and> MAX_ZONES_IN_SCENE < unat (sp_numZonesInScene p) then Inl OutOfBoundsWrite
      else
      let nvSceneArray = nvSceneArray[k := if named then set_nv_scene p (nvSceneArray ! k)
                                           else replicate sizeof_nv_scene 0xFF];
          st1 = (if named then st else clear_scene i st);
          m1 = EraseScenesFromFlash hw (sn_flash st) i
      in Inr (st1\<lparr>sn_flash := snd (WriteScenePropertiesToFlashSector hw m1 i nvSceneArray (behind_scenes ur)
                                  NUM_SCENES_IN_FLASH_SECTOR)\<rparr>))"

text \<open>Reading the 50 Eliot records of the sector into \<open>nvEliotSceneArray\<close> needs an array of 50.\<close>

definition save_scene_eliot ::
  "ftfe_hw \<Rightarrow> scene_ram \<Rightarrow> nat \<Rightarrow> scene_properties \<Rightarrow> scene_state \<Rightarrow> memory_error + scene_state" where
  "save_scene_eliot hw ur i p st =
     (let k = i mod NUM_ELIOT_PROPERTIES_IN_FLASH_SECTOR;
          (_, nvEliotSceneArray) = ReadEliotScenePropertiesFromFlashSector (sn_flash st) i []
                                     NUM_ELIOT_PROPERTIES_IN_FLASH_SECTOR
      in if length_nvEliotSceneArray < length nvEliotSceneArray then Inl OutOfBoundsWrite
      else
      let given = sp_EliotDeviceId p ! 0 \<noteq> 0;
          nvEliotSceneArray = nvEliotSceneArray[k := if given then set_nv_eliot (sp_EliotDeviceId p) (nvEliotSceneArray ! k)
                                                     else replicate sizeof_nv_eliot 0xFF];
          st1 = (if given then st else clear_scene_eliot i st);
          m1 = EraseEliotScenePropertiesFromFlash hw (sn_flash st) i
      in Inr (st1\<lparr>sn_flash := snd (WriteEliotScenePropertiesToFlashSector hw m1 i nvEliotSceneArray
                                  (behind_scene_eliots ur) NUM_ELIOT_PROPERTIES_IN_FLASH_SECTOR)\<rparr>))"

definition SetSceneProperties ::
  "ftfe_hw \<Rightarrow> scene_ram \<Rightarrow> scene_state \<Rightarrow> nat \<Rightarrow> scene_properties \<Rightarrow> memory_error + bool \<times> scene_state" where
  "SetSceneProperties hw ur st i p =
     (if i < MAX_NUMBER_OF_SCENES then
        case (GetNVScenePropertiesPtr (sn_flash st) i False, GetNVEliotScenePropertiesPtr (sn_flash st) i False) of
          (Some nvPtr, Some eliotPtr) \<Rightarrow>
            let st1 = update_scene i (\<lambda>s. \<lparr>running = sp_running p, nvSceneProperties = Some nvPtr,
                                          nvEliotSceneProperties = Some eliotPtr\<rparr>) st;
                b = scene_record (sn_flash st1) nvPtr
            in if \<not> memory_initialized b then
                 bind_sum (store_new_scene hw ur i p eliotPtr st1) (\<lambda>st2. Inr (True, st2))
               else
                 bind_sum (scene_zones_differ p b) (\<lambda>zoneDataIsDifferent.
                 bind_sum (if zoneDataIsDifferent \<or> scene_fields_differ p b then save_scene hw ur i p st1 else Inr st1)
                   (\<lambda>st2.
                 bind_sum (if \<not> strncmp_eq ELIOT_DEVICE_ID_SIZE (sp_EliotDeviceId p) (eliot_record (sn_flash st2) eliotPtr)
                           then save_scene_eliot hw ur i p st2 else Inr st2)
                   (\<lambda>st3. Inr (True, st3))))
        | _ \<Rightarrow> Inr (False, st)
      else Inr (False, st))"

definition load_scene :: "nat \<Rightarrow> scene_state \<times> nat \<Rightarrow> scene_state \<times> nat" where
  "load_scene i = (\<lambda>(st, n).
     case GetNVScenePropertiesPtr (sn_flash st) i True of
       None \<Rightarrow> (st, n)
     | Some nvPtr \<Rightarrow>
         (update_scene i (\<lambda>s. s\<lparr>nvSceneProperties := Some nvPtr,
            nvEliotSceneProperties := GetNVEliotScenePropertiesPtr (sn_flash st) i True\<rparr>) st, n + 1))"

definition LoadScenesFromFlash :: "scene_state \<Rightarrow> scene_state \<times> nat" where
  "LoadScenesFromFlash st = fold load_scene [0..<MAX_NUMBER_OF_SCENES] (st, 0)"

definition GetSceneIndexFromDeviceId :: "memory \<Rightarrow> byte list \<Rightarrow> nat" where
  "GetSceneIndexFromDeviceId m deviceId =
     loop_find (\<lambda>i. case GetNVEliotScenePropertiesPtr m i True of None \<Rightarrow> False
        | Some p \<Rightarrow> strcmp_flash m p deviceId) 0 MAX_NUMBER_OF_SCENES"

subsection \<open>Reading back a scene record\<close>

lemma dword_of_dword_bytes [simp]:
  "dword_of_bytes (dword_bytes w ! 0) (dword_bytes w ! 1) (dword_bytes w ! 2) (dword_bytes w ! 3) = w"
proof (rule bit_word_eqI)
  fix n :: nat
  assume "n < LENGTH(32)"
  then consider "n < 8" | "8 \<le> n" "n < 16" | "16 \<le> n" "n < 24" | "24 \<le> n" "n < 32" by fastforce
  then show "bit (dword_of_bytes (dword_bytes w ! 0) (dword_bytes w ! 1) (dword_bytes w ! 2) (dword_bytes w ! 3)) n = bit w n"
    by cases (auto simp: dword_of_bytes_def dword_bytes_def bit_simps)
qed

lemma length_dword_bytes [simp]: "length (dword_bytes w) = 4"
  by (simp add: dword_bytes_def)

lemma length_zone_entry [simp]: "length (zone_entry z) = 4"
  by (simp add: zone_entry_def)

lemma length_entries [simp]: "length (concat (map (\<lambda>k. zone_entry (f k)) [0..<n])) = 4 * n"
  by (induction n) simp_all

lemma nth_entries:
  "k < n \<Longrightarrow> j < 4 \<Longrightarrow> concat (map (\<lambda>k. zone_entry (f k)) [0..<n]) ! (j + 4 * k) = zone_entry (f k) ! j"
  using concat_uniform_nth [of "map (\<lambda>k. zone_entry (f k)) [0..<n]" 4 k j] by (simp add: mult.commute add.commute)

text \<open>The record agrees with the properties.\<close>

definition scene_matches :: "scene_properties \<Rightarrow> byte list \<Rightarrow> bool" where
  "scene_matches p b \<longleftrightarrow>
     ns_numZones b = sp_numZonesInScene p \<and>
     (\<forall>k < unat (sp_numZonesInScene p). ns_zone b k = sp_zoneData p ! k) \<and>
     ns_nextTriggerTime b = sp_nextTriggerTime p \<and> ns_freq b = sp_freq p \<and> ns_trigger b = sp_trigger p \<and>
     ns_days b = sp_days p \<and> ns_delta b = sp_delta p \<and> ns_skipNext b = sp_skipNext p \<and>
     cstr MAX_SIZE_NAME_STRING (ns_name b) = cstr MAX_SIZE_NAME_STRING (sp_SceneNameString p)"

text \<open>Terminated strings, at most 100 zones, and a scene without a name has no Eliot id. HandleDeleteScene
  is the one caller that clears the name and keeps the id.\<close>

definition scene_args_ok :: "scene_properties \<Rightarrow> bool" where
  "scene_args_ok p \<longleftrightarrow>
     unat (sp_numZonesInScene p) \<le> MAX_ZONES_IN_SCENE \<and> length (sp_zoneData p) = MAX_ZONES_IN_SCENE \<and>
     length (sp_SceneNameString p) = MAX_SIZE_NAME_STRING \<and> 0 \<in> set (sp_SceneNameString p) \<and>
     length (sp_EliotDeviceId p) = ELIOT_DEVICE_ID_SIZE \<and> 0 \<in> set (sp_EliotDeviceId p) \<and>
     (sp_SceneNameString p ! 0 = 0 \<longrightarrow> sp_EliotDeviceId p ! 0 = 0)"

text \<open>The record in three parts: zones and padding, the schedule, name and padding.\<close>

definition scene_front :: "scene_properties \<Rightarrow> byte list \<Rightarrow> byte list" where
  "scene_front p old = sp_numZonesInScene p #
     concat (map (\<lambda>k. zone_entry (sp_zoneData p ! k)) [0..<unat (sp_numZonesInScene p)]) @
     drop (1 + 4 * unat (sp_numZonesInScene p)) (take 404 old)"

definition scene_schedule :: "scene_properties \<Rightarrow> byte list" where
  "scene_schedule p = dword_bytes (sp_nextTriggerTime p) @ [sp_freq p, sp_trigger p, sp_days p, sp_delta p, sp_skipNext p]"

definition scene_name :: "scene_properties \<Rightarrow> byte list \<Rightarrow> byte list" where
  "scene_name p old = snprintf_s MAX_SIZE_NAME_STRING (take MAX_SIZE_NAME_STRING (drop 413 old)) (sp_SceneNameString p)"

lemma set_nv_scene_parts:
  "set_nv_scene p old = scene_front p old @ scene_schedule p @ scene_name p old @ drop 434 old"
  by (simp add: set_nv_scene_def scene_front_def scene_schedule_def scene_name_def Let_def)

lemma length_scene_parts:
  assumes "unat (sp_numZonesInScene p) \<le> MAX_ZONES_IN_SCENE" "length old = sizeof_nv_scene"
  shows "length (scene_front p old) = 404" "length (scene_schedule p) = 9" "length (scene_name p old) = 21"
  using assms by (simp_all add: scene_front_def scene_schedule_def scene_name_def)

lemma length_set_nv_scene:
  assumes "unat (sp_numZonesInScene p) \<le> MAX_ZONES_IN_SCENE" "length old = sizeof_nv_scene"
  shows "length (set_nv_scene p old) = sizeof_nv_scene"
  using length_scene_parts [OF assms] assms(2) by (simp add: set_nv_scene_parts)

lemma set_nv_scene_initialized [simp]: "memory_initialized (set_nv_scene p old)"
  by (rule initialized_nul) (simp add: set_nv_scene_def Let_def snprintf_nul)

lemma set_nv_scene_matches:
  assumes "scene_args_ok p" "length old = sizeof_nv_scene"
  shows "scene_matches p (set_nv_scene p old)"
proof -
  let ?n = "unat (sp_numZonesInScene p)" and ?b = "set_nv_scene p old"
  have n: "?n \<le> 100" using assms(1) by (simp add: scene_args_ok_def)
  note len = length_scene_parts [OF n assms(2)]
  have front: "?b ! j = scene_front p old ! j" if "j < 404" for j
    using that len(1) by (simp add: set_nv_scene_parts nth_append)
  have sched: "?b ! (404 + j) = scene_schedule p ! j" if "j < 9" for j
    using that len(1,2) by (simp add: set_nv_scene_parts nth_append)
  have name: "ns_name ?b = scene_name p old"
    using len by (simp add: ns_name_def set_nv_scene_parts)
  have zone: "?b ! (Suc j + 4 * k) = zone_entry (sp_zoneData p ! k) ! j" if "k < ?n" "j < 4" for j k
  proof -
    have jk: "j + 4 * k < 4 * ?n" using that by linarith
    then have "?b ! (Suc j + 4 * k) = scene_front p old ! Suc (j + 4 * k)" using n by (simp add: front)
    also have "\<dots> = zone_entry (sp_zoneData p ! k) ! j"
      using jk nth_entries [OF that, of "\<lambda>k. sp_zoneData p ! k"] by (simp add: scene_front_def nth_append)
    finally show ?thesis .
  qed
  have z: "ns_zone ?b k = sp_zoneData p ! k" if "k < ?n" for k
    using zone [OF that, of 0] zone [OF that, of 1] zone [OF that, of 2] zone [OF that, of 3]
    by (simp add: ns_zone_def zone_entry_def eval_nat_numeral)
  have "ns_numZones ?b = sp_numZonesInScene p" by (simp add: ns_numZones_def front scene_front_def)
  moreover have "cstr 21 (ns_name ?b) = cstr 21 (sp_SceneNameString p)"
    using cstr_terminated [of "sp_SceneNameString p" 20] assms(1)
    by (simp add: name scene_name_def cstr_snprintf_s scene_args_ok_def)
  moreover have "ns_nextTriggerTime ?b = sp_nextTriggerTime p"
    using sched [of 0] sched [of 1] sched [of 2] sched [of 3] dword_of_dword_bytes [of "sp_nextTriggerTime p"]
    by (simp add: ns_nextTriggerTime_def scene_schedule_def nth_append)
  moreover have "ns_freq ?b = sp_freq p" "ns_trigger ?b = sp_trigger p" "ns_days ?b = sp_days p"
    "ns_delta ?b = sp_delta p" "ns_skipNext ?b = sp_skipNext p"
    using sched [of 4] sched [of 5] sched [of 6] sched [of 7] sched [of 8]
    by (simp_all add: ns_freq_def ns_trigger_def ns_days_def ns_delta_def ns_skipNext_def scene_schedule_def nth_append)
  ultimately show ?thesis using z by (simp add: scene_matches_def)
qed

lemma scene_zones_differ_exact:
  assumes "unat (sp_numZonesInScene p) \<le> MAX_ZONES_IN_SCENE"
  shows "scene_zones_differ p b = Inr (sp_numZonesInScene p \<noteq> ns_numZones b \<or>
    (\<exists>k < unat (sp_numZonesInScene p). sp_zoneData p ! k \<noteq> ns_zone b k))"
proof -
  have m: "min (unat (sp_numZonesInScene p)) 100 = unat (sp_numZonesInScene p)" using assms by simp
  let ?P = "\<lambda>k. sp_zoneData p ! k \<noteq> ns_zone b k" and ?n = "unat (sp_numZonesInScene p)"
  have "loop_find ?P 0 ?n < ?n \<longleftrightarrow> (\<exists>k < ?n. ?P k)"
    using loop_find_none [of ?P ?n] loop_find_le [of ?P ?n] by auto
  then show ?thesis using assms unfolding scene_zones_differ_def Let_def m
    by (cases "sp_numZonesInScene p = ns_numZones b") auto
qed

lemma unchanged_scene_matches:
  assumes "scene_args_ok p" "length b = sizeof_nv_scene" "scene_zones_differ p b = Inr False" "\<not> scene_fields_differ p b"
  shows "scene_matches p b"
proof -
  have "unat (sp_numZonesInScene p) \<le> MAX_ZONES_IN_SCENE" using assms(1) by (simp add: scene_args_ok_def)
  from scene_zones_differ_exact [OF this, of b] show ?thesis
    using assms strncmp_eq_cstr [of 21 "sp_SceneNameString p" "ns_name b"]
    by (auto simp: scene_matches_def scene_args_ok_def scene_fields_differ_def ns_name_def)
qed

subsection \<open>The invariant of the scene table\<close>

abbreviation srec :: "memory \<Rightarrow> nat \<Rightarrow> byte list" where "srec \<equiv> ReadNV scene_region"
abbreviation serec :: "memory \<Rightarrow> nat \<Rightarrow> byte list" where "serec \<equiv> ReadNV eliot_scene_region"
abbreviation scene_ptr :: "nat \<Rightarrow> nat" where "scene_ptr i \<equiv> rg_addr scene_region i + 8"
abbreviation scene_eliot_ptr :: "nat \<Rightarrow> nat" where "scene_eliot_ptr i \<equiv> rg_addr eliot_scene_region i + 8"

lemma scene_sizes: "rg_size scene_region = 436" "rg_size eliot_scene_region = 37"
  by (simp_all add: region_defs)

lemmas scene_lookup = scenes.slot_lookup [unfolded scene_sizes, folded GetNVScenePropertiesPtr_def scene_record_def]
lemmas scene_eliot_lookup = eliot_scenes.slot_lookup [unfolded scene_sizes, folded GetNVEliotScenePropertiesPtr_def eliot_record_def]

lemma length_srec: "length (srec m i) = sizeof_nv_scene" and length_serec: "length (serec m i) = sizeof_nv_eliot"
  using scenes.length_ReadNV [of m i] eliot_scenes.length_ReadNV [of m i] by (simp_all add: scene_sizes)

text \<open>Every record is valid or erased; the pointers are those a reload finds; a stored scene has a name
  and at most 100 zones, a stored Eliot id is not empty and belongs to a scene.\<close>

definition scene_inv :: "scene_state \<Rightarrow> bool" where
  "scene_inv st \<longleftrightarrow> length (sceneArray st) = MAX_NUMBER_OF_SCENES \<and>
     scenes.table_ok (sn_flash st) \<and> eliot_scenes.table_ok (sn_flash st) \<and>
     (\<forall>i < MAX_NUMBER_OF_SCENES.
        nvSceneProperties (sceneArray st ! i) = GetNVScenePropertiesPtr (sn_flash st) i True \<and>
        nvEliotSceneProperties (sceneArray st ! i) = GetNVEliotScenePropertiesPtr (sn_flash st) i True \<and>
        (memory_initialized (srec (sn_flash st) i) \<longrightarrow>
           ns_name (srec (sn_flash st) i) ! 0 \<noteq> 0 \<and> unat (ns_numZones (srec (sn_flash st) i)) \<le> MAX_ZONES_IN_SCENE)) \<and>
     (\<forall>i < NUM_ELIOT_PROPERTIES_IN_FLASH_SECTOR. memory_initialized (serec (sn_flash st) i) \<longrightarrow>
        memory_initialized (srec (sn_flash st) i) \<and> serec (sn_flash st) i ! 0 \<noteq> 0)"

text \<open>The bytes outside the sectors of the scenes and of their Eliot ids.\<close>

definition outside_scenes :: "nat \<Rightarrow> bool" where
  "outside_scenes x \<longleftrightarrow> x < 0xde000 \<or> 0xea000 \<le> x \<and> x < 0xed000 \<or> 0xee000 \<le> x"

text \<open>From \<open>m\<close> to \<open>m'\<close> the records of scene \<open>i\<close> became \<open>b\<close> and \<open>e\<close>; nothing else changed.\<close>

definition scene_step :: "memory \<Rightarrow> memory \<Rightarrow> nat \<Rightarrow> byte list \<Rightarrow> byte list \<Rightarrow> bool" where
  "scene_step m m' i b e \<longleftrightarrow> scenes.table_ok m' \<and> eliot_scenes.table_ok m' \<and>
     (\<forall>j < MAX_NUMBER_OF_SCENES. srec m' j = (if j = i then b else srec m j)) \<and>
     (\<forall>j < NUM_ELIOT_PROPERTIES_IN_FLASH_SECTOR. serec m' j = (if j = i then e else serec m j)) \<and>
     (\<forall>x. outside_scenes x \<longrightarrow> m' x = m x)"

lemma scene_record_step:
  assumes "eliot_scenes.table_ok m" "scenes.table_step m m' i b"
  shows "scene_step m m' i b (serec m i)"
proof -
  have start: "rg_start scene_region = 0xde000" "rg_start eliot_scene_region = 0xed000"
    by (simp_all add: scene_region_def eliot_scene_region_def)
  have "m' x = m x" if "0xed000 \<le> x" for x
    using assms(2) that by (simp add: scenes.table_step_def start)
  then have "eliot_scenes.table_ok m'" "\<forall>j < 50. serec m' j = serec m j"
    using eliot_scenes.table_frame [of m' m] assms(1) by (simp_all add: start)
  moreover have "m' x = m x" if "outside_scenes x" for x
    using assms(2) that by (auto simp: scenes.table_step_def start outside_scenes_def)
  ultimately show ?thesis using assms(2) by (auto simp: scene_step_def scenes.table_step_def)
qed

lemma scene_eliot_step:
  assumes "scenes.table_ok m" "eliot_scenes.table_step m m' i e"
  shows "scene_step m m' i (srec m i) e"
proof -
  have start: "rg_start scene_region = 0xde000" "rg_start eliot_scene_region = 0xed000"
    by (simp_all add: scene_region_def eliot_scene_region_def)
  have "m' x = m x" if "x < 0xed000" for x
    using assms(2) that by (simp add: eliot_scenes.table_step_def start)
  then have "scenes.table_ok m'" "\<forall>j < 100. srec m' j = srec m j"
    using scenes.table_frame [of m' m] assms(1) by (simp_all add: start)
  moreover have "m' x = m x" if "outside_scenes x" for x
    using assms(2) that by (auto simp: eliot_scenes.table_step_def start outside_scenes_def)
  ultimately show ?thesis using assms(2) by (auto simp: scene_step_def eliot_scenes.table_step_def)
qed

lemma scene_step_trans:
  "scene_step m m1 i b e \<Longrightarrow> scene_step m1 m2 i b' e' \<Longrightarrow> scene_step m m2 i b' e'"
  by (simp add: scene_step_def)

lemma scene_step_refl:
  "scenes.table_ok m \<Longrightarrow> eliot_scenes.table_ok m \<Longrightarrow> scene_step m m i (srec m i) (serec m i)"
  by (simp add: scene_step_def)

lemma update_scene_simps [simp]:
  "sn_flash (update_scene i f st) = sn_flash st"
  "sceneArray (update_scene i f st) = (sceneArray st)[i := f (sceneArray st ! i)]"
  "sn_flash (clear_scene i st) = sn_flash st" "sn_flash (clear_scene_eliot i st) = sn_flash st"
  "sceneArray (clear_scene i st) = (sceneArray st)[i := (sceneArray st ! i)\<lparr>nvSceneProperties := None\<rparr>]"
  "sceneArray (clear_scene_eliot i st) = (sceneArray st)[i := (sceneArray st ! i)\<lparr>nvEliotSceneProperties := None\<rparr>]"
  by (simp_all add: update_scene_def clear_scene_def clear_scene_eliot_def)

lemma save_scene_effect:
  fixes st :: scene_state and p :: scene_properties
  assumes "ftfe_reliable hw" "scenes.table_ok (sn_flash st)" "eliot_scenes.table_ok (sn_flash st)"
    "i < MAX_NUMBER_OF_SCENES" and n: "unat (sp_numZonesInScene p) \<le> MAX_ZONES_IN_SCENE"
  defines "b \<equiv> if sp_SceneNameString p ! 0 \<noteq> 0 then set_nv_scene p (srec (sn_flash st) i)
               else replicate sizeof_nv_scene 0xFF"
  shows "\<exists>m'. scene_step (sn_flash st) m' i b (serec (sn_flash st) i) \<and>
    save_scene hw ur i p st =
      Inr ((if sp_SceneNameString p ! 0 \<noteq> 0 then st else clear_scene i st)\<lparr>sn_flash := m'\<rparr>)"
proof -
  have l: "length b = rg_size scene_region"
    using length_set_nv_scene [OF n length_srec] by (simp add: b_def scene_sizes)
  let ?arr = "snd (ReadSectorNV scene_region 9 (sn_flash st) i [] 9)"
  have k: "(i mod 9 + i div 9 * 9) mod 256 = i" using assms(4) by simp
  have old: "?arr ! (i mod 9) = srec (sn_flash st) i"
    using k by (simp add: ReadSectorNV_def Let_def del: upt_rec_numeral)
  let ?m = "snd (WriteSectorNV scene_region 9 hw (EraseSectorNV scene_region 9 hw (sn_flash st) i) i
     (?arr[i mod 9 := b]) (behind_scenes ur) 9)"
  have "scenes.table_step (sn_flash st) ?m i b"
    using flash_store.rewrite_sector_slot [OF scene_store [OF assms(1)] assms(2,4) l] .
  from scene_record_step [OF assms(3) this]
  have "scene_step (sn_flash st) ?m i b (serec (sn_flash st) i)" .
  moreover have "save_scene hw ur i p st =
      Inr ((if sp_SceneNameString p ! 0 \<noteq> 0 then st else clear_scene i st)\<lparr>sn_flash := ?m\<rparr>)"
    using n by (simp add: save_scene_def case_prod_beta Let_def b_def old ReadScenePropertiesFromFlashSector_def
        WriteScenePropertiesToFlashSector_def EraseScenesFromFlash_def cong: if_cong)
  ultimately show ?thesis by blast
qed

lemma save_scene_eliot_overflows: "save_scene_eliot hw ur i p st = Inl OutOfBoundsWrite"
  by (simp add: save_scene_eliot_def case_prod_beta Let_def ReadEliotScenePropertiesFromFlashSector_def
      ReadSectorNV_def length_nvEliotSceneArray_def)

subsection \<open>The branches of SetSceneProperties\<close>

definition scene_outcome ::
  "scene_properties \<Rightarrow> nat \<Rightarrow> scene_state \<Rightarrow> scene_state \<Rightarrow> byte list \<Rightarrow> byte list \<Rightarrow> bool" where
  "scene_outcome p i st st' b e \<longleftrightarrow>
     scene_step (sn_flash st) (sn_flash st') i b e \<and>
     (let named = sp_SceneNameString p ! 0 \<noteq> 0; given = sp_EliotDeviceId p ! 0 \<noteq> 0 in
      (memory_initialized b \<longleftrightarrow> named) \<and> (named \<longrightarrow> scene_matches p b) \<and>
      (memory_initialized e \<longleftrightarrow> given) \<and>
      (given \<longrightarrow> cstr ELIOT_DEVICE_ID_SIZE e = cstr ELIOT_DEVICE_ID_SIZE (sp_EliotDeviceId p)) \<and>
      sceneArray st' = (sceneArray st)[i := \<lparr>running = sp_running p,
        nvSceneProperties = (if named then Some (scene_ptr i) else None),
        nvEliotSceneProperties = (if given then Some (scene_eliot_ptr i) else None)\<rparr>])"

lemma scene_invD:
  assumes "scene_inv st" "i < NUM_ELIOT_PROPERTIES_IN_FLASH_SECTOR"
  shows "scenes.table_ok (sn_flash st)" "eliot_scenes.table_ok (sn_flash st)" "length (sceneArray st) = MAX_NUMBER_OF_SCENES"
    "memory_initialized (serec (sn_flash st) i) \<Longrightarrow> memory_initialized (srec (sn_flash st) i)"
    "memory_initialized (serec (sn_flash st) i) \<Longrightarrow> serec (sn_flash st) i ! 0 \<noteq> 0"
    "memory_initialized (srec (sn_flash st) i) \<Longrightarrow> ns_name (srec (sn_flash st) i) ! 0 \<noteq> 0"
  using assms by (simp_all add: scene_inv_def)

lemma srec_not_Nil: "srec m i \<noteq> []" and serec_not_Nil: "serec m i \<noteq> []"
  by (metis length_srec list.size(3) zero_neq_numeral) (metis length_serec list.size(3) zero_neq_numeral)

text \<open>The state after the pointers have been set.\<close>

definition entered_scene :: "scene_properties \<Rightarrow> nat \<Rightarrow> scene_state \<Rightarrow> scene_state" where
  "entered_scene p i st = update_scene i (\<lambda>s. \<lparr>running = sp_running p, nvSceneProperties = Some (scene_ptr i),
     nvEliotSceneProperties = Some (scene_eliot_ptr i)\<rparr>) st"

lemma SetScene_new_eq:
  assumes inv: "scenes.table_ok (sn_flash st)" "eliot_scenes.table_ok (sn_flash st)"
    and "i < NUM_ELIOT_PROPERTIES_IN_FLASH_SECTOR" "\<not> memory_initialized (srec (sn_flash st) i)"
  shows "SetSceneProperties hw ur st i p =
    bind_sum (store_new_scene hw ur i p (scene_eliot_ptr i) (entered_scene p i st)) (\<lambda>st2. Inr (True, st2))"
proof -
  have i: "i < 100" using assms(3) by simp
  show ?thesis
    using i assms(4) scene_lookup [OF inv(1) i] scene_eliot_lookup [OF inv(2) assms(3)]
    by (simp add: SetSceneProperties_def Let_def entered_scene_def)
qed

lemma set_new_scene:
  assumes "ftfe_reliable hw" "scene_inv st" "i < NUM_ELIOT_PROPERTIES_IN_FLASH_SECTOR" "scene_args_ok p"
    and new: "\<not> memory_initialized (srec (sn_flash st) i)"
  shows "\<exists>st' b e. SetSceneProperties hw ur st i p = Inr (True, st') \<and> scene_outcome p i st st' b e"
proof -
  note inv = scene_invD [OF assms(2,3)]
  have i: "i < 100" using assms(3) by simp
  have enew: "\<not> memory_initialized (serec (sn_flash st) i)" using inv(4) new by blast
  have n: "unat (sp_numZonesInScene p) \<le> MAX_ZONES_IN_SCENE" using assms(4) by (simp add: scene_args_ok_def)
  note eq = SetScene_new_eq [OF inv(1,2) assms(3) new]
  let ?st1 = "entered_scene p i st" and ?b = "set_nv_scene p (read_bytes (local_scene ur) 0 436)"
  have fl: "sn_flash ?st1 = sn_flash st" by (simp add: entered_scene_def)
  show ?thesis
  proof (cases "sp_SceneNameString p ! 0 = 0")
    case True
    then have "sp_EliotDeviceId p ! 0 = 0" using assms(4) by (simp add: scene_args_ok_def)
    then have "scene_outcome p i st (clear_scene_eliot i (clear_scene i ?st1)) (srec (sn_flash st) i) (serec (sn_flash st) i)"
      using True scene_step_refl [OF inv(1,2)] new enew inv(3) i
      by (simp add: scene_outcome_def Let_def entered_scene_def)
    with True show ?thesis by (auto simp: eq store_new_scene_def)
  next
    case named: False
    obtain m1 where m1: "WriteNV scene_region hw (sn_flash st) i (array_ram ?b (local_scene ur)) 0 = (m1, FTFx_OK)"
      "scenes.table_step (sn_flash st) m1 i ?b"
      using flash_store.write_new_slot [OF scene_store [OF assms(1)] inv(1) i new, of ?b "local_scene ur"]
        length_set_nv_scene [OF n] by (auto simp: scene_sizes)
    have s1: "scene_step (sn_flash st) m1 i ?b (serec (sn_flash st) i)" by (rule scene_record_step [OF inv(2) m1(2)])
    then have ok1: "scenes.table_ok m1" "eliot_scenes.table_ok m1" and e1: "serec m1 i = serec (sn_flash st) i"
      and b1: "srec m1 i = ?b"
      using assms(3) i by (simp_all add: scene_step_def)
    have er: "\<not> memory_initialized (eliot_record m1 (scene_eliot_ptr i))"
      using scene_eliot_lookup(3) [OF ok1(2) assms(3)] enew by (simp add: e1)
    have match: "scene_matches p ?b" using set_nv_scene_matches [OF assms(4)] by simp
    let ?st2 = "?st1\<lparr>sn_flash := m1\<rparr>"
    show ?thesis
    proof (cases "sp_EliotDeviceId p ! 0 = 0")
      case True
      have "store_new_scene hw ur i p (scene_eliot_ptr i) ?st1 = Inr (clear_scene_eliot i ?st2)"
        using named n m1(1) er True by (simp add: store_new_scene_def Let_def fl WriteScenePropertiesToFlash_def)
      moreover have "scene_outcome p i st (clear_scene_eliot i ?st2) ?b (serec (sn_flash st) i)"
        using s1 named match enew True inv(3) i by (simp add: scene_outcome_def Let_def entered_scene_def)
      ultimately show ?thesis by (auto simp: eq)
    next
      case False
      let ?e = "set_nv_eliot (sp_EliotDeviceId p) (read_bytes (local_scene_eliot ur) 0 37)"
      have "\<not> memory_initialized (serec m1 i)" using e1 enew by simp
      from flash_store.write_new_slot [OF eliot_scene_store [OF assms(1)] ok1(2) assms(3) this, of ?e "local_scene_eliot ur"]
      obtain m2 where m2: "WriteNV eliot_scene_region hw m1 i (array_ram ?e (local_scene_eliot ur)) 0 = (m2, FTFx_OK)"
        "eliot_scenes.table_step m1 m2 i ?e" by (auto simp: scene_sizes)
      have "scene_step m1 m2 i ?b ?e" using scene_eliot_step [OF ok1(1) m2(2)] b1 by simp
      from scene_step_trans [OF s1 this] have s2: "scene_step (sn_flash st) m2 i ?b ?e" .
      have "store_new_scene hw ur i p (scene_eliot_ptr i) ?st1 = Inr (?st2\<lparr>sn_flash := m2\<rparr>)"
        using named n m1(1) er False m2(1)
        by (simp add: store_new_scene_def Let_def fl WriteScenePropertiesToFlash_def WriteEliotScenePropertiesToFlash_def)
      moreover have "cstr 37 ?e = cstr 37 (sp_EliotDeviceId p)"
        using cstr_terminated [of "sp_EliotDeviceId p" 36] assms(4) by (simp add: cstr_set_nv_eliot scene_args_ok_def)
      ultimately show ?thesis
        using s2 named match False
        by (intro exI [of _ "?st2\<lparr>sn_flash := m2\<rparr>"] exI [of _ ?b] exI [of _ ?e])
          (simp add: eq scene_outcome_def Let_def entered_scene_def)
    qed
  qed
qed

text \<open>Saving an existing scene.\<close>

definition scene_id_ok :: "scene_properties \<Rightarrow> bool" where
  "scene_id_ok p \<longleftrightarrow> unat (sp_numZonesInScene p) \<le> MAX_ZONES_IN_SCENE \<and>
     length (sp_EliotDeviceId p) = ELIOT_DEVICE_ID_SIZE \<and> 0 \<in> set (sp_EliotDeviceId p)"

lemma scene_args_id: "scene_args_ok p \<Longrightarrow> scene_id_ok p"
  by (simp add: scene_args_ok_def scene_id_ok_def)

lemma set_old_scene:
  assumes "ftfe_reliable hw" "scene_inv st" "i < NUM_ELIOT_PROPERTIES_IN_FLASH_SECTOR" "scene_id_ok p"
    and old: "memory_initialized (srec (sn_flash st) i)"
  defines "same \<equiv> cstr ELIOT_DEVICE_ID_SIZE (sp_EliotDeviceId p) = cstr ELIOT_DEVICE_ID_SIZE (serec (sn_flash st) i)"
  shows "\<not> same \<Longrightarrow> SetSceneProperties hw ur st i p = Inl OutOfBoundsWrite"
    and "scene_args_ok p \<Longrightarrow> same \<Longrightarrow> \<exists>st' b e. SetSceneProperties hw ur st i p = Inr (True, st') \<and> scene_outcome p i st st' b e"
proof -
  note inv = scene_invD [OF assms(2,3)]
  have i: "i < 100" using assms(3) by simp
  have n: "unat (sp_numZonesInScene p) \<le> MAX_ZONES_IN_SCENE" using assms(4) by (simp add: scene_id_ok_def)
  let ?st1 = "entered_scene p i st" and ?b = "srec (sn_flash st) i" and ?e = "serec (sn_flash st) i"
  have fl: "sn_flash ?st1 = sn_flash st" by (simp add: entered_scene_def)
  have same: "strncmp_eq 37 (sp_EliotDeviceId p) ?e = same"
    using strncmp_eq_cstr [of 37 "sp_EliotDeviceId p" ?e] assms(4) length_serec [of "sn_flash st" i]
    by (simp add: same_def scene_id_ok_def)
  define d where "d = (sp_numZonesInScene p \<noteq> ns_numZones ?b \<or>
    (\<exists>k < unat (sp_numZonesInScene p). sp_zoneData p ! k \<noteq> ns_zone ?b k) \<or> scene_fields_differ p ?b)"
  have ok1: "scenes.table_ok (sn_flash ?st1)" "eliot_scenes.table_ok (sn_flash ?st1)" using inv by (simp_all add: fl)
  obtain m' where m': "scene_step (sn_flash st) m' i (if sp_SceneNameString p ! 0 \<noteq> 0 then set_nv_scene p ?b else replicate 436 0xFF) ?e"
    "save_scene hw ur i p ?st1 = Inr ((if sp_SceneNameString p ! 0 \<noteq> 0 then ?st1 else clear_scene i ?st1)\<lparr>sn_flash := m'\<rparr>)"
    using save_scene_effect [OF assms(1) ok1 i n, of ur] unfolding fl by blast
  define st2 where "st2 = (if d then (if sp_SceneNameString p ! 0 \<noteq> 0 then ?st1 else clear_scene i ?st1)\<lparr>sn_flash := m'\<rparr> else ?st1)"
  have f2: "scene_step (sn_flash st) (sn_flash st2) i
      (if d then if sp_SceneNameString p ! 0 \<noteq> 0 then set_nv_scene p ?b else replicate 436 0xFF else ?b) ?e"
    using m'(1) scene_step_refl [OF inv(1,2)] by (simp add: st2_def fl)
  then have e2: "eliot_record (sn_flash st2) (scene_eliot_ptr i) = ?e"
    using scene_eliot_lookup(3) [OF _ assms(3)] assms(3) by (simp add: scene_step_def)
  have z: "scene_zones_differ p ?b = Inr (sp_numZonesInScene p \<noteq> ns_numZones ?b \<or>
      (\<exists>k < unat (sp_numZonesInScene p). sp_zoneData p ! k \<noteq> ns_zone ?b k))"
    using scene_zones_differ_exact [OF n] .
  have save: "bind_sum (scene_zones_differ p ?b) (\<lambda>z. bind_sum (if z \<or> scene_fields_differ p ?b then save_scene hw ur i p ?st1
      else Inr ?st1) g) = g st2" for g :: "scene_state \<Rightarrow> memory_error + bool \<times> scene_state"
    unfolding z st2_def d_def m'(2) by auto
  have "SetSceneProperties hw ur st i p = bind_sum (if \<not> same then save_scene_eliot hw ur i p st2 else Inr st2) (\<lambda>st3. Inr (True, st3))"
    using i old scene_lookup(2,3) [OF inv(1) i] scene_eliot_lookup(2) [OF inv(2) assms(3)]
    by (simp add: SetSceneProperties_def Let_def fl entered_scene_def [symmetric] save e2 same)
  then have set: "SetSceneProperties hw ur st i p = (if same then Inr (True, st2) else Inl OutOfBoundsWrite)"
    using save_scene_eliot_overflows [of hw ur i p st2] by simp
  then show "\<not> same \<Longrightarrow> SetSceneProperties hw ur st i p = Inl OutOfBoundsWrite" by simp
  assume args: "scene_args_ok p" and s: same
  have einit: "memory_initialized ?e"
  proof (rule ccontr)
    assume "\<not> memory_initialized ?e"
    then have "\<not> strncmp_eq 37 (sp_EliotDeviceId p) ?e"
      using assms(4) by (intro erased_differs) (simp_all add: scene_id_ok_def scene_sizes)
    with same s show False by simp
  qed
  have ne: "?e \<noteq> []" "sp_EliotDeviceId p \<noteq> []"
    using serec_not_Nil assms(4) by (auto simp: scene_id_ok_def)
  have given: "sp_EliotDeviceId p ! 0 \<noteq> 0"
    using s inv(5) [OF einit] nonempty_cstr [of 37 ?e] nonempty_cstr [of 37 "sp_EliotDeviceId p"] ne by (simp add: same_def)
  then have named: "sp_SceneNameString p ! 0 \<noteq> 0" using args by (auto simp: scene_args_ok_def)
  have match: "scene_matches p (if d then set_nv_scene p ?b else ?b)"
  proof (cases d)
    case True
    then show ?thesis using set_nv_scene_matches [OF args length_srec] by simp
  next
    case False
    then have "scene_zones_differ p ?b = Inr False" "\<not> scene_fields_differ p ?b"
      using scene_zones_differ_exact [OF n, of ?b] by (auto simp: d_def)
    from unchanged_scene_matches [OF args length_srec this] False show ?thesis by simp
  qed
  have "scene_outcome p i st st2 (if d then set_nv_scene p ?b else ?b) ?e"
    using f2 named given match einit old s
    by (cases d) (simp_all add: scene_outcome_def Let_def st2_def entered_scene_def same_def)
  then show "\<exists>st' b e. SetSceneProperties hw ur st i p = Inr (True, st') \<and> scene_outcome p i st st' b e"
    using set s by auto
qed

lemma scene_outcome_inv:
  assumes "scene_inv st" "i < NUM_ELIOT_PROPERTIES_IN_FLASH_SECTOR" "scene_args_ok p"
    and out: "scene_outcome p i st st' b e"
  shows "scene_inv st'"
proof -
  have step: "scene_step (sn_flash st) (sn_flash st') i b e" using out by (simp add: scene_outcome_def)
  note ok = step [unfolded scene_step_def]
  note inv = scene_invD [OF assms(1,2)]
  have i: "i < 100" using assms(2) by simp
  have at: "srec (sn_flash st') i = b" "serec (sn_flash st') i = e" using ok assms(2) by simp_all
  have ne: "ns_name b \<noteq> []" "sp_SceneNameString p \<noteq> []" "e \<noteq> []" "sp_EliotDeviceId p \<noteq> []"
    using at length_srec [of "sn_flash st'" i] length_serec [of "sn_flash st'" i] assms(3)
    by (auto simp: ns_name_def scene_args_ok_def)
  have named: "ns_name b ! 0 \<noteq> 0 \<and> unat (ns_numZones b) \<le> 100" if "memory_initialized b"
    using that out named_cstr [OF _ ne(1,2)] assms(3) by (auto simp: scene_outcome_def scene_matches_def scene_args_ok_def Let_def)
  have given: "memory_initialized b \<and> e ! 0 \<noteq> 0" if "memory_initialized e"
    using that out nonempty_cstr [of 37 e] nonempty_cstr [of 37 "sp_EliotDeviceId p"] ne assms(3)
    by (auto simp: scene_outcome_def scene_args_ok_def Let_def)
  have entry: "nvSceneProperties (sceneArray st' ! j) = GetNVScenePropertiesPtr (sn_flash st') j True \<and>
        nvEliotSceneProperties (sceneArray st' ! j) = GetNVEliotScenePropertiesPtr (sn_flash st') j True \<and>
        (memory_initialized (srec (sn_flash st') j) \<longrightarrow>
           ns_name (srec (sn_flash st') j) ! 0 \<noteq> 0 \<and> unat (ns_numZones (srec (sn_flash st') j)) \<le> MAX_ZONES_IN_SCENE)"
    if j: "j < 100" for j
  proof (cases "j = i")
    case True
    then show ?thesis
      using ok out at named scene_lookup(1) [of "sn_flash st'" i] scene_eliot_lookup(1) [of "sn_flash st'" i] assms(2) inv(3) i
      by (simp add: scene_outcome_def Let_def)
  next
    case False
    have old: "nvSceneProperties (sceneArray st ! j) = GetNVScenePropertiesPtr (sn_flash st) j True"
      "nvEliotSceneProperties (sceneArray st ! j) = GetNVEliotScenePropertiesPtr (sn_flash st) j True"
      "memory_initialized (srec (sn_flash st) j) \<Longrightarrow>
         ns_name (srec (sn_flash st) j) ! 0 \<noteq> 0 \<and> unat (ns_numZones (srec (sn_flash st) j)) \<le> 100"
      using assms(1) j by (auto simp: scene_inv_def)
    have same: "srec (sn_flash st') j = srec (sn_flash st) j" "j < 50 \<Longrightarrow> serec (sn_flash st') j = serec (sn_flash st) j"
      using ok j False by simp_all
    have "GetNVScenePropertiesPtr (sn_flash st') j True = GetNVScenePropertiesPtr (sn_flash st) j True"
      using scene_lookup(1) [OF _ j] ok inv(1) same(1) by simp
    moreover have "GetNVEliotScenePropertiesPtr (sn_flash st') j True = GetNVEliotScenePropertiesPtr (sn_flash st) j True"
    proof (cases "j < 50")
      case True
      then show ?thesis using scene_eliot_lookup(1) [OF _ True] ok inv(2) same(2) by simp
    next
      case False
      then show ?thesis by (simp add: GetNVEliotScenePropertiesPtr_def eliot_scenes.GetNVPtr_beyond)
    qed
    ultimately show ?thesis using old same(1) out False by (simp add: scene_outcome_def Let_def)
  qed
  have eliots: "memory_initialized (serec (sn_flash st') j) \<longrightarrow>
      memory_initialized (srec (sn_flash st') j) \<and> serec (sn_flash st') j ! 0 \<noteq> 0" if j: "j < 50" for j
    using given at ok j scene_invD(4,5) [OF assms(1) j] by (cases "j = i") simp_all
  show ?thesis using entry eliots ok out inv(3) by (simp add: scene_inv_def scene_outcome_def Let_def)
qed

lemma nv_scene_of_inv:
  assumes "scene_inv st" "i < MAX_NUMBER_OF_SCENES"
  shows "nv_scene_of st i = (if memory_initialized (srec (sn_flash st) i) then Some (srec (sn_flash st) i) else None)"
proof -
  have "scenes.table_ok (sn_flash st)" using assms(1) by (simp add: scene_inv_def)
  from scene_lookup(1,3) [OF this assms(2)] show ?thesis using assms by (simp add: scene_inv_def nv_scene_of_def)
qed

text \<open>The properties two structures share: all of them, the zones up to the count, names as strings.\<close>

definition same_scene :: "scene_properties \<Rightarrow> scene_properties \<Rightarrow> bool" where
  "same_scene p q \<longleftrightarrow> sp_numZonesInScene q = sp_numZonesInScene p \<and>
     take (unat (sp_numZonesInScene p)) (sp_zoneData q) = take (unat (sp_numZonesInScene p)) (sp_zoneData p) \<and>
     sp_nextTriggerTime q = sp_nextTriggerTime p \<and> sp_freq q = sp_freq p \<and> sp_trigger q = sp_trigger p \<and>
     sp_days q = sp_days p \<and> sp_delta q = sp_delta p \<and> sp_running q = sp_running p \<and> sp_skipNext q = sp_skipNext p \<and>
     cstr MAX_SIZE_NAME_STRING (sp_SceneNameString q) = cstr MAX_SIZE_NAME_STRING (sp_SceneNameString p) \<and>
     cstr ELIOT_DEVICE_ID_SIZE (sp_EliotDeviceId q) = cstr ELIOT_DEVICE_ID_SIZE (sp_EliotDeviceId p)"

lemma snprintf_of_equal_strings:
  assumes "0 \<in> set s" "length s = Suc n" "cstr (Suc n) r = cstr (Suc n) s"
  shows "cstr (Suc n) (snprintf_s (Suc n) old r) = cstr (Suc n) s"
proof -
  have "cstr n s = cstr (Suc n) s" using cstr_terminated [of s n] assms by simp
  then have "length (cstr (Suc n) r) \<le> n" using assms(3) length_cstr_le [of n s] by simp
  then have "cstr n r = cstr (Suc n) s" using cstr_short [of n r] assms(3) by simp
  then show ?thesis by (simp add: cstr_snprintf_s)
qed

lemma cstr_replicate_0 [simp]: "cstr n (replicate k 0) = []"
  by (cases k; cases n) (simp_all add: cstr_def)

lemma GetScene_record:
  assumes "scene_inv st" "i < NUM_ELIOT_PROPERTIES_IN_FLASH_SECTOR" "scene_args_ok p" "scene_outcome p i st0 st b e"
    and named: "sp_SceneNameString p ! 0 \<noteq> 0" and len: "i < length (sceneArray st0)"
  shows "\<exists>q. GetSceneProperties st i out = Inr (True, q) \<and> same_scene p q"
proof -
  have i: "i < 100" using assms(2) by simp
  note ok = assms(4) [unfolded scene_outcome_def scene_step_def Let_def]
  have at: "srec (sn_flash st) i = b" "serec (sn_flash st) i = e" using ok assms(2) by simp_all
  have b: "nv_scene_of st i = Some b" using nv_scene_of_inv [OF assms(1) i] at ok named by simp
  have m: "scene_matches p b" using ok named by simp
  have n: "unat (sp_numZonesInScene p) \<le> 100" "length (sp_zoneData p) = 100" using assms(3) by (simp_all add: scene_args_ok_def)
  have s: "sceneArray st ! i = \<lparr>running = sp_running p, nvSceneProperties = Some (scene_ptr i),
        nvEliotSceneProperties = (if sp_EliotDeviceId p ! 0 \<noteq> 0 then Some (scene_eliot_ptr i) else None)\<rparr>"
    using ok named len by simp
  have zones: "map (ns_zone b) [0..<unat (sp_numZonesInScene p)] = take (unat (sp_numZonesInScene p)) (sp_zoneData p)"
    using m n by (auto simp: list_eq_iff_nth_eq scene_matches_def)
  have name: "cstr 21 (snprintf_s 21 old (ns_name b)) = cstr 21 (sp_SceneNameString p)" for old
    using snprintf_of_equal_strings [of "sp_SceneNameString p" 20 "ns_name b" old] m assms(3)
    by (simp add: scene_matches_def scene_args_ok_def)
  have er: "eliot_record (sn_flash st) (scene_eliot_ptr i) = e"
    using scene_eliot_lookup(3) [of "sn_flash st" i] assms(2) ok at by simp
  have eid: "cstr 37 (snprintf_s 37 old e) = cstr 37 (sp_EliotDeviceId p)" if "sp_EliotDeviceId p ! 0 \<noteq> 0" for old
    using snprintf_of_equal_strings [of "sp_EliotDeviceId p" 36 e old] that ok assms(3)
    by (simp add: scene_args_ok_def)
  have e0: "cstr 37 (sp_EliotDeviceId p) = []" if "sp_EliotDeviceId p ! 0 = 0"
  proof -
    have "sp_EliotDeviceId p \<noteq> []" using assms(3) by (auto simp: scene_args_ok_def)
    with that nonempty_cstr [of 37 "sp_EliotDeviceId p"] show ?thesis by simp
  qed
  show ?thesis
    using i b s zones m n name eid e0 er
    by (simp add: GetSceneProperties_def Let_def same_scene_def scene_matches_def)
qed

subsection \<open>Reloading after a restart\<close>

definition loaded_scene :: "memory \<Rightarrow> nat \<Rightarrow> volatile_scene \<Rightarrow> volatile_scene" where
  "loaded_scene m j s = (case GetNVScenePropertiesPtr m j True of None \<Rightarrow> s
     | Some p \<Rightarrow> s\<lparr>nvSceneProperties := Some p, nvEliotSceneProperties := GetNVEliotScenePropertiesPtr m j True\<rparr>)"

lemma load_scene_step:
  "sn_flash (fst (load_scene n (st, c))) = sn_flash st"
  "sceneArray (fst (load_scene n (st, c))) = (sceneArray st)[n := loaded_scene (sn_flash st) n (sceneArray st ! n)]"
  "snd (load_scene n (st, c)) = (if GetNVScenePropertiesPtr (sn_flash st) n True \<noteq> None then c + 1 else c)"
  by (auto simp: load_scene_def loaded_scene_def split: option.split)

lemma load_scenes_upto:
  assumes "length (sceneArray st) = MAX_NUMBER_OF_SCENES" "n \<le> MAX_NUMBER_OF_SCENES"
  shows "sn_flash (fst (fold load_scene [0..<n] (st, 0))) = sn_flash st \<and>
    length (sceneArray (fst (fold load_scene [0..<n] (st, 0)))) = MAX_NUMBER_OF_SCENES \<and>
    snd (fold load_scene [0..<n] (st, 0)) = length (filter (\<lambda>j. GetNVScenePropertiesPtr (sn_flash st) j True \<noteq> None) [0..<n]) \<and>
    (\<forall>j < MAX_NUMBER_OF_SCENES. sceneArray (fst (fold load_scene [0..<n] (st, 0))) ! j =
       (if j < n then loaded_scene (sn_flash st) j (sceneArray st ! j) else sceneArray st ! j))"
  using assms(2)
proof (induction n)
  case 0
  then show ?case using assms(1) by simp
next
  case (Suc n)
  obtain st1 c where r: "fold load_scene [0..<n] (st, 0) = (st1, c)" by fastforce
  have s: "fold load_scene [0..<Suc n] (st, 0) = load_scene n (st1, c)" by (simp add: r)
  have IH: "sn_flash st1 = sn_flash st" "length (sceneArray st1) = MAX_NUMBER_OF_SCENES"
    "c = length (filter (\<lambda>j. GetNVScenePropertiesPtr (sn_flash st) j True \<noteq> None) [0..<n])"
    "\<forall>j < MAX_NUMBER_OF_SCENES. sceneArray st1 ! j =
       (if j < n then loaded_scene (sn_flash st) j (sceneArray st ! j) else sceneArray st ! j)"
    using Suc by (simp_all add: r)
  note L = load_scene_step [of n st1 c, unfolded IH(1)]
  show ?case
    unfolding s L using IH Suc.prems by (auto simp: nth_list_update less_Suc_eq)
qed

lemma reload_scenes:
  assumes "scene_inv st"
  defines "st' \<equiv> fst (LoadScenesFromFlash (InitializeSceneArray st))"
  shows "sn_flash st' = sn_flash st"
    "sceneArray st' = map (\<lambda>s. s\<lparr>running := 0\<rparr>) (sceneArray st)"
    "scene_inv st'"
proof -
  let ?st0 = "InitializeSceneArray st"
  have len: "length (sceneArray st) = MAX_NUMBER_OF_SCENES" using assms(1) by (simp add: scene_inv_def)
  have "length (sceneArray ?st0) = MAX_NUMBER_OF_SCENES" by (simp add: InitializeSceneArray_def)
  note L = load_scenes_upto [OF this order_refl, folded LoadScenesFromFlash_def, folded st'_def]
  have f0: "sn_flash ?st0 = sn_flash st" "\<And>j. j < MAX_NUMBER_OF_SCENES \<Longrightarrow> sceneArray ?st0 ! j = initial_scene"
    by (simp_all add: InitializeSceneArray_def)
  have e: "nvEliotSceneProperties (sceneArray st ! j) = None"
    if "nvSceneProperties (sceneArray st ! j) = None" "j < 100" for j
  proof (cases "j < 50")
    case True
    have "scenes.table_ok (sn_flash st)" "eliot_scenes.table_ok (sn_flash st)" using assms(1) by (simp_all add: scene_inv_def)
    from scene_lookup(1) [OF this(1) that(2)] scene_eliot_lookup(1) [OF this(2) True] scene_invD(4) [OF assms(1) True] that
    show ?thesis using assms(1) by (auto simp: scene_inv_def split: if_splits)
  next
    case False
    then show ?thesis using assms(1) that(2) eliot_scenes.GetNVPtr_beyond [of j "sn_flash st" True]
      by (simp add: scene_inv_def GetNVEliotScenePropertiesPtr_def)
  qed
  show f: "sn_flash st' = sn_flash st" using L f0 by simp
  show a: "sceneArray st' = map (\<lambda>s. s\<lparr>running := 0\<rparr>) (sceneArray st)"
  proof (rule nth_equalityI)
    show "length (sceneArray st') = length (map (\<lambda>s. s\<lparr>running := 0\<rparr>) (sceneArray st))" using L len by simp
    fix j
    assume "j < length (sceneArray st')"
    then have j: "j < 100" using L by simp
    have p: "nvSceneProperties (sceneArray st ! j) = GetNVScenePropertiesPtr (sn_flash st) j True"
      "nvEliotSceneProperties (sceneArray st ! j) = GetNVEliotScenePropertiesPtr (sn_flash st) j True"
      using assms(1) j by (simp_all add: scene_inv_def)
    have "loaded_scene (sn_flash st) j initial_scene = (sceneArray st ! j)\<lparr>running := 0\<rparr>"
      using e [OF _ j] by (cases "nvSceneProperties (sceneArray st ! j)"; cases "sceneArray st ! j")
        (simp_all add: loaded_scene_def initial_scene_def p [symmetric])
    then show "sceneArray st' ! j = map (\<lambda>s. s\<lparr>running := 0\<rparr>) (sceneArray st) ! j"
      using L f0 j len by simp
  qed
  show "scene_inv st'" using assms(1) f by (simp add: scene_inv_def a)
qed

lemma GetScene_reloaded:
  assumes "sn_flash st' = sn_flash st" "sceneArray st' = map (\<lambda>s. s\<lparr>running := 0\<rparr>) (sceneArray st)"
    "length (sceneArray st) = MAX_NUMBER_OF_SCENES"
  shows "GetSceneProperties st' i out =
    map_sum id (\<lambda>(found, q). (found, if found then q\<lparr>sp_running := 0\<rparr> else q)) (GetSceneProperties st i out)"
  using assms by (auto simp: GetSceneProperties_def nv_scene_of_def Let_def split: option.split)

lemma other_scene_kept:
  assumes "scene_inv st" "scene_outcome p i st st' b e" "j < MAX_NUMBER_OF_SCENES" "j \<noteq> i"
  shows "srec (sn_flash st') j = srec (sn_flash st) j" "sceneArray st' ! j = sceneArray st ! j"
    "nvEliotSceneProperties (sceneArray st ! j) = Some q \<Longrightarrow> eliot_record (sn_flash st') q = eliot_record (sn_flash st) q"
proof -
  note ok = assms(2) [unfolded scene_outcome_def scene_step_def Let_def]
  show "srec (sn_flash st') j = srec (sn_flash st) j" "sceneArray st' ! j = sceneArray st ! j" using ok assms(3,4) by simp_all
  assume "nvEliotSceneProperties (sceneArray st ! j) = Some q"
  then have q: "GetNVEliotScenePropertiesPtr (sn_flash st) j True = Some q" using assms(1,3) by (simp add: scene_inv_def)
  then have j: "j < 50" "q = scene_eliot_ptr j"
    using eliot_scenes.GetNVPtr_some unfolding GetNVEliotScenePropertiesPtr_def by blast+
  have "eliot_scenes.table_ok (sn_flash st)" using assms(1) by (simp add: scene_inv_def)
  from scene_eliot_lookup(3) [OF this j(1)] scene_eliot_lookup(3) [of "sn_flash st'", OF _ j(1)] ok assms(4) j
  show "eliot_record (sn_flash st') q = eliot_record (sn_flash st) q" by simp
qed

lemma GetScene_other:
  assumes "scene_inv st" "scene_inv st'" "scene_outcome p i st st' b e" "j < MAX_NUMBER_OF_SCENES" "j \<noteq> i"
  shows "GetSceneProperties st' j out = GetSceneProperties st j out"
  using nv_scene_of_inv [OF assms(1,4)] nv_scene_of_inv [OF assms(2,4)] other_scene_kept [OF assms(1,3-5)]
  by (auto simp: GetSceneProperties_def Let_def split: option.split)

subsection \<open>Properties\<close>

text \<open>A scene that is stored already keeps its Eliot id.\<close>

definition keeps_eliot_id :: "scene_state \<Rightarrow> nat \<Rightarrow> scene_properties \<Rightarrow> bool" where
  "keeps_eliot_id st i p \<longleftrightarrow> nvSceneProperties (sceneArray st ! i) = None \<or>
     (case nvEliotSceneProperties (sceneArray st ! i) of None \<Rightarrow> False
      | Some q \<Rightarrow> cstr ELIOT_DEVICE_ID_SIZE (sp_EliotDeviceId p) =
                 cstr ELIOT_DEVICE_ID_SIZE (eliot_record (sn_flash st) q))"

lemma SetScene_cases:
  assumes "ftfe_reliable hw" "scene_inv st" "i < NUM_ELIOT_PROPERTIES_IN_FLASH_SECTOR" "scene_id_ok p"
  shows "\<not> keeps_eliot_id st i p \<Longrightarrow> SetSceneProperties hw ur st i p = Inl OutOfBoundsWrite"
    and "scene_args_ok p \<Longrightarrow> keeps_eliot_id st i p \<Longrightarrow>
      \<exists>st' b e. SetSceneProperties hw ur st i p = Inr (True, st') \<and> scene_outcome p i st st' b e"
proof -
  note inv = scene_invD [OF assms(2,3)]
  have i: "i < 100" using assms(3) by simp
  note L = scene_lookup [OF inv(1) i] and E = scene_eliot_lookup [OF inv(2) assms(3)]
  have ptrs: "nvSceneProperties (sceneArray st ! i) = GetNVScenePropertiesPtr (sn_flash st) i True"
    "nvEliotSceneProperties (sceneArray st ! i) = GetNVEliotScenePropertiesPtr (sn_flash st) i True"
    using assms(2) i by (simp_all add: scene_inv_def)
  have erased: "cstr 37 (sp_EliotDeviceId p) \<noteq> cstr 37 (serec (sn_flash st) i)" if "\<not> memory_initialized (serec (sn_flash st) i)"
    using erased_differs [of "sp_EliotDeviceId p" 37 "serec (sn_flash st) i"] that assms(4)
      strncmp_eq_cstr [of 37 "sp_EliotDeviceId p" "serec (sn_flash st) i"]
    by (simp add: scene_id_ok_def scene_sizes)
  have k: "keeps_eliot_id st i p \<longleftrightarrow> \<not> memory_initialized (srec (sn_flash st) i) \<or>
      cstr 37 (sp_EliotDeviceId p) = cstr 37 (serec (sn_flash st) i)"
    using erased by (cases "memory_initialized (serec (sn_flash st) i)") (simp_all add: keeps_eliot_id_def ptrs L(1) E(1,3))
  show "\<not> keeps_eliot_id st i p \<Longrightarrow> SetSceneProperties hw ur st i p = Inl OutOfBoundsWrite"
    using set_old_scene(1) [OF assms] k by blast
  show "scene_args_ok p \<Longrightarrow> keeps_eliot_id st i p \<Longrightarrow>
      \<exists>st' b e. SetSceneProperties hw ur st i p = Inr (True, st') \<and> scene_outcome p i st st' b e"
    using set_old_scene(2) [OF assms] set_new_scene [OF assms(1-3)] k by blast
qed

text \<open>A stored scene without an Eliot id does not keep the one in flash.\<close>

lemma no_id_not_kept:
  assumes "scene_inv st" "i < NUM_ELIOT_PROPERTIES_IN_FLASH_SECTOR" "nvSceneProperties (sceneArray st ! i) \<noteq> None"
    and "sp_EliotDeviceId p \<noteq> []" "cstr ELIOT_DEVICE_ID_SIZE (sp_EliotDeviceId p) = []"
  shows "\<not> keeps_eliot_id st i p"
proof
  assume k: "keeps_eliot_id st i p"
  note inv = scene_invD [OF assms(1,2)] and E = scene_eliot_lookup [OF scene_invD(2) [OF assms(1,2)] assms(2)]
  have "nvEliotSceneProperties (sceneArray st ! i) = GetNVEliotScenePropertiesPtr (sn_flash st) i True"
    using assms(1,2) by (simp add: scene_inv_def)
  with k assms(3) E have "cstr 37 (sp_EliotDeviceId p) = cstr 37 (serec (sn_flash st) i)" "memory_initialized (serec (sn_flash st) i)"
    by (auto simp: keeps_eliot_id_def split: if_splits)
  then show False using assms(5) inv(5) nonempty_cstr [of 37 "serec (sn_flash st) i"] serec_not_Nil by simp
qed

text \<open>C20: a scene with index below 50 (of 100; from index 50 on nothing is stored, C21) that is new, or that keeps its
  Eliot id, is stored as it was given. From a consistent table, with a reliable flash and arguments as the callers
  pass them (at most 100 zones, terminated strings, no Eliot id without a name), SetSceneProperties
  returns TRUE and keeps the table consistent; GetSceneProperties then returns
  the zones, the schedule, the name and the Eliot id that were set, or FALSE when the name was empty,
  and for every other scene what it returned before. After a restart every scene is as it was, but
  for the running flag, which is 0.\<close>

theorem SetSceneProperties_correct:
  assumes "ftfe_reliable hw" "scene_inv st" "i < NUM_ELIOT_PROPERTIES_IN_FLASH_SECTOR" "scene_args_ok p"
    and "keeps_eliot_id st i p"
  shows "\<exists>st'. SetSceneProperties hw ur st i p = Inr (True, st') \<and> scene_inv st' \<and>
    (if sp_SceneNameString p ! 0 \<noteq> 0
     then \<exists>q. GetSceneProperties st' i out = Inr (True, q) \<and> same_scene p q
     else GetSceneProperties st' i out = Inr (False, out)) \<and>
    (\<forall>j < MAX_NUMBER_OF_SCENES. j \<noteq> i \<longrightarrow> GetSceneProperties st' j out = GetSceneProperties st j out) \<and>
    (let restarted = fst (LoadScenesFromFlash (InitializeSceneArray st')) in scene_inv restarted \<and>
       (\<forall>j. GetSceneProperties restarted j out =
          map_sum id (\<lambda>(found, q). (found, if found then q\<lparr>sp_running := 0\<rparr> else q)) (GetSceneProperties st' j out)))"
proof -
  obtain st' b e where set: "SetSceneProperties hw ur st i p = Inr (True, st')" and o: "scene_outcome p i st st' b e"
    using SetScene_cases(2) [OF assms(1-3) scene_args_id [OF assms(4)] assms(4,5)] by blast
  have inv: "scene_inv st'" by (rule scene_outcome_inv [OF assms(2-4) o])
  have i: "i < 100" and len: "length (sceneArray st) = 100" "length (sceneArray st') = 100"
    using assms(2,3) inv by (simp_all add: scene_inv_def)
  have named: "\<exists>q. GetSceneProperties st' i out = Inr (True, q) \<and> same_scene p q" if "sp_SceneNameString p ! 0 \<noteq> 0"
    using GetScene_record [OF inv assms(3,4) o that] i len by simp
  have "GetSceneProperties st' i out = Inr (False, out)" if "sp_SceneNameString p ! 0 = 0"
    using o that i len by (simp add: scene_outcome_def GetSceneProperties_def nv_scene_of_def Let_def)
  then show ?thesis
    using set inv named GetScene_other [OF assms(2) inv o] reload_scenes [OF inv]
      GetScene_reloaded [OF reload_scenes(1,2) [OF inv] len(2)] by (auto simp: Let_def)
qed

text \<open>C21: saving a stored scene with another Eliot id writes outside \<open>nvEliotSceneArray\<close>, which has
  nine entries while 50 records are read into it. Every save of a stored scene that has no Eliot id in
  flash is such a save, and so is a deletion that clears the Eliot id with the name. From index 50 on SetSceneProperties
  stores nothing and returns FALSE.\<close>

theorem scene_save_overflows:
  assumes "ftfe_reliable hw" "scene_inv st" "scene_args_ok p"
  shows "(i < NUM_ELIOT_PROPERTIES_IN_FLASH_SECTOR \<and> \<not> keeps_eliot_id st i p \<longrightarrow>
      SetSceneProperties hw ur st i p = Inl OutOfBoundsWrite) \<and>
    (i < NUM_ELIOT_PROPERTIES_IN_FLASH_SECTOR \<and> nvSceneProperties (sceneArray st ! i) \<noteq> None \<and>
       (sp_SceneNameString p ! 0 = 0 \<or> nvEliotSceneProperties (sceneArray st ! i) = None) \<longrightarrow>
      SetSceneProperties hw ur st i p = Inl OutOfBoundsWrite) \<and>
    (NUM_ELIOT_PROPERTIES_IN_FLASH_SECTOR \<le> i \<longrightarrow> SetSceneProperties hw ur st i p = Inr (False, st))"
proof -
  have "\<not> keeps_eliot_id st i p" if "i < 50" "nvSceneProperties (sceneArray st ! i) \<noteq> None"
    "sp_SceneNameString p ! 0 = 0 \<or> nvEliotSceneProperties (sceneArray st ! i) = None"
  proof
    assume k: "keeps_eliot_id st i p"
    note inv = scene_invD [OF assms(2) that(1)] and E = scene_eliot_lookup [OF scene_invD(2) [OF assms(2) that(1)] that(1)]
    have "nvEliotSceneProperties (sceneArray st ! i) = GetNVEliotScenePropertiesPtr (sn_flash st) i True"
      using assms(2) that(1) by (simp add: scene_inv_def)
    with k that E have same: "cstr 37 (sp_EliotDeviceId p) = cstr 37 (serec (sn_flash st) i)"
      and "memory_initialized (serec (sn_flash st) i)" and "sp_SceneNameString p ! 0 = 0"
      by (auto simp: keeps_eliot_id_def split: if_splits)
    with inv(5) have "sp_EliotDeviceId p ! 0 = 0" "serec (sn_flash st) i ! 0 \<noteq> 0" "sp_EliotDeviceId p \<noteq> []"
      using assms(3) by (auto simp: scene_args_ok_def)
    with same show False
      using nonempty_cstr [of 37 "sp_EliotDeviceId p"] nonempty_cstr [of 37 "serec (sn_flash st) i"] serec_not_Nil by simp
  qed
  moreover have "SetSceneProperties hw ur st i p = Inr (False, st)" if "50 \<le> i"
    using that eliot_scenes.GetNVPtr_beyond [of i "sn_flash st" False]
    by (auto simp: SetSceneProperties_def GetNVEliotScenePropertiesPtr_def split: option.split)
  ultimately show ?thesis using SetScene_cases(1) [OF assms(1,2) _ scene_args_id [OF assms(3)]] by blast
qed

definition fresh_scenes :: scene_state where
  "fresh_scenes = \<lparr>sn_flash = (\<lambda>x. 0xFF), sceneArray = replicate MAX_NUMBER_OF_SCENES initial_scene\<rparr>"

lemma fresh_scenes_inv: "scene_inv fresh_scenes"
proof -
  have ff: "sn_flash fresh_scenes = (\<lambda>x. 0xFF)" by (simp add: fresh_scenes_def)
  have "scenes.blank (sn_flash fresh_scenes) i" "eliot_scenes.blank (sn_flash fresh_scenes) i" for i
    by (simp_all add: ff scenes.blank_def scenes.slot_bytes_def eliot_scenes.blank_def eliot_scenes.slot_bytes_def read_bytes_eq_iff)
  then have ok: "scenes.table_ok (sn_flash fresh_scenes)" "eliot_scenes.table_ok (sn_flash fresh_scenes)"
    and b: "\<And>i. scenes.blank (sn_flash fresh_scenes) i" "\<And>i. eliot_scenes.blank (sn_flash fresh_scenes) i"
    by (simp_all add: scenes.table_ok_def scenes.slot_ok_def eliot_scenes.table_ok_def eliot_scenes.slot_ok_def)
  have s: "\<not> memory_initialized (srec (sn_flash fresh_scenes) i)" if "i < 100" for i
    using scene_lookup(4) [OF ok(1) that] b by simp
  have e: "\<not> memory_initialized (serec (sn_flash fresh_scenes) i)" if "i < 50" for i
    using scene_eliot_lookup(4) [OF ok(2) that] b by simp
  have ep: "GetNVEliotScenePropertiesPtr (sn_flash fresh_scenes) i True = None" for i
    using scene_eliot_lookup(1) [OF ok(2), of i] e eliot_scenes.GetNVPtr_beyond [of i "sn_flash fresh_scenes" True]
    by (cases "i < 50") (simp_all add: GetNVEliotScenePropertiesPtr_def)
  show ?thesis
    using ok s e ep scene_lookup(1) [OF ok(1)] by (simp add: scene_inv_def) (simp add: fresh_scenes_def initial_scene_def)
qed

definition sample_scene :: scene_properties where
  "sample_scene = \<lparr>sp_numZonesInScene = 2,
     sp_zoneData = [\<lparr>zs_zoneId = 3, zs_powerLevel = 50, zs_rampRate = 60, zs_state = 1\<rparr>,
        \<lparr>zs_zoneId = 9, zs_powerLevel = 0, zs_rampRate = 80, zs_state = 0\<rparr>] @
        replicate 98 \<lparr>zs_zoneId = 0, zs_powerLevel = 0, zs_rampRate = 0, zs_state = 0\<rparr>,
     sp_nextTriggerTime = 0x5F123456, sp_freq = 2, sp_trigger = 1, sp_days = 0x3E, sp_delta = 0, sp_running = 0,
     sp_skipNext = 0, sp_SceneNameString = [0x44, 0x69, 0x6e] @ replicate 18 0,
     sp_EliotDeviceId = replicate 37 0\<rparr>"

definition idle_scene_ram :: scene_ram where
  "idle_scene_ram = \<lparr>local_scene = (\<lambda>x. 0), local_scene_eliot = (\<lambda>x. 0), behind_scenes = (\<lambda>x. 0),
     behind_scene_eliots = (\<lambda>x. 0)\<rparr>"

lemma sample_scene_ok: "scene_args_ok sample_scene" "sp_SceneNameString sample_scene ! 0 \<noteq> 0"
  by (simp_all add: scene_args_ok_def sample_scene_def)

lemma fresh_keeps_eliot_id: "i < 100 \<Longrightarrow> keeps_eliot_id fresh_scenes i p"
  by (simp add: keeps_eliot_id_def fresh_scenes_def initial_scene_def)

theorem SetSceneProperties_correct_witness:
  "\<exists>st' q. SetSceneProperties ftfe_emulator idle_scene_ram fresh_scenes 49 sample_scene = Inr (True, st') \<and>
     GetSceneProperties st' 49 sample_scene = Inr (True, q) \<and> same_scene sample_scene q"
  using SetSceneProperties_correct [OF emulator_reliable fresh_scenes_inv _ sample_scene_ok(1) fresh_keeps_eliot_id,
      of 49 idle_scene_ram sample_scene] sample_scene_ok(2) by auto

text \<open>The sample scene is created and then saved with another name: its Eliot id was never set.\<close>

theorem scene_save_overflows_witness:
  "\<exists>st'. SetSceneProperties ftfe_emulator idle_scene_ram fresh_scenes 0 sample_scene = Inr (True, st') \<and>
     SetSceneProperties ftfe_emulator idle_scene_ram st' 0
       (sample_scene\<lparr>sp_SceneNameString := replicate 21 0\<rparr>) = Inl OutOfBoundsWrite"
proof -
  obtain st' b e where set: "SetSceneProperties ftfe_emulator idle_scene_ram fresh_scenes 0 sample_scene = Inr (True, st')"
    and o: "scene_outcome sample_scene 0 fresh_scenes st' b e"
    using SetScene_cases(2) [OF emulator_reliable fresh_scenes_inv _ scene_args_id [OF sample_scene_ok(1)] sample_scene_ok(1) fresh_keeps_eliot_id, of 0 idle_scene_ram]
    by auto
  have inv: "scene_inv st'" using scene_outcome_inv [OF fresh_scenes_inv _ sample_scene_ok(1) o] by simp
  have "nvSceneProperties (sceneArray st' ! 0) \<noteq> None"
    using o sample_scene_ok(2) by (simp add: scene_outcome_def Let_def fresh_scenes_def)
  moreover have "scene_args_ok (sample_scene\<lparr>sp_SceneNameString := replicate 21 0\<rparr>)"
    by (simp add: scene_args_ok_def sample_scene_def)
  ultimately show ?thesis
    using set scene_save_overflows [OF emulator_reliable inv, of "sample_scene\<lparr>sp_SceneNameString := replicate 21 0\<rparr>" 0 idle_scene_ram]
    by simp
qed

end
