(* ===== verification/Lcm_State.thy ===== *)
theory Lcm_State
  imports Rfm100_Build Scene_Controllers Scenes
begin

unbundle bit_operations_syntax

text \<open>
  The state the tasks of the LCM share: one flash memory, the three tables over it, the system flags, the
  queue of the RF transmit task, and what has been sent to the outside. The operations of Zones, Scenes
  and Scene\_Controllers act on their view of this state; an operation on one table leaves the views of
  the other two as they were. JSON broadcasts, Eliot messages, RF packets and shade commands are events;
  the calls of jansson and of MQX that can fail are parameters.
\<close>

record transmit_message =
  tm_command :: word_t
  tm_groupId :: word_t
  tm_buildingId :: byte
  tm_houseId :: byte
  tm_sceneId :: byte
  tm_scenePercent :: byte
  tm_buttonIndex :: byte
  tm_avgLevel :: byte
  tm_value :: byte
  tm_toggled :: byte
  tm_toggleable :: byte
  tm_state :: byte

text \<open>A context id of 0 is not sent; the last field of a scene change is the property \<open>Running\<close>, if the
  property list could be allocated. A schedule change has the new trigger time, or none when the scene
  is no longer scheduled, and whether the end of a skip is announced with it.\<close>

datatype lcm_event =
    SceneAlreadyRunning byte dword_t
  | ScenePropertiesChanged byte dword_t "bool option"
  | ZonePropertiesChanged nat dword_t
  | SystemInfoChanged
  | SystemPropertiesChanged
  | SceneScheduleChanged nat "dword_t option" bool
  | EffectiveTimeZoneChanged dword_t
  | TimeAndZoneChanged dword_t dword_t
  | ZoneAdded nat
  | SceneControllerAdded nat
  | HouseIdLedOff
  | HouseIdLedOn
  | EliotRenameZone nat
  | EliotRenameScene nat
  | EliotAddScene nat
  | EliotDeleteDevice "byte list"
  | EliotSceneStarted byte
  | EliotSceneFinishedAfter byte nat
  | EliotZoneChanged nat
  | EliotAddZone nat
  | RadioSend "byte list"
  | ShadeCommand nat byte

record lcm =
  lcm_flash :: memory
  lcm_zones :: "volatile_zone list"
  lcm_shadeIds :: "byte list list"
  lcm_scenes :: "volatile_scene list"
  lcm_controllers :: "nat option list"
  lcm_houseID :: byte
  lcm_configured :: bool
  lcm_addALight :: bool
  lcm_addASceneController :: bool
  lcm_sentQueue :: sent_queue
  lcm_qubeAddress :: bool
  lcm_zoneChanged :: "nat set"
  transmitQueue :: "(transmit_message \<times> byte) list"
  transmitMessages :: nat
  transmitAllocErrors :: dword_t
  lcm_receiveAckCounter :: dword_t
  lcm_shadeGroups :: "byte list"
  lcm_flashSaveTimer :: dword_t
  events :: "lcm_event list"

text \<open>What the code reads without having written it, the hardware, the clock, and the library calls that
  can fail: \<open>json_object_ok n\<close> is whether the allocation at line \<open>n\<close> of the source succeeds, \<open>msg_alloc\<close>
  whether the pool of transmit messages has one left when the given number is in use.\<close>

record environment =
  env_hw :: ftfe_hw
  env_zone_ram :: unset_ram
  env_scene_ram :: scene_ram
  env_controller_local :: memory
  env_controller_behind :: memory
  stack_zone :: zone_properties
  stack_scene :: scene_properties
  stack_controller :: scene_controller_properties
  stack_name :: "byte list"
  stack_errorFlag :: bool
  shade_behind :: memory
  pool_message :: transmit_message
  purge_clock :: dword_t
  stamp_clock :: time_struct
  json_object_ok :: "nat \<Rightarrow> bool"
  msg_alloc :: "nat \<Rightarrow> bool"
  msgq_send_priority :: "(transmit_message \<times> byte) list \<Rightarrow> transmit_message \<Rightarrow> byte \<Rightarrow> bool \<times> (transmit_message \<times> byte) list"

definition emit :: "lcm_event \<Rightarrow> lcm \<Rightarrow> lcm" where
  "emit e l = l\<lparr>events := events l @ [e]\<rparr>"

subsection \<open>The three tables\<close>

definition zone_part :: "lcm \<Rightarrow> zone_state" where
  "zone_part l = \<lparr>flash = lcm_flash l, zoneArray = lcm_zones l, shadeIdStrings = lcm_shadeIds l, global_houseID = lcm_houseID l\<rparr>"

definition scene_part :: "lcm \<Rightarrow> scene_state" where
  "scene_part l = \<lparr>sn_flash = lcm_flash l, sceneArray = lcm_scenes l\<rparr>"

definition controller_part :: "lcm \<Rightarrow> controller_state" where
  "controller_part l = \<lparr>sc_flash = lcm_flash l, sceneControllerArray = lcm_controllers l, sc_global_houseID = lcm_houseID l\<rparr>"

definition get_zone :: "lcm \<Rightarrow> nat \<Rightarrow> zone_properties \<Rightarrow> bool \<times> zone_properties" where
  "get_zone l = GetZoneProperties (zone_part l)"

definition set_zone :: "environment \<Rightarrow> nat \<Rightarrow> zone_properties \<Rightarrow> lcm \<Rightarrow> lcm" where
  "set_zone env i p l =
     (let z = snd (SetZoneProperties (env_hw env) (env_zone_ram env) (zone_part l) i p)
      in l\<lparr>lcm_flash := flash z, lcm_zones := zoneArray z\<rparr>)"

definition get_scene :: "lcm \<Rightarrow> nat \<Rightarrow> scene_properties \<Rightarrow> memory_error + bool \<times> scene_properties" where
  "get_scene l = GetSceneProperties (scene_part l)"

definition set_scene :: "environment \<Rightarrow> nat \<Rightarrow> scene_properties \<Rightarrow> lcm \<Rightarrow> memory_error + lcm" where
  "set_scene env i p l =
     bind_sum (SetSceneProperties (env_hw env) (env_scene_ram env) (scene_part l) i p)
       (\<lambda>(_, s). Inr (l\<lparr>lcm_flash := sn_flash s, lcm_scenes := sceneArray s\<rparr>))"

definition get_controller :: "lcm \<Rightarrow> nat \<Rightarrow> scene_controller_properties \<Rightarrow> bool \<times> scene_controller_properties" where
  "get_controller l = GetSceneControllerProperties (controller_part l)"

definition set_controller :: "environment \<Rightarrow> nat \<Rightarrow> scene_controller_properties \<Rightarrow> lcm \<Rightarrow> lcm" where
  "set_controller env i p l =
     (let c = snd (SetSceneControllerProperties (env_hw env) (env_controller_local env) (env_controller_behind env)
                 (controller_part l) i p)
      in l\<lparr>lcm_flash := sc_flash c, lcm_controllers := sceneControllerArray c\<rparr>)"

subsection \<open>The tables do not disturb each other\<close>

definition lcm_inv :: "lcm \<Rightarrow> bool" where
  "lcm_inv l \<longleftrightarrow> zone_inv (zone_part l) \<and> scene_inv (scene_part l) \<and> controller_inv (controller_part l)"

lemma zone_frame:
  assumes "zone_inv st" "zoneArray st' = zoneArray st"
    and m: "\<And>x. 0xdd000 \<le> x \<and> x < 0xde000 \<or> 0xeb000 \<le> x \<and> x < 0xed000 \<Longrightarrow> flash st' x = flash st x"
  shows "zone_inv st'" "GetZoneProperties st' i out = GetZoneProperties st i out"
proof -
  have zb: "zones.slot_bytes (flash st') j = zones.slot_bytes (flash st) j" if "j < MAX_NUMBER_OF_ZONES" for j
    unfolding zones.slot_bytes_def
  proof (rule read_bytes_cong)
    fix x assume "rg_addr zone_region j \<le> x" "x < rg_addr zone_region j + (8 + 32)"
    then show "flash st' x = flash st x" using that by (intro m) (simp add: zone_region_def)
  qed
  have eb: "eliot_zones.slot_bytes (flash st') j = eliot_zones.slot_bytes (flash st) j" if "j < MAX_NUMBER_OF_ZONES" for j
    unfolding eliot_zones.slot_bytes_def
  proof (rule read_bytes_cong)
    fix x assume "rg_addr eliot_zone_region j \<le> x" "x < rg_addr eliot_zone_region j + (8 + 40)"
    moreover have "rg_start eliot_zone_region = 0xeb000" "rg_end eliot_zone_region = 0xecfff" by (simp_all add: eliot_zone_region_def)
    ultimately show "flash st' x = flash st x"
      using eliot_zones.addr_ge [OF that] eliot_zones.slot_in_region [OF that] by (intro m) linarith
  qed
  have r: "zrec (flash st') j = zrec (flash st) j" "erec (flash st') j = erec (flash st) j"
    "zones.slot_ok (flash st') j = zones.slot_ok (flash st) j" "eliot_zones.slot_ok (flash st') j = eliot_zones.slot_ok (flash st) j"
    if "j < MAX_NUMBER_OF_ZONES" for j
    using zones.ReadNV_cong(1) [OF that zb [OF that]] eliot_zones.ReadNV_cong(1) [OF that eb [OF that]]
      zones.slot_ok_cong [OF that zb [OF that]] eliot_zones.slot_ok_cong [OF that eb [OF that]]
    by (simp_all add: zrec_def erec_def)
  have ok: "flash_ok (flash st)" "flash_ok (flash st')" using assms(1) r by (simp_all add: zone_inv_def flash_ok_def)
  have "GetNVZonePropertiesPtr (flash st') j True = GetNVZonePropertiesPtr (flash st) j True"
    "GetNVEliotZonePropertiesPtr (flash st') j True = GetNVEliotZonePropertiesPtr (flash st) j True"
    if "j < MAX_NUMBER_OF_ZONES" for j
    using that r [OF that] zone_lookup(1) [OF ok(1) that] zone_lookup(1) [OF ok(2) that]
      eliot_lookup(1) [OF ok(1) that] eliot_lookup(1) [OF ok(2) that] by simp_all
  then show inv: "zone_inv st'" using assms(1,2) r ok(2) by (simp add: zone_inv_def)
  show "GetZoneProperties st' i out = GetZoneProperties st i out"
  proof (cases "i < MAX_NUMBER_OF_ZONES")
    case True
    then show ?thesis
      using nv_zone_of_inv [OF assms(1) True] nv_zone_of_inv [OF inv True] eliot_of_inv [OF assms(1) True]
        eliot_of_inv [OF inv True] r [OF True] assms(2)
      by (simp add: GetZoneProperties_def Let_def)
  qed (simp add: GetZoneProperties_def)
qed

lemma scene_frame:
  assumes "scene_inv st" "sceneArray st' = sceneArray st"
    and m: "\<And>x. 0xde000 \<le> x \<and> x < 0xea000 \<or> 0xed000 \<le> x \<and> x < 0xee000 \<Longrightarrow> sn_flash st' x = sn_flash st x"
  shows "scene_inv st'" "GetSceneProperties st' i out = GetSceneProperties st i out"
    "i < MAX_NUMBER_OF_SCENES \<Longrightarrow> keeps_eliot_id st' i p = keeps_eliot_id st i p"
proof -
  have start: "rg_start scene_region = 0xde000" "rg_start eliot_scene_region = 0xed000"
    by (simp_all add: scene_region_def eliot_scene_region_def)
  have f: "scenes.table_ok (sn_flash st') = scenes.table_ok (sn_flash st)"
    "j < 100 \<Longrightarrow> srec (sn_flash st') j = srec (sn_flash st) j" for j
    using m by (intro scenes.table_frame; simp add: start)+
  have fe: "eliot_scenes.table_ok (sn_flash st') = eliot_scenes.table_ok (sn_flash st)"
    "j < 50 \<Longrightarrow> serec (sn_flash st') j = serec (sn_flash st) j" for j
    using m by (intro eliot_scenes.table_frame; simp add: start)+
  have ok: "scenes.table_ok (sn_flash st)" "eliot_scenes.table_ok (sn_flash st)"
    "scenes.table_ok (sn_flash st')" "eliot_scenes.table_ok (sn_flash st')"
    using assms(1) f fe by (simp_all add: scene_inv_def)
  have p: "GetNVScenePropertiesPtr (sn_flash st') j True = GetNVScenePropertiesPtr (sn_flash st) j True"
    if "j < 100" for j
    using scene_lookup(1) [OF ok(1) that] scene_lookup(1) [OF ok(3) that] f(2) [OF that] by simp
  have pe: "GetNVEliotScenePropertiesPtr (sn_flash st') j True = GetNVEliotScenePropertiesPtr (sn_flash st) j True" for j
  proof (cases "j < 50")
    case True
    then show ?thesis using scene_eliot_lookup(1) [OF ok(2) True] scene_eliot_lookup(1) [OF ok(4) True] fe(2) [OF True] by simp
  next
    case False
    then show ?thesis by (simp add: GetNVEliotScenePropertiesPtr_def eliot_scenes.GetNVPtr_beyond)
  qed
  show inv: "scene_inv st'"
    using assms(1,2) p pe f(2) fe(2) ok by (simp add: scene_inv_def)
  have e: "eliot_record (sn_flash st') q = eliot_record (sn_flash st) q"
    if "nvEliotSceneProperties (sceneArray st ! i) = Some q" "i < MAX_NUMBER_OF_SCENES" for q
  proof -
    have q: "GetNVEliotScenePropertiesPtr (sn_flash st) i True = Some q" using that assms(1) by (simp add: scene_inv_def)
    then have j: "i < 50" "q = scene_eliot_ptr i"
      using eliot_scenes.GetNVPtr_some unfolding GetNVEliotScenePropertiesPtr_def by blast+
    from scene_eliot_lookup(3) [OF ok(2) j(1)] scene_eliot_lookup(3) [OF ok(4) j(1)] fe(2) [OF j(1)] j show ?thesis by simp
  qed
  then show "i < MAX_NUMBER_OF_SCENES \<Longrightarrow> keeps_eliot_id st' i p = keeps_eliot_id st i p"
    by (simp add: keeps_eliot_id_def assms(2) split: option.split)
  show "GetSceneProperties st' i out = GetSceneProperties st i out"
  proof (cases "i < MAX_NUMBER_OF_SCENES")
    case True
    then show ?thesis
      using nv_scene_of_inv [OF assms(1) True] nv_scene_of_inv [OF inv True] f(2) [OF True] assms(2) e
      by (auto simp: GetSceneProperties_def Let_def split: option.split)
  qed (simp add: GetSceneProperties_def)
qed

lemma controller_frame:
  assumes "controller_inv st" "sceneControllerArray st' = sceneControllerArray st"
    and m: "\<And>x. 0xea000 \<le> x \<and> x < 0xeb000 \<Longrightarrow> sc_flash st' x = sc_flash st x"
  shows "controller_inv st'" "GetSceneControllerProperties st' i out = GetSceneControllerProperties st i out"
proof -
  have start: "rg_start scene_controller_region = 0xea000" by (simp add: scene_controller_region_def)
  have f: "scene_controllers.table_ok (sc_flash st') = scene_controllers.table_ok (sc_flash st)"
    "j < 20 \<Longrightarrow> crec (sc_flash st') j = crec (sc_flash st) j" for j
    using m by (intro scene_controllers.table_frame; simp add: start)+
  have ok: "scene_controllers.table_ok (sc_flash st)" "scene_controllers.table_ok (sc_flash st')"
    using assms(1) f by (simp_all add: controller_inv_def)
  have p: "GetNVSceneControllerPropertiesPtr (sc_flash st') j True = GetNVSceneControllerPropertiesPtr (sc_flash st) j True"
    if "j < 20" for j
    using controller_lookup(1) [OF ok(1) that] controller_lookup(1) [OF ok(2) that] f(2) [OF that] by simp
  show inv: "controller_inv st'" using assms(1,2) p f(2) ok by (simp add: controller_inv_def)
  show "GetSceneControllerProperties st' i out = GetSceneControllerProperties st i out"
  proof (cases "i < MAX_NUMBER_OF_SCENE_CONTROLLERS")
    case True
    then show ?thesis
      using nv_controller_of_inv [OF assms(1) True] nv_controller_of_inv [OF inv True] f(2) [OF True]
      by (simp add: GetSceneControllerProperties_def)
  qed (simp add: GetSceneControllerProperties_def)
qed

subsection \<open>The tables as maps\<close>

text \<open>A structure with its strings cut at their NUL, and the zone table as a map to such structures.\<close>

definition blank_zone :: zone_properties where
  "blank_zone = \<lparr>zp_AppContextId = 0, zp_groupId = 0, zp_state = False, zp_targetState = False, zp_powerLevel = 0,
     zp_targetPowerLevel = 0, zp_rampRate = 0, zp_deviceType = 0, zp_buildingId = 0, zp_houseId = 0, zp_roomId = 0,
     zp_ZoneNameString = replicate MAX_SIZE_NAME_STRING 0, zp_EliotDeviceId = replicate ELIOT_DEVICE_ID_SIZE 0\<rparr>"

definition cut_zone :: "zone_properties \<Rightarrow> zone_properties" where
  "cut_zone p = p\<lparr>zp_ZoneNameString := cstr MAX_SIZE_NAME_STRING (zp_ZoneNameString p),
                  zp_EliotDeviceId := cstr ELIOT_DEVICE_ID_SIZE (zp_EliotDeviceId p)\<rparr>"

definition zone_of :: "lcm \<Rightarrow> nat \<Rightarrow> zone_properties option" where
  "zone_of l i = (let (found, p) = get_zone l i blank_zone in if found then Some (cut_zone p) else None)"

text \<open>Buffers of the right length.\<close>

definition zone_buffers :: "zone_properties \<Rightarrow> bool" where
  "zone_buffers p \<longleftrightarrow> length (zp_ZoneNameString p) = MAX_SIZE_NAME_STRING \<and> length (zp_EliotDeviceId p) = ELIOT_DEVICE_ID_SIZE"

lemma cut_zone_fields [simp]:
  "zp_AppContextId (cut_zone p) = zp_AppContextId p" "zp_groupId (cut_zone p) = zp_groupId p"
  "zp_state (cut_zone p) = zp_state p" "zp_targetState (cut_zone p) = zp_targetState p"
  "zp_powerLevel (cut_zone p) = zp_powerLevel p" "zp_targetPowerLevel (cut_zone p) = zp_targetPowerLevel p"
  "zp_rampRate (cut_zone p) = zp_rampRate p" "zp_deviceType (cut_zone p) = zp_deviceType p"
  "zp_buildingId (cut_zone p) = zp_buildingId p" "zp_houseId (cut_zone p) = zp_houseId p" "zp_roomId (cut_zone p) = zp_roomId p"
  by (simp_all add: cut_zone_def)

lemma cut_zone_eq_iff: "cut_zone p = cut_zone q \<longleftrightarrow> same_nonvolatile q p \<and> same_volatile q p"
  by (cases p; cases q) (auto simp: cut_zone_def same_nonvolatile_def same_volatile_def)

lemma zone_of_beyond: "MAX_NUMBER_OF_ZONES \<le> i \<Longrightarrow> zone_of l i = None"
  by (simp add: zone_of_def get_zone_def GetZoneProperties_def)

lemma get_zone_found: "fst (get_zone l i out) = fst (get_zone l i out')"
  by (simp add: get_zone_def GetZoneProperties_def Let_def split: option.split)

lemma get_zone_cut: "fst (get_zone l i out) \<Longrightarrow> cut_zone (snd (get_zone l i out)) = cut_zone (snd (get_zone l i out'))"
  by (auto simp: get_zone_def GetZoneProperties_def Let_def cut_zone_def cstr_snprintf_s split: option.splits if_splits)

lemma zone_of_get:
  "zone_of l i = (if fst (get_zone l i out) then Some (cut_zone (snd (get_zone l i out))) else None)"
  using get_zone_found [of l i blank_zone out] get_zone_cut [of l i out blank_zone]
  by (simp add: zone_of_def case_prod_beta)

lemma get_zone_none: "zone_of l i = None \<Longrightarrow> get_zone l i out = (False, out)"
  using zone_of_get [of l i out]
  by (auto simp: get_zone_def GetZoneProperties_def Let_def split: option.splits if_splits)

lemma snprintf_s_terminated: "0 \<in> set (snprintf_s n dst src)"
  by (rule snprintf_nul)

lemma cstr_first: "cstr n s \<noteq> [] \<Longrightarrow> cstr n s ! 0 \<noteq> 0"
  by (metis cstr_no_nul nth_mem length_greater_0_conv)

lemma snprintf_first: "snprintf_s (Suc n) dst src ! 0 = 0 \<longleftrightarrow> cstr n src = []"
  using cstr_first [of n src] by (auto simp: snprintf_s_def Let_def nth_append)

lemma get_zone_some:
  assumes "lcm_inv l" "zone_of l i = Some z" "zone_buffers out"
  obtains p where "get_zone l i out = (True, p)" "cut_zone p = z" "zone_args_ok p" "zp_ZoneNameString p ! 0 \<noteq> 0" "zone_buffers p"
proof -
  have i: "i < MAX_NUMBER_OF_ZONES" using assms(2) zone_of_beyond [of i l] by (cases "i < MAX_NUMBER_OF_ZONES") auto
  obtain p where p: "get_zone l i out = (True, p)" "cut_zone p = z"
    using assms(2) zone_of_get [of l i out] by (cases "get_zone l i out") (auto split: if_splits)
  have inv: "zone_inv (zone_part l)" using assms(1) by (simp add: lcm_inv_def)
  let ?b = "zrec (flash (zone_part l)) i"
  have b: "nv_zone_of (zone_part l) i = Some ?b" "memory_initialized ?b"
    using p(1) i nv_zone_of_inv [OF inv i] by (auto simp: get_zone_def GetZoneProperties_def Let_def split: if_splits)
  have name: "zp_ZoneNameString p = snprintf_s 21 (zp_ZoneNameString out) (nz_name ?b)"
    and id: "zp_EliotDeviceId p = (case nvEliotZoneProperties (zoneArray (zone_part l) ! i) of None \<Rightarrow> replicate 37 0
        | Some q \<Rightarrow> snprintf_s 37 (zp_EliotDeviceId out) (eliot_record (flash (zone_part l)) q))"
    using p(1) i b(1) by (auto simp: get_zone_def GetZoneProperties_def Let_def)
  have "nz_name ?b ! 0 \<noteq> 0" using zone_invD(5) [OF inv i] b(2) by simp
  moreover have "length (nz_name ?b) = 21" by (simp add: nz_name_def)
  then have "nz_name ?b \<noteq> []" by (metis list.size(3) zero_neq_numeral)
  ultimately have n0: "zp_ZoneNameString p ! 0 \<noteq> 0"
    using nonempty_cstr [of 20 "nz_name ?b"] snprintf_first [of 20 "zp_ZoneNameString out" "nz_name ?b"] assms(3)
    by (auto simp: name zone_buffers_def)
  have len: "length (zp_ZoneNameString p) = 21" "length (zp_EliotDeviceId p) = 37"
    using assms(3) by (auto simp: name id zone_buffers_def split: option.split)
  have "0 \<in> set (zp_ZoneNameString p)" "0 \<in> set (zp_EliotDeviceId p)"
    using snprintf_s_terminated by (auto simp: name id split: option.split)
  then have "zone_args_ok p" using len n0 by (simp add: zone_args_ok_def)
  then show thesis using that p n0 len by (simp add: zone_buffers_def)
qed

text \<open>Setting a zone: the map is updated, the other tables keep what they hold.\<close>

definition same_scenes :: "lcm \<Rightarrow> lcm \<Rightarrow> bool" where
  "same_scenes l l' \<longleftrightarrow> (\<forall>i out. get_scene l' i out = get_scene l i out) \<and>
     (\<forall>i < MAX_NUMBER_OF_SCENES. \<forall>p. keeps_eliot_id (scene_part l') i p = keeps_eliot_id (scene_part l) i p)"

definition same_controllers :: "lcm \<Rightarrow> lcm \<Rightarrow> bool" where
  "same_controllers l l' \<longleftrightarrow> (\<forall>i out. get_controller l' i out = get_controller l i out)"

definition same_zones :: "lcm \<Rightarrow> lcm \<Rightarrow> bool" where
  "same_zones l l' \<longleftrightarrow> (\<forall>i out. get_zone l' i out = get_zone l i out)"

lemma same_zones_map: "same_zones l l' \<Longrightarrow> zone_of l' = zone_of l"
  by (simp add: same_zones_def zone_of_def fun_eq_iff)

lemma set_zone_update:
  assumes "ftfe_reliable (env_hw env)" "lcm_inv l" "i < MAX_NUMBER_OF_ZONES" "zone_args_ok p"
  shows "lcm_inv (set_zone env i p l)"
    "zone_of (set_zone env i p l) = (zone_of l)(i := if zp_ZoneNameString p ! 0 \<noteq> 0 then Some (cut_zone p) else None)"
    "same_scenes l (set_zone env i p l)" "same_controllers l (set_zone env i p l)"
proof -
  let ?l = "set_zone env i p l"
  have inv: "zone_inv (zone_part l)" "scene_inv (scene_part l)" "controller_inv (controller_part l)"
    using assms(2) by (simp_all add: lcm_inv_def)
  obtain z z' e where set: "SetZoneProperties (env_hw env) (env_zone_ram env) (zone_part l) i p = (True, z)"
    and o: "set_outcome p i (zone_part l) z z' e"
    using SetZoneProperties_outcome [OF assms(1) inv(1) assms(3,4), of "env_zone_ram env"] by metis
  have zi: "zone_inv z" by (rule set_outcome_inv [OF inv(1) assms(3,4) o])
  have l: "?l = l\<lparr>lcm_flash := flash z, lcm_zones := zoneArray z\<rparr>" by (simp add: set_zone_def set)
  then have same: "zoneArray (zone_part ?l) = zoneArray z" "flash (zone_part ?l) = flash z"
    by (simp_all add: zone_part_def)
  have zi': "zone_inv (zone_part ?l)" by (rule zone_frame(1) [OF zi same(1)]) (simp add: same)
  have get: "get_zone ?l j out = GetZoneProperties z j out" for j out
    unfolding get_zone_def by (rule zone_frame(2) [OF zi same(1)]) (simp add: same)
  have out: "flash z x = lcm_flash l x" if "outside_zones x" for x
    using o that by (simp add: set_outcome_def flash_step_def zone_part_def)
  have sc: "scene_inv (scene_part ?l)" "GetSceneProperties (scene_part ?l) j s = GetSceneProperties (scene_part l) j s"
    "j < MAX_NUMBER_OF_SCENES \<Longrightarrow> keeps_eliot_id (scene_part ?l) j s = keeps_eliot_id (scene_part l) j s" for j s
    by (rule scene_frame [OF inv(2)]; auto simp: scene_part_def l outside_zones_def intro: out)+
  have cc: "controller_inv (controller_part ?l)"
    "GetSceneControllerProperties (controller_part ?l) j s = GetSceneControllerProperties (controller_part l) j s" for j s
    by (rule controller_frame [OF inv(3)]; auto simp: controller_part_def l outside_zones_def intro: out)+
  show "lcm_inv ?l" using zi' sc cc by (simp add: lcm_inv_def)
  show "same_scenes l ?l" "same_controllers l ?l"
    using sc cc by (simp_all add: same_scenes_def same_controllers_def get_scene_def get_controller_def)
  let ?Z = "(zone_of l)(i := if zp_ZoneNameString p ! 0 \<noteq> 0 then Some (cut_zone p) else None)"
  show "zone_of ?l = ?Z"
  proof
    fix j
    show "zone_of ?l j = ?Z j"
    proof (cases "j = i")
      case True
      then show ?thesis
        using set_outcome_named [OF o _ inv(1) zi assms(3,4), of blank_zone] set_outcome_deleted [OF o _ zi assms(3), of blank_zone]
        by (simp add: zone_of_get [of _ _ blank_zone] get cut_zone_eq_iff)
    next
      case False
      have "GetZoneProperties z j blank_zone = GetZoneProperties (zone_part l) j blank_zone"
      proof (cases "j < MAX_NUMBER_OF_ZONES")
        case True
        then show ?thesis using GetZoneProperties_other [OF o inv(1) zi True False] by simp
      qed (simp add: GetZoneProperties_def)
      then show ?thesis using False by (simp add: zone_of_get [of _ _ blank_zone] get) (simp add: get_zone_def)
    qed
  qed
qed

lemma set_zone_map:
  assumes "ftfe_reliable (env_hw env)" "lcm_inv l" "i < MAX_NUMBER_OF_ZONES" "zone_args_ok p" "zp_ZoneNameString p ! 0 \<noteq> 0"
  shows "lcm_inv (set_zone env i p l)" "zone_of (set_zone env i p l) = (zone_of l)(i \<mapsto> cut_zone p)"
    "same_scenes l (set_zone env i p l)" "same_controllers l (set_zone env i p l)"
  using set_zone_update [OF assms(1-4)] assms(5) by simp_all

lemma set_zone_fields [simp]:
  "transmitQueue (set_zone env i p l) = transmitQueue l" "transmitMessages (set_zone env i p l) = transmitMessages l"
  "events (set_zone env i p l) = events l" "lcm_sentQueue (set_zone env i p l) = lcm_sentQueue l"
  "lcm_houseID (set_zone env i p l) = lcm_houseID l" "lcm_addALight (set_zone env i p l) = lcm_addALight l"
  "lcm_qubeAddress (set_zone env i p l) = lcm_qubeAddress l"
  by (simp_all add: set_zone_def Let_def)

text \<open>Fields outside the tables do not matter to them.\<close>

definition same_tables :: "lcm \<Rightarrow> lcm \<Rightarrow> bool" where
  "same_tables l l' \<longleftrightarrow> lcm_flash l' = lcm_flash l \<and> lcm_zones l' = lcm_zones l \<and> lcm_scenes l' = lcm_scenes l \<and>
     lcm_controllers l' = lcm_controllers l"

lemma same_tables:
  assumes "same_tables l l'"
  shows "lcm_inv l' = lcm_inv l" "same_zones l l'" "same_scenes l l'" "same_controllers l l'"
    "scene_part l' = scene_part l" "controller_inv (controller_part l') = controller_inv (controller_part l)"
proof -
  have s: "scene_part l' = scene_part l" using assms by (simp add: scene_part_def same_tables_def)
  have zp: "flash (zone_part l') = flash (zone_part l)" "zoneArray (zone_part l') = zoneArray (zone_part l)"
    using assms by (simp_all add: zone_part_def same_tables_def)
  have z: "zone_inv (zone_part l') = zone_inv (zone_part l)" "same_zones l l'"
    unfolding zone_inv_def same_zones_def get_zone_def GetZoneProperties_def nv_zone_of_def zp by simp_all
  have cp: "sc_flash (controller_part l') = sc_flash (controller_part l)"
    "sceneControllerArray (controller_part l') = sceneControllerArray (controller_part l)"
    using assms by (simp_all add: controller_part_def same_tables_def)
  have c: "controller_inv (controller_part l') = controller_inv (controller_part l)" "same_controllers l l'"
    unfolding controller_inv_def same_controllers_def get_controller_def GetSceneControllerProperties_def
      nv_controller_of_def cp by simp_all
  show "lcm_inv l' = lcm_inv l" "same_zones l l'" "same_scenes l l'" "same_controllers l l'" "scene_part l' = scene_part l"
    "controller_inv (controller_part l') = controller_inv (controller_part l)"
    using s z c by (simp_all add: lcm_inv_def same_scenes_def get_scene_def)
qed

lemma same_tables_outer [simp]:
  "same_tables l (l\<lparr>transmitQueue := q\<rparr>)" "same_tables l (l\<lparr>transmitMessages := n\<rparr>)"
  "same_tables l (l\<lparr>transmitAllocErrors := a\<rparr>)" "same_tables l (l\<lparr>lcm_sentQueue := sq\<rparr>)"
  "same_tables l (l\<lparr>lcm_zoneChanged := s\<rparr>)" "same_tables l (l\<lparr>lcm_receiveAckCounter := a\<rparr>)"
  by (simp_all add: same_tables_def)

lemma same_tables_refl [simp]: "same_tables l l"
  by (simp add: same_tables_def)

lemma same_tables_trans: "same_tables l l' \<Longrightarrow> same_tables l' l'' \<Longrightarrow> same_tables l l''"
  by (simp add: same_tables_def)

lemma same_tables_emit [simp]: "same_tables l (emit e l)"
  by (simp add: same_tables_def emit_def)

lemma emit_fields [simp]:
  "transmitQueue (emit e l) = transmitQueue l" "transmitMessages (emit e l) = transmitMessages l"
  "events (emit e l) = events l @ [e]" "lcm_sentQueue (emit e l) = lcm_sentQueue l" "lcm_houseID (emit e l) = lcm_houseID l"
  "lcm_addALight (emit e l) = lcm_addALight l" "lcm_qubeAddress (emit e l) = lcm_qubeAddress l"
  by (simp_all add: emit_def)

lemma same_scenes_refl [simp]: "same_scenes l l" and same_controllers_refl [simp]: "same_controllers l l"
  and same_zones_refl [simp]: "same_zones l l"
  by (simp_all add: same_scenes_def same_controllers_def same_zones_def)

lemma same_scenes_trans: "same_scenes l l' \<Longrightarrow> same_scenes l' l'' \<Longrightarrow> same_scenes l l''"
  by (simp add: same_scenes_def)

lemma same_controllers_trans: "same_controllers l l' \<Longrightarrow> same_controllers l' l'' \<Longrightarrow> same_controllers l l''"
  by (simp add: same_controllers_def)

text \<open>Setting a scene that keeps its Eliot id.\<close>

lemma set_scene_kept:
  assumes "ftfe_reliable (env_hw env)" "lcm_inv l" "i < NUM_ELIOT_PROPERTIES_IN_FLASH_SECTOR" "scene_args_ok p"
    and "keeps_eliot_id (scene_part l) i p" "sp_SceneNameString p ! 0 \<noteq> 0"
  obtains l' where "set_scene env i p l = Inr l'" "lcm_inv l'" "same_zones l l'" "same_controllers l l'"
    "\<And>out. \<exists>q. get_scene l' i out = Inr (True, q) \<and> same_scene p q"
    "\<And>j out. j \<noteq> i \<Longrightarrow> get_scene l' j out = get_scene l j out"
    "\<And>q. sp_EliotDeviceId p ! 0 \<noteq> 0 \<Longrightarrow> cstr 37 (sp_EliotDeviceId q) = cstr 37 (sp_EliotDeviceId p) \<Longrightarrow> keeps_eliot_id (scene_part l') i q"
    "l' = l\<lparr>lcm_flash := lcm_flash l', lcm_scenes := lcm_scenes l'\<rparr>"
proof -
  have inv: "zone_inv (zone_part l)" "scene_inv (scene_part l)" "controller_inv (controller_part l)"
    using assms(2) by (simp_all add: lcm_inv_def)
  obtain s b e where set: "SetSceneProperties (env_hw env) (env_scene_ram env) (scene_part l) i p = Inr (True, s)"
    and o: "scene_outcome p i (scene_part l) s b e"
    using SetScene_cases(2) [OF assms(1) inv(2) assms(3) scene_args_id [OF assms(4)] assms(4,5), of "env_scene_ram env"] by blast
  define l' where l': "l' = l\<lparr>lcm_flash := sn_flash s, lcm_scenes := sceneArray s\<rparr>"
  have si: "scene_inv s" by (rule scene_outcome_inv [OF inv(2) assms(3,4) o])
  have s: "scene_part l' = s" by (simp add: scene_part_def l')
  have out: "sn_flash s x = lcm_flash l x" if "outside_scenes x" for x
    using o that by (simp add: scene_outcome_def scene_step_def scene_part_def)
  have z: "zone_inv (zone_part l')" "GetZoneProperties (zone_part l') j q = GetZoneProperties (zone_part l) j q" for j q
    by (rule zone_frame [OF inv(1)]; auto simp: zone_part_def l' outside_scenes_def intro: out)+
  have c: "controller_inv (controller_part l')"
    "GetSceneControllerProperties (controller_part l') j q = GetSceneControllerProperties (controller_part l) j q" for j q
    by (rule controller_frame [OF inv(3)]; auto simp: controller_part_def l' outside_scenes_def intro: out)+
  have i: "i < length (sceneArray (scene_part l))" using inv(2) assms(3) by (simp add: scene_inv_def)
  show thesis
  proof (rule that [of l'])
    show "set_scene env i p l = Inr l'" by (simp add: set_scene_def set l')
    show "lcm_inv l'" using z c si by (simp add: lcm_inv_def s)
    show "same_zones l l'" "same_controllers l l'"
      using z c by (simp_all add: same_zones_def same_controllers_def get_zone_def get_controller_def)
    show "\<exists>q. get_scene l' i out = Inr (True, q) \<and> same_scene p q" for out
      using GetScene_record [OF si assms(3,4) o assms(6) i] by (simp add: get_scene_def s)
    show "get_scene l' j out = get_scene l j out" if "j \<noteq> i" for j out
    proof (cases "j < MAX_NUMBER_OF_SCENES")
      case True
      then show ?thesis using GetScene_other [OF inv(2) si o True that] by (simp add: get_scene_def s)
    qed (simp add: get_scene_def GetSceneProperties_def)
    show "keeps_eliot_id (scene_part l') i q"
      if "sp_EliotDeviceId p ! 0 \<noteq> 0" "cstr 37 (sp_EliotDeviceId q) = cstr 37 (sp_EliotDeviceId p)" for q
    proof -
      note ok = o [unfolded scene_outcome_def scene_step_def Let_def]
      have "eliot_record (sn_flash s) (scene_eliot_ptr i) = e"
        using scene_eliot_lookup(3) [of "sn_flash s" i] assms(3) ok by simp
      then show ?thesis using ok that i by (simp add: keeps_eliot_id_def s)
    qed
    show "l' = l\<lparr>lcm_flash := lcm_flash l', lcm_scenes := lcm_scenes l'\<rparr>" by (simp add: l')
  qed
qed

lemma set_controller_alone:
  assumes "ftfe_reliable (env_hw env)" "controller_inv (controller_part l)" "i < MAX_NUMBER_OF_SCENE_CONTROLLERS"
    and "controller_args_ok p" "sc_NameString p ! 0 \<noteq> 0"
  shows "controller_inv (controller_part (set_controller env i p l))"
    "x < 0xea000 \<or> 0xeb000 \<le> x \<Longrightarrow> lcm_flash (set_controller env i p l) x = lcm_flash l x"
    "fst (get_controller (set_controller env i p l) i out)"
    "same_controller p (snd (get_controller (set_controller env i p l) i out))"
    "j \<noteq> i \<Longrightarrow> get_controller (set_controller env i p l) j out = get_controller l j out"
proof -
  let ?l = "set_controller env i p l"
  obtain c b where set: "SetSceneControllerProperties (env_hw env) (env_controller_local env) (env_controller_behind env)
      (controller_part l) i p = (True, c)" and o: "controller_outcome p i (controller_part l) c b"
    using SetSceneControllerProperties_outcome [OF assms(1-4)] by metis
  have ci: "controller_inv c" by (rule controller_outcome_inv [OF assms(2-4) o])
  have l: "?l = l\<lparr>lcm_flash := sc_flash c, lcm_controllers := sceneControllerArray c\<rparr>"
    by (simp add: set_controller_def set)
  have "scene_controllers.table_step (lcm_flash l) (sc_flash c) i b" "rg_start scene_controller_region = 0xea000"
    using o by (simp_all add: controller_outcome_def controller_part_def) (simp add: scene_controller_region_def)
  then show "lcm_flash ?l x = lcm_flash l x" if "x < 0xea000 \<or> 0xeb000 \<le> x"
    using that by (auto simp: l scene_controllers.table_step_def)
  have same: "sceneControllerArray (controller_part ?l) = sceneControllerArray c" "sc_flash (controller_part ?l) = sc_flash c"
    by (simp_all add: controller_part_def l)
  show "controller_inv (controller_part ?l)" by (rule controller_frame(1) [OF ci same(1)]) (simp add: same)
  have get: "get_controller ?l j q = GetSceneControllerProperties c j q" for j q
    unfolding get_controller_def by (rule controller_frame(2) [OF ci same(1)]) (simp add: same)
  have at: "crec (sc_flash c) i = b"
    using scene_controllers.table_step_at [OF _ assms(3)] o by (auto simp: controller_outcome_def)
  show "fst (get_controller ?l i out)" "same_controller p (snd (get_controller ?l i out))"
    using GetSceneController_record [OF ci assms(3,4)] o assms(5) at by (simp_all add: get controller_outcome_def)
  show "get_controller ?l j out = get_controller l j out" if "j \<noteq> i"
  proof (cases "j < MAX_NUMBER_OF_SCENE_CONTROLLERS")
    case True
    then show ?thesis using GetSceneController_other [OF assms(2) ci o True that] by (simp add: get) (simp add: get_controller_def)
  qed (simp add: get_controller_def GetSceneControllerProperties_def)
qed

lemma set_controller_named:
  assumes "ftfe_reliable (env_hw env)" "lcm_inv l" "i < MAX_NUMBER_OF_SCENE_CONTROLLERS" "controller_args_ok p"
    and "sc_NameString p ! 0 \<noteq> 0"
  shows "lcm_inv (set_controller env i p l)" "same_zones l (set_controller env i p l)" "same_scenes l (set_controller env i p l)"
    "fst (get_controller (set_controller env i p l) i out)"
    "same_controller p (snd (get_controller (set_controller env i p l) i out))"
    "j \<noteq> i \<Longrightarrow> get_controller (set_controller env i p l) j out = get_controller l j out"
proof -
  let ?l = "set_controller env i p l"
  have inv: "zone_inv (zone_part l)" "scene_inv (scene_part l)" "controller_inv (controller_part l)"
    using assms(2) by (simp_all add: lcm_inv_def)
  note C = set_controller_alone [OF assms(1) inv(3) assms(3-5)]
  have f: "lcm_zones ?l = lcm_zones l" "lcm_scenes ?l = lcm_scenes l" by (simp_all add: set_controller_def Let_def)
  have z: "zone_inv (zone_part ?l)" "GetZoneProperties (zone_part ?l) j q = GetZoneProperties (zone_part l) j q" for j q
    by (rule zone_frame [OF inv(1)]; auto simp: zone_part_def f intro: C(2))+
  have s: "scene_inv (scene_part ?l)" "GetSceneProperties (scene_part ?l) j q = GetSceneProperties (scene_part l) j q"
    "j < MAX_NUMBER_OF_SCENES \<Longrightarrow> keeps_eliot_id (scene_part ?l) j q = keeps_eliot_id (scene_part l) j q" for j q
    by (rule scene_frame [OF inv(2)]; auto simp: scene_part_def f intro: C(2))+
  show "lcm_inv ?l" using z s C(1) by (simp add: lcm_inv_def)
  show "same_zones l ?l" "same_scenes l ?l" using z s by (simp_all add: same_zones_def same_scenes_def get_zone_def get_scene_def)
  show "fst (get_controller ?l i out)" "same_controller p (snd (get_controller ?l i out))"
    "j \<noteq> i \<Longrightarrow> get_controller ?l j out = get_controller l j out" using C(3-5) by auto
qed

lemma set_controller_fields [simp]:
  "transmitQueue (set_controller env i p l) = transmitQueue l" "transmitMessages (set_controller env i p l) = transmitMessages l"
  "events (set_controller env i p l) = events l" "lcm_sentQueue (set_controller env i p l) = lcm_sentQueue l"
  "lcm_qubeAddress (set_controller env i p l) = lcm_qubeAddress l" "lcm_zones (set_controller env i p l) = lcm_zones l"
  "lcm_scenes (set_controller env i p l) = lcm_scenes l" "lcm_houseID (set_controller env i p l) = lcm_houseID l"
  by (simp_all add: set_controller_def Let_def)

subsection \<open>The scene table as a map\<close>

definition blank_scene :: scene_properties where
  "blank_scene = \<lparr>sp_numZonesInScene = 0,
     sp_zoneData = replicate MAX_ZONES_IN_SCENE \<lparr>zs_zoneId = 0, zs_powerLevel = 0, zs_rampRate = 0, zs_state = 0\<rparr>,
     sp_nextTriggerTime = 0, sp_freq = 0, sp_trigger = 0, sp_days = 0, sp_delta = 0, sp_running = 0, sp_skipNext = 0,
     sp_SceneNameString = replicate MAX_SIZE_NAME_STRING 0, sp_EliotDeviceId = replicate ELIOT_DEVICE_ID_SIZE 0\<rparr>"

definition cut_scene :: "scene_properties \<Rightarrow> scene_properties" where
  "cut_scene p = p\<lparr>sp_zoneData := take (unat (sp_numZonesInScene p)) (sp_zoneData p),
     sp_SceneNameString := cstr MAX_SIZE_NAME_STRING (sp_SceneNameString p),
     sp_EliotDeviceId := cstr ELIOT_DEVICE_ID_SIZE (sp_EliotDeviceId p)\<rparr>"

definition scene_of :: "lcm \<Rightarrow> nat \<Rightarrow> scene_properties option" where
  "scene_of l i = (case get_scene l i blank_scene of Inr (True, p) \<Rightarrow> Some (cut_scene p) | _ \<Rightarrow> None)"

definition scene_buffers :: "scene_properties \<Rightarrow> bool" where
  "scene_buffers p \<longleftrightarrow> length (sp_zoneData p) = MAX_ZONES_IN_SCENE \<and> length (sp_SceneNameString p) = MAX_SIZE_NAME_STRING \<and>
     length (sp_EliotDeviceId p) = ELIOT_DEVICE_ID_SIZE"

text \<open>The scene is in one of the first 50 slots and its Eliot id is in flash; saving any other stored scene
  fails, by \<open>scene_save_overflows\<close> of the theory \<open>Scenes\<close>.\<close>

definition stored_id :: "lcm \<Rightarrow> nat \<Rightarrow> bool" where
  "stored_id l i \<longleftrightarrow> i < NUM_ELIOT_PROPERTIES_IN_FLASH_SECTOR \<and>
     (case scene_of l i of None \<Rightarrow> False | Some s \<Rightarrow> sp_EliotDeviceId s \<noteq> [] \<and> keeps_eliot_id (scene_part l) i s)"

lemma cut_scene_fields [simp]:
  "sp_numZonesInScene (cut_scene p) = sp_numZonesInScene p" "sp_nextTriggerTime (cut_scene p) = sp_nextTriggerTime p"
  "sp_freq (cut_scene p) = sp_freq p" "sp_trigger (cut_scene p) = sp_trigger p" "sp_days (cut_scene p) = sp_days p"
  "sp_delta (cut_scene p) = sp_delta p" "sp_running (cut_scene p) = sp_running p" "sp_skipNext (cut_scene p) = sp_skipNext p"
  "cut_scene (p\<lparr>sp_running := r\<rparr>) = (cut_scene p)\<lparr>sp_running := r\<rparr>"
  by (simp_all add: cut_scene_def)

lemma cut_scene_zone: "k < unat (sp_numZonesInScene p) \<Longrightarrow> sp_zoneData (cut_scene p) ! k = sp_zoneData p ! k"
  by (simp add: cut_scene_def)

lemma cut_scene_eq_iff: "cut_scene p = cut_scene q \<longleftrightarrow> same_scene q p"
  by (cases p; cases q) (auto simp: cut_scene_def same_scene_def)

lemma keeps_eliot_id_cong:
  "cstr 37 (sp_EliotDeviceId p) = cstr 37 (sp_EliotDeviceId q) \<Longrightarrow> keeps_eliot_id st i p = keeps_eliot_id st i q"
  by (simp add: keeps_eliot_id_def split: option.split)

lemma cstr_idem [simp]: "cstr n (cstr n a) = cstr n a"
proof -
  have "take n (cstr n a) = cstr n a" using length_cstr_le [of n a] by simp
  moreover have "\<forall>b \<in> set (cstr n a). b \<noteq> 0" using cstr_no_nul [of n a] by blast
  then have "takeWhile (\<lambda>b. b \<noteq> 0) (cstr n a) = cstr n a" unfolding takeWhile_eq_all_conv .
  ultimately show ?thesis unfolding cstr_def [of n "cstr n a"] by simp
qed

lemma get_scene_cases:
  assumes "lcm_inv l"
  shows "\<exists>b p. get_scene l i out = Inr (b, p) \<and> (b \<longrightarrow> i < MAX_NUMBER_OF_SCENES) \<and> (\<not> b \<longrightarrow> p = out)"
    "get_scene l i out = Inr (True, p) \<Longrightarrow> \<exists>p'. get_scene l i out' = Inr (True, p') \<and> cut_scene p' = cut_scene p"
proof -
  have inv: "scene_inv (scene_part l)" using assms by (simp add: lcm_inv_def)
  have n: "unat (ns_numZones b) \<le> 100" if "nv_scene_of (scene_part l) i = Some b" "i < 100" for b
    using nv_scene_of_inv [OF inv that(2)] that inv by (auto simp: scene_inv_def split: if_splits)
  show "\<exists>b p. get_scene l i out = Inr (b, p) \<and> (b \<longrightarrow> i < MAX_NUMBER_OF_SCENES) \<and> (\<not> b \<longrightarrow> p = out)"
  proof (cases "nv_scene_of (scene_part l) i")
    case None
    then have "get_scene l i out = Inr (False, out)" by (simp add: get_scene_def GetSceneProperties_def Let_def)
    then show ?thesis by blast
  next
    case (Some b)
    then show ?thesis using n [OF Some] by (auto simp: get_scene_def GetSceneProperties_def Let_def)
  qed
  assume g: "get_scene l i out = Inr (True, p)"
  then have i: "i < 100" by (auto simp: get_scene_def GetSceneProperties_def split: if_splits)
  then obtain b where b: "nv_scene_of (scene_part l) i = Some b"
    using g by (auto simp: get_scene_def GetSceneProperties_def Let_def split: option.splits)
  show "\<exists>p'. get_scene l i out' = Inr (True, p') \<and> cut_scene p' = cut_scene p"
    using g i b n [OF b i]
    by (auto simp: get_scene_def GetSceneProperties_def Let_def cut_scene_def cstr_snprintf_s split: option.splits)
qed

lemma scene_of_get:
  assumes "lcm_inv l"
  shows "get_scene l i out = Inr (True, p) \<Longrightarrow> scene_of l i = Some (cut_scene p)"
    "scene_of l i = None \<Longrightarrow> get_scene l i out = Inr (False, out)"
proof -
  show "scene_of l i = Some (cut_scene p)" if "get_scene l i out = Inr (True, p)"
    using get_scene_cases(2) [OF assms that, of blank_scene] by (auto simp: scene_of_def)
  show "get_scene l i out = Inr (False, out)" if "scene_of l i = None"
    using get_scene_cases(1) [OF assms, of i out] get_scene_cases(2) [OF assms, of i out _ blank_scene] that
    by (auto simp: scene_of_def)
qed

lemma get_scene_some:
  assumes "lcm_inv l" "scene_of l i = Some s" "scene_buffers out"
  obtains p where "get_scene l i out = Inr (True, p)" "cut_scene p = s" "scene_args_ok p" "sp_SceneNameString p ! 0 \<noteq> 0"
    "scene_buffers p" "i < MAX_NUMBER_OF_SCENES"
proof -
  obtain q where "get_scene l i blank_scene = Inr (True, q)" "cut_scene q = s"
    using assms(2) by (auto simp: scene_of_def split: sum.splits prod.splits bool.splits)
  with get_scene_cases(2) [OF assms(1), of i blank_scene q out] obtain p
    where p: "get_scene l i out = Inr (True, p)" "cut_scene p = s" by auto
  have i: "i < 100" using p(1) by (auto simp: get_scene_def GetSceneProperties_def split: if_splits)
  have inv: "scene_inv (scene_part l)" using assms(1) by (simp add: lcm_inv_def)
  let ?b = "srec (sn_flash (scene_part l)) i"
  have b: "nv_scene_of (scene_part l) i = Some ?b" "memory_initialized ?b"
    using p(1) i nv_scene_of_inv [OF inv i] by (auto simp: get_scene_def GetSceneProperties_def Let_def split: if_splits)
  have n: "unat (ns_numZones ?b) \<le> 100" and name0: "ns_name ?b ! 0 \<noteq> 0" using inv b(2) i by (simp_all add: scene_inv_def)
  have f: "sp_SceneNameString p = snprintf_s 21 (sp_SceneNameString out) (ns_name ?b)"
    "sp_EliotDeviceId p = (case nvEliotSceneProperties (sceneArray (scene_part l) ! i) of None \<Rightarrow> replicate 37 0
        | Some q \<Rightarrow> snprintf_s 37 (sp_EliotDeviceId out) (eliot_record (sn_flash (scene_part l)) q))"
    "sp_zoneData p = map (ns_zone ?b) [0..<unat (ns_numZones ?b)] @ drop (unat (ns_numZones ?b)) (sp_zoneData out)"
    "sp_numZonesInScene p = ns_numZones ?b"
    using p(1) i b(1) n by (auto simp: get_scene_def GetSceneProperties_def Let_def)
  have "length (ns_name ?b) = 21" by (simp add: ns_name_def scene_sizes)
  then have "ns_name ?b \<noteq> []" by (metis list.size(3) zero_neq_numeral)
  then have n0: "sp_SceneNameString p ! 0 \<noteq> 0"
    using name0 nonempty_cstr [of 20 "ns_name ?b"] snprintf_first [of 20 "sp_SceneNameString out" "ns_name ?b"]
    by (simp add: f(1))
  have len: "length (sp_SceneNameString p) = 21" "length (sp_EliotDeviceId p) = 37" "length (sp_zoneData p) = 100"
    using assms(3) n by (auto simp: f scene_buffers_def split: option.split)
  have "0 \<in> set (sp_SceneNameString p)" "0 \<in> set (sp_EliotDeviceId p)"
    using snprintf_nul by (auto simp: f split: option.split)
  then have "scene_args_ok p" using len n0 n by (simp add: scene_args_ok_def f(4))
  then show thesis using that p n0 len i by (simp add: scene_buffers_def)
qed

lemma same_scenes_map: "same_scenes l l' \<Longrightarrow> scene_of l' = scene_of l"
  by (simp add: same_scenes_def scene_of_def fun_eq_iff)

lemma same_scenes_stored: "same_scenes l l' \<Longrightarrow> stored_id l' i = stored_id l i"
  using same_scenes_map [of l l'] by (auto simp: same_scenes_def stored_id_def split: option.split)

lemma set_scene_map:
  assumes "ftfe_reliable (env_hw env)" "lcm_inv l" "stored_id l i" "scene_args_ok p" "sp_SceneNameString p ! 0 \<noteq> 0"
    and "scene_of l i = Some s" "cstr ELIOT_DEVICE_ID_SIZE (sp_EliotDeviceId p) = sp_EliotDeviceId s"
  obtains l' where "set_scene env i p l = Inr l'" "lcm_inv l'" "same_zones l l'" "same_controllers l l'"
    "scene_of l' = (scene_of l)(i \<mapsto> cut_scene p)" "stored_id l' i"
    "l' = l\<lparr>lcm_flash := lcm_flash l', lcm_scenes := lcm_scenes l'\<rparr>"
proof -
  have i: "i < 50" "sp_EliotDeviceId s \<noteq> []" "keeps_eliot_id (scene_part l) i s"
    using assms(3,6) by (simp_all add: stored_id_def)
  have "cstr 37 (sp_EliotDeviceId s) = sp_EliotDeviceId s" using assms(7) by (metis cstr_idem)
  then have k: "keeps_eliot_id (scene_part l) i p"
    using i(3) keeps_eliot_id_cong [of p s "scene_part l" i] assms(7) by simp
  have "sp_EliotDeviceId p \<noteq> []" using assms(4) by (auto simp: scene_args_ok_def)
  then have given: "sp_EliotDeviceId p ! 0 \<noteq> 0"
    using i(2) assms(7) nonempty_cstr [of 37 "sp_EliotDeviceId p"] by simp
  from set_scene_kept [OF assms(1,2) i(1) assms(4) k assms(5)]
  obtain l' where l': "set_scene env i p l = Inr l'" "lcm_inv l'" "same_zones l l'" "same_controllers l l'"
    "\<And>out. \<exists>q. get_scene l' i out = Inr (True, q) \<and> same_scene p q"
    "\<And>j out. j \<noteq> i \<Longrightarrow> get_scene l' j out = get_scene l j out"
    "\<And>q. sp_EliotDeviceId p ! 0 \<noteq> 0 \<Longrightarrow> cstr 37 (sp_EliotDeviceId q) = cstr 37 (sp_EliotDeviceId p) \<Longrightarrow> keeps_eliot_id (scene_part l') i q"
    "l' = l\<lparr>lcm_flash := lcm_flash l', lcm_scenes := lcm_scenes l'\<rparr>" by metis
  have at: "scene_of l' i = Some (cut_scene p)"
    using l'(5) [of blank_scene] cut_scene_eq_iff [of _ p] by (auto simp: scene_of_def)
  then have m: "scene_of l' = (scene_of l)(i \<mapsto> cut_scene p)" using l'(6) by (auto simp: scene_of_def fun_eq_iff)
  have "keeps_eliot_id (scene_part l') i (cut_scene p)" using l'(7) [OF given] by (simp add: cut_scene_def)
  then have "stored_id l' i" using at i(1,2) assms(7) by (simp add: stored_id_def) (simp add: cut_scene_def)
  then show thesis using that l' m by blast
qed

text \<open>A scene in the first 50 slots without its Eliot id in flash cannot be saved at all: the save overruns an array.\<close>

lemma unstored_save_overflows:
  assumes "ftfe_reliable (env_hw env)" "lcm_inv l" "scene_of l i = Some s" "i < NUM_ELIOT_PROPERTIES_IN_FLASH_SECTOR"
    "\<not> stored_id l i" "scene_id_ok p" "cstr ELIOT_DEVICE_ID_SIZE (sp_EliotDeviceId p) = sp_EliotDeviceId s"
  shows "set_scene env i p l = Inl OutOfBoundsWrite"
proof -
  have inv: "scene_inv (scene_part l)" using assms(2) by (simp add: lcm_inv_def)
  have ids: "cstr 37 (sp_EliotDeviceId s) = sp_EliotDeviceId s" using assms(7) by (metis cstr_idem)
  have "sp_EliotDeviceId p \<noteq> []" using assms(6) by (auto simp: scene_id_ok_def)
  moreover have "nvSceneProperties (sceneArray (scene_part l) ! i) \<noteq> None"
  proof
    assume "nvSceneProperties (sceneArray (scene_part l) ! i) = None"
    then have "scene_of l i = None" by (simp add: scene_of_def get_scene_def GetSceneProperties_def nv_scene_of_def)
    then show False using assms(3) by simp
  qed
  ultimately have "\<not> keeps_eliot_id (scene_part l) i p"
    using no_id_not_kept [OF inv assms(4)] assms(3-5,7) ids keeps_eliot_id_cong [of p s "scene_part l" i]
    by (auto simp: stored_id_def)
  then show ?thesis using SetScene_cases(1) [OF assms(1) inv assms(4,6)] by (simp add: set_scene_def)
qed
text \<open>Saving one scene does not change whether the others can be saved.\<close>

lemma set_scene_others:
  assumes "ftfe_reliable (env_hw env)" "lcm_inv l" "stored_id l i" "scene_args_ok p" "sp_SceneNameString p ! 0 \<noteq> 0"
    and "scene_of l i = Some s" "cstr ELIOT_DEVICE_ID_SIZE (sp_EliotDeviceId p) = sp_EliotDeviceId s"
    and set: "set_scene env i p l = Inr l'" "j \<noteq> i"
  shows "stored_id l' j = stored_id l j"
proof (cases "j < NUM_ELIOT_PROPERTIES_IN_FLASH_SECTOR")
  case True
  have inv: "scene_inv (scene_part l)" using assms(2) by (simp add: lcm_inv_def)
  have i: "i < 50" "keeps_eliot_id (scene_part l) i s" using assms(3,6) by (simp_all add: stored_id_def)
  have "cstr 37 (sp_EliotDeviceId s) = sp_EliotDeviceId s" using assms(7) by (metis cstr_idem)
  then have k: "keeps_eliot_id (scene_part l) i p"
    using i(2) keeps_eliot_id_cong [of p s "scene_part l" i] assms(7) by simp
  obtain st b e where st: "SetSceneProperties (env_hw env) (env_scene_ram env) (scene_part l) i p = Inr (True, st)"
    and o: "scene_outcome p i (scene_part l) st b e"
    using SetScene_cases(2) [OF assms(1) inv i(1) scene_args_id [OF assms(4)] assms(4) k, of "env_scene_ram env"] by blast
  have "l' = l\<lparr>lcm_flash := sn_flash st, lcm_scenes := sceneArray st\<rparr>" using set(1) by (simp add: set_scene_def st)
  then have l': "scene_part l' = st" by (simp add: scene_part_def)
  have si: "scene_inv st" by (rule scene_outcome_inv [OF inv i(1) assms(4) o])
  have j: "j < MAX_NUMBER_OF_SCENES" using True by simp
  note kept = other_scene_kept [OF inv o j set(2)]
  have "scene_of l' j = scene_of l j"
    using GetScene_other [OF inv si o j set(2)] by (simp add: scene_of_def get_scene_def l')
  moreover have "keeps_eliot_id (scene_part l') j q = keeps_eliot_id (scene_part l) j q" for q
    using kept(2,3) by (simp add: keeps_eliot_id_def l' split: option.split)
  ultimately show ?thesis by (simp add: stored_id_def split: option.split)
qed (simp add: stored_id_def)

end
