(* ===== verification/String_Sanitizer.thy ===== *)
theory String_Sanitizer
  imports Prelude
begin

unbundle bit_operations_syntax

text \<open>
  String_Sanitizer.c: names sent to the Eliot cloud keep letters, digits and a few signs; every other
  byte and every UTF-8 sequence of several bytes becomes one underscore
  (\<open>STRING_SANITIZER_MULTIBYTE_EXPANSION\<close> is 0). Pointers are suffixes of the input and an index into
  the output array, so that an access outside either is an error value.
\<close>

definition store :: "byte list \<Rightarrow> nat \<Rightarrow> byte \<Rightarrow> memory_error + byte list" where
  "store a i b = (if i < length a then Inr (a[i := b]) else Inl OutOfBoundsWrite)"

definition UNDERSCORE :: byte where "UNDERSCORE = 0x5F"

definition utf8_2_byte :: "byte \<Rightarrow> bool" where "utf8_2_byte c \<longleftrightarrow> c AND 0xE0 = 0xC0"
definition utf8_3_byte :: "byte \<Rightarrow> bool" where "utf8_3_byte c \<longleftrightarrow> c AND 0xF0 = 0xE0"
definition utf8_4_byte :: "byte \<Rightarrow> bool" where "utf8_4_byte c \<longleftrightarrow> c AND 0xF8 = 0xF0"

definition legal_character :: "byte \<Rightarrow> bool" where
  "legal_character c \<longleftrightarrow>
     0x61 \<le> c \<and> c \<le> 0x7A \<or> 0x41 \<le> c \<and> c \<le> 0x5A \<or> 0x30 \<le> c \<and> c \<le> 0x39 \<or>
     c = 0x2E \<or> c = 0x2D \<or> c = 0x5F \<or> c = 0x3A \<or> c = 0x20"

fun sanitize_loop ::
  "word_t \<Rightarrow> byte list \<Rightarrow> byte list \<Rightarrow> nat \<Rightarrow> word_t \<Rightarrow> memory_error + byte list \<times> nat" where
  "sanitize_loop sz [] out i len = Inl OutOfBoundsRead"
| "sanitize_loop sz (c # s1) out i len =
     (if c \<noteq> 0 \<and> unat len + 1 < unat sz then
        if utf8_2_byte c then
          (case s1 of [] \<Rightarrow> Inl OutOfBoundsRead | c1 # s2 \<Rightarrow>
             if c1 = 0 then bind_sum (store out i UNDERSCORE) (\<lambda>out. sanitize_loop sz (c1 # s2) out (i + 1) len)
             else bind_sum (store out i UNDERSCORE) (\<lambda>out. sanitize_loop sz s2 out (i + 1) (len + 1)))
        else if utf8_3_byte c then
          (case s1 of [] \<Rightarrow> Inl OutOfBoundsRead | c1 # s2 \<Rightarrow>
             if c1 = 0 then bind_sum (store out i UNDERSCORE) (\<lambda>out. sanitize_loop sz (c1 # s2) out (i + 1) len)
             else (case s2 of [] \<Rightarrow> Inl OutOfBoundsRead | c2 # s3 \<Rightarrow>
               if c2 = 0 then bind_sum (store out i UNDERSCORE) (\<lambda>out. sanitize_loop sz (c2 # s3) out (i + 1) len)
               else bind_sum (store out i UNDERSCORE) (\<lambda>out. sanitize_loop sz s3 out (i + 1) (len + 1))))
        else if utf8_4_byte c then
          (case s1 of [] \<Rightarrow> Inl OutOfBoundsRead | c1 # s2 \<Rightarrow>
             if c1 = 0 then bind_sum (store out i UNDERSCORE) (\<lambda>out. sanitize_loop sz (c1 # s2) out (i + 1) len)
             else (case s2 of [] \<Rightarrow> Inl OutOfBoundsRead | c2 # s3 \<Rightarrow>
               if c2 = 0 then bind_sum (store out i UNDERSCORE) (\<lambda>out. sanitize_loop sz (c2 # s3) out (i + 1) len)
               else (case s3 of [] \<Rightarrow> Inl OutOfBoundsRead | c3 # s4 \<Rightarrow>
                 if c3 = 0 then bind_sum (store out i UNDERSCORE) (\<lambda>out. sanitize_loop sz (c3 # s4) out (i + 1) len)
                 else bind_sum (store out i UNDERSCORE) (\<lambda>out. sanitize_loop sz s4 out (i + 1) (len + 1)))))
        else bind_sum (store out i (if legal_character c then c else UNDERSCORE))
               (\<lambda>out. sanitize_loop sz s1 out (i + 1) (len + 1))
      else Inr (out, i))"

definition SanitizeString :: "byte list \<Rightarrow> byte list \<Rightarrow> word_t \<Rightarrow> memory_error + byte list" where
  "SanitizeString out s sz = bind_sum (sanitize_loop sz s out 0 0) (\<lambda>(out, i). store out i 0)"

definition TaskSanitizeString :: "byte list \<Rightarrow> byte list \<Rightarrow> memory_error + byte list" where
  "TaskSanitizeString sanitizedNameString s = SanitizeString sanitizedNameString s 21"

subsection \<open>Reference: one character per character\<close>

fun sanitized :: "byte list \<Rightarrow> byte list" where
  "sanitized [] = []"
| "sanitized (c # s) =
     (if utf8_2_byte c then UNDERSCORE # sanitized (drop 1 s)
      else if utf8_3_byte c then UNDERSCORE # sanitized (drop 2 s)
      else if utf8_4_byte c then UNDERSCORE # sanitized (drop 3 s)
      else (if legal_character c then c else UNDERSCORE) # sanitized s)"

lemma store_next: "i < length out \<Longrightarrow> store out i b = Inr (take i out @ b # drop (Suc i) out)"
  by (simp add: store_def upd_conv_take_nth_drop)

declare sanitize_loop.simps [simp del]

lemma sanitize_loop_stop:
  "sanitize_loop sz (0 # r) out i len = Inr (out, i)"
  "\<not> unat len + 1 < unat sz \<Longrightarrow> sanitize_loop sz (c # r) out i len = Inr (out, i)"
  by (simp_all add: sanitize_loop.simps)

lemma sanitize_loop_step:
  assumes "c \<noteq> 0" "unat len + 1 < unat sz"
  shows "\<not> utf8_2_byte c \<Longrightarrow> \<not> utf8_3_byte c \<Longrightarrow> \<not> utf8_4_byte c \<Longrightarrow> sanitize_loop sz (c # s) out i len =
      bind_sum (store out i (if legal_character c then c else UNDERSCORE)) (\<lambda>out. sanitize_loop sz s out (i + 1) (len + 1))"
    and "utf8_2_byte c \<Longrightarrow> c1 \<noteq> 0 \<Longrightarrow> sanitize_loop sz (c # c1 # s) out i len =
      bind_sum (store out i UNDERSCORE) (\<lambda>out. sanitize_loop sz s out (i + 1) (len + 1))"
    and "\<not> utf8_2_byte c \<Longrightarrow> utf8_3_byte c \<Longrightarrow> c1 \<noteq> 0 \<Longrightarrow> c2 \<noteq> 0 \<Longrightarrow> sanitize_loop sz (c # c1 # c2 # s) out i len =
      bind_sum (store out i UNDERSCORE) (\<lambda>out. sanitize_loop sz s out (i + 1) (len + 1))"
    and "\<not> utf8_2_byte c \<Longrightarrow> \<not> utf8_3_byte c \<Longrightarrow> utf8_4_byte c \<Longrightarrow> c1 \<noteq> 0 \<Longrightarrow> c2 \<noteq> 0 \<Longrightarrow> c3 \<noteq> 0 \<Longrightarrow>
      sanitize_loop sz (c # c1 # c2 # c3 # s) out i len =
      bind_sum (store out i UNDERSCORE) (\<lambda>out. sanitize_loop sz s out (i + 1) (len + 1))"
    and "utf8_2_byte c \<or> utf8_3_byte c \<or> utf8_4_byte c \<Longrightarrow> sanitize_loop sz (c # 0 # s) out i len =
      bind_sum (store out i UNDERSCORE) (\<lambda>out. sanitize_loop sz (0 # s) out (i + 1) len)"
    and "\<not> utf8_2_byte c \<Longrightarrow> utf8_3_byte c \<or> utf8_4_byte c \<Longrightarrow> c1 \<noteq> 0 \<Longrightarrow> sanitize_loop sz (c # c1 # 0 # s) out i len =
      bind_sum (store out i UNDERSCORE) (\<lambda>out. sanitize_loop sz (0 # s) out (i + 1) len)"
    and "\<not> utf8_2_byte c \<Longrightarrow> \<not> utf8_3_byte c \<Longrightarrow> utf8_4_byte c \<Longrightarrow> c1 \<noteq> 0 \<Longrightarrow> c2 \<noteq> 0 \<Longrightarrow>
      sanitize_loop sz (c # c1 # c2 # 0 # s) out i len =
      bind_sum (store out i UNDERSCORE) (\<lambda>out. sanitize_loop sz (0 # s) out (i + 1) len)"
  using assms by (subst sanitize_loop.simps(2); auto)+

lemma len_Suc: "unat (len :: word_t) + 1 < unat (sz :: word_t) \<Longrightarrow> unat (len + 1) = unat len + 1"
proof -
  assume a: "unat len + 1 < unat sz"
  have "unat sz < 2 ^ LENGTH(16)" by (rule unsigned_less)
  with a show ?thesis by (simp add: unat_word_ariths)
qed

text \<open>One step: the byte \<open>b\<close> is stored and the rest of the string follows.\<close>

lemma sanitize_emit:
  assumes IH: "\<And>pre post len. unat len = length pre \<Longrightarrow> unat len < unat sz \<Longrightarrow> length pre + length post = unat sz \<Longrightarrow>
      sanitize_loop sz (s @ 0 # r) (pre @ post) (length pre) len =
        (let t = take (unat sz - 1 - length pre) (sanitized s)
         in Inr (pre @ t @ drop (length t) post, length pre + length t))"
    and "unat len = length pre" "unat len + 1 < unat sz" "length pre + length post = unat sz"
  shows "bind_sum (store (pre @ post) (length pre) b) (\<lambda>out. sanitize_loop sz (s @ 0 # r) out (length pre + 1) (len + 1)) =
     (let t = take (unat sz - 1 - length pre) (b # sanitized s)
      in Inr (pre @ t @ drop (length t) post, length pre + length t))"
proof -
  obtain p post' where post: "post = p # post'" using assms(2-4) by (cases post) auto
  have st: "store (pre @ post) (length pre) b = Inr ((pre @ [b]) @ post')"
    by (simp add: post store_next)
  have n: "unat sz - 1 - length pre = Suc (unat sz - 1 - length (pre @ [b]))" using assms(2,3) by simp
  have "unat (len + 1) = length (pre @ [b])" "unat (len + 1) < unat sz" "length (pre @ [b]) + length post' = unat sz"
    using len_Suc [OF assms(3)] assms(2-4) by (simp_all add: post)
  from IH [OF this] show ?thesis unfolding st n by (simp add: Let_def post)
qed

lemma sanitize_emit_last:
  assumes "unat len = length pre" "unat len + 1 < unat sz" "length pre + length post = unat sz"
  shows "bind_sum (store (pre @ post) (length pre) b) (\<lambda>out. sanitize_loop sz (0 # r) out (length pre + 1) len) =
     (let t = take (unat sz - 1 - length pre) [b]
      in Inr (pre @ t @ drop (length t) post, length pre + length t))"
proof -
  obtain p post' where post: "post = p # post'" using assms by (cases post) auto
  have n: "unat sz - 1 - length pre = Suc (unat sz - 2 - length pre)" using assms(1,2) by simp
  show ?thesis unfolding n by (simp add: post store_next Let_def sanitize_loop_stop)
qed

lemma sanitize_loop_correct:
  "0 \<notin> set s \<Longrightarrow> unat len = length pre \<Longrightarrow> unat len < unat sz \<Longrightarrow> length pre + length post = unat sz \<Longrightarrow>
   sanitize_loop sz (s @ 0 # r) (pre @ post) (length pre) len =
     (let t = take (unat sz - 1 - length pre) (sanitized s)
      in Inr (pre @ t @ drop (length t) post, length pre + length t))"
proof (induction s arbitrary: pre post len rule: sanitized.induct)
  case 1
  then show ?case by (simp add: sanitize_loop_stop)
next
  case (2 c s)
  show ?case
  proof (cases "unat len + 1 < unat sz")
    case False
    then have "unat sz - 1 - length pre = 0" using 2(6,7) by simp
    then show ?thesis using False by (simp add: sanitize_loop_stop)
  next
    case True
    have nz: "c \<noteq> 0" using 2(5) by auto
    note step = sanitize_loop_step [OF nz True]
    note last = sanitize_emit_last [OF 2(6) True 2(8), of UNDERSCORE r]
    have emit: "bind_sum (store (pre @ post) (length pre) b) (\<lambda>out. sanitize_loop sz (s' @ 0 # r) out (length pre + 1) (len + 1)) =
        (let t = take (unat sz - 1 - length pre) (b # sanitized s')
         in Inr (pre @ t @ drop (length t) post, length pre + length t))"
      if "\<And>pre post len. unat len = length pre \<Longrightarrow> unat len < unat sz \<Longrightarrow> length pre + length post = unat sz \<Longrightarrow>
        sanitize_loop sz (s' @ 0 # r) (pre @ post) (length pre) len =
          (let t = take (unat sz - 1 - length pre) (sanitized s')
           in Inr (pre @ t @ drop (length t) post, length pre + length t))" for s' b
      using that by (rule sanitize_emit [OF _ 2(6) True 2(8)])
    have s: "0 \<notin> set s" "0 \<notin> set (drop 1 s)" "0 \<notin> set (drop 2 s)" "0 \<notin> set (drop 3 s)"
      using 2(5) by (auto dest: in_set_dropD)
    let ?goal = "\<lambda>b s'. sanitize_loop sz ((c # s) @ 0 # r) (pre @ post) (length pre) len =
      (let t = take (unat sz - 1 - length pre) (b # sanitized s')
       in Inr (pre @ t @ drop (length t) post, length pre + length t))"
    consider (two) "utf8_2_byte c" | (three) "\<not> utf8_2_byte c" "utf8_3_byte c"
      | (four) "\<not> utf8_2_byte c" "\<not> utf8_3_byte c" "utf8_4_byte c"
      | (one) "\<not> utf8_2_byte c" "\<not> utf8_3_byte c" "\<not> utf8_4_byte c" by blast
    then show ?thesis
    proof cases
      case two
      consider "s = []" | c1 s2 where "s = c1 # s2" by (cases s) auto
      then have "?goal UNDERSCORE (drop 1 s)"
      proof cases
        case 1
        with two show ?thesis using last by (simp only: append_Nil append_Cons step(5) simp_thms drop_Nil sanitized.simps(1))
      next
        case (2 c1 s2)
        then have "c1 \<noteq> 0" "drop 1 s = s2" using s(1) by auto
        with emit [OF "2.IH"(1) [OF two s(2)], of UNDERSCORE] 2 two show ?thesis by (simp only: append_Cons step(2) simp_thms)
      qed
      with two show ?thesis by simp
    next
      case three
      consider "s = []" | c1 where "s = [c1]" "c1 \<noteq> 0" | c1 c2 s3 where "s = c1 # c2 # s3" "c1 \<noteq> 0" "c2 \<noteq> 0"
        using s(1) by (cases s rule: remdups_adj.cases) auto
      then have "?goal UNDERSCORE (drop 2 s)"
      proof cases
        case 1
        with three show ?thesis using last by (simp only: append_Nil append_Cons step(5) simp_thms drop_Nil sanitized.simps(1))
      next
        case (2 c1)
        then have "drop 2 s = []" by simp
        with three 2 show ?thesis using last by (simp only: append_Nil append_Cons step(6) simp_thms sanitized.simps(1))
      next
        case (3 c1 c2 s3)
        then have "drop 2 s = s3" by simp
        with emit [OF "2.IH"(2) [OF three s(3)], of UNDERSCORE] 3 three show ?thesis by (simp only: append_Cons step(3) simp_thms)
      qed
      with three show ?thesis by simp
    next
      case four
      consider "s = []" | c1 where "s = [c1]" "c1 \<noteq> 0" | c1 c2 where "s = [c1, c2]" "c1 \<noteq> 0" "c2 \<noteq> 0"
        | c1 c2 c3 s4 where "s = c1 # c2 # c3 # s4" "c1 \<noteq> 0" "c2 \<noteq> 0" "c3 \<noteq> 0"
        using s(1) by (metis list.exhaust list.set_intros)
      then have "?goal UNDERSCORE (drop 3 s)"
      proof cases
        case 1
        with four show ?thesis using last by (simp only: append_Nil append_Cons step(5) simp_thms drop_Nil sanitized.simps(1))
      next
        case (2 c1)
        then have "drop 3 s = []" by simp
        with four 2 show ?thesis using last by (simp only: append_Nil append_Cons step(6) simp_thms sanitized.simps(1))
      next
        case (3 c1 c2)
        then have "drop 3 s = []" by simp
        with four 3 show ?thesis using last by (simp only: append_Nil append_Cons step(7) simp_thms sanitized.simps(1))
      next
        case (4 c1 c2 c3 s4)
        then have "drop 3 s = s4" by simp
        with emit [OF "2.IH"(3) [OF four s(4)], of UNDERSCORE] 4 four show ?thesis by (simp only: append_Cons step(4) simp_thms)
      qed
      with four show ?thesis by simp
    next
      case one
      have "?goal (if legal_character c then c else UNDERSCORE) s"
        unfolding append_Cons step(1) [OF one] by (rule emit [OF "2.IH"(4) [OF one s(1)]])
      with one show ?thesis by simp
    qed
  qed
qed


subsection \<open>Sanitised names\<close>

lemma legal_not_lead:
  assumes "legal_character c"
  shows "c \<noteq> 0 \<and> \<not> utf8_2_byte c \<and> \<not> utf8_3_byte c \<and> \<not> utf8_4_byte c"
proof -
  have "c \<le> 0x7A" using assms by (auto simp: legal_character_def word_le_nat_alt)
  then have "unat c < 128" by (simp add: word_le_nat_alt)
  then have "\<not> bit (unat c) 7" by (simp add: bit_iff_odd)
  then have "\<not> bit c 7" by (simp add: bit_unsigned_iff)
  moreover have "bit (c AND m) 7" if "c AND m = x" "bit x 7" for m x :: byte using that by simp
  ultimately have "\<not> utf8_2_byte c" "\<not> utf8_3_byte c" "\<not> utf8_4_byte c"
    by (auto simp: utf8_2_byte_def utf8_3_byte_def utf8_4_byte_def bit_and_iff dest: arg_cong [where f = "\<lambda>w. bit w 7"])
  then show ?thesis using assms by (auto simp: legal_character_def)
qed

lemma sanitized_legal: "b \<in> set (sanitized s) \<Longrightarrow> legal_character b"
  by (induction s rule: sanitized.induct) (auto simp: UNDERSCORE_def legal_character_def split: if_splits)

lemma sanitized_id: "(\<And>b. b \<in> set t \<Longrightarrow> legal_character b) \<Longrightarrow> sanitized t = t"
  by (induction t) (auto dest: legal_not_lead)

text \<open>C22: SanitizeString writes, for every C string and every non-empty buffer, one legal character per
  character of the input, cut off to fit, and a terminating NUL; it reads nothing behind the input's NUL
  and writes nothing outside the buffer. Sanitising the result once more does not change it.\<close>

theorem SanitizeString_correct:
  assumes "0 \<notin> set s" "0 < unat sz" "length out = unat sz"
  defines "t \<equiv> take (unat sz - 1) (sanitized s)"
  shows "SanitizeString out (s @ 0 # r) sz = Inr (t @ 0 # drop (Suc (length t)) out) \<and>
    (\<forall>b \<in> set t. legal_character b) \<and>
    SanitizeString (t @ 0 # drop (Suc (length t)) out) (t @ 0 # r') sz = Inr (t @ 0 # drop (Suc (length t)) out)"
proof -
  have loop: "SanitizeString out' (s' @ 0 # r') sz =
      Inr (take (unat sz - 1) (sanitized s') @ 0 # drop (Suc (length (take (unat sz - 1) (sanitized s')))) out')"
    if "0 \<notin> set s'" "length out' = unat sz" for out' s' r'
  proof -
    define u where "u = take (unat sz - 1) (sanitized s')"
    have "length u < length out'" using that(2) assms(2) by (auto simp: u_def)
    then have "store (u @ drop (length u) out') (length u) 0 = Inr (u @ 0 # drop (Suc (length u)) out')"
      by (simp add: store_next)
    moreover have "sanitize_loop sz (s' @ 0 # r') out' 0 0 = Inr (u @ drop (length u) out', length u)"
      using sanitize_loop_correct [OF that(1), of 0 "[]" sz out' r'] that(2) assms(2) by (simp add: u_def Let_def)
    ultimately show ?thesis unfolding u_def [symmetric] by (simp add: SanitizeString_def)
  qed
  have legal: "legal_character b" if "b \<in> set t" for b
    using that sanitized_legal unfolding t_def by (meson in_set_takeD)
  have "0 \<notin> set t" using legal legal_not_lead by blast
  moreover have "take (unat sz - 1) (sanitized t) = t"
    using sanitized_id [of t] legal by (simp add: t_def)
  moreover have "length t < unat sz" using assms(2) by (auto simp: t_def)
  ultimately show ?thesis
    using loop [OF assms(1,3), of r, folded t_def] loop [of t "t @ 0 # drop (Suc (length t)) out" r'] legal assms(3)
    by simp
qed

text \<open>A name with an umlaut, a truncated sequence and a buffer of four bytes.\<close>

theorem SanitizeString_correct_witness:
  "SanitizeString [9, 9, 9, 9] ([0x4B, 0xC3, 0xBC, 0x63, 0x68, 0xE2] @ [0]) 4 = Inr [0x4B, 0x5F, 0x63, 0]"
  using SanitizeString_correct [of "[0x4B, 0xC3, 0xBC, 0x63, 0x68, 0xE2]" 4 "[9, 9, 9, 9]" "[]"]
  by (simp add: utf8_2_byte_def utf8_3_byte_def utf8_4_byte_def legal_character_def UNDERSCORE_def numeral_3_eq_3)

end
