(* ===== verification/Json.thy ===== *)
theory Json
  imports Lcm_State String_Sanitizer "HOL-Library.AList"
begin

text \<open>
  What the JSON services of Socket\_Task.c see of a request: the values of jansson (jansson.h and value.c),
  with the hash table of an object as the list of its pairs in the order in which they are visited, the
  error code of the answer, and the two passes over a property list, the first of which only checks.
  Allocations inside jansson succeed; a property list has every key once, as the parser of jansson keeps it.
\<close>

subsection \<open>Values\<close>

datatype json =
    JSON_OBJECT "(string \<times> json) list"
  | JSON_ARRAY "json list"
  | JSON_STRING "byte list"
  | JSON_INTEGER int
  | JSON_REAL
  | JSON_TRUE
  | JSON_FALSE
  | JSON_NULL

fun json_is_object :: "json option \<Rightarrow> bool" where
  "json_is_object (Some (JSON_OBJECT _)) = True"
| "json_is_object _ = False"

fun json_is_array :: "json option \<Rightarrow> bool" where
  "json_is_array (Some (JSON_ARRAY _)) = True"
| "json_is_array _ = False"

fun json_is_string :: "json option \<Rightarrow> bool" where
  "json_is_string (Some (JSON_STRING _)) = True"
| "json_is_string _ = False"

fun json_is_integer :: "json option \<Rightarrow> bool" where
  "json_is_integer (Some (JSON_INTEGER _)) = True"
| "json_is_integer _ = False"

fun json_is_true :: "json option \<Rightarrow> bool" where
  "json_is_true (Some JSON_TRUE) = True"
| "json_is_true _ = False"

fun json_is_boolean :: "json option \<Rightarrow> bool" where
  "json_is_boolean (Some JSON_TRUE) = True"
| "json_is_boolean (Some JSON_FALSE) = True"
| "json_is_boolean _ = False"

fun json_integer_value :: "json option \<Rightarrow> int" where
  "json_integer_value (Some (JSON_INTEGER n)) = n"
| "json_integer_value _ = 0"

text \<open>A string without its NUL.\<close>

fun json_string_value :: "json option \<Rightarrow> byte list" where
  "json_string_value (Some (JSON_STRING s)) = s"
| "json_string_value _ = []"

fun json_pairs :: "json option \<Rightarrow> (string \<times> json) list" where
  "json_pairs (Some (JSON_OBJECT ps)) = ps"
| "json_pairs _ = []"

fun json_elements :: "json option \<Rightarrow> json list" where
  "json_elements (Some (JSON_ARRAY vs)) = vs"
| "json_elements _ = []"

definition json_object_get :: "json option \<Rightarrow> string \<Rightarrow> json option" where
  "json_object_get v key = map_of (json_pairs v) key"

definition json_array_size :: "json option \<Rightarrow> nat" where
  "json_array_size v = length (json_elements v)"

definition json_array_get :: "json option \<Rightarrow> nat \<Rightarrow> json option" where
  "json_array_get v i = (if i < length (json_elements v) then Some (json_elements v ! i) else None)"

fun json_object_set :: "json \<Rightarrow> string \<Rightarrow> json \<Rightarrow> json" where
  "json_object_set (JSON_OBJECT ps) key v = JSON_OBJECT (AList.update key v ps)"
| "json_object_set w key v = w"

fun json_object_del :: "json \<Rightarrow> string \<Rightarrow> json" where
  "json_object_del (JSON_OBJECT ps) key = JSON_OBJECT (AList.delete key ps)"
| "json_object_del w key = w"

text \<open>A C string literal, without its NUL.\<close>

definition bytes_of :: "string \<Rightarrow> byte list" where
  "bytes_of s = map of_char s"

lemma json_object_get_simps [simp]:
  "json_object_get (Some (JSON_OBJECT ps)) key = map_of ps key" "json_object_get None key = None"
  by (simp_all add: json_object_get_def)

lemma json_object_get_set [simp]:
  "json_is_object (Some w) \<Longrightarrow> json_object_get (Some (json_object_set w key v)) k = (if k = key then Some v else json_object_get (Some w) k)"
  by (cases w) (simp_all add: update_conv')

lemma json_is_integerE: "json_is_integer v \<Longrightarrow> \<exists>n. v = Some (JSON_INTEGER n)"
  by (cases v rule: json_is_integer.cases) simp_all

lemma json_is_objectE: "json_is_object v \<Longrightarrow> \<exists>ps. v = Some (JSON_OBJECT ps)"
  by (cases v rule: json_is_object.cases) simp_all

lemma json_is_stringE: "json_is_string v \<Longrightarrow> \<exists>s. v = Some (JSON_STRING s)"
  by (cases v rule: json_is_string.cases) simp_all

subsection \<open>Answers\<close>

text \<open>The code in the answer; a later error replaces an earlier one.\<close>

type_synonym response = "nat option"

definition BuildErrorResponse :: "nat \<Rightarrow> response \<Rightarrow> response" where
  "BuildErrorResponse errorCode r = Some errorCode"

lemma BuildErrorResponse_Some [simp]: "BuildErrorResponse n r \<noteq> None"
  by (simp add: BuildErrorResponse_def)

abbreviation SW_APP_CONTEXT_ID_ERROR :: nat where "SW_APP_CONTEXT_ID_ERROR \<equiv> 2000"
abbreviation SW_INVALID_PROPERTY_IN_LIST :: nat where "SW_INVALID_PROPERTY_IN_LIST \<equiv> 2028"
abbreviation SW_INVALID_PROPERTY_LIST :: nat where "SW_INVALID_PROPERTY_LIST \<equiv> 2029"
abbreviation SW_PROPERTY_LIST_NAME_MUST_BE_A_STRING :: nat where "SW_PROPERTY_LIST_NAME_MUST_BE_A_STRING \<equiv> 2060"

text \<open>The context id is sent with the broadcast; a wrong one is an error, but stops only some services.\<close>

definition app_context :: "json option \<Rightarrow> response \<Rightarrow> response \<times> dword_t" where
  "app_context root r =
     (let appContextObj = json_object_get root ''AppContextId''
      in if appContextObj = None then (r, 0)
         else if json_is_integer appContextObj then (r, word_of_int (json_integer_value appContextObj))
         else (BuildErrorResponse SW_APP_CONTEXT_ID_ERROR r, 0))"

subsection \<open>Property lists\<close>

text \<open>One pass: \<open>handle key value\<close> answers whether there was an error. The flag of an empty list is
  the one from before.\<close>

fun each_property ::
  "(string \<Rightarrow> json \<Rightarrow> 's \<Rightarrow> memory_error + bool \<times> 's) \<Rightarrow> (string \<times> json) list \<Rightarrow> bool \<Rightarrow> 's \<Rightarrow> memory_error + bool \<times> 's" where
  "each_property handle [] errorFlag s = Inr (errorFlag, s)"
| "each_property handle ((key, v) # ps) errorFlag s =
     bind_sum (handle key v s) (\<lambda>(errorFlag, s).
       if errorFlag then Inr (True, s) else each_property handle ps False s)"

text \<open>A checking pass is refused with the error of the first property that has one.\<close>

fun first_error :: "(string \<Rightarrow> json \<Rightarrow> nat option) \<Rightarrow> (string \<times> json) list \<Rightarrow> nat option" where
  "first_error err [] = None"
| "first_error err ((key, v) # ps) = (case err key v of None \<Rightarrow> first_error err ps | Some code \<Rightarrow> Some code)"

lemma first_error_None: "first_error err ps = None \<longleftrightarrow> (\<forall>(key, v) \<in> set ps. err key v = None)"
  by (induction err ps rule: first_error.induct) (auto split: option.splits)

lemma each_property_check:
  assumes "\<And>key v. (key, v) \<in> set ps \<Longrightarrow>
      handle key v s = (case err key v of None \<Rightarrow> Inr (False, s) | Some code \<Rightarrow> Inr (True, fail code s))"
  shows "each_property handle ps flag s =
      (case first_error err ps of None \<Rightarrow> Inr (flag \<and> ps = [], s) | Some code \<Rightarrow> Inr (True, fail code s))"
  using assms
proof (induction ps arbitrary: flag)
  case (Cons p ps)
  obtain key v where p: "p = (key, v)" by fastforce
  have "each_property handle ps False s =
      (case first_error err ps of None \<Rightarrow> Inr (False \<and> ps = [], s) | Some code \<Rightarrow> Inr (True, fail code s))"
    using Cons.prems p by (intro Cons.IH) auto
  then show ?case using Cons.prems [of key v] p by (auto split: option.split)
qed simp

text \<open>An executing pass whose steps all accept.\<close>

lemma each_property_fold:
  assumes "\<And>key v s. (key, v) \<in> set ps \<Longrightarrow> P s \<Longrightarrow> handle key v s = Inr (False, step key v s)"
    and "\<And>key v s. (key, v) \<in> set ps \<Longrightarrow> P s \<Longrightarrow> P (step key v s)"
    and "P s"
  shows "each_property handle ps flag s = Inr (flag \<and> ps = [], fold (\<lambda>(key, v). step key v) ps s) \<and>
    P (fold (\<lambda>(key, v). step key v) ps s)"
  using assms
proof (induction ps arbitrary: flag s)
  case (Cons p ps)
  obtain key v where p: "p = (key, v)" by fastforce
  have "each_property handle ps False (step key v s) = Inr (False \<and> ps = [], fold (\<lambda>(key, v). step key v) ps (step key v s)) \<and>
    P (fold (\<lambda>(key, v). step key v) ps (step key v s))"
    using Cons.prems p by (intro Cons.IH) auto
  then show ?case using Cons.prems(1) [of key v s] Cons.prems(3) by (simp add: p)
qed simp

subsection \<open>Names\<close>

text \<open>A name is sanitised into a local array; the string in the request is replaced by the result, which is
  then copied into the properties.\<close>

definition SanitizeJsonStringObject :: "byte list \<Rightarrow> json \<Rightarrow> memory_error + json" where
  "SanitizeJsonStringObject newNameString v =
     bind_sum (SanitizeString newNameString (json_string_value (Some v) @ [0]) (of_nat MAX_SIZE_NAME_STRING))
       (\<lambda>s. Inr (JSON_STRING (cstr MAX_SIZE_NAME_STRING s)))"

definition set_name :: "byte list \<Rightarrow> json \<Rightarrow> byte list" where
  "set_name old v = (snprintf_s MAX_SIZE_NAME_STRING old (json_string_value (Some v) @ [0]))[MAX_SIZE_NAME_STRING - 1 := 0]"

text \<open>The name that is stored.\<close>

definition clean_name :: "byte list \<Rightarrow> byte list" where
  "clean_name s = take (MAX_SIZE_NAME_STRING - 1) (sanitized s)"

lemma clean_name_legal: "b \<in> set (clean_name s) \<Longrightarrow> legal_character b"
  by (metis clean_name_def in_set_takeD sanitized_legal)

lemma clean_name_no_nul: "0 \<notin> set (clean_name s)"
  using clean_name_legal legal_not_lead by blast

lemma length_clean_name: "length (clean_name s) \<le> 20"
  by (simp add: clean_name_def)

lemma sanitize_run:
  assumes "0 \<notin> set s" "0 < unat sz" "length out = unat sz"
  defines "t \<equiv> take (unat sz - 1) (sanitized s)"
  shows "SanitizeString out (s @ 0 # r) sz = Inr (t @ 0 # drop (Suc (length t)) out)"
proof -
  have "length t < length out" using assms(2,3) by (auto simp: t_def)
  then have "store (t @ drop (length t) out) (length t) 0 = Inr (t @ 0 # drop (Suc (length t)) out)"
    by (simp add: store_next)
  moreover have "sanitize_loop sz (s @ 0 # r) out 0 0 = Inr (t @ drop (length t) out, length t)"
    using sanitize_loop_correct [OF assms(1), of 0 "[]" sz out r] assms(2,3) by (simp add: t_def Let_def)
  ultimately show ?thesis by (simp add: SanitizeString_def)
qed

lemma takeWhile_nul: "0 \<notin> set t \<Longrightarrow> takeWhile (\<lambda>b. b \<noteq> 0) (t @ 0 # r) = t"
  by (induction t) auto

lemma cstr_cut: "0 \<notin> set t \<Longrightarrow> length t < n \<Longrightarrow> cstr n (t @ 0 # r) = t"
proof -
  assume "0 \<notin> set t" "length t < n"
  then obtain k where "n = length t + Suc k" by (metis add_Suc_right less_imp_Suc_add)
  then have "take n (t @ 0 # r) = t @ 0 # take k r" by simp
  then show ?thesis using \<open>0 \<notin> set t\<close> unfolding cstr_def by (simp add: takeWhile_nul del: take_append)
qed

lemma SanitizeJsonStringObject_clean:
  assumes "0 \<notin> set s" "length buf = MAX_SIZE_NAME_STRING"
  shows "SanitizeJsonStringObject buf (JSON_STRING s) = Inr (JSON_STRING (clean_name s))"
proof -
  have "SanitizeString buf (s @ [0]) 21 = Inr (clean_name s @ 0 # drop (Suc (length (clean_name s))) buf)"
    using sanitize_run [OF assms(1), of 21 buf "[]"] assms(2) by (simp add: clean_name_def)
  moreover have "cstr 21 (clean_name s @ 0 # r) = clean_name s" for r
    using cstr_cut clean_name_no_nul length_clean_name [of s] by (metis less_Suc_eq_le eval_nat_numeral(3) semiring_norm(28) semiring_norm(26) semiring_norm(27) Suc_numeral le_imp_less_Suc)
  ultimately show ?thesis by (simp add: SanitizeJsonStringObject_def)
qed

lemma set_name_clean:
  assumes "length old = MAX_SIZE_NAME_STRING"
  shows "length (set_name old (JSON_STRING (clean_name s))) = MAX_SIZE_NAME_STRING"
    "0 \<in> set (set_name old (JSON_STRING (clean_name s)))"
    "cstr MAX_SIZE_NAME_STRING (set_name old (JSON_STRING (clean_name s))) = clean_name s"
    "set_name old (JSON_STRING (clean_name s)) ! 0 = 0 \<longleftrightarrow> sanitized s = []"
proof -
  have c: "cstr 20 (clean_name s @ [0]) = clean_name s"
    using length_clean_name [of s] clean_name_no_nul [of s] unfolding cstr_def
    by (cases "length (clean_name s) = 20") (auto simp: takeWhile_nul takeWhile_eq_all_conv)
  have sn: "set_name old (JSON_STRING (clean_name s)) = (clean_name s @ 0 # drop (Suc (length (clean_name s))) old)[20 := 0]"
    by (simp add: set_name_def snprintf_s_def c Let_def)
  have len: "length (clean_name s @ 0 # drop (Suc (length (clean_name s))) old) = 21"
    using assms length_clean_name [of s] by simp
  show "length (set_name old (JSON_STRING (clean_name s))) = 21" using len by (simp add: sn)
  show "0 \<in> set (set_name old (JSON_STRING (clean_name s)))"
    unfolding sn using len by (intro set_update_memI) simp
  have split: "set_name old (JSON_STRING (clean_name s)) = clean_name s @ (0 # drop (Suc (length (clean_name s))) old)[20 - length (clean_name s) := 0]"
    using length_clean_name [of s] by (simp add: sn list_update_append)
  have "(0 # drop (Suc (length (clean_name s))) old)[20 - length (clean_name s) := 0] =
     0 # tl ((0 # drop (Suc (length (clean_name s))) old)[20 - length (clean_name s) := 0])"
    by (cases "20 - length (clean_name s)") simp_all
  then have e: "set_name old (JSON_STRING (clean_name s)) = clean_name s @ 0 # tl ((0 # drop (Suc (length (clean_name s))) old)[20 - length (clean_name s) := 0])"
    using split by simp
  show "cstr 21 (set_name old (JSON_STRING (clean_name s))) = clean_name s"
    unfolding e using length_clean_name [of s] by (intro cstr_cut clean_name_no_nul) simp
  show "set_name old (JSON_STRING (clean_name s)) ! 0 = 0 \<longleftrightarrow> sanitized s = []"
  proof (cases "clean_name s")
    case Nil
    then show ?thesis unfolding e by (simp add: clean_name_def)
  next
    case (Cons b t)
    then have "b \<noteq> 0" using clean_name_no_nul [of s] by auto
    moreover have "set_name old (JSON_STRING (clean_name s)) ! 0 = b" by (subst e) (simp add: Cons)
    moreover have "sanitized s \<noteq> []" using Cons by (auto simp: clean_name_def)
    ultimately show ?thesis by simp
  qed
qed

end
