(* ===== verification/Shade_Ids.thy ===== *)
theory Shade_Ids
  imports Zones
begin

unbundle bit_operations_syntax

text \<open>
  The identifiers of the shades, kept in a flash sector of their own (Flash.c): \<open>shadeInfoStruct\<close> holds 100
  identifiers of 40 bytes and a bit array of 13 bytes, and is written and read as a whole, behind its CRC.
\<close>

abbreviation LCM_DATA_SHADE_ID_START_ADDRESS :: nat where "LCM_DATA_SHADE_ID_START_ADDRESS \<equiv> 0xef000"
abbreviation MAX_SIZE_QMOTION_DEVICE_ID_STRING :: nat where "MAX_SIZE_QMOTION_DEVICE_ID_STRING \<equiv> 40"
abbreviation ZONE_BIT_ARRAY_BYTES :: nat where "ZONE_BIT_ARRAY_BYTES \<equiv> 13"

abbreviation sizeof_shadeInfoStruct :: nat where "sizeof_shadeInfoStruct \<equiv> 4013"

definition shadeInfoStruct :: "byte list list \<Rightarrow> byte list \<Rightarrow> byte list" where
  "shadeInfoStruct shadeInfo zoneIsShadeGroupBitArray = concat shadeInfo @ zoneIsShadeGroupBitArray"

text \<open>\<open>junk\<close> is the memory behind the structure, of which the last phrase takes three bytes. The result of
  writing the CRC is overwritten by that of writing the structure.\<close>

definition WriteAllShadeIdsToFlash :: "ftfe_hw \<Rightarrow> memory \<Rightarrow> byte list \<Rightarrow> memory \<Rightarrow> memory \<times> dword_t" where
  "WriteAllShadeIdsToFlash hw m info junk =
     (let calculatedCRCValue = UpdateCRC16 0xFFFF info;
          (m, _) = FlashEraseSector hw ftfl_cfg m LCM_DATA_SHADE_ID_START_ADDRESS 0x1000;
          (m, _) = FlashProgramPhrase hw ftfl_cfg m LCM_DATA_SHADE_ID_START_ADDRESS (unat (flash_sizeof 8))
                     (array_ram (crcArray calculatedCRCValue) junk) 0
      in FlashProgramPhrase hw ftfl_cfg m (LCM_DATA_SHADE_ID_START_ADDRESS + 8)
           (unat (flash_sizeof (of_nat sizeof_shadeInfoStruct))) (array_ram info junk) 0)"

definition ReadAllShadeIdsFromFlash :: "memory \<Rightarrow> byte list \<Rightarrow> byte list" where
  "ReadAllShadeIdsFromFlash m info =
     (let storedCRCValue = word_of_bytes (m LCM_DATA_SHADE_ID_START_ADDRESS) (m (LCM_DATA_SHADE_ID_START_ADDRESS + 1));
          stored = read_bytes m (LCM_DATA_SHADE_ID_START_ADDRESS + 2 + 6) sizeof_shadeInfoStruct;
          calculatedCRCValue = UpdateCRC16 0xFFFF stored
      in if storedCRCValue = calculatedCRCValue then stored else info)"

lemma shade_sizes: "unat (flash_sizeof 8) = 8" "unat (flash_sizeof 4013) = 4016"
  by (simp_all add: flash_sizeof_def)

lemma write_shade_ids:
  assumes "ftfe_reliable hw"
  shows "WriteAllShadeIdsToFlash hw m info junk =
    (write_bytes (fill_bytes m LCM_DATA_SHADE_ID_START_ADDRESS 0x1000 0xFF) LCM_DATA_SHADE_ID_START_ADDRESS
       (crcArray (UpdateCRC16 0xFFFF info) @ read_bytes (array_ram info junk) 0 4016), FTFx_OK)"
proof -
  let ?a = LCM_DATA_SHADE_ID_START_ADDRESS and ?c = "crcArray (UpdateCRC16 0xFFFF info)"
  let ?m1 = "fill_bytes m ?a 0x1000 0xFF"
  have 1: "FlashEraseSector hw ftfl_cfg m ?a 0x1000 = (?m1, FTFx_OK)"
    by (intro ftfe_reliable.erase_exact [OF assms]) simp_all
  have l: "length ?c = 8" by (simp add: crcArray_def)
  have "FlashProgramPhrase hw ftfl_cfg ?m1 ?a 8 (array_ram ?c junk) 0 =
      (write_bytes ?m1 ?a (read_bytes (array_ram ?c junk) 0 8), FTFx_OK)"
    by (intro ftfe_reliable.program_exact [OF assms]) (simp_all add: mem_simps)
  then have 2: "FlashProgramPhrase hw ftfl_cfg ?m1 ?a 8 (array_ram ?c junk) 0 = (write_bytes ?m1 ?a ?c, FTFx_OK)"
    using read_array_ram [of ?c junk] l by simp
  have 3: "FlashProgramPhrase hw ftfl_cfg (write_bytes ?m1 ?a ?c) (?a + 8) 4016 (array_ram info junk) 0 =
      (write_bytes (write_bytes ?m1 ?a ?c) (?a + 8) (read_bytes (array_ram info junk) 0 4016), FTFx_OK)"
    using l by (intro ftfe_reliable.program_exact [OF assms]) (simp_all add: mem_simps)
  show ?thesis
    using 1 2 3 write_bytes_append [of ?m1 ?a ?c "read_bytes (array_ram info junk) 0 4016"] l
    by (simp add: WriteAllShadeIdsToFlash_def shade_sizes Let_def)
qed

lemma write_shade_ids_outside:
  assumes "ftfe_reliable hw" "x < LCM_DATA_SHADE_ID_START_ADDRESS \<or> LCM_DATA_SHADE_ID_START_ADDRESS + 0x1000 \<le> x"
  shows "fst (WriteAllShadeIdsToFlash hw m info junk) x = m x"
  unfolding write_shade_ids [OF assms(1)] fst_conv using assms(2) by (auto simp: write_bytes_def crcArray_def fill_bytes_def)

lemma word_of_bytes_inject: "word_of_bytes x y = word_of_bytes x' y' \<longleftrightarrow> x = x' \<and> y = y'"
proof
  assume e: "word_of_bytes x y = word_of_bytes x' y'"
  have b: "bit (word_of_bytes u v) (n + 8) = bit u n" "bit (word_of_bytes u v) n = bit v n" if "n < 8" for u v n
    using that by (auto simp: word_of_bytes_def bit_simps dest: bit_imp_le_length)
  have "bit x n = bit x' n" "bit y n = bit y' n" if "n < 8" for n using b [OF that] e by metis+
  then show "x = x' \<and> y = y'" by (auto intro!: bit_word_eqI)
qed simp

text \<open>The structure or the CRC changed in two neighbouring bytes.\<close>

lemma shade_ids_corrupted:
  assumes valid: "word_of_bytes (m LCM_DATA_SHADE_ID_START_ADDRESS) (m (LCM_DATA_SHADE_ID_START_ADDRESS + 1)) =
      UpdateCRC16 0xFFFF (read_bytes m (LCM_DATA_SHADE_ID_START_ADDRESS + 8) sizeof_shadeInfoStruct)"
    and k: "k = LCM_DATA_SHADE_ID_START_ADDRESS \<or>
      LCM_DATA_SHADE_ID_START_ADDRESS + 8 \<le> k \<and> k + 1 < LCM_DATA_SHADE_ID_START_ADDRESS + 8 + sizeof_shadeInfoStruct"
    and changed: "b1 \<noteq> m k \<or> b2 \<noteq> m (k + 1)"
  shows "ReadAllShadeIdsFromFlash (m(k := b1, k + 1 := b2)) old = old"
proof -
  let ?a = LCM_DATA_SHADE_ID_START_ADDRESS and ?m = "m(k := b1, k + 1 := b2)"
  consider "k = ?a" | j where "k = ?a + 8 + j" "j + 2 \<le> sizeof_shadeInfoStruct"
  proof (cases "k = ?a")
    case False
    then have "k = ?a + 8 + (k - (?a + 8))" "k - (?a + 8) + 2 \<le> sizeof_shadeInfoStruct" using k by auto
    then show thesis by (rule that(2))
  qed
  then have "word_of_bytes (?m ?a) (?m (?a + 1)) \<noteq> UpdateCRC16 0xFFFF (read_bytes ?m (?a + 8) sizeof_shadeInfoStruct)"
  proof cases
    case 1
    then have "read_bytes ?m (?a + 8) sizeof_shadeInfoStruct = read_bytes m (?a + 8) sizeof_shadeInfoStruct"
      by (auto intro!: read_bytes_cong)
    moreover have "?m ?a = b1" "?m (?a + 1) = b2" using 1 by simp_all
    moreover have "word_of_bytes b1 b2 \<noteq> word_of_bytes (m ?a) (m (?a + 1))" using changed 1 by (simp add: word_of_bytes_inject)
    ultimately show ?thesis using valid by simp
  next
    case 2
    have same: "read_bytes ?m (?a + 8) j = read_bytes m (?a + 8) j"
      "read_bytes ?m (?a + 8 + j + 2) (sizeof_shadeInfoStruct - (j + 2)) = read_bytes m (?a + 8 + j + 2) (sizeof_shadeInfoStruct - (j + 2))"
      using 2(1) by (auto intro!: read_bytes_cong)
    have "UpdateCRC16 0xFFFF (read_bytes ?m (?a + 8) sizeof_shadeInfoStruct) \<noteq> UpdateCRC16 0xFFFF (read_bytes m (?a + 8) sizeof_shadeInfoStruct)"
      using changed 2(1) unfolding read_bytes_pair [OF 2(2)] same crc16_burst by simp
    moreover have "?m ?a = m ?a" "?m (?a + 1) = m (?a + 1)" using 2(1) by simp_all
    ultimately show ?thesis using valid by simp
  qed
  then show ?thesis by (simp add: ReadAllShadeIdsFromFlash_def Let_def)
qed

text \<open>C31: the shade identifiers survive a restart, and corrupted ones are not taken over. With a reliable controller,
  writing them answers FTFx_OK, changes no flash outside their sector, and reading them back returns exactly what was
  written. When two neighbouring bytes of the stored structure, or the two of its CRC, have changed to anything else,
  reading leaves the structure in RAM as it was.\<close>

theorem shade_ids_roundtrip:
  assumes "ftfe_reliable hw" "length info = sizeof_shadeInfoStruct"
  shows "\<exists>m'. WriteAllShadeIdsToFlash hw m info junk = (m', FTFx_OK) \<and> ReadAllShadeIdsFromFlash m' old = info \<and>
    (\<forall>x. x < LCM_DATA_SHADE_ID_START_ADDRESS \<or> LCM_DATA_SHADE_ID_START_ADDRESS + 0x1000 \<le> x \<longrightarrow> m' x = m x) \<and>
    (\<forall>k b1 b2. (k = LCM_DATA_SHADE_ID_START_ADDRESS \<or>
        LCM_DATA_SHADE_ID_START_ADDRESS + 8 \<le> k \<and> k + 1 < LCM_DATA_SHADE_ID_START_ADDRESS + 8 + sizeof_shadeInfoStruct) \<and>
        (b1 \<noteq> m' k \<or> b2 \<noteq> m' (k + 1)) \<longrightarrow> ReadAllShadeIdsFromFlash (m'(k := b1, k + 1 := b2)) old = old)"
proof -
  let ?a = LCM_DATA_SHADE_ID_START_ADDRESS and ?c = "crcArray (UpdateCRC16 0xFFFF info)"
  let ?m1 = "fill_bytes m ?a 0x1000 0xFF" and ?d = "read_bytes (array_ram info junk) 0 4016"
  let ?m = "write_bytes ?m1 ?a (?c @ ?d)"
  have l: "length ?c = 8" by (simp add: crcArray_def)
  have "?m = write_bytes (write_bytes ?m1 ?a ?c) (?a + 8) ?d" using write_bytes_append [of ?m1 ?a ?c ?d] l by simp
  then have "read_bytes ?m (?a + 8) 4013 = take 4013 ?d" by (simp add: mem_simps)
  also have "\<dots> = info" using read_array_ram [of info junk] assms(2) by simp
  finally have data: "read_bytes ?m (?a + 8) 4013 = info" .
  have "?m ?a = HighByteOfWord (UpdateCRC16 0xFFFF info)" "?m (?a + 1) = LowByteOfWord (UpdateCRC16 0xFFFF info)"
    by (simp_all add: write_bytes_def crcArray_def)
  then have crc: "word_of_bytes (?m ?a) (?m (?a + 1)) = UpdateCRC16 0xFFFF (read_bytes ?m (?a + 8) sizeof_shadeInfoStruct)"
    using data by simp
  then have "ReadAllShadeIdsFromFlash ?m old = info" using data by (simp add: ReadAllShadeIdsFromFlash_def Let_def)
  then show ?thesis
    using write_shade_ids [OF assms(1), of m info junk] write_shade_ids_outside [OF assms(1), of _ m info junk]
      shade_ids_corrupted [OF crc] by auto
qed

theorem shade_ids_roundtrip_witness:
  "ReadAllShadeIdsFromFlash (fst (WriteAllShadeIdsToFlash ftfe_emulator (\<lambda>x. 7) (replicate sizeof_shadeInfoStruct 65) (\<lambda>x. 1))) [] =
     replicate sizeof_shadeInfoStruct 65"
proof -
  have "length (replicate sizeof_shadeInfoStruct (65 :: byte)) = sizeof_shadeInfoStruct" by (rule length_replicate)
  from shade_ids_roundtrip [OF emulator_reliable this, of "\<lambda>x. 7" "\<lambda>x. 1" "[]"] show ?thesis by force
qed

end
