(* ===== verification/Transmit_Task.thy ===== *)
theory Transmit_Task
  imports Lcm_State
begin

unbundle bit_operations_syntax

text \<open>
  The RF transmit task of RFM100\_Tasks.c: the routines that queue messages for it, the handling of one
  message and the task's retries. A ramp message carries the address of a zone; the level that goes on
  the air is read from the zone table when the message is handled.
\<close>

abbreviation RFM100_MESSAGE_LOW_PRIORITY :: byte where "RFM100_MESSAGE_LOW_PRIORITY \<equiv> 0"
abbreviation RFM100_MESSAGE_HIGH_PRIORITY :: byte where "RFM100_MESSAGE_HIGH_PRIORITY \<equiv> 1"
abbreviation NUMBER_OF_RFM100_TRANSMIT_ATTEMPTS :: nat where "NUMBER_OF_RFM100_TRANSMIT_ATTEMPTS \<equiv> 3"

subsection \<open>Queueing messages\<close>

text \<open>\<open>errorFlag\<close> is the negated result of \<open>_msgq_send_priority\<close>.\<close>

definition queue_message :: "environment \<Rightarrow> transmit_message \<Rightarrow> byte \<Rightarrow> lcm \<Rightarrow> bool \<times> lcm" where
  "queue_message env msg priority l =
     (let (sent, q) = msgq_send_priority env (transmitQueue l) msg priority
      in (\<not> sent, l\<lparr>transmitQueue := q\<rparr>))"

definition SendRampCommandToTransmitTask :: "environment \<Rightarrow> nat \<Rightarrow> byte \<Rightarrow> byte \<Rightarrow> byte \<Rightarrow> lcm \<Rightarrow> bool \<times> lcm" where
  "SendRampCommandToTransmitTask env zoneIndex sceneId scenePercent priority l =
     (if msg_alloc env (transmitMessages l) then
        let l = l\<lparr>transmitMessages := transmitMessages l + 1\<rparr>;
            (found, zoneProperties) = get_zone l zoneIndex (stack_zone env)
        in if found
           then queue_message env ((pool_message env)\<lparr>tm_command := RAMP, tm_groupId := zp_groupId zoneProperties,
                  tm_buildingId := zp_buildingId zoneProperties, tm_houseId := zp_houseId zoneProperties,
                  tm_sceneId := sceneId, tm_scenePercent := scenePercent\<rparr>) priority l
           else (True, l)
      else (True, l\<lparr>transmitAllocErrors := transmitAllocErrors l + 1\<rparr>))"

text \<open>A NULL pointer is \<open>None\<close>; the allocated message is not returned to the pool then.\<close>

definition send_controller_message ::
  "environment \<Rightarrow> scene_controller_properties option \<Rightarrow> (scene_controller_properties \<Rightarrow> transmit_message \<Rightarrow> transmit_message)
     \<Rightarrow> lcm \<Rightarrow> bool \<times> lcm" where
  "send_controller_message env controller fill l =
     (if msg_alloc env (transmitMessages l) then
        let l = l\<lparr>transmitMessages := transmitMessages l + 1\<rparr>
        in case controller of
             None \<Rightarrow> (True, l)
           | Some c \<Rightarrow> queue_message env (fill c ((pool_message env)\<lparr>tm_groupId := sc_groupId c,
                 tm_buildingId := sc_buildingId c, tm_houseId := sc_houseId c\<rparr>)) RFM100_MESSAGE_LOW_PRIORITY l
      else (True, l\<lparr>transmitAllocErrors := transmitAllocErrors l + 1\<rparr>))"

definition SendSceneExecutedToTransmitTask ::
  "environment \<Rightarrow> scene_controller_properties option \<Rightarrow> byte \<Rightarrow> byte \<Rightarrow> bool \<Rightarrow> lcm \<Rightarrow> bool \<times> lcm" where
  "SendSceneExecutedToTransmitTask env controller sceneId avgLevel state =
     send_controller_message env controller (\<lambda>c m. m\<lparr>tm_command := SCENE_EXECUTED, tm_sceneId := sceneId,
       tm_avgLevel := avgLevel, tm_state := of_bool state\<rparr>)"

definition SendAssignSceneCommandToTransmitTask ::
  "environment \<Rightarrow> scene_controller_properties option \<Rightarrow> nat \<Rightarrow> byte \<Rightarrow> lcm \<Rightarrow> bool \<times> lcm" where
  "SendAssignSceneCommandToTransmitTask env controller buttonIdx avgLevel =
     send_controller_message env controller (\<lambda>c m. m\<lparr>tm_command := ASSIGN_SCENE,
       tm_sceneId := bk_sceneId (sc_bank c ! buttonIdx), tm_buttonIndex := of_nat buttonIdx,
       tm_toggled := bk_toggled (sc_bank c ! buttonIdx), tm_toggleable := bk_toggleable (sc_bank c ! buttonIdx),
       tm_avgLevel := avgLevel\<rparr>)"

definition SendSceneSettingsCommandToTransmitTask ::
  "environment \<Rightarrow> scene_controller_properties option \<Rightarrow> byte \<Rightarrow> bool \<Rightarrow> lcm \<Rightarrow> bool \<times> lcm" where
  "SendSceneSettingsCommandToTransmitTask env controller nightMode clearScene =
     send_controller_message env controller (\<lambda>c m. m\<lparr>tm_command := SCENE_CTL_SETTING,
       tm_value := (if clearScene then 0x02 else nightMode)\<rparr>)"

subsection \<open>Handling a message\<close>

definition BuildSceneExecute :: "lcm \<Rightarrow> nat \<Rightarrow> scene_controller_properties \<Rightarrow> byte \<Rightarrow> bool \<Rightarrow> byte \<Rightarrow> word_t \<Rightarrow> byte list" where
  "BuildSceneExecute l sceneControllerIndex stack sceneId state avgLevel groupId =
     (let (found, c) = get_controller l sceneControllerIndex stack
      in if found
         then group_packet (sc_buildingId c) (sc_houseId c) groupId
                [SCENE_EXECUTED_FUNCTION_BYTE, sceneId, if state then 0x40 else 0, avgLevel]
         else [])"

definition is_shade :: "zone_properties \<Rightarrow> bool" where
  "is_shade z \<longleftrightarrow> zp_deviceType z = SHADE_TYPE \<or> zp_deviceType z = SHADE_GROUP_TYPE"

text \<open>Whether to send (\<open>processFlag\<close>) and whether to tell the apps (\<open>broadcastFlag\<close>).\<close>

definition ramp_flags :: "zone_properties \<Rightarrow> bool \<times> bool" where
  "ramp_flags z =
     (if zp_state z = zp_targetState z then
        if zp_targetState z then (zp_powerLevel z \<noteq> zp_targetPowerLevel z, False)
        else if zp_powerLevel z \<noteq> zp_targetPowerLevel z then (is_shade z, True)
        else (False, False)
      else (True, False))"

text \<open>The target is reached as soon as the ramp is handled.\<close>

definition reach_target :: "zone_properties \<Rightarrow> zone_properties" where
  "reach_target z = z\<lparr>zp_powerLevel := zp_targetPowerLevel z, zp_state := zp_targetState z\<rparr>"

definition update_ramped_zone :: "environment \<Rightarrow> nat \<Rightarrow> zone_properties \<Rightarrow> lcm \<Rightarrow> zone_properties \<times> lcm" where
  "update_ramped_zone env zoneIdx z l =
     (let (processFlag, broadcastFlag) = ramp_flags z;
          l = (if broadcastFlag then l\<lparr>lcm_zoneChanged := insert zoneIdx (lcm_zoneChanged l)\<rparr> else l)
      in if processFlag \<or> broadcastFlag then
           let z = reach_target z;
               l = set_zone env zoneIdx z l;
               l = (if json_object_ok env 2632 then emit (ZonePropertiesChanged zoneIdx (zp_AppContextId z)) l else l)
           in (z, emit (EliotZoneChanged zoneIdx) l)
         else (z, l))"

text \<open>The packet is built from the table, not from the local copy.\<close>

definition transmit_ramp :: "environment \<Rightarrow> nat \<Rightarrow> zone_properties \<Rightarrow> lcm \<Rightarrow> lcm" where
  "transmit_ramp env zoneIdx z l =
     (if is_shade z then
        if lcm_qubeAddress l then emit (ShadeCommand zoneIdx (zp_powerLevel z)) l else l
      else
        let (xmitBuffer, q) = BuildRamp (zone_part l) zoneIdx (stack_zone env) (purge_clock env) (stamp_clock env)
                                (lcm_sentQueue l)
        in emit (RadioSend xmitBuffer) (l\<lparr>lcm_sentQueue := q\<rparr>))"

text \<open>The last zone of a scene ends it.\<close>

definition finish_scene :: "environment \<Rightarrow> transmit_message \<Rightarrow> zone_properties \<Rightarrow> lcm \<Rightarrow> memory_error + lcm" where
  "finish_scene env m z l =
     (if unat (tm_sceneId m) < MAX_NUMBER_OF_SCENES then
        bind_sum (get_scene l (unat (tm_sceneId m)) (stack_scene env)) (\<lambda>(found, sceneProperties).
        if found \<and> sp_running sceneProperties = 1 \<and> tm_scenePercent m = 100 \<and> json_object_ok env 2712 \<and> json_object_ok env 2715
        then bind_sum (set_scene env (unat (tm_sceneId m)) (sceneProperties\<lparr>sp_running := 0\<rparr>) l) (\<lambda>l.
             Inr (emit (ScenePropertiesChanged (tm_sceneId m) (zp_AppContextId z) (Some False)) l))
        else Inr l)
      else Inr l)"

definition handle_ramp :: "environment \<Rightarrow> transmit_message \<Rightarrow> bool \<Rightarrow> lcm \<Rightarrow> memory_error + bool \<times> lcm" where
  "handle_ramp env m forceSendFlag l =
     (let zoneIdx = GetZoneIndex (zone_part l) (tm_groupId m) (tm_buildingId m) (tm_houseId m)
      in if zoneIdx < MAX_NUMBER_OF_ZONES then
           let (found, z) = get_zone l zoneIdx (stack_zone env)
           in if found then
                let processFlag = fst (ramp_flags z);
                    (z, l) = update_ramped_zone env zoneIdx z l;
                    sent = (processFlag \<or> forceSendFlag);
                    l = (if sent then transmit_ramp env zoneIdx z l else l)
                in bind_sum (finish_scene env m z l) (\<lambda>l. Inr (sent, l))
              else Inr (False, l)
         else Inr (False, l))"

definition HandleTransmitTaskMessage :: "environment \<Rightarrow> transmit_message \<Rightarrow> bool \<Rightarrow> lcm \<Rightarrow> memory_error + bool \<times> lcm" where
  "HandleTransmitTaskMessage env m forceSendFlag l =
     (if tm_command m = RAMP then handle_ramp env m forceSendFlag l
      else if tm_command m = ASSIGN_SCENE then
        Inr (True, emit (RadioSend (BuildAssignScene (tm_groupId m) (tm_buildingId m) (tm_houseId m) (tm_sceneId m)
               (tm_buttonIndex m) (bit (tm_toggled m) 0) (bit (tm_toggleable m) 0) (tm_avgLevel m))) l)
      else if tm_command m = SCENE_EXECUTED then
        let sctlIdx = GetSceneControllerIndex (controller_part l) (tm_groupId m) (tm_buildingId m) (tm_houseId m)
        in Inr (True, emit (RadioSend (BuildSceneExecute l sctlIdx (stack_controller env) (tm_sceneId m) (tm_state m \<noteq> 0)
                 (tm_avgLevel m) 0)) l)
      else if tm_command m = SCENE_CTL_SETTING then
        Inr (True, emit (RadioSend (BuildSceneSettings (tm_value m) (tm_groupId m) (tm_buildingId m) (tm_houseId m))) l)
      else Inr (False, l))"

text \<open>One message of the task's queue. \<open>acks n\<close> is what arrives in the acknowledge queue after the
  attempt with \<open>n\<close> more to go; a scene's ramps and every retry are sent even when the zone is at its target.\<close>

fun transmit_attempts :: "environment \<Rightarrow> transmit_message \<Rightarrow> (nat \<Rightarrow> byte option) \<Rightarrow> nat \<Rightarrow> lcm \<Rightarrow> memory_error + lcm" where
  "transmit_attempts env m acks 0 l = Inr l"
| "transmit_attempts env m acks (Suc n) l =
     (let forceSendFlag = (\<not> (Suc n = NUMBER_OF_RFM100_TRANSMIT_ATTEMPTS \<and> unat (tm_sceneId m) = MAX_NUMBER_OF_SCENES + 1))
      in bind_sum (HandleTransmitTaskMessage env m forceSendFlag l) (\<lambda>(sent, l).
           if \<not> sent then Inr l
           else let l = (if acks n \<noteq> None \<and> 0 < lcm_receiveAckCounter l
                         then l\<lparr>lcm_receiveAckCounter := lcm_receiveAckCounter l - 1\<rparr> else l)
                in if acks n = Some RFM100_ACK_BYTE then Inr l else transmit_attempts env m acks n l))"

definition transmit_message_step :: "environment \<Rightarrow> (nat \<Rightarrow> byte option) \<Rightarrow> lcm \<Rightarrow> memory_error + lcm" where
  "transmit_message_step env acks l =
     (case transmitQueue l of
        [] \<Rightarrow> Inr l
      | (m, _) # q \<Rightarrow>
          bind_sum (transmit_attempts env m acks NUMBER_OF_RFM100_TRANSMIT_ATTEMPTS (l\<lparr>transmitQueue := q\<rparr>))
            (\<lambda>l. Inr (l\<lparr>transmitMessages := transmitMessages l - 1\<rparr>)))"

subsection \<open>Finding the zone of a message\<close>

definition same_address :: "zone_properties \<Rightarrow> zone_properties \<Rightarrow> bool" where
  "same_address z z' \<longleftrightarrow> zp_groupId z' = zp_groupId z \<and> zp_buildingId z' = zp_buildingId z \<and> zp_houseId z' = zp_houseId z"

definition distinct_addresses :: "(nat \<Rightarrow> zone_properties option) \<Rightarrow> bool" where
  "distinct_addresses Z \<longleftrightarrow> (\<forall>i j z z'. Z i = Some z \<longrightarrow> Z j = Some z' \<longrightarrow> same_address z z' \<longrightarrow> i = j)"

lemma zone_of_record:
  assumes "lcm_inv l" "i < MAX_NUMBER_OF_ZONES"
  shows "zone_of l i = None \<longleftrightarrow> nv_zone_of (zone_part l) i = None"
    "zone_of l i = Some z \<Longrightarrow> \<exists>b. nv_zone_of (zone_part l) i = Some b \<and> nz_name b ! 0 \<noteq> 0 \<and>
       nz_groupId b = zp_groupId z \<and> nz_buildingId b = zp_buildingId z \<and> nz_houseId b = zp_houseId z"
proof -
  have inv: "zone_inv (zone_part l)" using assms(1) by (simp add: lcm_inv_def)
  show "zone_of l i = None \<longleftrightarrow> nv_zone_of (zone_part l) i = None"
    using assms(2) by (simp add: zone_of_def get_zone_def GetZoneProperties_def Let_def split: option.split)
  assume z: "zone_of l i = Some z"
  then obtain b where b: "nv_zone_of (zone_part l) i = Some b"
    using assms(2) by (auto simp: zone_of_def get_zone_def GetZoneProperties_def Let_def split: option.splits)
  then have "nz_name b ! 0 \<noteq> 0"
    using nv_zone_of_inv [OF inv assms(2)] zone_invD(5) [OF inv assms(2)] by (auto split: if_splits)
  moreover have "nz_groupId b = zp_groupId z \<and> nz_buildingId b = zp_buildingId z \<and> nz_houseId b = zp_houseId z"
    using z b assms(2) by (auto simp: zone_of_def get_zone_def GetZoneProperties_def Let_def)
  ultimately show "\<exists>b. nv_zone_of (zone_part l) i = Some b \<and> nz_name b ! 0 \<noteq> 0 \<and>
       nz_groupId b = zp_groupId z \<and> nz_buildingId b = zp_buildingId z \<and> nz_houseId b = zp_houseId z"
    using b by blast
qed

lemma GetZoneIndex_zone_of:
  assumes "lcm_inv l" "distinct_addresses (zone_of l)" "zone_of l i = Some z"
  shows "GetZoneIndex (zone_part l) (zp_groupId z) (zp_buildingId z) (zp_houseId z) = i" "i < MAX_NUMBER_OF_ZONES"
proof -
  show i: "i < MAX_NUMBER_OF_ZONES"
    using assms(3) zone_of_beyond [of i l] by (cases "i < MAX_NUMBER_OF_ZONES") auto
  show "GetZoneIndex (zone_part l) (zp_groupId z) (zp_buildingId z) (zp_houseId z) = i"
    unfolding GetZoneIndex_def
  proof (rule loop_find_eqI [OF i])
    show "case nv_zone_of (zone_part l) i of None \<Rightarrow> False | Some b \<Rightarrow> nz_name b ! 0 \<noteq> 0 \<and>
        nz_groupId b = zp_groupId z \<and> nz_buildingId b = zp_buildingId z \<and> nz_houseId b = zp_houseId z"
      using zone_of_record(2) [OF assms(1) i assms(3)] by auto
  next
    fix j assume j: "j < i"
    then have j100: "j < MAX_NUMBER_OF_ZONES" using i by simp
    show "\<not> (case nv_zone_of (zone_part l) j of None \<Rightarrow> False | Some b \<Rightarrow> nz_name b ! 0 \<noteq> 0 \<and>
        nz_groupId b = zp_groupId z \<and> nz_buildingId b = zp_buildingId z \<and> nz_houseId b = zp_houseId z)"
    proof (cases "zone_of l j")
      case None
      then show ?thesis using zone_of_record(1) [OF assms(1) j100] by simp
    next
      case (Some z')
      then have "\<not> same_address z z'" using assms(2,3) j unfolding distinct_addresses_def by blast
      then show ?thesis using zone_of_record(2) [OF assms(1) j100 Some] by (auto simp: same_address_def)
    qed
  qed
qed

text \<open>Updates that keep the addresses.\<close>

lemma distinct_addresses_upd:
  assumes "distinct_addresses Z" "Z i = Some z" "same_address z z'"
  shows "distinct_addresses (Z(i \<mapsto> z'))"
  unfolding distinct_addresses_def
proof (intro allI impI)
  fix j k x y assume x: "(Z(i \<mapsto> z')) j = Some x" and y: "(Z(i \<mapsto> z')) k = Some y" and "same_address x y"
  obtain x' where "Z j = Some x'" "same_address x' x"
    using x assms(2,3) by (cases "j = i") (auto simp: same_address_def)
  moreover obtain y' where "Z k = Some y'" "same_address y' y"
    using y assms(2,3) by (cases "k = i") (auto simp: same_address_def)
  moreover have "same_address x' y'"
    using \<open>same_address x y\<close> calculation by (simp add: same_address_def)
  ultimately show "j = k" using assms(1) unfolding distinct_addresses_def by blast
qed

subsection \<open>What a message does\<close>

text \<open>The other tables and the queue stay, the zone table becomes \<open>Z\<close>.\<close>

definition zones_become :: "lcm \<Rightarrow> lcm \<Rightarrow> (nat \<Rightarrow> zone_properties option) \<Rightarrow> bool" where
  "zones_become l l' Z \<longleftrightarrow> lcm_inv l' \<and> zone_of l' = Z \<and> same_scenes l l' \<and> same_controllers l l' \<and>
     transmitQueue l' = transmitQueue l \<and> transmitMessages l' = transmitMessages l"

lemma zones_become_refl: "lcm_inv l \<Longrightarrow> zones_become l l (zone_of l)"
  by (simp add: zones_become_def)

lemma zones_become_trans:
  "zones_become l l' Z \<Longrightarrow> zones_become l' l'' Z' \<Longrightarrow> zones_become l l'' Z'"
  by (auto simp: zones_become_def intro: same_scenes_trans same_controllers_trans)

lemma zones_become_same:
  "lcm_inv l \<Longrightarrow> same_tables l l' \<Longrightarrow> transmitQueue l' = transmitQueue l \<Longrightarrow> transmitMessages l' = transmitMessages l \<Longrightarrow>
   zones_become l l' (zone_of l)"
  by (simp add: zones_become_def same_tables same_zones_map [OF same_tables(2)])

lemma zones_become_set_zone:
  assumes "ftfe_reliable (env_hw env)" "lcm_inv l" "i < MAX_NUMBER_OF_ZONES" "zone_args_ok p" "zp_ZoneNameString p ! 0 \<noteq> 0"
  shows "zones_become l (set_zone env i p l) ((zone_of l)(i \<mapsto> cut_zone p))"
  using set_zone_map [OF assms] by (simp add: zones_become_def)

lemma reach_target_cut [simp]: "cut_zone (reach_target z) = reach_target (cut_zone z)"
  by (simp add: reach_target_def cut_zone_def)

lemma reach_target_fields [simp]:
  "zp_ZoneNameString (reach_target z) = zp_ZoneNameString z" "zone_args_ok (reach_target z) = zone_args_ok z"
  "zp_powerLevel (reach_target z) = zp_targetPowerLevel z" "zp_state (reach_target z) = zp_targetState z"
  "zp_targetPowerLevel (reach_target z) = zp_targetPowerLevel z" "zp_targetState (reach_target z) = zp_targetState z"
  "same_address z (reach_target z)" "zp_AppContextId (reach_target z) = zp_AppContextId z"
  by (simp_all add: reach_target_def zone_args_ok_def same_address_def)

lemma ramp_flags_idle: "\<not> fst (ramp_flags z) \<Longrightarrow> \<not> snd (ramp_flags z) \<Longrightarrow> reach_target z = z"
  by (auto simp: ramp_flags_def reach_target_def split: if_splits)

lemma update_ramped_zone_effect:
  assumes "ftfe_reliable (env_hw env)" "lcm_inv l" "zone_of l i = Some (cut_zone z)" "zone_args_ok z" "zp_ZoneNameString z ! 0 \<noteq> 0"
  shows "\<exists>l'. update_ramped_zone env i z l = (reach_target z, l') \<and>
    zones_become l l' ((zone_of l)(i \<mapsto> reach_target (cut_zone z)))"
proof -
  have i: "i < MAX_NUMBER_OF_ZONES"
    using assms(3) zone_of_beyond [of i l] by (cases "i < MAX_NUMBER_OF_ZONES") auto
  obtain f b where fb: "ramp_flags z = (f, b)" by fastforce
  define l1 where "l1 = (if b then l\<lparr>lcm_zoneChanged := insert i (lcm_zoneChanged l)\<rparr> else l)"
  have 1: "zones_become l l1 (zone_of l)"
    using assms(2) by (intro zones_become_same) (auto simp: l1_def)
  show ?thesis
  proof (cases "f \<or> b")
    case False
    then have "reach_target z = z" using ramp_flags_idle [of z] fb by simp
    moreover have "(zone_of l)(i \<mapsto> cut_zone z) = zone_of l" using assms(3) by auto
    ultimately show ?thesis
      using False 1 fb reach_target_cut [of z] by (simp add: update_ramped_zone_def l1_def)
  next
    case True
    let ?l2 = "set_zone env i (reach_target z) l1"
    let ?l3 = "if json_object_ok env 2632 then emit (ZonePropertiesChanged i (zp_AppContextId z)) ?l2 else ?l2"
    have inv1: "lcm_inv l1" "zone_of l1 = zone_of l" using 1 by (simp_all add: zones_become_def)
    have 2: "zones_become l1 ?l2 ((zone_of l)(i \<mapsto> reach_target (cut_zone z)))"
      using zones_become_set_zone [OF assms(1) inv1(1) i, of "reach_target z"] assms(4,5) inv1(2) by simp
    then have inv2: "lcm_inv ?l2" by (simp add: zones_become_def)
    have 3: "zones_become ?l2 (emit (EliotZoneChanged i) ?l3) (zone_of ?l2)"
      using inv2 same_tables_trans [OF same_tables_emit same_tables_emit] by (intro zones_become_same) auto
    have "zone_of ?l2 = (zone_of l)(i \<mapsto> reach_target (cut_zone z))" using 2 by (simp add: zones_become_def)
    then have "zones_become l (emit (EliotZoneChanged i) ?l3) ((zone_of l)(i \<mapsto> reach_target (cut_zone z)))"
      using zones_become_trans [OF zones_become_trans [OF 1 2] 3] by simp
    moreover have "update_ramped_zone env i z l = (reach_target z, emit (EliotZoneChanged i) ?l3)"
      using True fb by (simp add: update_ramped_zone_def l1_def Let_def)
    ultimately show ?thesis by blast
  qed
qed

lemma transmit_ramp_tables:
  "lcm_inv l \<Longrightarrow> zones_become l (transmit_ramp env i z l) (zone_of l)"
  by (rule zones_become_same) (auto simp: transmit_ramp_def same_tables_def emit_def split: prod.split)

text \<open>The documented behaviour of the libraries: allocations succeed, the pool holds 200 transmit messages and
  a message of the lowest priority goes to the end of the queue.\<close>

abbreviation NUMBER_OF_RFM100_TRANSMIT_MESSAGES_IN_POOL :: nat where
  "NUMBER_OF_RFM100_TRANSMIT_MESSAGES_IN_POOL \<equiv> 200"

definition good_env :: "environment \<Rightarrow> bool" where
  "good_env env \<longleftrightarrow> ftfe_reliable (env_hw env) \<and> zone_buffers (stack_zone env) \<and> scene_buffers (stack_scene env) \<and>
     length (sc_NameString (stack_controller env)) = MAX_SIZE_NAME_STRING \<and>
     (\<forall>n. json_object_ok env n) \<and> (\<forall>k. msg_alloc env k \<longleftrightarrow> k < NUMBER_OF_RFM100_TRANSMIT_MESSAGES_IN_POOL) \<and>
     (\<forall>q m. msgq_send_priority env q m RFM100_MESSAGE_LOW_PRIORITY = (True, q @ [(m, RFM100_MESSAGE_LOW_PRIORITY)]))"

lemma good_envD:
  assumes "good_env env"
  shows "ftfe_reliable (env_hw env)" "zone_buffers (stack_zone env)" "scene_buffers (stack_scene env)"
    "length (sc_NameString (stack_controller env)) = MAX_SIZE_NAME_STRING" "json_object_ok env n"
    "msg_alloc env k \<longleftrightarrow> k < NUMBER_OF_RFM100_TRANSMIT_MESSAGES_IN_POOL"
    "msgq_send_priority env q m RFM100_MESSAGE_LOW_PRIORITY = (True, q @ [(m, RFM100_MESSAGE_LOW_PRIORITY)])"
  using assms by (simp_all add: good_env_def)

text \<open>The scene table after the ramp message \<open>m\<close>.\<close>

definition finished :: "transmit_message \<Rightarrow> (nat \<Rightarrow> scene_properties option) \<Rightarrow> nat \<Rightarrow> scene_properties option" where
  "finished m S =
     (let sid = unat (tm_sceneId m)
      in case S sid of None \<Rightarrow> S
         | Some s \<Rightarrow> if tm_scenePercent m = 100 \<and> sp_running s = 1 then S(sid \<mapsto> s\<lparr>sp_running := 0\<rparr>) else S)"

text \<open>The effect of a ramp message for zone \<open>i\<close>, which is \<open>z\<close>.\<close>

definition ramp_done :: "transmit_message \<Rightarrow> nat \<Rightarrow> zone_properties \<Rightarrow> lcm \<Rightarrow> lcm \<Rightarrow> bool" where
  "ramp_done m i z l l' \<longleftrightarrow> lcm_inv l' \<and> zone_of l' = (zone_of l)(i \<mapsto> reach_target z) \<and>
     scene_of l' = finished m (scene_of l) \<and> same_controllers l l' \<and>
     (stored_id l (unat (tm_sceneId m)) \<longrightarrow> stored_id l' (unat (tm_sceneId m))) \<and>
     transmitQueue l' = transmitQueue l \<and> transmitMessages l' = transmitMessages l"

lemma finished_idem [simp]: "finished m (finished m S) = finished m S"
  by (auto simp: finished_def Let_def split: option.split)

lemma reach_target_idem [simp]: "reach_target (reach_target z) = reach_target z"
  by (simp add: reach_target_def)

lemma ramp_done_trans:
  "ramp_done m i z l l1 \<Longrightarrow> ramp_done m i (reach_target z) l1 l2 \<Longrightarrow> ramp_done m i z l l2"
  by (auto simp: ramp_done_def intro: same_controllers_trans)

lemma scene_of_beyond: "MAX_NUMBER_OF_SCENES \<le> i \<Longrightarrow> scene_of l i = None"
  by (simp add: scene_of_def get_scene_def GetSceneProperties_def)

lemma finish_scene_effect:
  assumes "good_env env" "lcm_inv l"
    and saveable: "tm_scenePercent m = 100 \<Longrightarrow> scene_of l (unat (tm_sceneId m)) \<noteq> None \<Longrightarrow> stored_id l (unat (tm_sceneId m))"
  shows "\<exists>l'. finish_scene env m z l = Inr l' \<and> lcm_inv l' \<and> zone_of l' = zone_of l \<and> same_controllers l l' \<and>
    scene_of l' = finished m (scene_of l) \<and> (stored_id l (unat (tm_sceneId m)) \<longrightarrow> stored_id l' (unat (tm_sceneId m))) \<and>
    transmitQueue l' = transmitQueue l \<and> transmitMessages l' = transmitMessages l \<and>
    (\<exists>es. events l' = events l @ es \<and> (\<forall>b. RadioSend b \<notin> set es))"
proof (cases "scene_of l (unat (tm_sceneId m))")
  case None
  then show ?thesis
    using assms(2) scene_of_get(2) [OF assms(2) None, of "stack_scene env"] by (simp add: finish_scene_def finished_def)
next
  case (Some s)
  let ?sid = "unat (tm_sceneId m)"
  from get_scene_some [OF assms(2) Some good_envD(3) [OF assms(1)]]
  obtain p where p: "get_scene l ?sid (stack_scene env) = Inr (True, p)" "cut_scene p = s" "scene_args_ok p"
    "sp_SceneNameString p ! 0 \<noteq> 0" "?sid < MAX_NUMBER_OF_SCENES" by metis
  have run: "sp_running p = sp_running s" using p(2) by auto
  show ?thesis
  proof (cases "tm_scenePercent m = 100 \<and> sp_running s = 1")
    case False
    then have "finish_scene env m z l = Inr l" "finished m (scene_of l) = scene_of l"
      using p(1,5) run Some by (auto simp: finish_scene_def finished_def)
    then show ?thesis using assms(2) by simp
  next
    case True
    let ?p = "p\<lparr>sp_running := 0\<rparr>"
    have "cstr 37 (sp_EliotDeviceId ?p) = sp_EliotDeviceId s" using p(2) by (auto simp: cut_scene_def)
    moreover have "scene_args_ok ?p" "sp_SceneNameString ?p ! 0 \<noteq> 0" using p(3,4) by (simp_all add: scene_args_ok_def)
    moreover have "stored_id l ?sid" using saveable True Some by simp
    ultimately obtain l1 where l1: "set_scene env ?sid ?p l = Inr l1" "lcm_inv l1" "same_zones l l1" "same_controllers l l1"
      "scene_of l1 = (scene_of l)(?sid \<mapsto> cut_scene ?p)" "stored_id l1 ?sid"
      "l1 = l\<lparr>lcm_flash := lcm_flash l1, lcm_scenes := lcm_scenes l1\<rparr>"
      using set_scene_map [OF good_envD(1) [OF assms(1)] assms(2) _ _ _ Some] by metis
    let ?l2 = "emit (ScenePropertiesChanged (tm_sceneId m) (zp_AppContextId z) (Some False)) l1"
    have t: "same_tables l1 ?l2" by simp
    have "finish_scene env m z l = Inr ?l2"
      using p(1,5) run True l1(1) good_envD(5) [OF assms(1)] by (simp add: finish_scene_def)
    moreover have "lcm_inv ?l2" using same_tables(1) [OF t] l1(2) by simp
    moreover have "zone_of ?l2 = zone_of l"
      using same_zones_map [OF l1(3)] same_zones_map [OF same_tables(2) [OF t]] by simp
    moreover have "same_controllers l ?l2" using same_controllers_trans [OF l1(4) same_tables(4) [OF t]] .
    moreover have "scene_of ?l2 = finished m (scene_of l)"
      using same_scenes_map [OF same_tables(3) [OF t]] l1(5) p(2) True Some by (simp add: finished_def)
    moreover have "stored_id ?l2 ?sid" using same_scenes_stored [OF same_tables(3) [OF t]] l1(6) by simp
    moreover have outer: "transmitQueue l1 = transmitQueue l" "transmitMessages l1 = transmitMessages l" "events l1 = events l"
      by (subst l1(7), simp)+
    ultimately show ?thesis by (intro exI [of _ ?l2]) (simp add: outer)
  qed
qed

definition ramp_message_for :: "zone_properties \<Rightarrow> transmit_message \<Rightarrow> bool" where
  "ramp_message_for z m \<longleftrightarrow> tm_command m = RAMP \<and> tm_groupId m = zp_groupId z \<and> tm_buildingId m = zp_buildingId z \<and>
     tm_houseId m = zp_houseId z"

lemma is_shade_cut [simp]: "is_shade (cut_zone z) = is_shade z" "is_shade (reach_target z) = is_shade z"
  by (simp_all add: is_shade_def reach_target_def)

lemma ramp_flags_cut [simp]: "ramp_flags (cut_zone z) = ramp_flags z"
  by (simp add: ramp_flags_def)

lemma ramp_packet_cut [simp]: "ramp_packet (cut_zone z) = ramp_packet z"
  by (simp add: ramp_packet_def)

lemma update_ramped_zone_sends:
  "\<exists>es. events (snd (update_ramped_zone env i z l)) = events l @ es \<and> (\<forall>b. RadioSend b \<notin> set es)"
  by (cases "ramp_flags z") (simp add: update_ramped_zone_def Let_def)

text \<open>What is sent: the packet of the zone as it is in the table.\<close>

lemma transmit_ramp_sends:
  assumes "good_env env" "lcm_inv l" "zone_of l i = Some (cut_zone z)"
  shows "events (transmit_ramp env i z l) = events l @
    (if is_shade z then if lcm_qubeAddress l then [ShadeCommand i (zp_powerLevel z)] else [] else [RadioSend (ramp_packet z)])"
proof -
  obtain p where p: "get_zone l i (stack_zone env) = (True, p)" "cut_zone p = cut_zone z"
    using get_zone_some [OF assms(2,3) good_envD(2) [OF assms(1)]] by metis
  have "ramp_packet p = ramp_packet z" using ramp_packet_cut [of p] ramp_packet_cut [of z] p(2) by simp
  then show ?thesis using p(1) by (simp add: transmit_ramp_def BuildRamp_def get_zone_def Let_def)
qed

lemma handle_ramp_effect:
  fixes force :: bool
  assumes "good_env env" "lcm_inv l" "distinct_addresses (zone_of l)" "zone_of l i = Some z" "ramp_message_for z m"
    and saveable: "tm_scenePercent m = 100 \<Longrightarrow> scene_of l (unat (tm_sceneId m)) \<noteq> None \<Longrightarrow> stored_id l (unat (tm_sceneId m))"
  defines "send \<equiv> force \<or> fst (ramp_flags z)"
  shows "\<exists>l'. HandleTransmitTaskMessage env m force l = Inr (send, l') \<and> ramp_done m i z l l' \<and>
    (\<exists>es. events l' = events l @ es \<and>
       (\<forall>b. RadioSend b \<in> set es \<longleftrightarrow> send \<and> \<not> is_shade z \<and> b = ramp_packet (reach_target z)))"
proof -
  note rel = good_envD(1) [OF assms(1)]
  from get_zone_some [OF assms(2,4) good_envD(2) [OF assms(1)]]
  obtain p where p: "get_zone l i (stack_zone env) = (True, p)" "cut_zone p = z" "zone_args_ok p" "zp_ZoneNameString p ! 0 \<noteq> 0"
    by metis
  have idx: "GetZoneIndex (zone_part l) (tm_groupId m) (tm_buildingId m) (tm_houseId m) = i" "i < MAX_NUMBER_OF_ZONES"
    using GetZoneIndex_zone_of [OF assms(2-4)] assms(5) by (simp_all add: ramp_message_for_def)
  have zp: "zone_of l i = Some (cut_zone p)" using assms(4) p(2) by simp
  obtain l1 where l1: "update_ramped_zone env i p l = (reach_target p, l1)"
    "zones_become l l1 ((zone_of l)(i \<mapsto> reach_target z))"
    using update_ramped_zone_effect [OF rel assms(2) zp p(3,4)] p(2) by auto
  have at1: "lcm_inv l1" "zone_of l1 i = Some (cut_zone (reach_target p))"
    using l1(2) p(2) by (simp_all add: zones_become_def)
  have flags: "ramp_flags p = ramp_flags z" "is_shade p = is_shade z" "ramp_packet (reach_target p) = ramp_packet (reach_target z)"
    using ramp_flags_cut [of p] is_shade_cut(1) [of p] ramp_packet_cut [of "reach_target p"] p(2) by simp_all
  let ?l2 = "if send then transmit_ramp env i (reach_target p) l1 else l1"
  have 2: "zones_become l1 ?l2 (zone_of l1)"
    using transmit_ramp_tables [OF at1(1)] zones_become_refl [OF at1(1)] by simp
  have "zone_of l1 = (zone_of l)(i \<mapsto> reach_target z)" using l1(2) by (simp add: zones_become_def)
  with 2 have 3: "zones_become l ?l2 ((zone_of l)(i \<mapsto> reach_target z))" using zones_become_trans [OF l1(2)] by metis
  then have sc: "same_scenes l ?l2" and inv2: "lcm_inv ?l2" by (simp_all add: zones_become_def)
  have save2: "stored_id ?l2 (unat (tm_sceneId m))"
    if "tm_scenePercent m = 100" "scene_of ?l2 (unat (tm_sceneId m)) \<noteq> None"
    using saveable that same_scenes_stored [OF sc] same_scenes_map [OF sc] by simp
  from finish_scene_effect [OF assms(1) inv2 save2, of "reach_target p"]
  obtain l3 es3 where l3: "finish_scene env m (reach_target p) ?l2 = Inr l3" "lcm_inv l3" "zone_of l3 = zone_of ?l2"
    "same_controllers ?l2 l3" "scene_of l3 = finished m (scene_of ?l2)"
    "stored_id ?l2 (unat (tm_sceneId m)) \<longrightarrow> stored_id l3 (unat (tm_sceneId m))"
    "transmitQueue l3 = transmitQueue ?l2" "transmitMessages l3 = transmitMessages ?l2"
    "events l3 = events ?l2 @ es3" "\<forall>b. RadioSend b \<notin> set es3" by blast
  have "HandleTransmitTaskMessage env m force l = Inr (send, l3)"
    using assms(5) idx p(1) l1(1) flags l3(1)
    by (simp add: HandleTransmitTaskMessage_def handle_ramp_def ramp_message_for_def send_def disj_commute)
  moreover have "ramp_done m i z l l3"
    using 3 l3 same_controllers_trans [of l ?l2 l3] same_scenes_map [OF sc] same_scenes_stored [OF sc]
    by (simp add: ramp_done_def zones_become_def)
  moreover have "\<exists>es. events l3 = events l @ es \<and>
       (\<forall>b. RadioSend b \<in> set es \<longleftrightarrow> send \<and> \<not> is_shade z \<and> b = ramp_packet (reach_target z))"
  proof -
    obtain es1 where es1: "events l1 = events l @ es1" "\<forall>b. RadioSend b \<notin> set es1"
      using update_ramped_zone_sends [of env i p l] l1(1) by auto
    show ?thesis
      using es1 l3(9,10) transmit_ramp_sends [OF assms(1) at1] flags
      by (intro exI [of _ "drop (length (events l)) (events l3)"]) auto
  qed
  ultimately show ?thesis by blast
qed

text \<open>Repeated attempts change nothing more.\<close>

lemma ramp_done_again:
  assumes "ramp_done m i z l l1" "distinct_addresses (zone_of l)" "zone_of l i = Some z" "ramp_message_for z m"
    and saveable: "tm_scenePercent m = 100 \<Longrightarrow> scene_of l (unat (tm_sceneId m)) \<noteq> None \<Longrightarrow> stored_id l (unat (tm_sceneId m))"
  shows "lcm_inv l1" "distinct_addresses (zone_of l1)" "zone_of l1 i = Some (reach_target z)" "ramp_message_for (reach_target z) m"
    "tm_scenePercent m = 100 \<Longrightarrow> scene_of l1 (unat (tm_sceneId m)) \<noteq> None \<Longrightarrow> stored_id l1 (unat (tm_sceneId m))"
proof -
  show "lcm_inv l1" "distinct_addresses (zone_of l1)" "zone_of l1 i = Some (reach_target z)" "ramp_message_for (reach_target z) m"
    using assms(1,4) distinct_addresses_upd [OF assms(2,3), of "reach_target z"]
    by (simp_all add: ramp_done_def ramp_message_for_def reach_target_def same_address_def)
  have "scene_of l1 (unat (tm_sceneId m)) \<noteq> None \<Longrightarrow> scene_of l (unat (tm_sceneId m)) \<noteq> None"
    using assms(1) by (auto simp: ramp_done_def finished_def Let_def split: option.splits if_splits)
  then show "tm_scenePercent m = 100 \<Longrightarrow> scene_of l1 (unat (tm_sceneId m)) \<noteq> None \<Longrightarrow> stored_id l1 (unat (tm_sceneId m))"
    using saveable assms(1) by (simp add: ramp_done_def)
qed

lemma ramp_done_same:
  "ramp_done m i z l l1 \<Longrightarrow> same_tables l1 l2 \<Longrightarrow> transmitQueue l2 = transmitQueue l1 \<Longrightarrow>
   transmitMessages l2 = transmitMessages l1 \<Longrightarrow> ramp_done m i z l l2"
  using same_tables [of l1 l2] same_zones_map [of l1 l2] same_scenes_map [of l1 l2] same_scenes_stored [of l1 l2]
  by (auto simp: ramp_done_def intro: same_controllers_trans)

lemma transmit_attempts_ramp:
  assumes "good_env env" "lcm_inv l" "distinct_addresses (zone_of l)" "zone_of l i = Some z" "ramp_message_for z m"
    and "tm_scenePercent m = 100 \<Longrightarrow> scene_of l (unat (tm_sceneId m)) \<noteq> None \<Longrightarrow> stored_id l (unat (tm_sceneId m))"
  shows "\<exists>l'. transmit_attempts env m acks (Suc n) l = Inr l' \<and> ramp_done m i z l l'"
  using assms(2-)
proof (induction n arbitrary: l z)
  case (0 l z)
  let ?force = "\<not> (Suc 0 = NUMBER_OF_RFM100_TRANSMIT_ATTEMPTS \<and> unat (tm_sceneId m) = MAX_NUMBER_OF_SCENES + 1)"
  obtain l1 sent where l1: "HandleTransmitTaskMessage env m ?force l = Inr (sent, l1)" "ramp_done m i z l l1"
    using handle_ramp_effect [OF assms(1) 0, where force = ?force] by blast
  then show ?case by (auto simp: Let_def intro: ramp_done_same)
next
  case (Suc n l z)
  let ?force = "\<not> (Suc (Suc n) = NUMBER_OF_RFM100_TRANSMIT_ATTEMPTS \<and> unat (tm_sceneId m) = MAX_NUMBER_OF_SCENES + 1)"
  obtain l1 sent where l1: "HandleTransmitTaskMessage env m ?force l = Inr (sent, l1)" "ramp_done m i z l l1"
    using handle_ramp_effect [OF assms(1) Suc.prems, where force = ?force] by blast
  let ?l2 = "if acks (Suc n) \<noteq> None \<and> 0 < lcm_receiveAckCounter l1
             then l1\<lparr>lcm_receiveAckCounter := lcm_receiveAckCounter l1 - 1\<rparr> else l1"
  have 2: "ramp_done m i z l ?l2" using l1(2) by (auto intro: ramp_done_same)
  obtain l3 where "transmit_attempts env m acks (Suc n) ?l2 = Inr l3" "ramp_done m i (reach_target z) ?l2 l3"
    using Suc.IH [OF ramp_done_again [OF 2 Suc.prems(2-5)]] by blast
  then show ?case
    using l1 2 ramp_done_trans [OF 2]
    by (simp only: transmit_attempts.simps(2) [of env m acks "Suc n"] Let_def bind_sum.simps prod.case if_distrib) auto
qed

text \<open>One message taken from the queue.\<close>

definition message_done :: "lcm \<Rightarrow> lcm \<Rightarrow> (nat \<Rightarrow> zone_properties option) \<Rightarrow> (nat \<Rightarrow> scene_properties option) \<Rightarrow> bool" where
  "message_done l l' Z S \<longleftrightarrow> lcm_inv l' \<and> zone_of l' = Z \<and> scene_of l' = S \<and> same_controllers l l' \<and>
     transmitQueue l' = tl (transmitQueue l) \<and> transmitMessages l' = transmitMessages l - 1"

lemma step_ramp:
  assumes "good_env env" "lcm_inv l" "distinct_addresses (zone_of l)" "zone_of l i = Some z" "ramp_message_for z m"
    and saveable: "tm_scenePercent m = 100 \<Longrightarrow> scene_of l (unat (tm_sceneId m)) \<noteq> None \<Longrightarrow> stored_id l (unat (tm_sceneId m))"
    and "transmitQueue l = (m, prio) # q"
  shows "\<exists>l'. transmit_message_step env acks l = Inr l' \<and>
    message_done l l' ((zone_of l)(i \<mapsto> reach_target z)) (finished m (scene_of l)) \<and>
    (stored_id l (unat (tm_sceneId m)) \<longrightarrow> stored_id l' (unat (tm_sceneId m)))"
proof -
  let ?l = "l\<lparr>transmitQueue := q\<rparr>"
  have t: "same_tables l ?l" by simp
  have m: "zone_of ?l = zone_of l" "scene_of ?l = scene_of l" "stored_id ?l j = stored_id l j" for j
    using same_zones_map [OF same_tables(2) [OF t]] same_scenes_map [OF same_tables(3) [OF t]]
      same_scenes_stored [OF same_tables(3) [OF t]] by simp_all
  obtain l1 where l1: "transmit_attempts env m acks (Suc 2) ?l = Inr l1" "ramp_done m i z ?l l1"
    using transmit_attempts_ramp [OF assms(1), of ?l i z m acks 2] assms(2-6) same_tables(1) [OF t] by (auto simp: m)
  let ?l2 = "l1\<lparr>transmitMessages := transmitMessages l1 - 1\<rparr>"
  have t2: "same_tables l1 ?l2" by simp
  have "same_controllers l ?l2"
    using l1(2) same_controllers_trans [OF same_controllers_trans [OF same_tables(4) [OF t]] same_tables(4) [OF t2]]
    by (simp add: ramp_done_def)
  then have "message_done l ?l2 ((zone_of l)(i \<mapsto> reach_target z)) (finished m (scene_of l))"
    using l1(2) same_tables(1) [OF t2] same_zones_map [OF same_tables(2) [OF t2]] same_scenes_map [OF same_tables(3) [OF t2]]
      assms(7) by (simp add: ramp_done_def message_done_def m)
  moreover have "stored_id l (unat (tm_sceneId m)) \<longrightarrow> stored_id ?l2 (unat (tm_sceneId m))"
    using l1(2) same_scenes_stored [OF same_tables(3) [OF t2]] by (simp add: ramp_done_def m)
  moreover have "transmit_message_step env acks l = Inr ?l2"
    using assms(7) l1(1) by (simp add: transmit_message_step_def numeral_3_eq_3 numeral_2_eq_2 del: transmit_attempts.simps)
  ultimately show ?thesis by blast
qed

text \<open>The other messages only send a packet.\<close>

lemma handle_send_only:
  "tm_command m \<noteq> RAMP \<Longrightarrow> \<exists>sent l1. HandleTransmitTaskMessage env m force l = Inr (sent, l1) \<and> same_tables l l1 \<and>
     transmitQueue l1 = transmitQueue l \<and> transmitMessages l1 = transmitMessages l"
  by (auto simp: HandleTransmitTaskMessage_def Let_def)

lemma attempts_send_only:
  "tm_command m \<noteq> RAMP \<Longrightarrow> \<exists>l'. transmit_attempts env m acks n l = Inr l' \<and> same_tables l l' \<and>
     transmitQueue l' = transmitQueue l \<and> transmitMessages l' = transmitMessages l"
proof (induction n arbitrary: l)
  case (Suc n)
  let ?force = "\<not> (Suc n = NUMBER_OF_RFM100_TRANSMIT_ATTEMPTS \<and> unat (tm_sceneId m) = MAX_NUMBER_OF_SCENES + 1)"
  obtain sent l1 where 1: "HandleTransmitTaskMessage env m ?force l = Inr (sent, l1)" "same_tables l l1"
    "transmitQueue l1 = transmitQueue l" "transmitMessages l1 = transmitMessages l"
    using handle_send_only [OF Suc.prems, of env ?force l] by blast
  let ?l2 = "if acks n \<noteq> None \<and> 0 < lcm_receiveAckCounter l1
             then l1\<lparr>lcm_receiveAckCounter := lcm_receiveAckCounter l1 - 1\<rparr> else l1"
  have 2: "same_tables l ?l2" using same_tables_trans [OF 1(2)] by simp
  obtain l3 where "transmit_attempts env m acks n ?l2 = Inr l3" "same_tables ?l2 l3"
    "transmitQueue l3 = transmitQueue ?l2" "transmitMessages l3 = transmitMessages ?l2"
    using Suc.IH [OF Suc.prems] by blast
  then show ?case using 1 2 same_tables_trans [OF 2]
    by (simp only: transmit_attempts.simps(2) Let_def bind_sum.simps prod.case if_distrib) auto
qed simp

lemma step_send_only:
  assumes "lcm_inv l" "tm_command m \<noteq> RAMP" "transmitQueue l = (m, prio) # q"
  shows "\<exists>l'. transmit_message_step env acks l = Inr l' \<and> message_done l l' (zone_of l) (scene_of l) \<and>
    stored_id l' = stored_id l"
proof -
  let ?l = "l\<lparr>transmitQueue := q\<rparr>"
  obtain l1 where 1: "transmit_attempts env m acks 3 ?l = Inr l1" "same_tables ?l l1"
    "transmitQueue l1 = transmitQueue ?l" "transmitMessages l1 = transmitMessages ?l"
    using attempts_send_only [OF assms(2)] by blast
  let ?l2 = "l1\<lparr>transmitMessages := transmitMessages l1 - 1\<rparr>"
  have "same_tables l ?l" "same_tables l1 ?l2" by simp_all
  then have t: "same_tables l ?l2" using 1(2) same_tables_trans by blast
  have "transmit_message_step env acks l = Inr ?l2" using assms(3) 1(1) by (simp add: transmit_message_step_def)
  moreover have "message_done l ?l2 (zone_of l) (scene_of l)"
    using assms(1,3) 1(3,4) same_tables(1) [OF t] same_tables(4) [OF t] same_zones_map [OF same_tables(2) [OF t]]
      same_scenes_map [OF same_tables(3) [OF t]] by (simp add: message_done_def)
  moreover have "stored_id ?l2 = stored_id l" using same_scenes_stored [OF same_tables(3) [OF t]] by auto
  ultimately show ?thesis by blast
qed

end
