(* ===== verification/Scene_Execution.thy ===== *)
theory Scene_Execution
  imports Transmit_Task
begin

unbundle bit_operations_syntax

text \<open>
  Running a scene, from Socket\_Task.c: \<open>ExecuteScene\<close> sets the targets of the scene's zones, queues a ramp
  message for each of them and tells the scene controller that holds the scene; the transmit task then
  brings the zones to their targets and, with the last of them, ends the scene.
\<close>

abbreviation MAX_POWER_LEVEL :: byte where "MAX_POWER_LEVEL \<equiv> 100"
abbreviation SLOW_DEACTIVATION_RAMP_VALUE :: nat where "SLOW_DEACTIVATION_RAMP_VALUE \<equiv> 3"

subsection \<open>The targets of a zone\<close>

text \<open>The arguments of a call; \<open>ex_rampRate\<close> is the local variable that shadows the parameter of that name.\<close>

record execution =
  ex_scene :: byte
  ex_appContextId :: dword_t
  ex_activate :: bool
  ex_value :: byte
  ex_change :: byte
  ex_rampRate :: nat

definition take_scene_levels :: "zone_in_scene \<Rightarrow> zone_properties \<Rightarrow> zone_properties" where
  "take_scene_levels zd z =
     z\<lparr>zp_targetPowerLevel := zs_powerLevel zd, zp_targetState := (zs_state zd \<noteq> 0), zp_rampRate := zs_rampRate zd\<rparr>"

text \<open>\<open>change\<close> is 1 to increase by \<open>value\<close> and anything else to decrease; the sum is stored in a byte, the
  difference is tested as a signed char. States in flash are 0 or 1.\<close>

definition scene_targets :: "execution \<Rightarrow> zone_in_scene \<Rightarrow> zone_properties \<Rightarrow> zone_properties" where
  "scene_targets ex zd z =
     (if ex_activate ex then
        if ex_change ex = 1 then
          let z = (if ex_value ex \<noteq> 0 then
                     if zp_state z then z\<lparr>zp_targetPowerLevel := zp_powerLevel z + ex_value ex\<rparr> else z
                   else take_scene_levels zd z)
          in if MAX_POWER_LEVEL < zp_targetPowerLevel z then z\<lparr>zp_targetPowerLevel := MAX_POWER_LEVEL\<rparr> else z
        else
          if ex_value ex \<noteq> 0 then
            if zp_state z then
              if 0 < sint (zp_powerLevel z - ex_value ex)
              then z\<lparr>zp_targetPowerLevel := zp_powerLevel z - ex_value ex\<rparr>
              else z\<lparr>zp_targetPowerLevel := 0\<rparr>
            else z
          else take_scene_levels zd z
      else
        let z = (if zs_state zd \<noteq> 0 then z\<lparr>zp_targetState := False\<rparr>
                 else z\<lparr>zp_targetPowerLevel := zs_powerLevel zd, zp_targetState := False\<rparr>)
        in if ex_rampRate ex = SLOW_DEACTIVATION_RAMP_VALUE
           then z\<lparr>zp_rampRate := of_nat SLOW_DEACTIVATION_RAMP_VALUE\<rparr> else z)"

subsection \<open>ExecuteScene\<close>

definition scene_percent :: "scene_properties \<Rightarrow> nat \<Rightarrow> byte" where
  "scene_percent p k = of_nat ((k + 1) * 100 div unat (sp_numZonesInScene p))"

text \<open>One round of the loop over the zones; the second component is the local \<open>zoneProperties\<close>.\<close>

definition execute_zone ::
  "environment \<Rightarrow> execution \<Rightarrow> nat \<Rightarrow> scene_properties \<times> zone_properties \<times> lcm
     \<Rightarrow> memory_error + scene_properties \<times> zone_properties \<times> lcm" where
  "execute_zone env ex k = (\<lambda>(p, z, l).
     if length (sp_zoneData p) \<le> k then Inl OutOfBoundsRead
     else
       let zd = sp_zoneData p ! k; zoneId = unat (zs_zoneId zd); scenePercent = scene_percent p k;
           (found, z) = get_zone l zoneId z
       in if found then
            let z = (scene_targets ex zd z)\<lparr>zp_AppContextId := ex_appContextId ex\<rparr>;
                l = set_zone env zoneId z l;
                l = snd (SendRampCommandToTransmitTask env zoneId (ex_scene ex) scenePercent RFM100_MESSAGE_LOW_PRIORITY l)
            in Inr (p, z, l)
          else if scenePercent = 100 \<and> json_object_ok env 7239 then
            if json_object_ok env 7242
            then Inr (p\<lparr>sp_running := 0\<rparr>, z, emit (ScenePropertiesChanged (ex_scene ex) (ex_appContextId ex) (Some False)) l)
            else Inr (p, z, emit (ScenePropertiesChanged (ex_scene ex) (ex_appContextId ex) None) l)
          else Inr (p, z, l))"

fun execute_zones ::
  "environment \<Rightarrow> execution \<Rightarrow> nat list \<Rightarrow> scene_properties \<times> zone_properties \<times> lcm
     \<Rightarrow> memory_error + scene_properties \<times> zone_properties \<times> lcm" where
  "execute_zones env ex [] s = Inr s"
| "execute_zones env ex (k # ks) s = bind_sum (execute_zone env ex k s) (execute_zones env ex ks)"

text \<open>The first scene controller with the scene in one of its banks, and its properties with the flag
  \<open>toggled\<close> of that bank set; \<open>n\<close> controllers are left to look at.\<close>

fun find_scene_controller ::
  "lcm \<Rightarrow> byte \<Rightarrow> bool \<Rightarrow> nat \<Rightarrow> scene_controller_properties \<Rightarrow> (nat \<times> scene_controller_properties) option" where
  "find_scene_controller l sceneIndex activate 0 c = None"
| "find_scene_controller l sceneIndex activate (Suc n) c =
     (let i = MAX_NUMBER_OF_SCENE_CONTROLLERS - Suc n;
          (found, c) = get_controller l i c;
          k = loop_find (\<lambda>k. bk_sceneId (sc_bank c ! k) = sceneIndex) 0 MAX_SCENES_IN_SCENE_CONTROLLER
      in if found \<and> k < MAX_SCENES_IN_SCENE_CONTROLLER
         then Some (i, c\<lparr>sc_bank := (sc_bank c)[k := (sc_bank c ! k)\<lparr>bk_toggled := of_bool activate\<rparr>]\<rparr>)
         else find_scene_controller l sceneIndex activate n c)"

text \<open>The sum and the number of the levels that are on, by the scene's entries or by its zones.\<close>

fun sum_levels ::
  "lcm \<Rightarrow> scene_properties \<Rightarrow> bool \<Rightarrow> nat list \<Rightarrow> zone_properties \<Rightarrow> word_t \<times> byte \<Rightarrow> word_t \<times> byte" where
  "sum_levels l p fromZones [] z s = s"
| "sum_levels l p fromZones (k # ks) z (avgPowerSum, avgPowerCtr) =
     (let zd = sp_zoneData p ! k in
      if fromZones then
        let (found, z) = get_zone l (unat (zs_zoneId zd)) z
        in sum_levels l p fromZones ks z
             (if found \<and> zp_state z then (avgPowerSum + ucast (zp_powerLevel z), avgPowerCtr + 1) else (avgPowerSum, avgPowerCtr))
      else sum_levels l p fromZones ks z
             (if zs_state zd \<noteq> 0 then (avgPowerSum + ucast (zs_powerLevel zd), avgPowerCtr + 1) else (avgPowerSum, avgPowerCtr)))"

text \<open>\<open>sceneId != -1\<close> compares a \<open>uint8_t\<close> with a negative \<open>int\<close> and always holds.\<close>

definition CalculateAvgPowerLevelOfScene :: "environment \<Rightarrow> lcm \<Rightarrow> byte \<Rightarrow> bool \<Rightarrow> memory_error + byte" where
  "CalculateAvgPowerLevelOfScene env l sceneId fromZones =
     bind_sum (get_scene l (unat sceneId) (stack_scene env)) (\<lambda>(found, p).
       Inr (if found then
              let (avgPowerSum, avgPowerCtr) =
                    sum_levels l p fromZones [0..<unat (sp_numZonesInScene p)] (stack_zone env) (0, 0)
              in if 0 < avgPowerCtr then of_nat (unat avgPowerSum div unat avgPowerCtr) else 0
            else 0))"

definition tell_scene_controller :: "environment \<Rightarrow> execution \<Rightarrow> lcm \<Rightarrow> memory_error + lcm" where
  "tell_scene_controller env ex l =
     (case find_scene_controller l (ex_scene ex) (ex_activate ex) MAX_NUMBER_OF_SCENE_CONTROLLERS (stack_controller env) of
        None \<Rightarrow> Inr l
      | Some (i, c) \<Rightarrow>
          bind_sum (CalculateAvgPowerLevelOfScene env l (ex_scene ex) (ex_value ex \<noteq> 0)) (\<lambda>avgLevel.
            Inr (set_controller env i c
                   (snd (SendSceneExecutedToTransmitTask env (Some c) (ex_scene ex) avgLevel (ex_activate ex) l)))))"

text \<open>The parameter \<open>rampRate\<close> is hidden by a local variable before its only use.\<close>

definition ExecuteScene ::
  "environment \<Rightarrow> byte \<Rightarrow> scene_properties \<Rightarrow> dword_t \<Rightarrow> bool \<Rightarrow> byte \<Rightarrow> byte \<Rightarrow> byte \<Rightarrow> lcm
     \<Rightarrow> memory_error + scene_properties \<times> lcm" where
  "ExecuteScene env sceneIndex p appContextId activate val change rampRate l =
     (if \<not> json_object_ok env 7062 then Inr (p, l)
      else if sp_running p = 1 then Inr (p, emit (SceneAlreadyRunning sceneIndex appContextId) l)
      else if \<not> json_object_ok env 7090 then Inr (p, l)
      else
        let p = p\<lparr>sp_running := 1\<rparr>;
            l = emit (EliotSceneStarted sceneIndex) (emit (ScenePropertiesChanged sceneIndex appContextId (Some True)) l);
            rampRate = unat (zs_rampRate (sp_zoneData p ! 0));
            rampRate = (if rampRate = 0 then 100 else rampRate);
            l = emit (EliotSceneFinishedAfter sceneIndex rampRate) l;
            ex = \<lparr>ex_scene = sceneIndex, ex_appContextId = appContextId, ex_activate = activate, ex_value = val,
                  ex_change = change, ex_rampRate = rampRate\<rparr>
        in bind_sum (execute_zones env ex [0..<unat (sp_numZonesInScene p)] (p, stack_zone env, l)) (\<lambda>(p, _, l).
           bind_sum (tell_scene_controller env ex l) (\<lambda>l. Inr (p, l))))"

subsection \<open>What a run of the scene does to the zones\<close>

text \<open>The abstract run: targets are set in the map of zones, and a message is queued for every entry whose
  zone exists.\<close>

definition new_target :: "execution \<Rightarrow> zone_in_scene \<Rightarrow> zone_properties \<Rightarrow> zone_properties" where
  "new_target ex zd z = (scene_targets ex zd z)\<lparr>zp_AppContextId := ex_appContextId ex\<rparr>"

definition ramp_message :: "environment \<Rightarrow> execution \<Rightarrow> scene_properties \<Rightarrow> nat \<Rightarrow> zone_properties \<Rightarrow> transmit_message" where
  "ramp_message env ex p k z = (pool_message env)\<lparr>tm_command := RAMP, tm_groupId := zp_groupId z,
     tm_buildingId := zp_buildingId z, tm_houseId := zp_houseId z, tm_sceneId := ex_scene ex,
     tm_scenePercent := scene_percent p k\<rparr>"

abbreviation entry_zone :: "scene_properties \<Rightarrow> nat \<Rightarrow> nat" where
  "entry_zone p k \<equiv> unat (zs_zoneId (sp_zoneData p ! k))"

fun scene_run ::
  "environment \<Rightarrow> execution \<Rightarrow> scene_properties \<Rightarrow> nat list \<Rightarrow> (nat \<Rightarrow> zone_properties option) \<times> (transmit_message \<times> byte) list
     \<Rightarrow> (nat \<Rightarrow> zone_properties option) \<times> (transmit_message \<times> byte) list" where
  "scene_run env ex p [] s = s"
| "scene_run env ex p (k # ks) (Z, q) =
     scene_run env ex p ks (case Z (entry_zone p k) of None \<Rightarrow> (Z, q)
       | Some z \<Rightarrow> (Z(entry_zone p k \<mapsto> new_target ex (sp_zoneData p ! k) z),
                   q @ [(ramp_message env ex p k z, RFM100_MESSAGE_LOW_PRIORITY)]))"

lemma take_scene_levels_cut [simp]: "cut_zone (take_scene_levels zd z) = take_scene_levels zd (cut_zone z)"
  by (simp add: take_scene_levels_def cut_zone_def)

lemma cut_zone_updates [simp]:
  "cut_zone (z\<lparr>zp_targetPowerLevel := a\<rparr>) = (cut_zone z)\<lparr>zp_targetPowerLevel := a\<rparr>"
  "cut_zone (z\<lparr>zp_targetState := b\<rparr>) = (cut_zone z)\<lparr>zp_targetState := b\<rparr>"
  "cut_zone (z\<lparr>zp_rampRate := c\<rparr>) = (cut_zone z)\<lparr>zp_rampRate := c\<rparr>"
  "cut_zone (z\<lparr>zp_AppContextId := d\<rparr>) = (cut_zone z)\<lparr>zp_AppContextId := d\<rparr>"
  by (simp_all add: cut_zone_def)

lemma take_scene_levels_fields [simp]:
  "zp_targetPowerLevel (take_scene_levels zd z) = zs_powerLevel zd"
  "zp_targetState (take_scene_levels zd z) \<longleftrightarrow> zs_state zd \<noteq> 0"
  "zp_ZoneNameString (take_scene_levels zd z) = zp_ZoneNameString z"
  "zp_EliotDeviceId (take_scene_levels zd z) = zp_EliotDeviceId z"
  "same_address z (take_scene_levels zd z)"
  by (simp_all add: take_scene_levels_def same_address_def)

lemma new_target_cut [simp]: "cut_zone (new_target ex zd z) = new_target ex zd (cut_zone z)"
  by (simp add: new_target_def scene_targets_def Let_def)

lemma new_target_keeps [simp]:
  "zp_ZoneNameString (new_target ex zd z) = zp_ZoneNameString z" "zp_EliotDeviceId (new_target ex zd z) = zp_EliotDeviceId z"
  "same_address z (new_target ex zd z)"
  by (simp_all add: new_target_def scene_targets_def Let_def same_address_def take_scene_levels_def)

lemma new_target_args [simp]:
  "zone_args_ok (new_target ex zd z) = zone_args_ok z" "zone_buffers (new_target ex zd z) = zone_buffers z"
  by (simp_all add: zone_args_ok_def zone_buffers_def)

lemma SendRamp_tables:
  "same_tables l (snd (SendRampCommandToTransmitTask env i sid pct prio l))"
  by (simp add: SendRampCommandToTransmitTask_def queue_message_def same_tables_def Let_def case_prod_beta)

lemma send_controller_message_tables:
  "same_tables l (snd (send_controller_message env c fill l))" "events (snd (send_controller_message env c fill l)) = events l"
  by (auto simp: send_controller_message_def queue_message_def same_tables_def Let_def case_prod_beta split: option.split)

lemma SendRamp_effect:
  assumes "good_env env" "lcm_inv l" "zone_of l i = Some z" "transmitMessages l < NUMBER_OF_RFM100_TRANSMIT_MESSAGES_IN_POOL"
  shows "snd (SendRampCommandToTransmitTask env i sid pct RFM100_MESSAGE_LOW_PRIORITY l) =
    l\<lparr>transmitMessages := transmitMessages l + 1, transmitQueue := transmitQueue l @ [((pool_message env)
       \<lparr>tm_command := RAMP, tm_groupId := zp_groupId z, tm_buildingId := zp_buildingId z, tm_houseId := zp_houseId z,
        tm_sceneId := sid, tm_scenePercent := pct\<rparr>, RFM100_MESSAGE_LOW_PRIORITY)]\<rparr>"
proof -
  let ?l = "l\<lparr>transmitMessages := transmitMessages l + 1\<rparr>"
  have t: "same_tables l ?l" by simp
  obtain p where p: "get_zone l i (stack_zone env) = (True, p)" "cut_zone p = z"
    using get_zone_some [OF assms(2,3) good_envD(2) [OF assms(1)]] by metis
  have "get_zone ?l i (stack_zone env) = (True, p)"
    using same_tables(2) [OF t] p(1) by (simp add: same_zones_def)
  then show ?thesis
    using p(2) assms(1,4) by (auto simp: SendRampCommandToTransmitTask_def good_envD queue_message_def Let_def)
qed

lemma execute_zone_refines:
  assumes "good_env env" "lcm_inv l" "zone_buffers z" "k < length (sp_zoneData p)"
  shows "\<exists>p' z' l'. execute_zone env ex k (p, z, l) = Inr (p', z', l') \<and> lcm_inv l' \<and> zone_buffers z' \<and>
    same_scenes l l' \<and> same_controllers l l' \<and> zone_of l' = fst (scene_run env ex p [k] (zone_of l, transmitQueue l)) \<and>
    (transmitMessages l < NUMBER_OF_RFM100_TRANSMIT_MESSAGES_IN_POOL \<longrightarrow> transmitMessages l' \<le> transmitMessages l + 1 \<and>
       transmitQueue l' = snd (scene_run env ex p [k] (zone_of l, transmitQueue l))) \<and>
    p' = (if scene_percent p k = 100 \<and> zone_of l (entry_zone p k) = None then p\<lparr>sp_running := 0\<rparr> else p)"
proof (cases "zone_of l (entry_zone p k)")
  case None
  from get_zone_none [OF None] have g: "get_zone l (entry_zone p k) z = (False, z)" .
  let ?l = "emit (ScenePropertiesChanged (ex_scene ex) (ex_appContextId ex) (Some False)) l"
  have t: "same_tables l ?l" by simp
  have same: "lcm_inv ?l" "zone_of ?l = zone_of l" "same_scenes l ?l" "same_controllers l ?l"
    using same_tables [OF t] assms(2) same_zones_map [OF same_tables(2) [OF t]] by simp_all
  show ?thesis
    using assms(2-4) None g same by (simp add: execute_zone_def Let_def good_envD(5) [OF assms(1)])
next
  case (Some y)
  from get_zone_some [OF assms(2) Some assms(3)] obtain q where q: "get_zone l (entry_zone p k) z = (True, q)"
    "cut_zone q = y" "zone_args_ok q" "zp_ZoneNameString q ! 0 \<noteq> 0" "zone_buffers q" by metis
  have i: "entry_zone p k < MAX_NUMBER_OF_ZONES"
    using Some zone_of_beyond [of "entry_zone p k" l] by (cases "entry_zone p k < MAX_NUMBER_OF_ZONES") auto
  let ?z = "new_target ex (sp_zoneData p ! k) q"
  let ?l1 = "set_zone env (entry_zone p k) ?z l"
  have set: "zones_become l ?l1 ((zone_of l)(entry_zone p k \<mapsto> new_target ex (sp_zoneData p ! k) y))"
    using zones_become_set_zone [OF good_envD(1) [OF assms(1)] assms(2) i, of ?z] q by simp
  then have l1: "lcm_inv ?l1" "zone_of ?l1 (entry_zone p k) = Some (new_target ex (sp_zoneData p ! k) y)"
    by (simp_all add: zones_become_def)
  note send = SendRamp_effect [OF assms(1) l1, where sid = "ex_scene ex" and pct = "scene_percent p k"]
  let ?l2 = "snd (SendRampCommandToTransmitTask env (entry_zone p k) (ex_scene ex) (scene_percent p k) RFM100_MESSAGE_LOW_PRIORITY ?l1)"
  have t: "same_tables ?l1 ?l2" by (rule SendRamp_tables)
  have addr: "ramp_message env ex p k (new_target ex zd y) = ramp_message env ex p k y" for zd
    using new_target_keeps(3) [of y ex zd] by (simp add: ramp_message_def same_address_def)
  have "execute_zone env ex k (p, z, l) = Inr (p, ?z, ?l2)"
    using assms(4) q(1) by (simp add: execute_zone_def new_target_def Let_def)
  moreover have "lcm_inv ?l2" "zone_buffers ?z" "same_scenes l ?l2" "same_controllers l ?l2"
    using same_tables [OF t] l1(1) set q(5) same_scenes_trans [of l ?l1 ?l2] same_controllers_trans [of l ?l1 ?l2]
    by (simp_all add: zones_become_def)
  moreover have "zone_of ?l2 = fst (scene_run env ex p [k] (zone_of l, transmitQueue l))"
    using same_zones_map [OF same_tables(2) [OF t]] set Some by (simp add: zones_become_def)
  moreover have "transmitMessages ?l2 \<le> transmitMessages l + 1 \<and>
      transmitQueue ?l2 = snd (scene_run env ex p [k] (zone_of l, transmitQueue l))"
    if "transmitMessages l < NUMBER_OF_RFM100_TRANSMIT_MESSAGES_IN_POOL"
  proof -
    have "transmitMessages ?l1 < NUMBER_OF_RFM100_TRANSMIT_MESSAGES_IN_POOL" using that by simp
    from send [OF this] show ?thesis using Some addr by (simp add: ramp_message_def)
  qed
  ultimately show ?thesis using Some by (intro exI [of _ p] exI [of _ ?z] exI [of _ ?l2]) simp
qed

lemma scene_run_append: "scene_run env ex p (ks @ ks') s = scene_run env ex p ks' (scene_run env ex p ks s)"
  by (induction env ex p ks s rule: scene_run.induct) (simp_all split: option.split)

lemma scene_run_dom: "dom (fst (scene_run env ex p ks s)) = dom (fst s)"
proof (induction ks arbitrary: s)
  case (Cons k ks)
  obtain Z q where "s = (Z, q)" by fastforce
  moreover have "dom (Z(i \<mapsto> y)) = dom Z" if "Z i = Some x" for i x y using that by auto
  ultimately show ?case
    by (cases "Z (entry_zone p k)") (simp_all only: scene_run.simps Cons.IH fst_conv option.case)
qed simp

lemma scene_run_cong:
  assumes "sp_zoneData p' = sp_zoneData p" "sp_numZonesInScene p' = sp_numZonesInScene p"
  shows "scene_run env ex p' ks s = scene_run env ex p ks s"
proof (induction ks arbitrary: s)
  case (Cons k ks)
  have "ramp_message env ex p' k = ramp_message env ex p k"
    using assms by (simp add: ramp_message_def scene_percent_def fun_eq_iff)
  then show ?case by (cases s) (simp add: assms(1) Cons.IH split: option.split)
qed simp

lemma scene_run_fst: "fst (scene_run env ex p ks (Z, q)) = fst (scene_run env ex p ks (Z, q'))"
  by (induction ks arbitrary: Z q q') (auto split: option.split)

lemma scene_run_Cons:
  "fst (scene_run env ex p (k # ks) (Z, q)) = fst (scene_run env ex p ks (fst (scene_run env ex p [k] (Z, q)), q'))"
  "snd (scene_run env ex p (k # ks) (Z, q)) =
     snd (scene_run env ex p ks (fst (scene_run env ex p [k] (Z, q)), snd (scene_run env ex p [k] (Z, q))))"
  using scene_run_append [of env ex p "[k]" ks "(Z, q)"] scene_run_fst [of env ex p ks] by (metis append_Cons append_Nil prod.collapse)+

lemma execute_zones_refines:
  assumes "good_env env" "lcm_inv l" "zone_buffers z" "\<forall>k \<in> set ks. k < length (sp_zoneData p)"
  shows "\<exists>p' z' l'. execute_zones env ex ks (p, z, l) = Inr (p', z', l') \<and> lcm_inv l' \<and>
    same_scenes l l' \<and> same_controllers l l' \<and> zone_of l' = fst (scene_run env ex p ks (zone_of l, transmitQueue l)) \<and>
    (transmitMessages l + length ks \<le> NUMBER_OF_RFM100_TRANSMIT_MESSAGES_IN_POOL \<longrightarrow>
       transmitMessages l' \<le> transmitMessages l + length ks \<and>
       transmitQueue l' = snd (scene_run env ex p ks (zone_of l, transmitQueue l))) \<and>
    p' = (if \<exists>k \<in> set ks. scene_percent p k = 100 \<and> zone_of l (entry_zone p k) = None then p\<lparr>sp_running := 0\<rparr> else p)"
  using assms(2-)
proof (induction ks arbitrary: p z l)
  case Nil
  then show ?case by simp
next
  case (Cons k ks)
  obtain p1 z1 l1 where 1: "execute_zone env ex k (p, z, l) = Inr (p1, z1, l1)" "lcm_inv l1" "zone_buffers z1"
    "same_scenes l l1" "same_controllers l l1" "zone_of l1 = fst (scene_run env ex p [k] (zone_of l, transmitQueue l))"
    "transmitMessages l < NUMBER_OF_RFM100_TRANSMIT_MESSAGES_IN_POOL \<longrightarrow> transmitMessages l1 \<le> transmitMessages l + 1 \<and>
       transmitQueue l1 = snd (scene_run env ex p [k] (zone_of l, transmitQueue l))"
    "p1 = (if scene_percent p k = 100 \<and> zone_of l (entry_zone p k) = None then p\<lparr>sp_running := 0\<rparr> else p)"
    using execute_zone_refines [OF assms(1) Cons.prems(1,2), of k p ex] Cons.prems(3) by auto
  have p1: "sp_zoneData p1 = sp_zoneData p" "sp_numZonesInScene p1 = sp_numZonesInScene p"
    "scene_percent p1 = scene_percent p" "p1\<lparr>sp_running := 0\<rparr> = p\<lparr>sp_running := 0\<rparr>"
    unfolding 1(8) scene_percent_def by simp_all
  have none: "zone_of l1 j = None \<longleftrightarrow> zone_of l j = None" for j
    using scene_run_dom [of env ex p "[k]" "(zone_of l, transmitQueue l)"] 1(6) by (metis domIff fst_conv)
  obtain p2 z2 l2 where 2: "execute_zones env ex ks (p1, z1, l1) = Inr (p2, z2, l2)" "lcm_inv l2"
    "same_scenes l1 l2" "same_controllers l1 l2" "zone_of l2 = fst (scene_run env ex p1 ks (zone_of l1, transmitQueue l1))"
    "transmitMessages l1 + length ks \<le> NUMBER_OF_RFM100_TRANSMIT_MESSAGES_IN_POOL \<longrightarrow>
       transmitMessages l2 \<le> transmitMessages l1 + length ks \<and>
       transmitQueue l2 = snd (scene_run env ex p1 ks (zone_of l1, transmitQueue l1))"
    "p2 = (if \<exists>k \<in> set ks. scene_percent p1 k = 100 \<and> zone_of l1 (entry_zone p1 k) = None then p1\<lparr>sp_running := 0\<rparr> else p1)"
    using Cons.IH [OF 1(2,3), of p1] Cons.prems(3) p1(1) by auto
  have cong: "scene_run env ex p1 ks s = scene_run env ex p ks s" for s by (rule scene_run_cong [OF p1(1,2)])
  have "execute_zones env ex (k # ks) (p, z, l) = Inr (p2, z2, l2)" using 1(1) 2(1) by simp
  moreover have "zone_of l2 = fst (scene_run env ex p (k # ks) (zone_of l, transmitQueue l))"
    using scene_run_Cons(1) [of env ex p k ks "zone_of l" "transmitQueue l" "transmitQueue l1", folded 1(6)] 2(5) unfolding cong by metis
  moreover have "transmitMessages l2 \<le> transmitMessages l + length (k # ks) \<and>
      transmitQueue l2 = snd (scene_run env ex p (k # ks) (zone_of l, transmitQueue l))"
    if "transmitMessages l + length (k # ks) \<le> NUMBER_OF_RFM100_TRANSMIT_MESSAGES_IN_POOL"
  proof -
    have "transmitMessages l < NUMBER_OF_RFM100_TRANSMIT_MESSAGES_IN_POOL" using that by simp
    with 1(7) have q1: "transmitMessages l1 \<le> transmitMessages l + 1"
      "transmitQueue l1 = snd (scene_run env ex p [k] (zone_of l, transmitQueue l))" by blast+
    then have "transmitMessages l1 + length ks \<le> NUMBER_OF_RFM100_TRANSMIT_MESSAGES_IN_POOL" using that by simp
    with 2(6) have "transmitMessages l2 \<le> transmitMessages l1 + length ks"
      "transmitQueue l2 = snd (scene_run env ex p ks (zone_of l1, transmitQueue l1))" unfolding cong by blast+
    then show ?thesis
      using q1 scene_run_Cons(2) [of env ex p k ks "zone_of l" "transmitQueue l", folded 1(6) q1(2)] by simp
  qed
  moreover have "p2 = (if \<exists>j \<in> set (k # ks). scene_percent p j = 100 \<and> zone_of l (entry_zone p j) = None
      then p\<lparr>sp_running := 0\<rparr> else p)"
  proof -
    define P where "P j \<longleftrightarrow> scene_percent p j = 100 \<and> zone_of l (entry_zone p j) = None" for j
    have "p2 = (if \<exists>j \<in> set ks. P j then p\<lparr>sp_running := 0\<rparr> else p1)"
      using 2(7) by (simp only: p1(1,3,4) none P_def)
    moreover have "p1 = (if P k then p\<lparr>sp_running := 0\<rparr> else p)" using 1(8) by (simp only: P_def)
    ultimately have "p2 = (if \<exists>j \<in> set (k # ks). P j then p\<lparr>sp_running := 0\<rparr> else p)" by simp
    then show ?thesis by (simp only: P_def)
  qed
  ultimately show ?case
    using 2(2) same_scenes_trans [OF 1(4) 2(3)] same_controllers_trans [OF 1(5) 2(4)]
    by (intro exI [of _ p2] exI [of _ z2] exI [of _ l2]) blast
qed

subsection \<open>Telling the scene controller\<close>

definition holds_scene :: "lcm \<Rightarrow> byte \<Rightarrow> scene_controller_properties \<Rightarrow> nat \<Rightarrow> bool" where
  "holds_scene l sid out i \<longleftrightarrow> (\<exists>c. get_controller l i out = (True, c) \<and>
     (\<exists>k < MAX_SCENES_IN_SCENE_CONTROLLER. bk_sceneId (sc_bank c ! k) = sid))"

lemma controller_cases:
  assumes inv: "controller_inv (controller_part l)" and "length (sc_NameString out) = MAX_SIZE_NAME_STRING"
  shows "get_controller l i out = (False, out) \<or> (\<exists>c. get_controller l i out = (True, c) \<and>
    controller_args_ok c \<and> sc_NameString c ! 0 \<noteq> 0 \<and> i < MAX_NUMBER_OF_SCENE_CONTROLLERS)"
proof (cases "i < MAX_NUMBER_OF_SCENE_CONTROLLERS")
  case True
  let ?b = "crec (sc_flash (controller_part l)) i"
  have b: "nv_controller_of (controller_part l) i = (if memory_initialized ?b then Some ?b else None)"
    by (rule nv_controller_of_inv [OF inv True])
  show ?thesis
  proof (cases "memory_initialized ?b")
    case init: True
    then have "nc_name ?b ! 0 \<noteq> 0" using controller_invD(3) [OF inv True] by simp
    moreover have "nc_name ?b \<noteq> []" by (simp add: nc_name_def)
    ultimately have name: "snprintf_s 21 (sc_NameString out) (nc_name ?b) ! 0 \<noteq> 0"
      using nonempty_cstr [of 20 "nc_name ?b"] snprintf_first [of 20 "sc_NameString out" "nc_name ?b"] by simp
    then show ?thesis
      using True init b assms(2) snprintf_nul [of 21 "sc_NameString out" "nc_name ?b"]
      by (simp add: get_controller_def GetSceneControllerProperties_def controller_args_ok_def del: upt_rec_numeral)
  qed (simp add: get_controller_def GetSceneControllerProperties_def b True)
qed (simp add: get_controller_def GetSceneControllerProperties_def)

lemma get_controller_cases:
  assumes "lcm_inv l" "length (sc_NameString out) = MAX_SIZE_NAME_STRING"
  shows "get_controller l i out = (False, out) \<or> (\<exists>c. get_controller l i out = (True, c) \<and>
    controller_args_ok c \<and> sc_NameString c ! 0 \<noteq> 0 \<and> i < MAX_NUMBER_OF_SCENE_CONTROLLERS)"
  using assms by (intro controller_cases) (simp_all add: lcm_inv_def)

lemma get_controller_banks:
  "get_controller l i out = (True, c) \<Longrightarrow> \<exists>c'. get_controller l i out' = (True, c') \<and> sc_bank c' = sc_bank c"
  by (auto simp: get_controller_def GetSceneControllerProperties_def simp del: upt_rec_numeral split: option.splits if_splits)

lemma find_scene_controller_correct:
  assumes "lcm_inv l" "length (sc_NameString out) = MAX_SIZE_NAME_STRING" "n \<le> MAX_NUMBER_OF_SCENE_CONTROLLERS"
  shows "case find_scene_controller l sid act n out of
      None \<Rightarrow> \<forall>i. MAX_NUMBER_OF_SCENE_CONTROLLERS - n \<le> i \<longrightarrow> \<not> holds_scene l sid out' i
    | Some (i, c) \<Rightarrow> i < MAX_NUMBER_OF_SCENE_CONTROLLERS \<and> holds_scene l sid out' i \<and> controller_args_ok c \<and> sc_NameString c ! 0 \<noteq> 0"
  using assms(2,3)
proof (induction n arbitrary: out)
  case 0
  have "\<not> holds_scene l sid out' i" if "20 \<le> i" for i
    using that by (simp add: holds_scene_def get_controller_def GetSceneControllerProperties_def)
  then show ?case by simp
next
  case (Suc n)
  let ?i = "MAX_NUMBER_OF_SCENE_CONTROLLERS - Suc n"
  obtain f c where g: "get_controller l ?i out = (f, c)" by fastforce
  let ?k = "loop_find (\<lambda>k. bk_sceneId (sc_bank c ! k) = sid) 0 MAX_SCENES_IN_SCENE_CONTROLLER"
  have holds: "holds_scene l sid out' ?i \<longleftrightarrow> f \<and> (\<exists>k < 4. bk_sceneId (sc_bank c ! k) = sid)"
    using g get_controller_banks [of l ?i out c out'] get_controller_banks [of l ?i out' _ out]
    by (cases f) (auto simp: holds_scene_def)
  have k: "?k < 4 \<longleftrightarrow> (\<exists>k < 4. bk_sceneId (sc_bank c ! k) = sid)"
    using loop_find_none [of "\<lambda>k. bk_sceneId (sc_bank c ! k) = sid" 4] loop_find_le [of "\<lambda>k. bk_sceneId (sc_bank c ! k) = sid" 4]
    by (metis le_neq_implies_less less_irrefl)
  have ok: "f \<Longrightarrow> controller_args_ok c \<and> sc_NameString c ! 0 \<noteq> 0" "\<not> f \<Longrightarrow> c = out"
    using get_controller_cases [OF assms(1) Suc.prems(1), of ?i] g by auto
  show ?case
  proof (cases "f \<and> ?k < 4")
    case True
    then show ?thesis using g ok(1) holds k Suc.prems(2) by (simp add: Let_def controller_args_ok_def)
  next
    case False
    then have no: "\<not> holds_scene l sid out' ?i" using holds k by blast
    have "length (sc_NameString c) = 21" using ok Suc.prems(1) by (cases f) (simp_all add: controller_args_ok_def)
    note IH = Suc.IH [OF this]
    have step: "find_scene_controller l sid act (Suc n) out = find_scene_controller l sid act n c"
      by (simp only: find_scene_controller.simps Let_def g prod.case False if_False)
    have "j = ?i \<or> MAX_NUMBER_OF_SCENE_CONTROLLERS - n \<le> j" if "?i \<le> j" for j
      using that Suc.prems(2) by linarith
    then show ?thesis using IH Suc.prems(2) no unfolding step by (auto split: option.splits)
  qed
qed

lemma send_controller_effect:
  assumes "good_env env" "transmitMessages l < NUMBER_OF_RFM100_TRANSMIT_MESSAGES_IN_POOL"
  shows "\<exists>m. snd (SendSceneExecutedToTransmitTask env (Some c) sid avg act l) =
      l\<lparr>transmitMessages := transmitMessages l + 1, transmitQueue := transmitQueue l @ [(m, RFM100_MESSAGE_LOW_PRIORITY)]\<rparr> \<and>
    tm_command m = SCENE_EXECUTED \<and> tm_sceneId m = sid \<and> tm_avgLevel m = avg \<and> tm_state m = of_bool act \<and>
    tm_groupId m = sc_groupId c \<and> tm_buildingId m = sc_buildingId c \<and> tm_houseId m = sc_houseId c"
  using assms by (intro exI [of _ "(pool_message env)\<lparr>tm_groupId := sc_groupId c, tm_buildingId := sc_buildingId c,
      tm_houseId := sc_houseId c, tm_command := SCENE_EXECUTED, tm_sceneId := sid, tm_avgLevel := avg, tm_state := of_bool act\<rparr>"])
    (simp add: SendSceneExecutedToTransmitTask_def send_controller_message_def queue_message_def good_envD Let_def)

lemma tell_scene_controller_effect:
  assumes "good_env env" "lcm_inv l"
  shows "\<exists>l'. tell_scene_controller env ex l = Inr l' \<and> lcm_inv l' \<and> same_zones l l' \<and> same_scenes l l' \<and>
    (transmitMessages l < NUMBER_OF_RFM100_TRANSMIT_MESSAGES_IN_POOL \<longrightarrow>
     (if \<exists>i. holds_scene l (ex_scene ex) out i
      then \<exists>m. transmitQueue l' = transmitQueue l @ [(m, RFM100_MESSAGE_LOW_PRIORITY)] \<and> tm_command m = SCENE_EXECUTED \<and>
           tm_sceneId m = ex_scene ex \<and> tm_state m = of_bool (ex_activate ex)
      else l' = l))"
proof (cases "find_scene_controller l (ex_scene ex) (ex_activate ex) MAX_NUMBER_OF_SCENE_CONTROLLERS (stack_controller env)")
  case None
  then have "\<not> (\<exists>i. holds_scene l (ex_scene ex) out i)"
    using find_scene_controller_correct [OF assms(2) good_envD(4) [OF assms(1)] order_refl, where sid = "ex_scene ex" and act = "ex_activate ex" and out' = out] by simp
  then show ?thesis using None assms(2) by (simp add: tell_scene_controller_def)
next
  case (Some r)
  obtain i c where r: "r = (i, c)" by fastforce
  have f: "i < MAX_NUMBER_OF_SCENE_CONTROLLERS" "\<exists>i. holds_scene l (ex_scene ex) out i" "controller_args_ok c" "sc_NameString c ! 0 \<noteq> 0"
    using find_scene_controller_correct [OF assms(2) good_envD(4) [OF assms(1)] order_refl, where sid = "ex_scene ex" and act = "ex_activate ex" and out' = out] Some r
    by auto
  obtain avg where avg: "CalculateAvgPowerLevelOfScene env l (ex_scene ex) (ex_value ex \<noteq> 0) = Inr avg"
    using get_scene_cases(1) [OF assms(2), of "unat (ex_scene ex)" "stack_scene env"]
    by (auto simp: CalculateAvgPowerLevelOfScene_def)
  let ?l1 = "snd (SendSceneExecutedToTransmitTask env (Some c) (ex_scene ex) avg (ex_activate ex) l)"
  have t: "same_tables l ?l1" unfolding SendSceneExecutedToTransmitTask_def by (rule send_controller_message_tables)
  have inv1: "lcm_inv ?l1" using same_tables(1) [OF t] assms(2) by simp
  note set = set_controller_named [OF good_envD(1) [OF assms(1)] inv1 f(1,3,4)]
  have "same_zones l (set_controller env i c ?l1)" "same_scenes l (set_controller env i c ?l1)"
    using set(2) same_tables(2) [OF t] same_scenes_trans [OF same_tables(3) [OF t] set(3)] by (simp_all add: same_zones_def)
  moreover have "\<exists>m. transmitQueue ?l1 = transmitQueue l @ [(m, RFM100_MESSAGE_LOW_PRIORITY)] \<and> tm_command m = SCENE_EXECUTED \<and>
      tm_sceneId m = ex_scene ex \<and> tm_state m = of_bool (ex_activate ex)"
    if "transmitMessages l < NUMBER_OF_RFM100_TRANSMIT_MESSAGES_IN_POOL"
    using send_controller_effect [OF assms(1) that, of c "ex_scene ex" avg "ex_activate ex"] by auto
  ultimately show ?thesis
    using Some r avg set(1) f(2) by (intro exI [of _ "set_controller env i c ?l1"]) (simp add: tell_scene_controller_def)
qed

subsection \<open>ExecuteScene refines the abstract run\<close>

lemma scene_percent_last:
  assumes "unat (sp_numZonesInScene p) \<le> MAX_ZONES_IN_SCENE" "k < unat (sp_numZonesInScene p)"
  shows "scene_percent p k = 100 \<longleftrightarrow> k = unat (sp_numZonesInScene p) - 1"
proof -
  let ?n = "unat (sp_numZonesInScene p)"
  let ?d = "(k + 1) * 100 div ?n"
  have le: "?d \<le> 100"
  proof -
    have "(k + 1) * 100 \<le> 100 * ?n" using assms(2) by simp
    then have "?d \<le> 100 * ?n div ?n" by (rule div_le_mono)
    then show ?thesis using assms(2) by simp
  qed
  then have u: "unat (scene_percent p k) = ?d" by (simp add: scene_percent_def unat_of_nat)
  have "?d = 100 \<longleftrightarrow> k = ?n - 1"
  proof
    assume "k = ?n - 1"
    then have "k + 1 = ?n" using assms(2) by simp
    then have "?d = ?n * 100 div ?n" by (simp only:)
    then show "?d = 100" using assms(2) by simp
  next
    assume d: "?d = 100"
    have "?n * ?d \<le> (k + 1) * 100" by (rule times_div_less_eq_dividend)
    then have "?n \<le> k + 1" unfolding d by simp
    then show "k = ?n - 1" using assms(2) by simp
  qed
  moreover have "scene_percent p k = 100 \<longleftrightarrow> unat (scene_percent p k) = unat (100 :: byte)" by (simp only: word_unat_eq_iff)
  ultimately show ?thesis using u by simp
qed

text \<open>The ramp rate the run works with: that of the scene's first entry.\<close>

definition execution_of :: "byte \<Rightarrow> scene_properties \<Rightarrow> dword_t \<Rightarrow> bool \<Rightarrow> byte \<Rightarrow> byte \<Rightarrow> execution" where
  "execution_of sid p app act val change = \<lparr>ex_scene = sid, ex_appContextId = app, ex_activate = act, ex_value = val,
     ex_change = change, ex_rampRate = (let r = unat (zs_rampRate (sp_zoneData p ! 0)) in if r = 0 then 100 else r)\<rparr>"

lemma execution_of_fields [simp]:
  "ex_scene (execution_of sid p app act val change) = sid" "ex_activate (execution_of sid p app act val change) = act"
  "ex_value (execution_of sid p app act val change) = val" "ex_change (execution_of sid p app act val change) = change"
  "ex_appContextId (execution_of sid p app act val change) = app"
  by (simp_all add: execution_of_def)

lemma ExecuteScene_run:
  assumes "sp_running p \<noteq> 1" "\<And>k. json_object_ok env k"
  shows "ExecuteScene env sid p app act val change rampRate l =
    bind_sum (execute_zones env (execution_of sid p app act val change) [0..<unat (sp_numZonesInScene p)]
        (p\<lparr>sp_running := 1\<rparr>, stack_zone env,
         emit (EliotSceneFinishedAfter sid (ex_rampRate (execution_of sid p app act val change)))
           (emit (EliotSceneStarted sid) (emit (ScenePropertiesChanged sid app (Some True)) l)))) (\<lambda>(p', _, l).
      bind_sum (tell_scene_controller env (execution_of sid p app act val change) l) (\<lambda>l. Inr (p', l)))"
  using assms by (simp add: ExecuteScene_def Let_def execution_of_def)

lemma ExecuteScene_refines:
  assumes "good_env env" "lcm_inv l" "scene_args_ok p" "sp_running p \<noteq> 1"
  defines "n \<equiv> unat (sp_numZonesInScene p)"
  shows "\<exists>l'. ExecuteScene env sid p app act val change rampRate l =
      Inr (p\<lparr>sp_running := if 0 < n \<and> zone_of l (entry_zone p (n - 1)) = None then 0 else 1\<rparr>, l') \<and>
    lcm_inv l' \<and> same_scenes l l' \<and>
    (let (Z, q) = scene_run env (execution_of sid p app act val change) p [0..<n] (zone_of l, transmitQueue l)
     in zone_of l' = Z \<and>
        (transmitMessages l + n < NUMBER_OF_RFM100_TRANSMIT_MESSAGES_IN_POOL \<longrightarrow>
         (if \<exists>i. holds_scene l sid (stack_controller env) i
          then \<exists>m. transmitQueue l' = q @ [(m, RFM100_MESSAGE_LOW_PRIORITY)] \<and> tm_command m = SCENE_EXECUTED \<and>
               tm_sceneId m = sid \<and> tm_state m = of_bool act
          else transmitQueue l' = q)))"
proof -
  let ?p = "p\<lparr>sp_running := 1\<rparr>" and ?ex = "execution_of sid p app act val change"
  let ?l0 = "emit (EliotSceneFinishedAfter sid (ex_rampRate ?ex)) (emit (EliotSceneStarted sid) (emit (ScenePropertiesChanged sid app (Some True)) l))"
  have t0: "same_tables l ?l0" by (simp add: same_tables_def emit_def)
  have inv0: "lcm_inv ?l0" and z0: "zone_of ?l0 = zone_of l" and q0: "transmitQueue ?l0 = transmitQueue l"
    "transmitMessages ?l0 = transmitMessages l"
    using same_tables(1) [OF t0] same_zones_map [OF same_tables(2) [OF t0]] assms(2) by simp_all
  have len: "\<forall>k \<in> set [0..<n]. k < length (sp_zoneData ?p)" "n \<le> MAX_ZONES_IN_SCENE"
    using assms(3) by (auto simp: scene_args_ok_def n_def)
  obtain p1 z1 l1 where 1: "execute_zones env ?ex [0..<n] (?p, stack_zone env, ?l0) = Inr (p1, z1, l1)" "lcm_inv l1"
    "same_scenes ?l0 l1" "same_controllers ?l0 l1" "zone_of l1 = fst (scene_run env ?ex ?p [0..<n] (zone_of ?l0, transmitQueue ?l0))"
    "transmitMessages ?l0 + length [0..<n] \<le> NUMBER_OF_RFM100_TRANSMIT_MESSAGES_IN_POOL \<longrightarrow>
       transmitMessages l1 \<le> transmitMessages ?l0 + length [0..<n] \<and>
       transmitQueue l1 = snd (scene_run env ?ex ?p [0..<n] (zone_of ?l0, transmitQueue ?l0))"
    "p1 = (if \<exists>k \<in> set [0..<n]. scene_percent ?p k = 100 \<and> zone_of ?l0 (entry_zone ?p k) = None
           then ?p\<lparr>sp_running := 0\<rparr> else ?p)"
    using execute_zones_refines [OF assms(1) inv0 good_envD(2) [OF assms(1)] len(1), of ?ex] by blast
  have "scene_percent ?p = scene_percent p" by (simp add: scene_percent_def fun_eq_iff)
  then have last: "scene_percent ?p k = 100 \<longleftrightarrow> k = n - 1" if "k < n" for k
    using scene_percent_last [of p k] that len(2) by (simp add: n_def)
  have p1: "p1 = p\<lparr>sp_running := if 0 < n \<and> zone_of l (entry_zone p (n - 1)) = None then 0 else 1\<rparr>"
  proof -
    have "(\<exists>k \<in> set [0..<n]. scene_percent ?p k = 100 \<and> zone_of ?l0 (entry_zone ?p k) = None) \<longleftrightarrow>
        0 < n \<and> zone_of l (entry_zone p (n - 1)) = None"
      using last z0 by auto
    then show ?thesis using 1(7) by simp
  qed
  have cong: "scene_run env ?ex ?p [0..<n] st = scene_run env ?ex p [0..<n] st" for st by (rule scene_run_cong) simp_all
  have run: "zone_of l1 = fst (scene_run env ?ex p [0..<n] (zone_of l, transmitQueue l))"
    using 1(5) by (simp only: cong z0 q0)
  from tell_scene_controller_effect [OF assms(1) 1(2), of ?ex "stack_controller env"]
  obtain l2 where 2: "tell_scene_controller env ?ex l1 = Inr l2" "lcm_inv l2" "same_zones l1 l2" "same_scenes l1 l2"
    "transmitMessages l1 < NUMBER_OF_RFM100_TRANSMIT_MESSAGES_IN_POOL \<longrightarrow>
    (if \<exists>i. holds_scene l1 sid (stack_controller env) i
     then \<exists>m. transmitQueue l2 = transmitQueue l1 @ [(m, RFM100_MESSAGE_LOW_PRIORITY)] \<and> tm_command m = SCENE_EXECUTED \<and>
          tm_sceneId m = sid \<and> tm_state m = of_bool act
     else l2 = l1)" unfolding execution_of_fields by blast
  have holds: "holds_scene l1 sid out i = holds_scene l sid out i" for out i
    using same_controllers_trans [OF same_tables(4) [OF t0] 1(4)] by (simp add: holds_scene_def same_controllers_def)
  have "sp_running p \<noteq> 1" "json_object_ok env k" for k using assms(4) good_envD(5) [OF assms(1)] by simp_all
  then have "ExecuteScene env sid p app act val change rampRate l = Inr (p1, l2)"
    using 1(1) 2(1) by (simp add: ExecuteScene_run n_def)
  moreover have "same_scenes l l2"
    using same_scenes_trans [OF same_scenes_trans [OF same_tables(3) [OF t0] 1(3)] 2(4)] .
  moreover have "if \<exists>i. holds_scene l sid (stack_controller env) i
     then \<exists>m. transmitQueue l2 = snd (scene_run env ?ex p [0..<n] (zone_of l, transmitQueue l)) @ [(m, RFM100_MESSAGE_LOW_PRIORITY)] \<and>
          tm_command m = SCENE_EXECUTED \<and> tm_sceneId m = sid \<and> tm_state m = of_bool act
     else transmitQueue l2 = snd (scene_run env ?ex p [0..<n] (zone_of l, transmitQueue l))"
    if room: "transmitMessages l + n < NUMBER_OF_RFM100_TRANSMIT_MESSAGES_IN_POOL"
  proof -
    have q1: "transmitMessages l1 \<le> transmitMessages l + n"
      "transmitQueue l1 = snd (scene_run env ?ex p [0..<n] (zone_of l, transmitQueue l))"
      using 1(6) room by (simp_all add: cong z0 q0)
    then have "transmitMessages l1 < NUMBER_OF_RFM100_TRANSMIT_MESSAGES_IN_POOL" using room by simp
    from 2(5) [THEN mp, OF this] show ?thesis
      unfolding holds q1(2) [symmetric] by (cases "\<exists>i. holds_scene l sid (stack_controller env) i") (simp_all only: if_True if_False)
  qed
  ultimately show ?thesis
    using 2(2) same_zones_map [OF 2(3)] unfolding p1 run
    by (intro exI [of _ l2]) (simp add: case_prod_beta)
qed

end
