(* ===== verification/Scene_Completion.thy ===== *)
theory Scene_Completion
  imports Scene_Execution
begin

unbundle bit_operations_syntax

text \<open>
  A scene from its request to its end: \<open>execute_stored_scene\<close> is the part the handlers of Socket\_Task.c share
  (read the scene, execute it, save it), \<open>transmit_run\<close> is the transmit task emptying its queue. Together they
  bring every zone of the scene to the level of its entry and leave the scene no longer running.
\<close>

subsection \<open>Executing a stored scene\<close>

text \<open>\<open>sceneId != -1\<close> always holds for a \<open>byte_t\<close>; an empty bank (0xFF) is refused by \<open>GetSceneProperties\<close>.\<close>

definition execute_stored_scene ::
  "environment \<Rightarrow> byte \<Rightarrow> dword_t \<Rightarrow> bool \<Rightarrow> byte \<Rightarrow> byte \<Rightarrow> byte \<Rightarrow> lcm \<Rightarrow> memory_error + lcm" where
  "execute_stored_scene env sceneId appContextId activate val change rampRate l =
     bind_sum (get_scene l (unat sceneId) (stack_scene env)) (\<lambda>(found, p).
       if found then
         bind_sum (ExecuteScene env sceneId p appContextId activate val change rampRate l) (\<lambda>(p, l).
         set_scene env (unat sceneId) p l)
       else Inr l)"

fun transmit_run :: "environment \<Rightarrow> (nat \<Rightarrow> nat \<Rightarrow> byte option) \<Rightarrow> nat \<Rightarrow> lcm \<Rightarrow> memory_error + lcm" where
  "transmit_run env acks 0 l = Inr l"
| "transmit_run env acks (Suc n) l = bind_sum (transmit_message_step env (acks n) l) (transmit_run env acks n)"

subsection \<open>Emptying the queue\<close>

text \<open>The zones and the scenes after the messages \<open>q\<close>.\<close>

definition reached :: "(transmit_message \<times> byte) list \<Rightarrow> (nat \<Rightarrow> zone_properties option) \<Rightarrow> nat \<Rightarrow> zone_properties option" where
  "reached q Z i = map_option (\<lambda>z. if \<exists>m \<in> fst ` set q. ramp_message_for z m then reach_target z else z) (Z i)"

fun ended :: "(transmit_message \<times> byte) list \<Rightarrow> (nat \<Rightarrow> scene_properties option) \<Rightarrow> nat \<Rightarrow> scene_properties option" where
  "ended [] S = S"
| "ended ((m, _) # q) S = ended q (if tm_command m = RAMP then finished m S else S)"

lemma ramp_message_for_address:
  "same_address z z' \<Longrightarrow> ramp_message_for z' m = ramp_message_for z m"
  by (simp add: ramp_message_for_def same_address_def)

lemma ramp_message_for_unique:
  assumes "distinct_addresses Z" "Z i = Some z" "Z j = Some z'" "ramp_message_for z m" "ramp_message_for z' m"
  shows "i = j"
proof -
  have "same_address z z'" using assms(4,5) by (simp add: ramp_message_for_def same_address_def)
  then show ?thesis using assms(1-3) unfolding distinct_addresses_def by blast
qed

lemma reached_send_only: "tm_command m \<noteq> RAMP \<Longrightarrow> reached ((m, prio) # q) Z = reached q Z"
  by (auto simp: reached_def ramp_message_for_def fun_eq_iff)

lemma reached_ramp:
  assumes "distinct_addresses Z" "Z i = Some z" "ramp_message_for z m"
  shows "reached q (Z(i \<mapsto> reach_target z)) = reached ((m, prio) # q) Z"
proof
  fix j
  show "reached q (Z(i \<mapsto> reach_target z)) j = reached ((m, prio) # q) Z j"
  proof (cases "j = i")
    case True
    have "ramp_message_for (reach_target z) m' = ramp_message_for z m'" for m'
      by (rule ramp_message_for_address) simp
    then show ?thesis using True assms(2,3) by (simp add: reached_def)
  next
    case False
    have "\<not> ramp_message_for z' m" if "Z j = Some z'" for z'
      using ramp_message_for_unique [OF assms(1,2) that assms(3)] False by blast
    then show ?thesis using False by (cases "Z j") (simp_all add: reached_def)
  qed
qed

text \<open>Every ramp message is for a zone of the table and for the scene \<open>sid\<close>, which can be saved.\<close>

definition deliverable :: "lcm \<Rightarrow> nat \<Rightarrow> transmit_message \<Rightarrow> bool" where
  "deliverable l sid m \<longleftrightarrow> tm_command m = RAMP \<longrightarrow>
     unat (tm_sceneId m) = sid \<and> (\<exists>i z. zone_of l i = Some z \<and> ramp_message_for z m)"

lemma deliverable_after:
  assumes "deliverable l sid m'" "zone_of l i = Some z" "zone_of l' = (zone_of l)(i \<mapsto> reach_target z)"
  shows "deliverable l' sid m'"
proof (cases "tm_command m' = RAMP")
  case True
  then obtain j z' where j: "unat (tm_sceneId m') = sid" "zone_of l j = Some z'" "ramp_message_for z' m'"
    using assms(1) by (auto simp: deliverable_def)
  show ?thesis
  proof (cases "j = i")
    case True
    then have "ramp_message_for (reach_target z) m'"
      using j(2,3) assms(2) ramp_message_for_address [of z "reach_target z" m'] by simp
    then show ?thesis using j(1) assms(3) by (auto simp: deliverable_def)
  next
    case False
    then have "zone_of l' j = Some z'" using j(2) assms(3) by simp
    then show ?thesis using j(1,3) by (auto simp: deliverable_def)
  qed
qed (simp add: deliverable_def)

lemma deliverable_zone:
  "unat (tm_sceneId m) = sid \<Longrightarrow> zone_of l i = Some z \<Longrightarrow> ramp_message_for z m \<Longrightarrow> deliverable l sid m"
  by (auto simp: deliverable_def)

lemma deliverable_same: "deliverable l sid m \<Longrightarrow> zone_of l' = zone_of l \<Longrightarrow> deliverable l' sid m"
  by (simp add: deliverable_def)

lemma transmit_run_queue:
  assumes "good_env env"
  shows "lcm_inv l \<Longrightarrow> distinct_addresses (zone_of l) \<Longrightarrow> stored_id l sid \<Longrightarrow>
    \<forall>(m, _) \<in> set (transmitQueue l). deliverable l sid m \<Longrightarrow> transmitQueue l = q \<Longrightarrow>
    \<exists>l'. transmit_run env acks (length q) l = Inr l' \<and> lcm_inv l' \<and> transmitQueue l' = [] \<and>
    same_controllers l l' \<and> stored_id l' sid \<and> transmitMessages l' = transmitMessages l - length q \<and>
    zone_of l' = reached q (zone_of l) \<and> scene_of l' = ended q (scene_of l)"
proof (induction q arbitrary: l)
  case Nil
  then show ?case by (auto simp: reached_def option.map_ident)
  next
  case (Cons mp q)
  obtain m prio where mp: "mp = (m, prio)" by fastforce
  have queue: "transmitQueue l = (m, prio) # q" using Cons.prems(5) mp by simp
  have all: "\<forall>(m, _) \<in> set q. deliverable l sid m" "deliverable l sid m" using Cons.prems(4) queue by auto
  show ?case
  proof (cases "tm_command m = RAMP")
    case False
    from step_send_only [OF Cons.prems(1) False queue, of env "acks (length q)"]
    obtain l1 where l1: "transmit_message_step env (acks (length q)) l = Inr l1" "message_done l l1 (zone_of l) (scene_of l)"
      "stored_id l1 = stored_id l" by blast
    then have d1: "lcm_inv l1" "zone_of l1 = zone_of l" "scene_of l1 = scene_of l" "same_controllers l l1"
      "transmitQueue l1 = q" "transmitMessages l1 = transmitMessages l - 1" using queue by (simp_all add: message_done_def)
    have "\<forall>(m, _) \<in> set (transmitQueue l1). deliverable l1 sid m"
      using all(1) d1(2,5) by (auto intro: deliverable_same)
    from Cons.IH [OF d1(1) _ _ this d1(5)] Cons.prems(2,3) d1(2) l1(3)
    obtain l2 where l2: "transmit_run env acks (length q) l1 = Inr l2" "lcm_inv l2" "transmitQueue l2 = []"
      "same_controllers l1 l2" "stored_id l2 sid" "transmitMessages l2 = transmitMessages l1 - length q"
      "zone_of l2 = reached q (zone_of l1)" "scene_of l2 = ended q (scene_of l1)" by auto
    then show ?thesis
      using l1(1) d1 False mp same_controllers_trans [OF d1(4) l2(4)] reached_send_only [OF False] by simp
  next
    case True
    then obtain i z where i: "unat (tm_sceneId m) = sid" "zone_of l i = Some z" "ramp_message_for z m"
      using all(2) by (auto simp: deliverable_def)
    have "stored_id l (unat (tm_sceneId m))" using Cons.prems(3) i(1) by simp
    with step_ramp [OF assms(1) Cons.prems(1,2) i(2,3) _ queue, of "acks (length q)"]
    obtain l1 where l1: "transmit_message_step env (acks (length q)) l = Inr l1"
      "message_done l l1 ((zone_of l)(i \<mapsto> reach_target z)) (finished m (scene_of l))" "stored_id l1 sid"
      using i(1) by auto
    then have d1: "lcm_inv l1" "zone_of l1 = (zone_of l)(i \<mapsto> reach_target z)" "scene_of l1 = finished m (scene_of l)"
      "same_controllers l l1" "transmitQueue l1 = q" "transmitMessages l1 = transmitMessages l - 1"
      using queue by (simp_all add: message_done_def)
    have dist: "distinct_addresses (zone_of l1)"
      unfolding d1(2) by (rule distinct_addresses_upd [OF Cons.prems(2) i(2)]) simp
    have "\<forall>(m, _) \<in> set (transmitQueue l1). deliverable l1 sid m"
      using all(1) d1(5) deliverable_after [OF _ i(2) d1(2)] by auto
    from Cons.IH [OF d1(1) dist l1(3) this d1(5)]
    obtain l2 where l2: "transmit_run env acks (length q) l1 = Inr l2" "lcm_inv l2" "transmitQueue l2 = []"
      "same_controllers l1 l2" "stored_id l2 sid" "transmitMessages l2 = transmitMessages l1 - length q"
      "zone_of l2 = reached q (zone_of l1)" "scene_of l2 = ended q (scene_of l1)" by auto
    then show ?thesis
      using l1(1) d1 True mp same_controllers_trans [OF d1(4) l2(4)] reached_ramp [OF Cons.prems(2) i(2,3)] by simp
  qed
qed

lemmas transmit_run_effect = transmit_run_queue [OF _ _ _ _ _ refl]

subsection \<open>The messages of a scene\<close>

definition scene_messages ::
  "environment \<Rightarrow> execution \<Rightarrow> scene_properties \<Rightarrow> nat list \<Rightarrow> (nat \<Rightarrow> zone_properties option) \<Rightarrow> (transmit_message \<times> byte) list" where
  "scene_messages env ex p ks Z =
     List.map_filter (\<lambda>k. map_option (\<lambda>z. (ramp_message env ex p k z, RFM100_MESSAGE_LOW_PRIORITY)) (Z (entry_zone p k))) ks"

lemma ramp_message_new_target [simp]: "ramp_message env ex p k (new_target ex' zd z) = ramp_message env ex p k z"
  using new_target_keeps(3) [of z ex' zd] by (simp add: ramp_message_def same_address_def)

lemma scene_messages_new_target:
  "Z i = Some z \<Longrightarrow> scene_messages env ex p ks (Z(i \<mapsto> new_target ex' zd z)) = scene_messages env ex p ks Z"
  by (induction ks) (auto simp: scene_messages_def map_filter_simps split: option.split)

lemma scene_run_queue: "snd (scene_run env ex p ks (Z, q)) = q @ scene_messages env ex p ks Z"
proof (induction ks arbitrary: Z q)
  case Nil
  then show ?case by (simp add: scene_messages_def map_filter_simps)
next
  case (Cons k ks)
  show ?case
  proof (cases "Z (entry_zone p k)")
    case None
    then have "scene_messages env ex p (k # ks) Z = scene_messages env ex p ks Z"
      by (simp add: scene_messages_def map_filter_simps)
    then show ?thesis using None Cons.IH by simp
  next
    case (Some z)
    then have "scene_messages env ex p (k # ks) Z = (ramp_message env ex p k z, RFM100_MESSAGE_LOW_PRIORITY) # scene_messages env ex p ks Z"
      by (simp add: scene_messages_def map_filter_simps)
    then show ?thesis
      by (simp only: scene_run.simps Some option.case Cons.IH scene_messages_new_target [where Z = Z, OF Some] append_assoc append.simps)
  qed
qed

lemma set_scene_messages:
  "mp \<in> set (scene_messages env ex p ks Z) \<longleftrightarrow>
   (\<exists>k \<in> set ks. \<exists>z. Z (entry_zone p k) = Some z \<and> mp = (ramp_message env ex p k z, RFM100_MESSAGE_LOW_PRIORITY))"
  by (induction ks) (auto simp: scene_messages_def map_filter_simps split: option.splits)

lemma scene_run_address:
  assumes "Z i = Some z"
  shows "\<exists>z'. fst (scene_run env ex p ks (Z, q)) i = Some z' \<and> same_address z z'"
  using assms
proof (induction ks arbitrary: Z q z)
  case Nil
  then show ?case by (simp add: same_address_def)
next
  case (Cons k ks)
  let ?Z = "case Z (entry_zone p k) of None \<Rightarrow> Z | Some y \<Rightarrow> Z(entry_zone p k \<mapsto> new_target ex (sp_zoneData p ! k) y)"
  obtain y where y: "?Z i = Some y" "same_address z y"
  proof (cases "entry_zone p k = i")
    case True
    then show ?thesis using that [of "new_target ex (sp_zoneData p ! k) z"] Cons.prems by simp
  next
    case False
    then show ?thesis using that [of z] Cons.prems by (cases "Z (entry_zone p k)") (simp_all add: same_address_def)
  qed
  have "scene_run env ex p (k # ks) (Z, q) = scene_run env ex p ks (?Z, q @ scene_messages env ex p [k] Z)"
    by (cases "Z (entry_zone p k)") (simp_all add: scene_messages_def map_filter_simps)
  with Cons.IH [where Z = ?Z, OF y(1), of "q @ scene_messages env ex p [k] Z"] y(2) show ?case by (auto simp: same_address_def)
qed

lemma scene_run_untouched:
  "i \<notin> entry_zone p ` set ks \<Longrightarrow> fst (scene_run env ex p ks (Z, q)) i = Z i"
proof (induction ks arbitrary: Z q)
  case (Cons k ks)
  then have "i \<noteq> entry_zone p k" "i \<notin> entry_zone p ` set ks" by auto
  then show ?case using Cons.IH by (cases "Z (entry_zone p k)") auto
qed simp

lemma scene_run_last:
  assumes "Z (entry_zone p k) = Some z" "\<forall>j \<in> set ks'. entry_zone p j \<noteq> entry_zone p k"
  shows "\<exists>y. fst (scene_run env ex p (ks @ k # ks') (Z, q)) (entry_zone p k) = Some (new_target ex (sp_zoneData p ! k) y)"
proof -
  obtain Z1 q1 where 1: "scene_run env ex p ks (Z, q) = (Z1, q1)" by fastforce
  obtain y where y: "Z1 (entry_zone p k) = Some y"
    using scene_run_address [where Z = Z, OF assms(1), of env ex p ks q] 1 by auto
  have "entry_zone p k \<notin> entry_zone p ` set ks'" using assms(2) by force
  with y show ?thesis by (intro exI [of _ y]) (simp add: scene_run_append 1 scene_run_untouched)
qed

lemma scene_run_cut:
  assumes "\<forall>k \<in> set ks. k < unat (sp_numZonesInScene p)"
  shows "scene_run env ex (cut_scene p) ks s = scene_run env ex p ks s"
  using assms
proof (induction ks arbitrary: s)
  case (Cons k ks)
  have "ramp_message env ex (cut_scene p) k = ramp_message env ex p k"
    by (simp add: ramp_message_def scene_percent_def fun_eq_iff)
  moreover have "sp_zoneData (cut_scene p) ! k = sp_zoneData p ! k" using Cons.prems by (intro cut_scene_zone) simp
  ultimately show ?case using Cons.IH Cons.prems by (cases s) (simp split: option.split)
qed simp

lemma scene_run_of_cut:
  "scene_run env (execution_of sid (cut_scene p) app act val change) (cut_scene p) [0..<unat (sp_numZonesInScene p)] st =
   scene_run env (execution_of sid p app act val change) p [0..<unat (sp_numZonesInScene p)] st"
proof (cases "unat (sp_numZonesInScene p) = 0")
  case False
  then have "execution_of sid (cut_scene p) app act val change = execution_of sid p app act val change"
    using cut_scene_zone [of 0 p] by (simp add: execution_of_def)
  then show ?thesis using scene_run_cut [of "[0..<unat (sp_numZonesInScene p)]" p] by simp
qed simp

text \<open>The last message ends the scene.\<close>

lemma finished_running:
  assumes "unat (tm_sceneId m) = sid" "S sid = Some s"
  shows "finished m S = S(sid \<mapsto> s\<lparr>sp_running := if tm_scenePercent m = 100 \<and> sp_running s = 1 then 0 else sp_running s\<rparr>)"
proof -
  have "S(sid \<mapsto> s) = S" using assms(2) by auto
  then show ?thesis using assms by (simp add: finished_def Let_def)
qed

lemma ended_scene:
  assumes "\<forall>(m, _) \<in> set q. tm_command m = RAMP \<longrightarrow> unat (tm_sceneId m) = sid" "S sid = Some s"
  shows "ended q S = S(sid \<mapsto> s\<lparr>sp_running :=
    if sp_running s = 1 \<and> (\<exists>(m, _) \<in> set q. tm_command m = RAMP \<and> tm_scenePercent m = 100) then 0 else sp_running s\<rparr>)"
  using assms
proof (induction q arbitrary: S s)
  case Nil
  then show ?case by auto
next
  case (Cons mp q)
  obtain m prio where mp: "mp = (m, prio)" by fastforce
  show ?case
  proof (cases "tm_command m = RAMP")
    case True
    then have sid: "unat (tm_sceneId m) = sid" using Cons.prems(1) mp by simp
    define P where "P = (\<lambda>(m :: transmit_message, _ :: byte). tm_command m = RAMP \<and> tm_scenePercent m = 100)"
    define r where "r = (if tm_scenePercent m = 100 \<and> sp_running s = 1 then 0 else sp_running s)"
    have "ended q (S(sid \<mapsto> s\<lparr>sp_running := r\<rparr>)) = (S(sid \<mapsto> s\<lparr>sp_running := r\<rparr>))(sid \<mapsto> s\<lparr>sp_running := r\<rparr>\<lparr>sp_running :=
      if sp_running (s\<lparr>sp_running := r\<rparr>) = 1 \<and> (\<exists>x \<in> set q. P x) then 0 else sp_running (s\<lparr>sp_running := r\<rparr>)\<rparr>)"
      unfolding P_def using Cons.prems(1) by (intro Cons.IH) simp_all
    also have "\<dots> = S(sid \<mapsto> s\<lparr>sp_running := if r = 1 \<and> (\<exists>x \<in> set q. P x) then 0 else r\<rparr>)"
      by (cases "\<exists>x \<in> set q. P x") simp_all
    also have "(if r = 1 \<and> (\<exists>x \<in> set q. P x) then 0 else r) =
        (if sp_running s = 1 \<and> (\<exists>x \<in> set (mp # q). P x) then 0 else sp_running s)"
      using True mp by (auto simp: r_def P_def)
    finally show ?thesis
      using True mp finished_running [where S = S, OF sid Cons.prems(2)] by (simp only: ended.simps if_True r_def P_def refl)
  next
    case False
    then show ?thesis using Cons mp by simp
  qed
qed

subsection \<open>A scene is completed\<close>

lemma last_message:
  assumes "unat (sp_numZonesInScene p) = n" "n \<le> MAX_ZONES_IN_SCENE" "0 < n"
  shows "(\<exists>(m, _) \<in> set (scene_messages env ex p [0..<n] Z). tm_command m = RAMP \<and> tm_scenePercent m = 100) \<longleftrightarrow>
    Z (entry_zone p (n - 1)) \<noteq> None"
proof -
  have pct: "scene_percent p k = 100 \<longleftrightarrow> k = n - 1" if "k < n" for k
    using scene_percent_last [of p k] assms that by simp
  show ?thesis
  proof
    assume "\<exists>(m, _) \<in> set (scene_messages env ex p [0..<n] Z). tm_command m = RAMP \<and> tm_scenePercent m = 100"
    then obtain k z where "k < n" "Z (entry_zone p k) = Some z" "scene_percent p k = 100"
      by (auto simp: set_scene_messages ramp_message_def)
    then show "Z (entry_zone p (n - 1)) \<noteq> None" using pct by auto
  next
    assume "Z (entry_zone p (n - 1)) \<noteq> None"
    then obtain z where "Z (entry_zone p (n - 1)) = Some z" by auto
    then have "(ramp_message env ex p (n - 1) z, RFM100_MESSAGE_LOW_PRIORITY) \<in> set (scene_messages env ex p [0..<n] Z)"
      using assms(3) by (auto simp: set_scene_messages)
    moreover have "tm_scenePercent (ramp_message env ex p (n - 1) z) = 100" "tm_command (ramp_message env ex p (n - 1) z) = RAMP"
      using pct [of "n - 1"] assms(3) by (simp_all add: ramp_message_def)
    ultimately show "\<exists>(m, _) \<in> set (scene_messages env ex p [0..<n] Z). tm_command m = RAMP \<and> tm_scenePercent m = 100"
      by (intro bexI [of _ "(ramp_message env ex p (n - 1) z, RFM100_MESSAGE_LOW_PRIORITY)"]) simp_all
  qed
qed

lemma reached_scene:
  assumes "distinct_addresses Z" "\<And>i z. Z i = Some z \<Longrightarrow> \<exists>z'. Z1 i = Some z' \<and> same_address z z'"
    "\<And>i. Z i = None \<Longrightarrow> Z1 i = None" "\<And>m prio. (m, prio) \<in> set q \<Longrightarrow> tm_command m \<noteq> RAMP"
  shows "reached (scene_messages env ex p ks Z @ q) Z1 i = (if i \<in> entry_zone p ` set ks then map_option reach_target (Z1 i) else Z1 i)"
proof (cases "Z i")
  case None
  then show ?thesis using assms(3) by (simp add: reached_def)
next
  case (Some z)
  obtain z1 where z1: "Z1 i = Some z1" "same_address z z1" using assms(2) [OF Some] by blast
  have no: "\<not> ramp_message_for z1 m" if "(m, prio) \<in> set q" for m prio
    using assms(4) [OF that] by (simp add: ramp_message_for_def)
  have msg: "(\<exists>m \<in> fst ` set (scene_messages env ex p ks Z @ q). ramp_message_for z1 m) \<longleftrightarrow> i \<in> entry_zone p ` set ks"
  proof
    assume "\<exists>m \<in> fst ` set (scene_messages env ex p ks Z @ q). ramp_message_for z1 m"
    then obtain k y where k: "k \<in> set ks" "Z (entry_zone p k) = Some y" "ramp_message_for z1 (ramp_message env ex p k y)"
      using no by (auto simp: set_scene_messages)
    have "ramp_message_for y (ramp_message env ex p k y)" by (simp add: ramp_message_for_def ramp_message_def)
    moreover have "ramp_message_for z (ramp_message env ex p k y)" using k(3) ramp_message_for_address [OF z1(2)] by simp
    ultimately have "entry_zone p k = i" using ramp_message_for_unique [where Z = Z, OF assms(1) k(2) Some] by blast
    then show "i \<in> entry_zone p ` set ks" using k(1) by blast
  next
    assume "i \<in> entry_zone p ` set ks"
    then obtain k where k: "k \<in> set ks" "i = entry_zone p k" by auto
    then have "(ramp_message env ex p k z, RFM100_MESSAGE_LOW_PRIORITY) \<in> set (scene_messages env ex p ks Z)"
      using Some by (auto simp: set_scene_messages)
    moreover have "ramp_message_for z1 (ramp_message env ex p k z)"
      using z1(2) by (simp add: ramp_message_for_def ramp_message_def same_address_def)
    ultimately show "\<exists>m \<in> fst ` set (scene_messages env ex p ks Z @ q). ramp_message_for z1 m" by force
  qed
  show ?thesis unfolding reached_def z1(1) option.map msg by simp
qed

lemma execute_unstored_scene:
  assumes "good_env env" "lcm_inv l" "scene_of l (unat sid) = Some s" "unat sid < NUM_ELIOT_PROPERTIES_IN_FLASH_SECTOR"
    and "\<not> stored_id l (unat sid)" "sp_running s \<noteq> 1"
  shows "execute_stored_scene env sid app act val change rampRate l = Inl OutOfBoundsWrite"
proof -
  obtain p where p: "get_scene l (unat sid) (stack_scene env) = Inr (True, p)" "cut_scene p = s" "scene_args_ok p"
    using get_scene_some [OF assms(2,3) good_envD(3) [OF assms(1)]] by metis
  have "sp_running p \<noteq> 1" using p(2) assms(6) by auto
  from ExecuteScene_refines [OF assms(1,2) p(3) this, of sid app act val change rampRate]
  obtain r l1 where l1: "ExecuteScene env sid p app act val change rampRate l = Inr (p\<lparr>sp_running := r\<rparr>, l1)" "lcm_inv l1"
    "same_scenes l l1" by blast
  have "scene_id_ok (p\<lparr>sp_running := r\<rparr>)" "cstr ELIOT_DEVICE_ID_SIZE (sp_EliotDeviceId (p\<lparr>sp_running := r\<rparr>)) = sp_EliotDeviceId s"
    using p(2) scene_args_id [OF p(3)] by (auto simp: scene_id_ok_def cut_scene_def)
  then have "set_scene env (unat sid) (p\<lparr>sp_running := r\<rparr>) l1 = Inl OutOfBoundsWrite"
    using unstored_save_overflows [OF good_envD(1) [OF assms(1)] l1(2) _ assms(4)] assms(3,5)
      same_scenes_map [OF l1(3)] same_scenes_stored [OF l1(3)] by simp
  then show ?thesis using p(1) l1(1) by (simp add: execute_stored_scene_def)
qed

lemma stored_scene_completes:
  assumes "good_env env" "lcm_inv l" "distinct_addresses (zone_of l)" "transmitQueue l = []" "transmitMessages l = 0"
    and s: "scene_of l (unat sid) = Some s" "stored_id l (unat sid)" "sp_running s \<noteq> 1"
  defines "n \<equiv> unat (sp_numZonesInScene s)"
  shows "\<exists>l1 l2. execute_stored_scene env sid app act val change rampRate l = Inr l1 \<and>
    transmit_run env acks (length (transmitQueue l1)) l1 = Inr l2 \<and> lcm_inv l2 \<and> transmitQueue l2 = [] \<and>
    scene_of l2 = (scene_of l)(unat sid \<mapsto> s\<lparr>sp_running := if n = 0 then 1 else 0\<rparr>) \<and>
    (\<forall>i. zone_of l2 i = (let Z = fst (scene_run env (execution_of sid s app act val change) s [0..<n] (zone_of l, []))
       in if i \<in> entry_zone s ` {0..<n} then map_option reach_target (Z i) else Z i))"
proof -
  from get_scene_some [OF assms(2) s(1) good_envD(3) [OF assms(1)]]
  obtain p where p: "get_scene l (unat sid) (stack_scene env) = Inr (True, p)" "cut_scene p = s" "scene_args_ok p"
    "sp_SceneNameString p ! 0 \<noteq> 0" by metis
  have pn: "unat (sp_numZonesInScene p) = n" "sp_running p \<noteq> 1" using p(2) s(3) n_def by auto
  have n: "n \<le> MAX_ZONES_IN_SCENE" using p(3) pn by (simp_all add: scene_args_ok_def n_def)
  let ?ex = "execution_of sid s app act val change"
  have run: "scene_run env (execution_of sid p app act val change) p [0..<n] st = scene_run env ?ex s [0..<n] st" for st
    using scene_run_of_cut [of env sid p app act val change st] pn by (simp add: p(2))
  have last: "0 < n \<and> zone_of l (entry_zone p (n - 1)) = None \<longleftrightarrow> 0 < n \<and> zone_of l (entry_zone s (n - 1)) = None"
    using cut_scene_zone [of "n - 1" p] pn by (auto simp: p(2))
  obtain Z q where Zq: "scene_run env ?ex s [0..<n] (zone_of l, []) = (Z, q)" by fastforce
  have q: "q = scene_messages env ?ex s [0..<n] (zone_of l)" using scene_run_queue [of env ?ex s "[0..<n]" "zone_of l" "[]"] Zq by simp
  define r where "r = (if 0 < n \<and> zone_of l (entry_zone s (n - 1)) = None then 0 else 1 :: byte)"
  have room: "transmitMessages l + unat (sp_numZonesInScene p) < NUMBER_OF_RFM100_TRANSMIT_MESSAGES_IN_POOL"
    using assms(5) pn n by simp
  from ExecuteScene_refines [OF assms(1,2) p(3) pn(2), of sid app act val change rampRate]
  obtain l1 where l1: "ExecuteScene env sid p app act val change rampRate l = Inr (p\<lparr>sp_running := r\<rparr>, l1)" "lcm_inv l1"
    "same_scenes l l1" "zone_of l1 = Z"
    and queue: "if \<exists>i. holds_scene l sid (stack_controller env) i
         then \<exists>m. transmitQueue l1 = q @ [(m, RFM100_MESSAGE_LOW_PRIORITY)] \<and> tm_command m = SCENE_EXECUTED \<and>
              tm_sceneId m = sid \<and> tm_state m = of_bool act
         else transmitQueue l1 = q"
    using room unfolding run assms(4) pn Zq last r_def by auto
  obtain q' where q': "transmitQueue l1 = q @ q'" "\<And>m prio. (m, prio) \<in> set q' \<Longrightarrow> tm_command m \<noteq> RAMP"
    using queue by (cases "\<exists>i. holds_scene l sid (stack_controller env) i") auto
  have args: "scene_args_ok (p\<lparr>sp_running := r\<rparr>)" "sp_SceneNameString (p\<lparr>sp_running := r\<rparr>) ! 0 \<noteq> 0"
    "cstr ELIOT_DEVICE_ID_SIZE (sp_EliotDeviceId (p\<lparr>sp_running := r\<rparr>)) = sp_EliotDeviceId s"
    using p(2-4) by (auto simp: scene_args_ok_def cut_scene_def)
  have "stored_id l1 (unat sid)" "scene_of l1 (unat sid) = Some s"
    using same_scenes_stored [OF l1(3)] same_scenes_map [OF l1(3)] s by simp_all
  from set_scene_map [OF good_envD(1) [OF assms(1)] l1(2) this(1) args(1,2) this(2) args(3)]
  obtain l2 where l2: "set_scene env (unat sid) (p\<lparr>sp_running := r\<rparr>) l1 = Inr l2" "lcm_inv l2" "same_zones l1 l2"
    "scene_of l2 = (scene_of l1)(unat sid \<mapsto> cut_scene (p\<lparr>sp_running := r\<rparr>))" "stored_id l2 (unat sid)"
    "l2 = l1\<lparr>lcm_flash := lcm_flash l2, lcm_scenes := lcm_scenes l2\<rparr>" by metis
  have z2: "zone_of l2 = Z" using same_zones_map [OF l2(3)] l1(4) by simp
  have q2: "transmitQueue l2 = q @ q'" by (subst l2(6)) (simp add: q'(1))
  have sc2: "scene_of l2 = (scene_of l)(unat sid \<mapsto> s\<lparr>sp_running := r\<rparr>)"
    using l2(4) same_scenes_map [OF l1(3)] p(2) by simp
  have zones: "\<exists>z'. Z i = Some z' \<and> same_address z z'" if "zone_of l i = Some z" for i z
    using scene_run_address [where Z = "zone_of l", OF that, of env ?ex s "[0..<n]" "[]"] Zq by simp
  have dom: "dom Z = dom (zone_of l)" using scene_run_dom [of env ?ex s "[0..<n]" "(zone_of l, [])"] Zq by simp
  have none: "Z i = None" if "zone_of l i = None" for i using dom that by (metis domIff)
  have dist: "distinct_addresses Z"
    unfolding distinct_addresses_def
  proof (intro allI impI)
    fix i j x y assume ij: "Z i = Some x" "Z j = Some y" "same_address x y"
    then obtain x' y' where "zone_of l i = Some x'" "zone_of l j = Some y'" using dom by (metis domIff option.exhaust_sel option.distinct(1))
    with zones [OF this(1)] zones [OF this(2)] ij have "zone_of l i = Some x'" "zone_of l j = Some y'" "same_address x' y'"
      by (auto simp: same_address_def)
    then show "i = j" using assms(3) unfolding distinct_addresses_def by blast
  qed
  have deliver: "\<forall>(m, _) \<in> set (transmitQueue l2). deliverable l2 (unat sid) m"
  proof -
    have "deliverable l2 (unat sid) (ramp_message env ?ex s k z)" if k: "zone_of l (entry_zone s k) = Some z" for k z
    proof -
      obtain z' where "Z (entry_zone s k) = Some z'" "same_address z z'" using zones [OF k] by blast
      then show ?thesis
        by (intro deliverable_zone [where i = "entry_zone s k" and z = z']) (simp_all add: z2 ramp_message_def ramp_message_for_def same_address_def)
    qed
    then show ?thesis unfolding q2 q using q'(2) by (auto simp: set_scene_messages deliverable_def)
  qed
  from transmit_run_effect [OF assms(1) l2(2) _ l2(5) deliver, of acks] dist z2
  obtain l3 where l3: "transmit_run env acks (length (transmitQueue l2)) l2 = Inr l3" "lcm_inv l3" "transmitQueue l3 = []"
    "zone_of l3 = reached (q @ q') Z" "scene_of l3 = ended (q @ q') (scene_of l2)" unfolding z2 q2 by blast
  have zone3: "zone_of l3 i = (if i \<in> entry_zone s ` {0..<n} then map_option reach_target (Z i) else Z i)" for i
  proof -
    note reached_scene [OF assms(3) zones none q'(2), where ks = "[0..<n]" and i = i and env = env and ex = ?ex and p = s]
    then show ?thesis unfolding l3(4) q by simp
  qed
  have "scene_of l3 = (scene_of l)(unat sid \<mapsto> s\<lparr>sp_running := if n = 0 then 1 else 0\<rparr>)"
  proof -
    let ?s = "s\<lparr>sp_running := r\<rparr>"
    have "\<forall>(m, _) \<in> set (q @ q'). tm_command m = RAMP \<longrightarrow> unat (tm_sceneId m) = unat sid"
      using q'(2) unfolding q by (auto simp: set_scene_messages ramp_message_def)
    moreover have "scene_of l2 (unat sid) = Some ?s" unfolding sc2 by simp
    ultimately have e: "scene_of l3 = (scene_of l2)(unat sid \<mapsto> ?s\<lparr>sp_running :=
        if sp_running ?s = 1 \<and> (\<exists>(m, _) \<in> set (q @ q'). tm_command m = RAMP \<and> tm_scenePercent m = 100) then 0 else sp_running ?s\<rparr>)"
      unfolding l3(5) by (rule ended_scene)
    have "(\<exists>(m, _) \<in> set (q @ q'). tm_command m = RAMP \<and> tm_scenePercent m = 100) \<longleftrightarrow>
        (\<exists>(m, _) \<in> set q. tm_command m = RAMP \<and> tm_scenePercent m = 100)"
      using q'(2) by auto
    also have "\<dots> \<longleftrightarrow> 0 < n \<and> zone_of l (entry_zone s (n - 1)) \<noteq> None"
    proof (cases "n = 0")
      case False
      then show ?thesis unfolding q using n last_message [of s n env ?ex "zone_of l"] by (simp add: n_def)
    qed (simp add: q scene_messages_def map_filter_simps)
    finally have last: "(\<exists>(m, _) \<in> set (q @ q'). tm_command m = RAMP \<and> tm_scenePercent m = 100) \<longleftrightarrow> 0 < n \<and> r = 1"
      by (simp add: r_def)
    have "r = 0 \<or> r = 1" "n = 0 \<Longrightarrow> r = 1" by (simp_all add: r_def)
    then show ?thesis unfolding e last sc2 by auto
  qed
  then show ?thesis
    using p(1) l1(1) l2(1) l3(1-3) zone3 by (auto simp: execute_stored_scene_def Zq)
qed

text \<open>The entry \<open>k\<close> is the last one for its zone.\<close>

definition last_entry :: "scene_properties \<Rightarrow> nat \<Rightarrow> bool" where
  "last_entry s k \<longleftrightarrow> (\<forall>j \<in> {k<..<unat (sp_numZonesInScene s)}. entry_zone s j \<noteq> entry_zone s k)"

lemma activated_target:
  "zp_targetState (new_target (execution_of sid s app True 0 change) zd y) \<longleftrightarrow> zs_state zd \<noteq> 0"
  "zp_targetPowerLevel (new_target (execution_of sid s app True 0 change) zd y) =
     (if change = 1 then min 100 (zs_powerLevel zd) else zs_powerLevel zd)"
  by (auto simp add: new_target_def scene_targets_def Let_def min_def)

lemma deactivated_target:
  "\<not> zp_targetState (new_target (execution_of sid s app False val change) zd y)"
  by (simp add: new_target_def scene_targets_def Let_def)

text \<open>Activating a scene and letting the transmit task empty its queue.\<close>

lemma scene_reaches_its_levels:
  assumes "good_env env" "lcm_inv l" "distinct_addresses (zone_of l)" "transmitQueue l = []" "transmitMessages l = 0"
    and "scene_of l (unat sid) = Some s" "stored_id l (unat sid)" "sp_running s \<noteq> 1" "0 < unat (sp_numZonesInScene s)"
  shows "\<exists>l1 l2. execute_stored_scene env sid app True 0 change rampRate l = Inr l1 \<and>
    transmit_run env acks (length (transmitQueue l1)) l1 = Inr l2 \<and> lcm_inv l2 \<and> transmitQueue l2 = [] \<and>
    scene_of l2 = (scene_of l)(unat sid \<mapsto> s\<lparr>sp_running := 0\<rparr>) \<and>
    (\<forall>k < unat (sp_numZonesInScene s). last_entry s k \<and> zone_of l (entry_zone s k) \<noteq> None \<longrightarrow>
       (\<exists>z. zone_of l2 (entry_zone s k) = Some z \<and> zp_state z = (zs_state (sp_zoneData s ! k) \<noteq> 0) \<and>
          zp_powerLevel z = (if change = 1 then min 100 (zs_powerLevel (sp_zoneData s ! k)) else zs_powerLevel (sp_zoneData s ! k)))) \<and>
    (\<forall>i. i \<notin> entry_zone s ` {0..<unat (sp_numZonesInScene s)} \<longrightarrow> zone_of l2 i = zone_of l i)"
proof -
  let ?n = "unat (sp_numZonesInScene s)" and ?ex = "execution_of sid s app True 0 change"
  let ?Z = "fst (scene_run env ?ex s [0..<?n] (zone_of l, []))"
  obtain l1 l2 where l: "execute_stored_scene env sid app True 0 change rampRate l = Inr l1"
    "transmit_run env acks (length (transmitQueue l1)) l1 = Inr l2" "lcm_inv l2" "transmitQueue l2 = []"
    "scene_of l2 = (scene_of l)(unat sid \<mapsto> s\<lparr>sp_running := 0\<rparr>)"
    and z: "\<And>i. zone_of l2 i = (if i \<in> entry_zone s ` {0..<?n} then map_option reach_target (?Z i) else ?Z i)"
    using stored_scene_completes [OF assms(1-8), of app True 0 change rampRate acks] assms(9) by (auto simp: Let_def)
  have "\<exists>z. zone_of l2 (entry_zone s k) = Some z \<and> zp_state z = (zs_state (sp_zoneData s ! k) \<noteq> 0) \<and>
      zp_powerLevel z = (if change = 1 then min 100 (zs_powerLevel (sp_zoneData s ! k)) else zs_powerLevel (sp_zoneData s ! k))"
    if k: "k < ?n" "last_entry s k" "zone_of l (entry_zone s k) \<noteq> None" for k
  proof -
    obtain y where y: "zone_of l (entry_zone s k) = Some y" using k(3) by auto
    have "[0..<?n] = [0..<k] @ k # [Suc k..<?n]" using k(1) by (metis le_add_diff_inverse less_imp_le_nat upt_add_eq_append upt_conv_Cons zero_le)
    moreover have "\<forall>j \<in> set [Suc k..<?n]. entry_zone s j \<noteq> entry_zone s k"
      using k(2) unfolding last_entry_def by auto
    ultimately obtain x where "?Z (entry_zone s k) = Some (new_target ?ex (sp_zoneData s ! k) x)"
      using scene_run_last [where Z = "zone_of l", OF y, of "[Suc k..<?n]" env ?ex "[0..<k]" "[]"] by auto
    moreover have "entry_zone s k \<in> entry_zone s ` {0..<?n}" using k(1) by simp
    ultimately show ?thesis by (simp add: z activated_target)
  qed
  moreover have "zone_of l2 i = zone_of l i" if "i \<notin> entry_zone s ` {0..<?n}" for i
    using that z [of i] scene_run_untouched [of i s "[0..<?n]" env ?ex "zone_of l" "[]"] by (simp only: set_upt if_False not_False_eq_True True_implies_equals)
  ultimately show ?thesis using l by blast
qed

text \<open>A scene without zones, in one of the first 50 slots and with its Eliot id in flash, never ends. Executing it saves it as running, no message is queued that would
  end it, and after the transmit task has emptied its queue it is still running; every further execution is
  refused as already running.\<close>

lemma scene_without_zones_stays_running:
  assumes "good_env env" "lcm_inv l" "distinct_addresses (zone_of l)" "transmitQueue l = []" "transmitMessages l = 0"
    and "scene_of l (unat sid) = Some s" "stored_id l (unat sid)" "sp_running s \<noteq> 1" "sp_numZonesInScene s = 0"
  shows "\<exists>l1 l2. execute_stored_scene env sid app act val change rampRate l = Inr l1 \<and>
    transmit_run env acks (length (transmitQueue l1)) l1 = Inr l2 \<and> scene_of l2 (unat sid) = Some (s\<lparr>sp_running := 1\<rparr>) \<and>
    (\<forall>p. ExecuteScene env sid (p\<lparr>sp_running := 1\<rparr>) app act val change rampRate l2 =
       Inr (p\<lparr>sp_running := 1\<rparr>, emit (SceneAlreadyRunning sid app) l2))"
proof -
  have "ExecuteScene env sid (p\<lparr>sp_running := 1\<rparr>) app act val change rampRate l2 =
      Inr (p\<lparr>sp_running := 1\<rparr>, emit (SceneAlreadyRunning sid app) l2)" for p l2
    using good_envD(5) [OF assms(1)] by (simp add: ExecuteScene_def)
  then show ?thesis
    using stored_scene_completes [OF assms(1-8), of app act val change rampRate acks] assms(9) by auto
qed

text \<open>C26: a ramp message is carried out. With a reliable flash and the library calls succeeding, from a
  consistent state with distinct zone addresses, the transmit task's handling of a ramp message for an
  existing zone, where the scene of a message that carries 100 percent, if it exists, is in one of the first 50 slots and
  has its Eliot id in flash (the save of any other scene overruns an array, C21), stores the target level and state as the current ones and nothing else in the zone table,
  ends the scene when the message carries 100 percent and the scene is running, and sends exactly the packet of
  the zone at its target (none for a shade, and none on an unforced first attempt for a zone
  that is at its target).\<close>

theorem ramp_message_carried_out:
  assumes "good_env env" "lcm_inv l" "distinct_addresses (zone_of l)" "zone_of l i = Some z" "ramp_message_for z m"
    and "tm_scenePercent m = 100 \<longrightarrow> scene_of l (unat (tm_sceneId m)) \<noteq> None \<longrightarrow> stored_id l (unat (tm_sceneId m))"
  shows "\<exists>l' es. HandleTransmitTaskMessage env m force l = Inr (force \<or> fst (ramp_flags z), l') \<and> lcm_inv l' \<and>
    zone_of l' = (zone_of l)(i \<mapsto> z\<lparr>zp_powerLevel := zp_targetPowerLevel z, zp_state := zp_targetState z\<rparr>) \<and>
    scene_of l' = finished m (scene_of l) \<and> same_controllers l l' \<and> transmitQueue l' = transmitQueue l \<and>
    events l' = events l @ es \<and>
    (\<forall>b. RadioSend b \<in> set es \<longleftrightarrow>
       (force \<or> fst (ramp_flags z)) \<and> \<not> is_shade z \<and> b = ramp_packet (reach_target z))"
proof -
  have "z\<lparr>zp_powerLevel := zp_targetPowerLevel z, zp_state := zp_targetState z\<rparr> = reach_target z" by (simp add: reach_target_def)
  moreover obtain l' where "HandleTransmitTaskMessage env m force l = Inr (force \<or> fst (ramp_flags z), l')" "ramp_done m i z l l'"
    "\<exists>es. events l' = events l @ es \<and>
       (\<forall>b. RadioSend b \<in> set es \<longleftrightarrow> (force \<or> fst (ramp_flags z)) \<and> \<not> is_shade z \<and> b = ramp_packet (reach_target z))"
    using handle_ramp_effect [OF assms(1-5), of force] assms(6) by blast
  ultimately show ?thesis by (auto simp: ramp_done_def)
qed

subsection \<open>A sample installation\<close>

definition calm_env :: environment where
  "calm_env = \<lparr>env_hw = ftfe_emulator, env_zone_ram = zero_ram, env_scene_ram = idle_scene_ram,
     env_controller_local = (\<lambda>x. 0), env_controller_behind = (\<lambda>x. 0), stack_zone = sample_zone,
     stack_scene = sample_scene, stack_controller = sample_controller, stack_name = replicate MAX_SIZE_NAME_STRING 0, stack_errorFlag = False,
     shade_behind = (\<lambda>x. 0),
     pool_message = \<lparr>tm_command = 0, tm_groupId = 0, tm_buildingId = 0, tm_houseId = 0, tm_sceneId = 0, tm_scenePercent = 0,
       tm_buttonIndex = 0, tm_avgLevel = 0, tm_value = 0, tm_toggled = 0, tm_toggleable = 0, tm_state = 0\<rparr>,
     purge_clock = 0, stamp_clock = \<lparr>SECONDS = 0, MILLISECONDS = 0\<rparr>, json_object_ok = (\<lambda>n. True),
     msg_alloc = (\<lambda>k. k < NUMBER_OF_RFM100_TRANSMIT_MESSAGES_IN_POOL),
     msgq_send_priority = (\<lambda>q m prio. (True, q @ [(m, prio)]))\<rparr>"

lemma calm_env_good: "good_env calm_env"
  by (simp add: good_env_def calm_env_def emulator_reliable zone_buffers_def scene_buffers_def sample_zone_def sample_scene_def
      sample_controller_def)

definition fresh_lcm :: lcm where
  "fresh_lcm = \<lparr>lcm_flash = (\<lambda>x. 0xFF), lcm_zones = replicate MAX_NUMBER_OF_ZONES initial_zone, lcm_shadeIds = replicate MAX_NUMBER_OF_ZONES (replicate 40 0),
     lcm_scenes = replicate MAX_NUMBER_OF_SCENES initial_scene, lcm_controllers = replicate MAX_NUMBER_OF_SCENE_CONTROLLERS None,
     lcm_houseID = 0, lcm_configured = False, lcm_addALight = False, lcm_addASceneController = False,
     lcm_sentQueue = empty_queue, lcm_qubeAddress = False, lcm_zoneChanged = {}, transmitQueue = [], transmitMessages = 0,
     transmitAllocErrors = 0, lcm_receiveAckCounter = 0,
     lcm_shadeGroups = replicate 13 0, lcm_flashSaveTimer = 0, events = []\<rparr>"

lemma fresh_lcm_inv: "lcm_inv fresh_lcm"
  using fresh_zones_inv fresh_scenes_inv fresh_controllers_inv
  by (simp add: lcm_inv_def zone_inv_def zone_part_def scene_part_def controller_part_def fresh_lcm_def fresh_zones_def
      fresh_scenes_def fresh_controllers_def)

text \<open>Zone 3 and a scene of one zone with an Eliot id.\<close>

definition lamp_scene :: scene_properties where
  "lamp_scene = sample_scene\<lparr>sp_numZonesInScene := 1, sp_EliotDeviceId := 0x65 # replicate 36 0\<rparr>"

text \<open>Its controller, number 5 of the house 0.\<close>

definition lamp_controller :: scene_controller_properties where
  "lamp_controller = sample_controller\<lparr>sc_bank := [\<lparr>bk_sceneId = 0, bk_toggleable = 1, bk_toggled = 0\<rparr>,
     \<lparr>bk_sceneId = 0xFF, bk_toggleable = 0, bk_toggled = 0\<rparr>, \<lparr>bk_sceneId = 0xFF, bk_toggleable = 0, bk_toggled = 0\<rparr>,
     \<lparr>bk_sceneId = 100, bk_toggleable = 0, bk_toggled = 0\<rparr>], sc_groupId := 5, sc_buildingId := 0, sc_houseId := 0\<rparr>"

lemma sample_tables:
  assumes ok: "scene_args_ok p" "sp_SceneNameString p ! 0 \<noteq> 0" and id: "sp_EliotDeviceId p ! 0 \<noteq> 0"
  obtains l where "lcm_inv l" "zone_of l = [3 \<mapsto> cut_zone sample_zone]" "distinct_addresses (zone_of l)"
    "transmitQueue l = []" "transmitMessages l = 0" "scene_of l 0 = Some (cut_scene p)" "stored_id l 0"
    "lcm_houseID l = 0" "\<not> lcm_addALight l" "\<not> lcm_addASceneController l"
    "\<forall>out. \<exists>c. get_controller l 0 out = (True, c) \<and> same_controller lamp_controller c"
    "scene_of l = [0 \<mapsto> cut_scene p]"
proof -
  note rel = good_envD(1) [OF calm_env_good]
  have none: "zone_of fresh_lcm = (\<lambda>i. None)"
    by (rule ext) (simp add: zone_of_def get_zone_def GetZoneProperties_def nv_zone_of_def zone_part_def fresh_lcm_def
        initial_zone_def Let_def)
  let ?l1 = "set_zone calm_env 3 sample_zone fresh_lcm"
  have i: "(3 :: nat) < MAX_NUMBER_OF_ZONES" by simp
  note l1 = set_zone_map [OF rel fresh_lcm_inv i sample_zone_ok]
  have "keeps_eliot_id (scene_part ?l1) 0 p = keeps_eliot_id (scene_part fresh_lcm) 0 p"
    using l1(3) by (simp add: same_scenes_def)
  moreover have "keeps_eliot_id (scene_part fresh_lcm) 0 p"
    by (simp add: keeps_eliot_id_def scene_part_def fresh_lcm_def initial_scene_def)
  ultimately obtain l2 where l2: "set_scene calm_env 0 p ?l1 = Inr l2" "lcm_inv l2" "same_zones ?l1 l2"
    "\<exists>q. get_scene l2 0 blank_scene = Inr (True, q) \<and> same_scene p q"
    "\<And>q. sp_EliotDeviceId p ! 0 \<noteq> 0 \<Longrightarrow> cstr 37 (sp_EliotDeviceId q) = cstr 37 (sp_EliotDeviceId p) \<Longrightarrow>
       keeps_eliot_id (scene_part l2) 0 q"
    "\<And>j. j \<noteq> 0 \<Longrightarrow> get_scene l2 j blank_scene = get_scene ?l1 j blank_scene"
    "l2 = ?l1\<lparr>lcm_flash := lcm_flash l2, lcm_scenes := lcm_scenes l2\<rparr>"
    using set_scene_kept [OF rel l1(1), of 0 p] ok by (metis zero_less_numeral)
  have zones: "zone_of l2 = [3 \<mapsto> cut_zone sample_zone]" using same_zones_map [OF l2(3)] l1(2) none by simp
  have scene: "scene_of l2 0 = Some (cut_scene p)"
    using l2(4) cut_scene_eq_iff by (auto simp: scene_of_def)
  have "scene_of fresh_lcm j = None" for j
    by (simp add: scene_of_def get_scene_def GetSceneProperties_def nv_scene_of_def scene_part_def fresh_lcm_def
        initial_scene_def Let_def)
  moreover have "scene_of ?l1 = scene_of fresh_lcm" by (rule same_scenes_map [OF l1(3)])
  ultimately have scenes: "scene_of l2 = [0 \<mapsto> cut_scene p]"
    using scene l2(6) by (auto simp: fun_eq_iff scene_of_def)
  have ne: "sp_EliotDeviceId (cut_scene p) \<noteq> []"
  proof -
    have "sp_EliotDeviceId p \<noteq> []" using ok(1) by (auto simp: scene_args_ok_def)
    then show ?thesis using id nonempty_cstr [of 37 "sp_EliotDeviceId p"] by (simp add: cut_scene_def)
  qed
  have "keeps_eliot_id (scene_part l2) 0 (cut_scene p)" using id by (rule l2(5)) (simp add: cut_scene_def)
  then have stored: "stored_id l2 0" using scene ne by (simp add: stored_id_def)
  have fields: "transmitQueue l2 = []" "transmitMessages l2 = 0" "lcm_houseID l2 = 0" "\<not> lcm_addALight l2" "\<not> lcm_addASceneController l2"
    by (subst l2(7); simp add: fresh_lcm_def set_zone_def Let_def)+
  let ?l3 = "set_controller calm_env 0 lamp_controller l2"
  have c: "controller_args_ok lamp_controller" "sc_NameString lamp_controller ! 0 \<noteq> 0" "(0 :: nat) < MAX_NUMBER_OF_SCENE_CONTROLLERS"
    by (simp_all add: controller_args_ok_def lamp_controller_def sample_controller_def)
  note l3 = set_controller_named [OF rel l2(2) c(3,1,2)]
  have tables: "zone_of ?l3 = zone_of l2" "scene_of ?l3 = scene_of l2" "stored_id ?l3 0 = stored_id l2 0"
    using same_zones_map [OF l3(2)] same_scenes_map [OF l3(3)] same_scenes_stored [OF l3(3)] by simp_all
  have fields3: "transmitQueue ?l3 = []" "transmitMessages ?l3 = 0" "lcm_houseID ?l3 = 0" "\<not> lcm_addALight ?l3" "\<not> lcm_addASceneController ?l3"
    using fields by (simp_all add: set_controller_def Let_def)
  have ctl: "\<forall>out. \<exists>c. get_controller ?l3 0 out = (True, c) \<and> same_controller lamp_controller c"
    using l3(4,5) by (metis prod.collapse)
  have "distinct_addresses (zone_of ?l3)" unfolding tables zones by (simp add: distinct_addresses_def)
  then show thesis
    using zones scene scenes stored tables by (intro that [of ?l3] l3(1) fields3 ctl) (simp_all only:)
qed

lemma sample_installation:
  assumes ok: "scene_args_ok p" "sp_SceneNameString p ! 0 \<noteq> 0" and id: "sp_EliotDeviceId p ! 0 \<noteq> 0"
  obtains l where "lcm_inv l" "zone_of l = [3 \<mapsto> cut_zone sample_zone]" "distinct_addresses (zone_of l)"
    "transmitQueue l = []" "transmitMessages l = 0" "scene_of l 0 = Some (cut_scene p)" "stored_id l 0"
    "lcm_houseID l = 0" "\<not> lcm_addALight l" "\<not> lcm_addASceneController l"
    "\<forall>out. \<exists>c. get_controller l 0 out = (True, c) \<and> same_controller lamp_controller c"
  by (rule sample_tables [OF assms])

lemma lamp_scene_ok: "scene_args_ok lamp_scene" "sp_SceneNameString lamp_scene ! 0 \<noteq> 0" "sp_EliotDeviceId lamp_scene ! 0 \<noteq> 0"
  using sample_scene_ok by (simp_all add: scene_args_ok_def lamp_scene_def sample_scene_def)

lemma scene_without_zones_stays_running_witness:
  "\<exists>l l1 l2 s. execute_stored_scene calm_env 0 0 True 0 1 0 l = Inr l1 \<and>
     transmit_run calm_env (\<lambda>n k. Some RFM100_ACK_BYTE) (length (transmitQueue l1)) l1 = Inr l2 \<and>
     scene_of l2 0 = Some s \<and> sp_running s = 1"
proof -
  let ?p = "lamp_scene\<lparr>sp_numZonesInScene := 0\<rparr>"
  have "scene_args_ok ?p" "sp_SceneNameString ?p ! 0 \<noteq> 0" "sp_EliotDeviceId ?p ! 0 \<noteq> 0"
    using lamp_scene_ok by (simp_all add: scene_args_ok_def)
  then obtain l where l: "lcm_inv l" "distinct_addresses (zone_of l)"
    "transmitQueue l = []" "transmitMessages l = 0" "scene_of l 0 = Some (cut_scene ?p)" "stored_id l 0"
    by (rule sample_installation)
  have s: "sp_running (cut_scene ?p) \<noteq> 1" "sp_numZonesInScene (cut_scene ?p) = 0"
    by (simp_all add: lamp_scene_def sample_scene_def cut_scene_def)
  from scene_without_zones_stays_running [OF calm_env_good l(1-4), of 0 "cut_scene ?p" 0 True 0 1 0 "\<lambda>n k. Some RFM100_ACK_BYTE"] l(5,6) s
  show ?thesis by force
qed

theorem ramp_message_carried_out_witness:
  "\<exists>l l' m. HandleTransmitTaskMessage calm_env m True l = Inr (True, l') \<and> RadioSend (ramp_packet sample_zone) \<in> set (events l')"
proof -
  obtain l where l: "lcm_inv l" "zone_of l = [3 \<mapsto> cut_zone sample_zone]" "distinct_addresses (zone_of l)"
    "transmitQueue l = []" "transmitMessages l = 0" "scene_of l 0 = Some (cut_scene lamp_scene)" "stored_id l 0"
    "lcm_houseID l = 0" "\<not> lcm_addALight l" "\<not> lcm_addASceneController l"
    "\<forall>out. \<exists>c. get_controller l 0 out = (True, c) \<and> same_controller lamp_controller c"
    by (rule sample_installation [OF lamp_scene_ok])
  let ?m = "(pool_message calm_env)\<lparr>tm_command := RAMP, tm_groupId := 0x123, tm_buildingId := 0, tm_houseId := 3\<rparr>"
  have z: "zone_of l 3 = Some (cut_zone sample_zone)" "ramp_message_for (cut_zone sample_zone) ?m"
    "reach_target (cut_zone sample_zone) = cut_zone sample_zone" "\<not> is_shade sample_zone"
    using l(2) by (simp_all add: ramp_message_for_def sample_zone_def reach_target_def cut_zone_def is_shade_def)
  have "tm_scenePercent ?m \<noteq> 100" by (simp add: calm_env_def)
  with ramp_message_carried_out [OF calm_env_good l(1,3) z(1,2), of True] z(3,4)
  obtain l' es where "HandleTransmitTaskMessage calm_env ?m True l = Inr (True, l')" "events l' = events l @ es"
    "RadioSend (ramp_packet sample_zone) \<in> set es" by auto
  then show ?thesis by (intro exI [of _ l] exI [of _ l'] exI [of _ ?m]) simp
qed

end
