(* ===== verification/Rf_Commands.thy ===== *)
theory Rf_Commands
  imports Scene_Completion Rfm100_Receive
begin

unbundle bit_operations_syntax

text \<open>
  The handlers in Socket\_Task.c of what the RF receive task has decoded: a ramp from a switch, which also
  adds a new light, and the three commands of a scene controller, which also add a new scene controller.
\<close>

abbreviation MASTER_OFF_FOR_SCENE_CONTROLLER :: byte where "MASTER_OFF_FOR_SCENE_CONTROLLER \<equiv> 100"

subsection \<open>Levels reported by a switch\<close>

definition received_level :: "byte \<Rightarrow> zone_properties \<Rightarrow> zone_properties" where
  "received_level targetValue z =
     (if targetValue \<noteq> 0 then
        let z = (if \<not> zp_state z then z\<lparr>zp_state := True, zp_targetState := True\<rparr> else z)
        in if zp_powerLevel z \<noteq> targetValue
           then z\<lparr>zp_powerLevel := targetValue, zp_targetPowerLevel := targetValue\<rparr> else z
      else if zp_state z then z\<lparr>zp_state := False, zp_targetState := False\<rparr> else z)"

definition announce_zone :: "environment \<Rightarrow> nat \<Rightarrow> nat \<Rightarrow> dword_t \<Rightarrow> lcm \<Rightarrow> lcm" where
  "announce_zone env line zoneIdx app l =
     emit (EliotZoneChanged zoneIdx) (if json_object_ok env line then emit (ZonePropertiesChanged zoneIdx app) l else l)"

definition HandleTargetValue :: "environment \<Rightarrow> byte \<Rightarrow> nat \<Rightarrow> lcm \<Rightarrow> lcm" where
  "HandleTargetValue env targetValue zoneIdx l =
     (let (found, zoneProperties) = get_zone l zoneIdx (stack_zone env)
      in if found
         then announce_zone env 9981 zoneIdx 0 (set_zone env zoneIdx (received_level targetValue zoneProperties) l)
         else l)"

text \<open>Ramp-all: the level a zone is taken to have.\<close>

abbreviation SWITCH_TYPE :: byte where "SWITCH_TYPE \<equiv> 0x42"

definition level_of_all :: "byte \<Rightarrow> zone_properties \<Rightarrow> zone_properties" where
  "level_of_all targetValue z =
     (if zp_deviceType z = SWITCH_TYPE then
        if 49 < targetValue
        then z\<lparr>zp_state := True, zp_targetState := True, zp_powerLevel := 100, zp_targetPowerLevel := 100\<rparr>
        else z\<lparr>zp_state := False, zp_targetState := False\<rparr>
      else
        let z = z\<lparr>zp_state := (0 < targetValue), zp_targetState := (0 < targetValue)\<rparr>
        in if targetValue = 100 then z\<lparr>zp_powerLevel := targetValue, zp_targetPowerLevel := targetValue\<rparr> else z)"

fun HandleTargetValueAll :: "environment \<Rightarrow> byte \<Rightarrow> nat list \<Rightarrow> zone_properties \<times> lcm \<Rightarrow> zone_properties \<times> lcm" where
  "HandleTargetValueAll env targetValue [] s = s"
| "HandleTargetValueAll env targetValue (zoneIdx # idxs) (z, l) =
     (let (found, z) = get_zone l zoneIdx z in
      if found \<and> zp_ZoneNameString z ! 0 \<noteq> 0 \<and> (zp_deviceType z = SWITCH_TYPE \<or> zp_deviceType z = DIMMER_TYPE)
      then let z = level_of_all targetValue z
           in HandleTargetValueAll env targetValue idxs (z, announce_zone env 10774 zoneIdx 0 (set_zone env zoneIdx z l))
      else HandleTargetValueAll env targetValue idxs (z, l))"

subsection \<open>A ramp: adding a light\<close>

fun decimal :: "nat \<Rightarrow> byte list" where
  "decimal n = (if n < 10 then [0x30 + of_nat n] else decimal (n div 10) @ [0x30 + of_nat (n mod 10)])"

declare decimal.simps [simp del]

text \<open>The first light or scene controller sets the house of the LCM.\<close>

definition adopt_house :: "environment \<Rightarrow> byte \<Rightarrow> lcm \<Rightarrow> lcm" where
  "adopt_house env houseId l =
     (if \<not> AnyZonesInArray (zone_part l) \<and> \<not> AnySceneControllersInArray (controller_part l) then
        let l = l\<lparr>lcm_configured := True, lcm_houseID := houseId\<rparr>;
            l = (if json_object_ok env 4360 then emit SystemInfoChanged l else l)
        in emit HouseIdLedOff l
      else l)"

text \<open>The zone a ramp adds: what the code leaves out is what the stack holds, among it the Eliot id.\<close>

definition new_zone :: "zone_properties \<Rightarrow> nat \<Rightarrow> byte \<Rightarrow> byte \<Rightarrow> word_t \<Rightarrow> byte \<Rightarrow> byte \<Rightarrow> zone_properties" where
  "new_zone stack zoneIdx buildingId houseId groupId targetValue deviceType =
     (let z = stack\<lparr>zp_ZoneNameString := snprintf_s MAX_SIZE_NAME_STRING (zp_ZoneNameString stack)
                       ([0x7a, 0x6f, 0x6e, 0x65, 0x20] @ decimal (zoneIdx + 1)),
                    zp_rampRate := 50, zp_AppContextId := 0, zp_roomId := 0,
                    zp_deviceType := deviceType, zp_buildingId := buildingId, zp_groupId := groupId, zp_houseId := houseId\<rparr>
      in if targetValue \<noteq> 0
         then z\<lparr>zp_powerLevel := targetValue, zp_targetPowerLevel := targetValue, zp_state := True, zp_targetState := True\<rparr>
         else z\<lparr>zp_powerLevel := 100, zp_targetPowerLevel := 100, zp_state := False, zp_targetState := False\<rparr>)"

definition add_light :: "environment \<Rightarrow> byte \<Rightarrow> byte \<Rightarrow> word_t \<Rightarrow> byte \<Rightarrow> byte \<Rightarrow> lcm \<Rightarrow> lcm" where
  "add_light env buildingId houseId groupId targetValue deviceType l =
     (let zoneIdx = GetAvailableZoneIndex (zone_part l)
      in if zoneIdx < MAX_NUMBER_OF_ZONES then
           let z = new_zone (stack_zone env) zoneIdx buildingId houseId groupId targetValue deviceType;
               l = (if json_object_ok env 9890 then emit (ZoneAdded zoneIdx) l else l);
               l = emit (EliotAddZone zoneIdx) (set_zone env zoneIdx z l);
               l = l\<lparr>lcm_addALight := False\<rparr>
           in if json_object_ok env 10293 then emit SystemPropertiesChanged l else l
         else l)"

definition ramp_received :: "environment \<Rightarrow> byte \<Rightarrow> byte \<Rightarrow> word_t \<Rightarrow> byte \<Rightarrow> byte \<Rightarrow> lcm \<Rightarrow> lcm" where
  "ramp_received env buildingId houseId groupId targetValue deviceType l =
     (let zoneIdx = GetZoneIndex (zone_part l) groupId buildingId houseId
      in if lcm_addALight l then
           let l = adopt_house env houseId l
           in if lcm_houseID l = houseId then
                if MAX_NUMBER_OF_ZONES \<le> zoneIdx
                then add_light env buildingId houseId groupId targetValue deviceType l
                else HandleTargetValue env targetValue zoneIdx l
              else l
         else if zoneIdx < MAX_NUMBER_OF_ZONES \<and> lcm_houseID l = houseId
              then HandleTargetValue env targetValue zoneIdx l
              else l)"

subsection \<open>Scene controllers\<close>

definition empty_bank :: scene_controller_bank where
  "empty_bank = \<lparr>bk_sceneId = -1, bk_toggleable = 0, bk_toggled = 0\<rparr>"

definition new_controller :: "scene_controller_properties \<Rightarrow> nat \<Rightarrow> byte \<Rightarrow> byte \<Rightarrow> word_t \<Rightarrow> scene_controller_properties" where
  "new_controller stack idx buildingId houseId groupId =
     stack\<lparr>sc_NameString := snprintf_s MAX_SIZE_NAME_STRING (sc_NameString stack) ([0x53, 0x43, 0x20] @ decimal idx),
           sc_bank := [empty_bank, empty_bank, empty_bank, empty_bank\<lparr>bk_sceneId := MASTER_OFF_FOR_SCENE_CONTROLLER\<rparr>],
           sc_buildingId := buildingId, sc_groupId := groupId, sc_houseId := houseId, sc_nightMode := 0\<rparr>"

definition HandleSceneControllerCommandReceived ::
  "environment \<Rightarrow> nat \<Rightarrow> byte \<Rightarrow> byte \<Rightarrow> word_t \<Rightarrow> byte \<Rightarrow> lcm \<Rightarrow> lcm" where
  "HandleSceneControllerCommandReceived env sceneControllerIndex buildingId houseId groupId bankIndex l =
     (let l = adopt_house env houseId l
      in if lcm_houseID l = houseId \<and> MAX_NUMBER_OF_SCENE_CONTROLLERS \<le> sceneControllerIndex then
           let idx = GetAvailableSceneControllerIndex (controller_part l)
           in if idx < MAX_NUMBER_OF_SCENE_CONTROLLERS then
                let l = set_controller env idx (new_controller (stack_controller env) idx buildingId houseId groupId) l;
                    l = (if json_object_ok env 9911 then emit (SceneControllerAdded idx) l else l);
                    l = l\<lparr>lcm_addASceneController := False\<rparr>
                in if json_object_ok env 10066 then emit SystemPropertiesChanged l else l
              else l
         else l)"

fun master_off_banks :: "environment \<Rightarrow> scene_controller_bank list \<Rightarrow> byte \<Rightarrow> lcm \<Rightarrow> memory_error + lcm" where
  "master_off_banks env [] rampRate l = Inr l"
| "master_off_banks env (b # bs) rampRate l =
     bind_sum (execute_stored_scene env (bk_sceneId b) 0 False 0 1 rampRate l) (master_off_banks env bs rampRate)"

definition master_off ::
  "environment \<Rightarrow> byte \<Rightarrow> byte \<Rightarrow> word_t \<Rightarrow> byte \<Rightarrow> byte \<Rightarrow> lcm \<Rightarrow> memory_error + lcm" where
  "master_off env buildingId houseId groupId deviceType rampRate l =
     (let idx = GetSceneControllerIndex (controller_part l) groupId buildingId houseId
      in if lcm_addASceneController l
         then Inr (HandleSceneControllerCommandReceived env idx buildingId houseId groupId 0 l)
         else if lcm_houseID l = houseId \<and> idx < MAX_NUMBER_OF_SCENE_CONTROLLERS then
           let (found, c) = get_controller l idx (stack_controller env)
           in if found then master_off_banks env (sc_bank c) rampRate l else Inr l
         else Inr l)"

definition scene_request ::
  "environment \<Rightarrow> byte \<Rightarrow> byte \<Rightarrow> word_t \<Rightarrow> byte \<Rightarrow> bool \<Rightarrow> byte \<Rightarrow> byte \<Rightarrow> lcm \<Rightarrow> memory_error + lcm" where
  "scene_request env buildingId houseId groupId bankIndex state deviceType rampRate l =
     (let idx = GetSceneControllerIndex (controller_part l) groupId buildingId houseId
      in if lcm_addASceneController l
         then Inr (HandleSceneControllerCommandReceived env idx buildingId houseId groupId bankIndex l)
         else if lcm_houseID l = houseId \<and> idx < MAX_NUMBER_OF_SCENE_CONTROLLERS then
           let (found, c) = get_controller l idx (stack_controller env)
           in if found \<and> unat bankIndex < MAX_SCENES_IN_SCENE_CONTROLLER
              then execute_stored_scene env (bk_sceneId (sc_bank c ! unat bankIndex)) 1 state 0 1 rampRate l
              else Inr l
         else Inr l)"

text \<open>The controller itself is not looked up again: any sender of the house may adjust a scene.\<close>

definition scene_adjust ::
  "environment \<Rightarrow> byte \<Rightarrow> byte \<Rightarrow> word_t \<Rightarrow> byte \<Rightarrow> byte \<Rightarrow> byte \<Rightarrow> byte \<Rightarrow> lcm \<Rightarrow> memory_error + lcm" where
  "scene_adjust env buildingId houseId groupId sceneIdx val change rampRate l =
     (if lcm_addASceneController l
      then Inr (HandleSceneControllerCommandReceived env
             (GetSceneControllerIndex (controller_part l) groupId buildingId houseId) buildingId houseId groupId 0 l)
      else if lcm_houseID l = houseId then execute_stored_scene env sceneIdx 0 True val change rampRate l
      else Inr l)"

text \<open>What the receive task has decoded, carried out. \<open>HandleStatusReceived\<close> is empty in the source; a packet for
  the test mode and an acknowledgement do not concern the tables.\<close>

fun carry_out :: "environment \<Rightarrow> radio_action \<Rightarrow> lcm \<Rightarrow> memory_error + lcm" where
  "carry_out env (HandleRampReceived buildingId houseId groupId targetValue deviceType) l =
     Inr (ramp_received env buildingId houseId groupId targetValue deviceType l)"
| "carry_out env (HandleStatusReceived buildingId houseId groupId targetLevel deviceType) l = Inr l"
| "carry_out env (HandleSceneControllerMasterOff buildingId houseId groupId deviceType rampRate) l =
     master_off env buildingId houseId groupId deviceType rampRate l"
| "carry_out env (HandleSceneControllerSceneRequest buildingId houseId groupId bankIndex state deviceType rampRate) l =
     scene_request env buildingId houseId groupId bankIndex state deviceType rampRate l"
| "carry_out env (HandleSceneControllerSceneAdjust buildingId houseId groupId sceneIdx val change rampRate) l =
     scene_adjust env buildingId houseId groupId sceneIdx val change rampRate l"
| "carry_out env (MTMReceivedRFPacket a b c) l = Inr l"
| "carry_out env (PublishedAck a) l = Inr l"

subsection \<open>Ramps refine updates of the zone map\<close>

text \<open>The searches and the handlers on the map of zones.\<close>

definition zone_index :: "(nat \<Rightarrow> zone_properties option) \<Rightarrow> word_t \<Rightarrow> byte \<Rightarrow> byte \<Rightarrow> nat" where
  "zone_index Z g b h = loop_find (\<lambda>i. case Z i of None \<Rightarrow> False
     | Some z \<Rightarrow> zp_groupId z = g \<and> zp_buildingId z = b \<and> zp_houseId z = h) 0 MAX_NUMBER_OF_ZONES"


definition change_zone :: "(zone_properties \<Rightarrow> zone_properties) \<Rightarrow> nat \<Rightarrow> (nat \<Rightarrow> zone_properties option) \<Rightarrow> nat \<Rightarrow> zone_properties option" where
  "change_zone f i Z = Z(i := map_option f (Z i))"





lemma zone_index_hit:
  assumes "zone_index Z g b h < MAX_NUMBER_OF_ZONES"
  shows "Z (zone_index Z g b h) \<noteq> None"
proof -
  define P where "P = (\<lambda>i. case Z i of None \<Rightarrow> False | Some z \<Rightarrow> zp_groupId z = g \<and> zp_buildingId z = b \<and> zp_houseId z = h)"
  have k: "zone_index Z g b h = loop_find P 0 MAX_NUMBER_OF_ZONES" by (simp only: zone_index_def P_def)
  then have "P (zone_index Z g b h)" using loop_find_hit [of P 0 MAX_NUMBER_OF_ZONES] assms by simp
  then show ?thesis by (cases "Z (zone_index Z g b h)") (simp_all add: P_def)
qed

lemma received_level_cut [simp]: "cut_zone (received_level v z) = received_level v (cut_zone z)"
  by (simp add: received_level_def cut_zone_def Let_def)

lemma received_level_keeps [simp]:
  "zp_ZoneNameString (received_level v z) = zp_ZoneNameString z" "zp_EliotDeviceId (received_level v z) = zp_EliotDeviceId z"
  "zone_args_ok (received_level v z) = zone_args_ok z" "zone_buffers (received_level v z) = zone_buffers z"
  by (simp_all add: received_level_def zone_args_ok_def zone_buffers_def Let_def)

lemma level_of_all_cut [simp]: "cut_zone (level_of_all v z) = level_of_all v (cut_zone z)"
  by (simp add: level_of_all_def cut_zone_def Let_def)

lemma level_of_all_keeps [simp]:
  "zp_ZoneNameString (level_of_all v z) = zp_ZoneNameString z" "zp_EliotDeviceId (level_of_all v z) = zp_EliotDeviceId z"
  "zone_args_ok (level_of_all v z) = zone_args_ok z" "zone_buffers (level_of_all v z) = zone_buffers z"
  by (simp_all add: level_of_all_def zone_args_ok_def zone_buffers_def Let_def)

lemma zones_become_emit: "zones_become l l' Z \<Longrightarrow> zones_become l (emit e l') Z"
proof -
  assume a: "zones_become l l' Z"
  then have "zones_become l' (emit e l') (zone_of l')" by (intro zones_become_same) (simp_all add: zones_become_def)
  from zones_become_trans [OF a this] a show "zones_become l (emit e l') Z" unfolding zones_become_def by blast
qed

lemma zones_become_announce: "zones_become l l' Z \<Longrightarrow> zones_become l (announce_zone env n i app l') Z"
  by (simp add: announce_zone_def zones_become_emit)

lemma update_stored_zone:
  assumes "good_env env" "lcm_inv l" "zone_buffers out" "zone_of l i \<noteq> None"
    and "\<And>z. cut_zone (f z) = f (cut_zone z)" "\<And>z. zp_ZoneNameString (f z) = zp_ZoneNameString z" "\<And>z. zone_args_ok (f z) = zone_args_ok z"
  obtains p where "get_zone l i out = (True, p)" "zone_of l i = Some (cut_zone p)" "zone_buffers p" "zp_ZoneNameString p ! 0 \<noteq> 0"
    "zones_become l (set_zone env i (f p) l) (change_zone f i (zone_of l))"
proof -
  obtain z where z: "zone_of l i = Some z" using assms(4) by blast
  from get_zone_some [OF assms(2) z assms(3)]
  obtain p where p: "get_zone l i out = (True, p)" "cut_zone p = z" "zone_args_ok p" "zp_ZoneNameString p ! 0 \<noteq> 0" "zone_buffers p"
    by metis
  have i: "i < MAX_NUMBER_OF_ZONES" using z zone_of_beyond [of i l] by (cases "i < MAX_NUMBER_OF_ZONES") auto
  have "zones_become l (set_zone env i (f p) l) ((zone_of l)(i \<mapsto> cut_zone (f p)))"
    using zones_become_set_zone [OF good_envD(1) [OF assms(1)] assms(2) i, of "f p"] assms(6,7) p(3,4) by simp
  moreover have "(zone_of l)(i \<mapsto> cut_zone (f p)) = change_zone f i (zone_of l)"
    using z p(2) assms(5) by (simp add: change_zone_def)
  ultimately show thesis using that [of p] p z by simp
qed


lemma adopt_house_effect:
  assumes "lcm_inv l"
  shows "zones_become l (adopt_house env h l) (zone_of l)"
    "lcm_houseID (adopt_house env h l) =
       (if AnyZonesInArray (zone_part l) \<or> AnySceneControllersInArray (controller_part l) then lcm_houseID l else h)"
    "lcm_addALight (adopt_house env h l) = lcm_addALight l"
    "lcm_addASceneController (adopt_house env h l) = lcm_addASceneController l"
proof -
  have "zones_become l (l\<lparr>lcm_configured := True, lcm_houseID := h\<rparr>) (zone_of l)"
    using assms by (intro zones_become_same) (simp_all add: same_tables_def)
  then show "zones_become l (adopt_house env h l) (zone_of l)"
    using zones_become_refl [OF assms] by (simp add: adopt_house_def Let_def zones_become_emit)
qed (simp_all add: adopt_house_def Let_def emit_def)




subsection \<open>Ramp-all\<close>

definition follows_all :: "zone_properties \<Rightarrow> bool" where
  "follows_all z \<longleftrightarrow> zp_deviceType z = SWITCH_TYPE \<or> zp_deviceType z = DIMMER_TYPE"

lemma level_of_all_idem [simp]: "level_of_all v (level_of_all v z) = level_of_all v z" "follows_all (level_of_all v z) = follows_all z"
  by (auto simp: level_of_all_def follows_all_def Let_def)

definition all_levels :: "byte \<Rightarrow> nat set \<Rightarrow> (nat \<Rightarrow> zone_properties option) \<Rightarrow> nat \<Rightarrow> zone_properties option" where
  "all_levels v I Z i = map_option (\<lambda>z. if i \<in> I \<and> follows_all z then level_of_all v z else z) (Z i)"

lemma all_levels_skip:
  assumes "\<And>z. Z i = Some z \<Longrightarrow> \<not> follows_all z"
  shows "all_levels v (set (i # idxs)) Z = all_levels v (set idxs) Z"
proof
  show "all_levels v (set (i # idxs)) Z j = all_levels v (set idxs) Z j" for j
    using assms by (cases "j = i"; cases "Z j") (simp_all add: all_levels_def)
qed

lemma all_levels_update:
  assumes "Z i = Some z" "follows_all z" "i \<notin> set idxs"
  shows "all_levels v (set idxs) (change_zone (level_of_all v) i Z) = all_levels v (set (i # idxs)) Z"
proof
  show "all_levels v (set idxs) (change_zone (level_of_all v) i Z) j = all_levels v (set (i # idxs)) Z j" for j
    using assms by (cases "j = i") (simp_all add: all_levels_def change_zone_def)
qed

lemma target_value_all:
  assumes "good_env env" "lcm_inv l" "zone_buffers out" "distinct idxs"
  shows "zones_become l (snd (HandleTargetValueAll env v idxs (out, l)))
    (all_levels v (set idxs) (zone_of l))"
  using assms(2-)
proof (induction idxs arbitrary: out l)
  case Nil
  then show ?case by (simp add: zones_become_refl all_levels_def option.map_ident)
next
  case (Cons i idxs)
  have d: "i \<notin> set idxs" "distinct idxs" using Cons.prems(3) by simp_all
  show ?case
  proof (cases "zone_of l i")
    case None
    then have "HandleTargetValueAll env v (i # idxs) (out, l) = HandleTargetValueAll env v idxs (out, l)"
      using get_zone_none [OF None] by simp
    moreover have "all_levels v (set (i # idxs)) (zone_of l) = all_levels v (set idxs) (zone_of l)"
      by (rule all_levels_skip) (simp add: None)
    ultimately show ?thesis using Cons.IH [OF Cons.prems(1,2) d(2)] by simp
  next
    case (Some z)
    then obtain p where p: "get_zone l i out = (True, p)" "cut_zone p = z" "zone_buffers p" "zp_ZoneNameString p ! 0 \<noteq> 0"
      "zones_become l (set_zone env i (level_of_all v p) l) (change_zone (level_of_all v) i (zone_of l))"
      using update_stored_zone [OF assms(1) Cons.prems(1,2), of i "level_of_all v"] by auto
    have f: "follows_all p = follows_all z" using p(2) by (auto simp: follows_all_def)
    show ?thesis
    proof (cases "follows_all z")
      case False
      then have "HandleTargetValueAll env v (i # idxs) (out, l) = HandleTargetValueAll env v idxs (p, l)"
        using p(1) f by (simp add: follows_all_def)
      moreover have "all_levels v (set (i # idxs)) (zone_of l) = all_levels v (set idxs) (zone_of l)"
        by (rule all_levels_skip) (simp add: Some False)
      ultimately show ?thesis using Cons.IH [OF Cons.prems(1) p(3) d(2)] by simp
    next
      case True
      let ?l1 = "announce_zone env 10774 i 0 (set_zone env i (level_of_all v p) l)"
      have 1: "zones_become l ?l1 (change_zone (level_of_all v) i (zone_of l))" by (rule zones_become_announce [OF p(5)])
      have code: "HandleTargetValueAll env v (i # idxs) (out, l) = HandleTargetValueAll env v idxs (level_of_all v p, ?l1)"
        using p(1,4) f True by (simp add: follows_all_def Let_def)
      have inv1: "lcm_inv ?l1" and z1: "zone_of ?l1 = change_zone (level_of_all v) i (zone_of l)"
        using 1 by (simp_all add: zones_become_def)
      have b: "zone_buffers (level_of_all v p)" using p(3) by simp
      have "all_levels v (set idxs) (zone_of ?l1) = all_levels v (set (i # idxs)) (zone_of l)"
        unfolding z1 by (rule all_levels_update [where Z = "zone_of l", OF Some True d(1)])
      with zones_become_trans [OF 1 Cons.IH [OF inv1 b d(2)]] code show ?thesis by simp
    qed
  qed
qed

text \<open>Ramp-all is recorded for every switch and dimmer and for nothing else. With a reliable flash, from a
  consistent state, every switch of the table is on at 100 when the level is at least 50 and off with its level
  kept otherwise; every dimmer is on exactly when the level is positive. The level of a dimmer is only
  recorded when it is 100: for the levels 1 to 99 the table keeps the old one although all lights
  ramp to the new one.\<close>

lemma ramp_all_recorded:
  assumes "good_env env" "lcm_inv l"
  shows "let l' = snd (HandleTargetValueAll env v [0..<MAX_NUMBER_OF_ZONES] (stack_zone env, l))
    in lcm_inv l' \<and> same_scenes l l' \<and> same_controllers l l' \<and>
      (\<forall>i. zone_of l' i = map_option (\<lambda>z.
         if zp_deviceType z = SWITCH_TYPE then
           z\<lparr>zp_state := 50 \<le> v, zp_targetState := 50 \<le> v,
             zp_powerLevel := if 50 \<le> v then 100 else zp_powerLevel z,
             zp_targetPowerLevel := if 50 \<le> v then 100 else zp_targetPowerLevel z\<rparr>
         else if zp_deviceType z = DIMMER_TYPE then
           z\<lparr>zp_state := v \<noteq> 0, zp_targetState := v \<noteq> 0,
             zp_powerLevel := if v = 100 then 100 else zp_powerLevel z,
             zp_targetPowerLevel := if v = 100 then 100 else zp_targetPowerLevel z\<rparr>
         else z) (zone_of l i))"
proof -
  have all: "zones_become l (snd (HandleTargetValueAll env v [0..<MAX_NUMBER_OF_ZONES] (stack_zone env, l)))
    (all_levels v {0..<MAX_NUMBER_OF_ZONES} (zone_of l))"
    using target_value_all [OF assms good_envD(2) [OF assms(1)], of "[0..<MAX_NUMBER_OF_ZONES]" v]
    by (simp only: distinct_upt set_upt True_implies_equals)
  have level: "(49 < v) = (50 \<le> v)" "(0 < v) = (v \<noteq> 0)"
    by (simp_all add: word_less_nat_alt word_le_nat_alt unat_gt_0) linarith
  have "(if follows_all z then level_of_all v z else z) =
      (if zp_deviceType z = SWITCH_TYPE then
           z\<lparr>zp_state := 50 \<le> v, zp_targetState := 50 \<le> v,
             zp_powerLevel := if 50 \<le> v then 100 else zp_powerLevel z,
             zp_targetPowerLevel := if 50 \<le> v then 100 else zp_targetPowerLevel z\<rparr>
         else if zp_deviceType z = DIMMER_TYPE then
           z\<lparr>zp_state := v \<noteq> 0, zp_targetState := v \<noteq> 0,
             zp_powerLevel := if v = 100 then 100 else zp_powerLevel z,
             zp_targetPowerLevel := if v = 100 then 100 else zp_targetPowerLevel z\<rparr>
         else z)" for z :: zone_properties
    unfolding follows_all_def level_of_all_def level Let_def by (cases z) simp
  moreover have "all_levels v {0..<MAX_NUMBER_OF_ZONES} (zone_of l) i =
      map_option (\<lambda>z. if follows_all z then level_of_all v z else z) (zone_of l i)" for i
    using zone_of_beyond [of i l] by (cases "i < MAX_NUMBER_OF_ZONES") (simp_all add: all_levels_def)
  ultimately show ?thesis using all unfolding Let_def zones_become_def by simp
qed

subsection \<open>Adding a scene controller\<close>

lemma new_controller_ok:
  assumes "length (sc_NameString stack) = MAX_SIZE_NAME_STRING"
  shows "controller_args_ok (new_controller stack i b h g)" "sc_NameString (new_controller stack i b h g) ! 0 \<noteq> 0"
proof -
  have "cstr 20 ([0x53, 0x43, 0x20] @ decimal i) \<noteq> []" by (simp add: cstr_def)
  then show "sc_NameString (new_controller stack i b h g) ! 0 \<noteq> 0"
    using snprintf_first [of 20 "sc_NameString stack"] by (simp add: new_controller_def)
  show "controller_args_ok (new_controller stack i b h g)"
    using assms by (simp add: controller_args_ok_def new_controller_def snprintf_nul)
qed

lemma zones_become_controllers: "zones_become l l' Z \<Longrightarrow> same_controllers l l'"
  by (simp add: zones_become_def)

text \<open>C29: in add-a-scene-controller mode an unknown scene controller is added. With a reliable flash and the
  library calls succeeding, from a consistent state with a free slot, the command of a controller of the own
  house (any house for the very first device) stores, in the first free slot, a controller with the sender's
  address, three empty banks and the master-off scene in the fourth; the mode ends, the other controllers,
  the zones and the scenes stay as they were. (Room and device type are whatever the stack holds.)\<close>

theorem scene_controller_added:
  assumes "good_env env" "lcm_inv l" "GetAvailableSceneControllerIndex (controller_part l) < MAX_NUMBER_OF_SCENE_CONTROLLERS"
    and "lcm_houseID l = h \<or> (\<not> AnyZonesInArray (zone_part l) \<and> \<not> AnySceneControllersInArray (controller_part l))"
    and "MAX_NUMBER_OF_SCENE_CONTROLLERS \<le> idx"
  shows "let l' = HandleSceneControllerCommandReceived env idx b h g bankIndex l;
             j = GetAvailableSceneControllerIndex (controller_part l);
             (found, c) = get_controller l' j out
    in lcm_inv l' \<and> same_zones l l' \<and> same_scenes l l' \<and> lcm_houseID l' = h \<and> \<not> lcm_addASceneController l' \<and>
       found \<and> map bk_sceneId (sc_bank c) = [0xFF, 0xFF, 0xFF, MASTER_OFF_FOR_SCENE_CONTROLLER] \<and>
       sc_groupId c = g \<and> sc_buildingId c = b \<and> sc_houseId c = h \<and>
       (\<forall>i. i \<noteq> j \<longrightarrow> get_controller l' i out = get_controller l i out)"
proof -
  let ?j = "GetAvailableSceneControllerIndex (controller_part l)" and ?l1 = "adopt_house env h l"
  let ?c = "new_controller (stack_controller env) ?j b h g"
  have 1: "zones_become l ?l1 (zone_of l)" by (rule adopt_house_effect(1) [OF assms(2)])
  then have inv1: "lcm_inv ?l1" by (simp add: zones_become_def)
  have t: "same_tables l ?l1" by (simp add: adopt_house_def same_tables_def emit_def Let_def)
  have j1: "GetAvailableSceneControllerIndex (controller_part ?l1) = ?j"
    using t by (simp add: GetAvailableSceneControllerIndex_def nv_controller_of_def controller_part_def same_tables_def)
  have house: "lcm_houseID ?l1 = h" using adopt_house_effect(2) [OF assms(2)] assms(4) by auto
  note ok = new_controller_ok [OF good_envD(4) [OF assms(1)], of ?j b h g]
  let ?l2 = "set_controller env ?j ?c ?l1"
  note set = set_controller_named [OF good_envD(1) [OF assms(1)] inv1 assms(3) ok]
  let ?l3 = "emit SystemPropertiesChanged ((emit (SceneControllerAdded ?j) ?l2)\<lparr>lcm_addASceneController := False\<rparr>)"
  have t3: "same_tables ?l2 ?l3" by (simp add: same_tables_def emit_def)
  have code: "HandleSceneControllerCommandReceived env idx b h g bankIndex l = ?l3"
    using house assms(3,5) j1 good_envD(5) [OF assms(1)] by (simp add: HandleSceneControllerCommandReceived_def Let_def)
  have get3: "get_controller ?l3 i out = get_controller ?l2 i out" for i
    using same_tables(4) [OF t3] by (simp add: same_controllers_def)
  have get1: "get_controller ?l1 i out = get_controller l i out" for i
    using same_tables(4) [OF t] by (simp add: same_controllers_def)
  obtain q where q: "get_controller ?l3 ?j out = (True, q)" "same_controller ?c q"
    using set(4,5) [of out] get3 by (metis prod.collapse)
  have "same_zones l ?l3" "same_scenes l ?l3"
    using same_tables(2,3) [OF t] set(2,3) same_tables(2,3) [OF t3] same_scenes_trans by (simp add: same_zones_def, metis)
  moreover have "lcm_houseID ?l3 = h" using house by (simp add: set_controller_def Let_def)
  moreover have "lcm_inv ?l3" using same_tables(1) [OF t3] set(1) by simp
  moreover have "get_controller ?l3 i out = get_controller l i out" if "i \<noteq> ?j" for i
    using set(6) [OF that] get3 get1 by simp
  ultimately show ?thesis
    unfolding code Let_def q(1) prod.case
    using q(2) by (simp add: same_controller_def new_controller_def empty_bank_def emit_def)
qed

subsection \<open>Pressing a button\<close>

text \<open>C30: what a scene controller sends is ignored unless it concerns a stored scene. Outside
  add-a-scene-controller mode, a request from another house, from an unknown controller, for a button
  beyond the fourth, or for a button without a stored scene (an empty bank or the master-off bank) leaves the
  whole state unchanged; so do a master-off from another house or an unknown controller and an adjustment
  from another house or of a scene that is not stored.\<close>

theorem foreign_commands_ignored:
  assumes "lcm_inv l" "\<not> lcm_addASceneController l"
  shows "let idx = GetSceneControllerIndex (controller_part l) g b h; (found, c) = get_controller l idx (stack_controller env) in
    (lcm_houseID l \<noteq> h \<or> MAX_NUMBER_OF_SCENE_CONTROLLERS \<le> idx \<or> MAX_SCENES_IN_SCENE_CONTROLLER \<le> unat bankIndex \<or>
       scene_of l (unat (bk_sceneId (sc_bank c ! unat bankIndex))) = None \<longrightarrow>
     carry_out env (HandleSceneControllerSceneRequest b h g bankIndex state ty rate) l = Inr l) \<and>
    (lcm_houseID l \<noteq> h \<or> MAX_NUMBER_OF_SCENE_CONTROLLERS \<le> idx \<longrightarrow>
     carry_out env (HandleSceneControllerMasterOff b h g ty rate) l = Inr l) \<and>
    (lcm_houseID l \<noteq> h \<or> scene_of l (unat sceneIdx) = None \<longrightarrow>
     carry_out env (HandleSceneControllerSceneAdjust b h g sceneIdx val change rate) l = Inr l)"
proof -
  have none: "execute_stored_scene env sid app act v ch rate l = Inr l" if "scene_of l (unat sid) = None" for sid app act v ch
    using scene_of_get(2) [OF assms(1) that, of "stack_scene env"] by (simp add: execute_stored_scene_def)
  show ?thesis
    using assms(2) none by (auto simp: Let_def scene_request_def master_off_def scene_adjust_def split: prod.split)
qed

text \<open>C27: pressing a button of a scene controller runs its scene to the end. With a reliable flash and the
  library calls succeeding, outside the add mode, from a consistent state with an idle transmit task and
  distinct zone addresses: a request to activate, from a controller of the house whose bank holds a stored
  scene with zones that is not running, in one of the first 50 slots (only those are ever written) and with its Eliot
  id in flash, followed by the transmit task emptying its queue (whatever is
  acknowledged, three attempts each), brings every existing zone of the scene to the level (at most 100)
  and the state of its last entry, leaves the other zones as they were and the scene saved as not running. If the
  scene's Eliot id is not in flash, the request ends in the save that writes outside an array (C21).\<close>

theorem button_runs_its_scene:
  assumes "good_env env" "lcm_inv l" "distinct_addresses (zone_of l)" "transmitQueue l = []" "transmitMessages l = 0"
    and "\<not> lcm_addASceneController l" "lcm_houseID l = h" "GetSceneControllerIndex (controller_part l) g b h = idx"
    and "get_controller l idx (stack_controller env) = (True, c)" "unat bankIndex < MAX_SCENES_IN_SCENE_CONTROLLER"
    and "bk_sceneId (sc_bank c ! unat bankIndex) = sid" "scene_of l (unat sid) = Some s" "unat sid < NUM_ELIOT_PROPERTIES_IN_FLASH_SECTOR"
    and "sp_running s \<noteq> 1" "0 < unat (sp_numZonesInScene s)"
  shows "if stored_id l (unat sid)
    then \<exists>l1 l2. carry_out env (HandleSceneControllerSceneRequest b h g bankIndex True ty rate) l = Inr l1 \<and>
      transmit_run env acks (length (transmitQueue l1)) l1 = Inr l2 \<and> lcm_inv l2 \<and> transmitQueue l2 = [] \<and>
      scene_of l2 = (scene_of l)(unat sid \<mapsto> s\<lparr>sp_running := 0\<rparr>) \<and>
      (\<forall>k < unat (sp_numZonesInScene s). last_entry s k \<and> zone_of l (entry_zone s k) \<noteq> None \<longrightarrow>
         (\<exists>z. zone_of l2 (entry_zone s k) = Some z \<and> zp_state z = (zs_state (sp_zoneData s ! k) \<noteq> 0) \<and>
            zp_powerLevel z = min 100 (zs_powerLevel (sp_zoneData s ! k)))) \<and>
      (\<forall>i. i \<notin> entry_zone s ` {0..<unat (sp_numZonesInScene s)} \<longrightarrow> zone_of l2 i = zone_of l i)
    else carry_out env (HandleSceneControllerSceneRequest b h g bankIndex True ty rate) l = Inl OutOfBoundsWrite"
proof -
  have "idx < MAX_NUMBER_OF_SCENE_CONTROLLERS"
    using assms(9) by (auto simp: get_controller_def GetSceneControllerProperties_def split: if_splits)
  then have request: "carry_out env (HandleSceneControllerSceneRequest b h g bankIndex True ty rate) l =
      execute_stored_scene env sid 1 True 0 1 rate l"
    using assms(6-11) by (simp add: scene_request_def)
  show ?thesis
  proof (cases "stored_id l (unat sid)")
    case True
    show ?thesis
      unfolding request if_P [OF True]
      using scene_reaches_its_levels [OF assms(1-5,12) True assms(14,15), of 1 1 rate acks] by (simp only: if_True refl)
  next
    case False
    show ?thesis unfolding request if_not_P [OF False] by (rule execute_unstored_scene [OF assms(1,2,12,13) False assms(14)])
  qed
qed

subsection \<open>The sample installation\<close>

lemma loop_find_less: "loop_find P 0 n < n \<Longrightarrow> \<exists>i < n. P i"
  using loop_find_hit [of P 0 n] by auto

lemma fresh_lcm_empty: "\<not> AnyZonesInArray (zone_part fresh_lcm)" "\<not> AnySceneControllersInArray (controller_part fresh_lcm)"
proof -
  have "\<not> (case nv_zone_of (zone_part fresh_lcm) i of None \<Rightarrow> False
      | Some b \<Rightarrow> nz_name b ! 0 \<noteq> 0 \<and> nz_deviceType b \<noteq> SHADE_TYPE \<and> nz_deviceType b \<noteq> SHADE_GROUP_TYPE)" if "i < MAX_NUMBER_OF_ZONES" for i
    using that by (simp add: nv_zone_of_def zone_part_def fresh_lcm_def initial_zone_def)
  then show "\<not> AnyZonesInArray (zone_part fresh_lcm)" unfolding AnyZonesInArray_def using loop_find_less by blast
  have "\<not> (case nv_controller_of (controller_part fresh_lcm) i of None \<Rightarrow> False | Some b \<Rightarrow> nc_name b ! 0 \<noteq> 0)"
    if "i < MAX_NUMBER_OF_SCENE_CONTROLLERS" for i
    using that by (simp add: nv_controller_of_def controller_part_def fresh_lcm_def)
  then show "\<not> AnySceneControllersInArray (controller_part fresh_lcm)"
    unfolding AnySceneControllersInArray_def using loop_find_less by blast
qed


lemma ramp_all_recorded_witness:
  "\<exists>l z. zone_of l 3 = Some z \<and> zp_powerLevel z = 60 \<and>
     zone_of (snd (HandleTargetValueAll calm_env 20 [0..<MAX_NUMBER_OF_ZONES] (stack_zone calm_env, l))) 3 = Some z"
proof -
  obtain l where l: "lcm_inv l" "zone_of l = [3 \<mapsto> cut_zone sample_zone]" by (rule sample_installation [OF lamp_scene_ok])
  have "(cut_zone sample_zone)\<lparr>zp_state := True, zp_targetState := True\<rparr> = cut_zone sample_zone"
    by (simp add: cut_zone_def sample_zone_def)
  with ramp_all_recorded [OF calm_env_good l(1), of 20] l(2) show ?thesis
    by (intro exI [of _ l] exI [of _ "cut_zone sample_zone"]) (simp add: Let_def sample_zone_def cut_zone_def)
qed

theorem scene_controller_added_witness:
  "sc_groupId (snd (get_controller (HandleSceneControllerCommandReceived calm_env 20 1 77 5 0 fresh_lcm) 0 sample_controller)) = 5"
proof -
  have "GetAvailableSceneControllerIndex (controller_part fresh_lcm) = 0"
    unfolding GetAvailableSceneControllerIndex_def
    by (rule loop_find_eqI) (simp_all add: nv_controller_of_def controller_part_def fresh_lcm_def)
  then show ?thesis
    using fresh_lcm_empty scene_controller_added [OF calm_env_good fresh_lcm_inv, of 77 20 1 5 0 sample_controller] by (simp add: Let_def split: prod.splits)
qed

theorem foreign_commands_ignored_witness:
  "carry_out calm_env (HandleSceneControllerSceneRequest 1 77 5 0 True 0 0) fresh_lcm = Inr fresh_lcm"
  using foreign_commands_ignored [OF fresh_lcm_inv, of 5 1 77 calm_env 0 True 0 0]
  by (simp add: Let_def fresh_lcm_def split: prod.splits)

lemma lamp_controller_found:
  assumes "lcm_inv l" "\<forall>out. \<exists>c. get_controller l 0 out = (True, c) \<and> same_controller lamp_controller c"
  shows "GetSceneControllerIndex (controller_part l) 5 0 0 = 0"
proof -
  have inv: "controller_inv (controller_part l)" and i: "(0 :: nat) < MAX_NUMBER_OF_SCENE_CONTROLLERS"
    using assms(1) by (simp_all add: lcm_inv_def)
  obtain c where c: "get_controller l 0 sample_controller = (True, c)" "same_controller lamp_controller c" using assms(2) by blast
  then obtain b where b: "nv_controller_of (controller_part l) 0 = Some b" "nc_groupId b = 5" "nc_buildingId b = 0" "nc_houseId b = 0"
    by (auto simp: get_controller_def GetSceneControllerProperties_def same_controller_def lamp_controller_def
        simp del: upt_rec_numeral split: option.splits)
  have "nc_name b ! 0 \<noteq> 0"
    using b(1) nv_controller_of_inv [OF inv i] controller_invD(3) [OF inv i] by (auto split: if_splits)
  with b show ?thesis unfolding GetSceneControllerIndex_def by (intro loop_find_eqI) simp_all
qed

theorem button_runs_its_scene_witness:
  "\<exists>l l1 l2 z. carry_out calm_env (HandleSceneControllerSceneRequest 0 0 5 0 True 0x2B 0) l = Inr l1 \<and>
     transmit_run calm_env (\<lambda>n k. None) (length (transmitQueue l1)) l1 = Inr l2 \<and>
     zone_of l2 3 = Some z \<and> zp_powerLevel z = 50 \<and> zp_state z"
proof -
  obtain l where l: "lcm_inv l" "zone_of l = [3 \<mapsto> cut_zone sample_zone]" "distinct_addresses (zone_of l)"
    "transmitQueue l = []" "transmitMessages l = 0" "scene_of l 0 = Some (cut_scene lamp_scene)" "stored_id l 0"
    "lcm_houseID l = 0" "\<not> lcm_addALight l" "\<not> lcm_addASceneController l"
    "\<forall>out. \<exists>c. get_controller l 0 out = (True, c) \<and> same_controller lamp_controller c"
    by (rule sample_installation [OF lamp_scene_ok])
  have s: "sp_running (cut_scene lamp_scene) \<noteq> 1" "0 < unat (sp_numZonesInScene (cut_scene lamp_scene))"
    "unat (sp_numZonesInScene (cut_scene lamp_scene)) = 1" "entry_zone (cut_scene lamp_scene) 0 = 3"
    "zs_state (sp_zoneData (cut_scene lamp_scene) ! 0) = 1" "zs_powerLevel (sp_zoneData (cut_scene lamp_scene) ! 0) = 50"
    by (simp_all add: lamp_scene_def sample_scene_def cut_scene_def)
  have last: "last_entry (cut_scene lamp_scene) 0" using s(3) by (simp add: last_entry_def)
  obtain c where c: "get_controller l 0 (stack_controller calm_env) = (True, c)" "sc_bank c = sc_bank lamp_controller"
    using l(11) by (auto simp: same_controller_def)
  have bank: "unat (0 :: byte) < MAX_SCENES_IN_SCENE_CONTROLLER" "bk_sceneId (sc_bank c ! unat (0 :: byte)) = 0"
    using c(2) by (simp_all add: lamp_controller_def)
  have sc: "scene_of l (unat (0 :: byte)) = Some (cut_scene lamp_scene)"
    "unat (0 :: byte) < NUM_ELIOT_PROPERTIES_IN_FLASH_SECTOR" and id: "stored_id l (unat (0 :: byte))" using l(6,7) by simp_all
  from button_runs_its_scene [OF calm_env_good l(1,3-5,10,8) lamp_controller_found [OF l(1,11)] c(1) bank sc s(1,2), where ty = "0x2B" and rate = 0 and acks = "\<lambda>n k. None",
      unfolded if_P [OF id]]
    last l(2) s(3-6) show ?thesis by (auto simp: min_def)
qed

end
