(* ===== verification/Zone_Service.thy ===== *)
theory Zone_Service
  imports Json Shade_Ids Rf_Commands
begin

unbundle bit_operations_syntax

text \<open>
  The JSON services on zones of Socket\_Task.c: setting the properties of a zone and deleting a zone. A
  request gives the error code of its answer, the object that is broadcast to all sockets, and the new
  state. The property list is visited twice with the same routine, first with \<open>setFlag\<close> FALSE.
\<close>

abbreviation MAX_POWER_LEVEL :: int where "MAX_POWER_LEVEL \<equiv> 100"
abbreviation MAX_RAMP_RATE :: int where "MAX_RAMP_RATE \<equiv> 255"
abbreviation FLASH_SAVE_TIMER :: dword_t where "FLASH_SAVE_TIMER \<equiv> 2000"
abbreviation NO_TYPE :: byte where "NO_TYPE \<equiv> 0"
abbreviation FAN_CONTROLLER_TYPE :: byte where "FAN_CONTROLLER_TYPE \<equiv> 0x43"
abbreviation NETWORK_REMOTE_TYPE :: byte where "NETWORK_REMOTE_TYPE \<equiv> 0x21"

abbreviation SW_COULD_NOT_GET_ZONE_PROPERTIES_FOR_ZONE :: nat where "SW_COULD_NOT_GET_ZONE_PROPERTIES_FOR_ZONE \<equiv> 2015"
abbreviation SW_NO_ZONE_ID_FIELD :: nat where "SW_NO_ZONE_ID_FIELD \<equiv> 2043"
abbreviation SW_PROPERTY_LIST_CAN_ONLY_CHANGE_DEVICE_TYPE_IF_NOT :: nat where "SW_PROPERTY_LIST_CAN_ONLY_CHANGE_DEVICE_TYPE_IF_NOT \<equiv> 2048"
abbreviation SW_PROPERTY_LIST_DEVICE_TYPE_MUST_BE_DIM_OR_SW :: nat where "SW_PROPERTY_LIST_DEVICE_TYPE_MUST_BE_DIM_OR_SW \<equiv> 2053"
abbreviation SW_PROPERTY_LIST_DEVICE_TYPE_MUST_BE_A_STRING :: nat where "SW_PROPERTY_LIST_DEVICE_TYPE_MUST_BE_A_STRING \<equiv> 2054"
abbreviation SW_PROPERTY_LIST_POWER_LEVEL_MUST_BE_INTEGER :: nat where "SW_PROPERTY_LIST_POWER_LEVEL_MUST_BE_INTEGER \<equiv> 2063"
abbreviation SW_PROPERTY_LIST_POWER_LEVEL_MUST_BE_BETWEEN :: nat where "SW_PROPERTY_LIST_POWER_LEVEL_MUST_BE_BETWEEN \<equiv> 2064"
abbreviation SW_PROPERTY_LIST_POWER_MUST_BE_BOOLEAN :: nat where "SW_PROPERTY_LIST_POWER_MUST_BE_BOOLEAN \<equiv> 2065"
abbreviation SW_PROPERTY_LIST_RAMP_RATE_MUST_BE_BETWEEN :: nat where "SW_PROPERTY_LIST_RAMP_RATE_MUST_BE_BETWEEN \<equiv> 2067"
abbreviation SW_PROPERTY_LIST_RAMP_RATE_MUST_BE_AN_INTEGER :: nat where "SW_PROPERTY_LIST_RAMP_RATE_MUST_BE_AN_INTEGER \<equiv> 2068"
abbreviation SW_ZONE_ID_DOES_NOT_EXIST :: nat where "SW_ZONE_ID_DOES_NOT_EXIST \<equiv> 2090"
abbreviation SW_ZONE_ID_MUST_BE_LESS_THEN :: nat where "SW_ZONE_ID_MUST_BE_LESS_THEN \<equiv> 2091"
abbreviation SW_ZONE_ID_NOT_FOUND :: nat where "SW_ZONE_ID_NOT_FOUND \<equiv> 2092"
abbreviation SW_ZONE_ID_MUST_BE_AN_INTEGER :: nat where "SW_ZONE_ID_MUST_BE_AN_INTEGER \<equiv> 2093"

subsection \<open>Properties of a zone\<close>

record zone_request =
  rq_zone :: zone_properties
  rq_list :: json
  rq_response :: response
  rq_send :: bool
  rq_broadcast :: bool
  rq_nameChange :: bool

definition refuse :: "nat \<Rightarrow> zone_request \<Rightarrow> memory_error + bool \<times> zone_request" where
  "refuse code q = Inr (True, q\<lparr>rq_response := BuildErrorResponse code (rq_response q)\<rparr>)"

definition device_type_of :: "byte list \<Rightarrow> byte" where
  "device_type_of s =
     (let deviceType = (if s = bytes_of ''Dimmer'' then DIMMER_TYPE else NO_TYPE)
      in if s = bytes_of ''Fan'' then FAN_CONTROLLER_TYPE
         else if s = bytes_of ''Switch'' then SWITCH_TYPE
         else if s = bytes_of ''Shade'' then SHADE_TYPE
         else if s = bytes_of ''ShadeGroup'' then SHADE_GROUP_TYPE
         else deviceType)"

definition HandleIndividualProperty ::
  "environment \<Rightarrow> bool \<Rightarrow> string \<Rightarrow> json \<Rightarrow> zone_request \<Rightarrow> memory_error + bool \<times> zone_request" where
  "HandleIndividualProperty env setFlag key v q =
     (let z = rq_zone q; n = json_integer_value (Some v) in
      if key = ''PowerLevel'' then
        if \<not> json_is_integer (Some v) then refuse SW_PROPERTY_LIST_POWER_LEVEL_MUST_BE_INTEGER q
        else if MAX_POWER_LEVEL < n \<or> n = 0 then
          if is_shade z \<and> n = 0
          then Inr (False, if setFlag then q\<lparr>rq_zone := z\<lparr>zp_targetPowerLevel := word_of_int n\<rparr>, rq_send := True\<rparr> else q)
          else refuse SW_PROPERTY_LIST_POWER_LEVEL_MUST_BE_BETWEEN q
        else if setFlag then
          if zp_deviceType z = SWITCH_TYPE
          then Inr (False, q\<lparr>rq_zone := z\<lparr>zp_targetPowerLevel := word_of_int MAX_POWER_LEVEL\<rparr>, rq_broadcast := True\<rparr>)
          else Inr (False, q\<lparr>rq_zone := z\<lparr>zp_targetPowerLevel := word_of_int n\<rparr>, rq_send := True\<rparr>)
        else Inr (False, q)
      else if key = ''RampRate'' then
        if \<not> json_is_integer (Some v) then refuse SW_PROPERTY_LIST_RAMP_RATE_MUST_BE_AN_INTEGER q
        else if MAX_RAMP_RATE < n \<or> n < 0 then refuse SW_PROPERTY_LIST_RAMP_RATE_MUST_BE_BETWEEN q
        else Inr (False, if setFlag then q\<lparr>rq_zone := z\<lparr>zp_rampRate := word_of_int n\<rparr>, rq_broadcast := True\<rparr> else q)
      else if key = ''Name'' then
        if \<not> json_is_string (Some v) then refuse SW_PROPERTY_LIST_NAME_MUST_BE_A_STRING q
        else if setFlag then
          bind_sum (SanitizeJsonStringObject (stack_name env) v) (\<lambda>v.
          Inr (False, q\<lparr>rq_zone := z\<lparr>zp_ZoneNameString := set_name (zp_ZoneNameString z) v\<rparr>,
                        rq_list := json_object_set (rq_list q) key v, rq_broadcast := True, rq_nameChange := True\<rparr>))
        else Inr (False, q)
      else if key = ''Power'' then
        if \<not> json_is_boolean (Some v) then refuse SW_PROPERTY_LIST_POWER_MUST_BE_BOOLEAN q
        else Inr (False, if setFlag then q\<lparr>rq_zone := z\<lparr>zp_targetState := json_is_true (Some v)\<rparr>, rq_send := True\<rparr> else q)
      else if key = ''DeviceType'' then
        if \<not> json_is_string (Some v) then refuse SW_PROPERTY_LIST_DEVICE_TYPE_MUST_BE_A_STRING q
        else
          let deviceType = device_type_of (json_string_value (Some v)) in
          if deviceType \<noteq> DIMMER_TYPE \<and> deviceType \<noteq> FAN_CONTROLLER_TYPE \<and> deviceType \<noteq> SWITCH_TYPE \<and>
             deviceType \<noteq> SHADE_TYPE \<and> deviceType \<noteq> SHADE_GROUP_TYPE
          then refuse SW_PROPERTY_LIST_DEVICE_TYPE_MUST_BE_DIM_OR_SW q
          else if zp_deviceType z \<noteq> NETWORK_REMOTE_TYPE \<and> zp_deviceType z \<noteq> NO_TYPE
          then refuse SW_PROPERTY_LIST_CAN_ONLY_CHANGE_DEVICE_TYPE_IF_NOT q
          else Inr (False, if setFlag then q\<lparr>rq_zone := z\<lparr>zp_deviceType := deviceType\<rparr>, rq_broadcast := True\<rparr> else q)
      else refuse SW_INVALID_PROPERTY_IN_LIST q)"

text \<open>The copy of the request shares its property list, so that what is deleted there is not sent.\<close>

definition zone_broadcast :: "json \<Rightarrow> zone_request \<Rightarrow> json" where
  "zone_broadcast root q =
     (let l = rq_list q;
          l = (if \<not> rq_send q \<and> zp_deviceType (rq_zone q) = SWITCH_TYPE
               then json_object_set l ''PowerLevel'' (JSON_INTEGER MAX_POWER_LEVEL)
               else if json_object_get (Some l) ''PowerLevel'' \<noteq> None then json_object_del l ''PowerLevel'' else l);
          l = (if json_object_get (Some l) ''Power'' \<noteq> None then json_object_del l ''Power'' else l);
          root = json_object_set root ''PropertyList'' l;
          root = json_object_set root ''ID'' (JSON_INTEGER 0);
          root = json_object_set root ''Status'' (JSON_STRING (bytes_of ''Success''))
      in json_object_set root ''Service'' (JSON_STRING (bytes_of ''ZonePropertiesChanged'')))"

text \<open>The accepted request: ramp, save, tell the cloud and the sockets.\<close>

definition finish_zone_request ::
  "environment \<Rightarrow> nat \<Rightarrow> json \<Rightarrow> zone_request \<Rightarrow> lcm \<Rightarrow> response \<times> json option \<times> lcm" where
  "finish_zone_request env zoneIndex root q l =
     (let l = (if rq_send q
               then snd (SendRampCommandToTransmitTask env zoneIndex (of_nat (MAX_NUMBER_OF_SCENES + 1)) 0
                           RFM100_MESSAGE_HIGH_PRIORITY l)
               else l);
          l = set_zone env zoneIndex (rq_zone q) l;
          l = (if rq_nameChange q then emit (EliotRenameZone zoneIndex) l else l)
      in (rq_response q, if rq_broadcast q then Some (zone_broadcast root q) else None, l))"

definition set_zone_properties ::
  "environment \<Rightarrow> nat \<Rightarrow> zone_properties \<Rightarrow> json \<Rightarrow> lcm \<Rightarrow> memory_error + response \<times> json option \<times> lcm" where
  "set_zone_properties env zoneIndex z root l =
     (let propertyListObject = json_object_get (Some root) ''PropertyList''
      in if \<not> json_is_object propertyListObject
         then Inr (BuildErrorResponse SW_INVALID_PROPERTY_LIST None, None, l)
         else
           let ps = json_pairs propertyListObject;
               q = \<lparr>rq_zone = z, rq_list = the propertyListObject, rq_response = None, rq_send = False,
                    rq_broadcast = False, rq_nameChange = False\<rparr>
           in bind_sum (each_property (HandleIndividualProperty env False) ps (stack_errorFlag env) q) (\<lambda>(errorFlag, q).
              if errorFlag then Inr (rq_response q, None, l)
              else
                let appContextObj = json_object_get (Some root) ''AppContextId'';
                    q = q\<lparr>rq_zone := (rq_zone q)\<lparr>zp_rampRate := 50\<rparr>\<rparr>
                in if appContextObj \<noteq> None \<and> \<not> json_is_integer appContextObj
                   then Inr (BuildErrorResponse SW_APP_CONTEXT_ID_ERROR (rq_response q), None, l)
                   else
                     let q = q\<lparr>rq_zone := (rq_zone q)\<lparr>zp_AppContextId := word_of_int (json_integer_value appContextObj)\<rparr>\<rparr>
                     in bind_sum (each_property (HandleIndividualProperty env True) ps False q) (\<lambda>(errorFlag, q).
                        if errorFlag then Inr (rq_response q, None, l)
                        else Inr (finish_zone_request env zoneIndex root q l))))"

definition HandleSetZoneProperties ::
  "environment \<Rightarrow> json \<Rightarrow> lcm \<Rightarrow> memory_error + response \<times> json option \<times> lcm" where
  "HandleSetZoneProperties env root l =
     (let zoneObject = json_object_get (Some root) ''ZID''
      in if zoneObject = None then Inr (BuildErrorResponse SW_NO_ZONE_ID_FIELD None, None, l)
         else if \<not> json_is_integer zoneObject then Inr (BuildErrorResponse SW_ZONE_ID_MUST_BE_AN_INTEGER None, None, l)
         else
           let zoneIndex = unat (word_of_int (json_integer_value zoneObject) :: byte);
               (found, z) = get_zone l zoneIndex (stack_zone env)
           in if MAX_NUMBER_OF_ZONES \<le> zoneIndex then Inr (BuildErrorResponse SW_ZONE_ID_MUST_BE_LESS_THEN None, None, l)
              else if \<not> found then Inr (BuildErrorResponse SW_COULD_NOT_GET_ZONE_PROPERTIES_FOR_ZONE None, None, l)
              else if zp_ZoneNameString z ! 0 = 0 then Inr (BuildErrorResponse SW_ZONE_ID_NOT_FOUND None, None, l)
              else set_zone_properties env zoneIndex z root l)"

subsection \<open>Deleting a zone\<close>

text \<open>Without zones and scene controllers the LCM forgets its house.\<close>

definition forget_house :: "environment \<Rightarrow> lcm \<Rightarrow> lcm" where
  "forget_house env l =
     (if \<not> AnyZonesInArray (zone_part l) \<and> \<not> AnySceneControllersInArray (controller_part l) then
        let l = l\<lparr>lcm_houseID := 0\<rparr>;
            l = (if json_object_ok env 4360 then emit SystemInfoChanged l else l);
            l = emit HouseIdLedOn l;
            l = l\<lparr>lcm_configured := False, lcm_flashSaveTimer := FLASH_SAVE_TIMER\<rparr>
        in if json_object_ok env 6634 then emit SystemPropertiesChanged l else l
      else l)"

definition zone_deleted :: "nat \<Rightarrow> dword_t \<Rightarrow> json" where
  "zone_deleted zoneIndex appContextId =
     JSON_OBJECT ([(''ID'', JSON_INTEGER 0), (''ZID'', JSON_INTEGER (int zoneIndex))] @
       (if appContextId \<noteq> 0 then [(''AppContextId'', JSON_INTEGER (uint appContextId))] else []) @
       [(''Service'', JSON_STRING (bytes_of ''ZoneDeleted'')), (''Status'', JSON_STRING (bytes_of ''Success''))])"

definition delete_zone :: "environment \<Rightarrow> nat \<Rightarrow> zone_properties \<Rightarrow> lcm \<Rightarrow> lcm" where
  "delete_zone env zoneIndex z l =
     (let l = (if zp_EliotDeviceId z ! 0 \<noteq> 0 then emit (EliotDeleteDevice (cstr ELIOT_DEVICE_ID_SIZE (zp_EliotDeviceId z))) l else l);
          z = z\<lparr>zp_ZoneNameString := replicate MAX_SIZE_NAME_STRING 0, zp_EliotDeviceId := replicate ELIOT_DEVICE_ID_SIZE 0\<rparr>;
          l = set_zone env zoneIndex z l
      in if is_shade z then
           let ids = (lcm_shadeIds l)[zoneIndex := replicate MAX_SIZE_QMOTION_DEVICE_ID_STRING 0]
           in l\<lparr>lcm_shadeIds := ids,
                lcm_flash := fst (WriteAllShadeIdsToFlash (env_hw env) (lcm_flash l)
                               (shadeInfoStruct ids (lcm_shadeGroups l)) (shade_behind env))\<rparr>
         else l)"

definition HandleDeleteZone :: "environment \<Rightarrow> json \<Rightarrow> lcm \<Rightarrow> response \<times> json option \<times> lcm" where
  "HandleDeleteZone env root l =
     (let zoneObject = json_object_get (Some root) ''ZID'';
          zoneIndex = unat (word_of_int (json_integer_value zoneObject) :: byte);
          (found, z) = get_zone l zoneIndex (stack_zone env);
          (r, b, l) =
            (if zoneObject = None then (BuildErrorResponse SW_NO_ZONE_ID_FIELD None, None, l)
             else if \<not> json_is_integer zoneObject then (BuildErrorResponse SW_ZONE_ID_MUST_BE_AN_INTEGER None, None, l)
             else if MAX_NUMBER_OF_ZONES \<le> zoneIndex then (BuildErrorResponse SW_ZONE_ID_MUST_BE_LESS_THEN None, None, l)
             else if \<not> found then (BuildErrorResponse SW_COULD_NOT_GET_ZONE_PROPERTIES_FOR_ZONE None, None, l)
             else if zp_ZoneNameString z ! 0 = 0 then (BuildErrorResponse SW_ZONE_ID_DOES_NOT_EXIST None, None, l)
             else
               let (r, appContextId) = app_context (Some root) None
               in (r, if json_object_ok env 6601 then Some (zone_deleted zoneIndex appContextId) else None,
                   delete_zone env zoneIndex z l))
      in (r, b, forget_house env l))"

subsection \<open>Checking and executing\<close>

text \<open>The error a property is refused with, and what an accepted one does to a zone whose strings are cut.\<close>

definition zone_property_error :: "byte \<Rightarrow> string \<Rightarrow> json \<Rightarrow> nat option" where
  "zone_property_error deviceType key v =
     (let n = json_integer_value (Some v); shade = (deviceType = SHADE_TYPE \<or> deviceType = SHADE_GROUP_TYPE) in
      if key = ''PowerLevel'' then
        if \<not> json_is_integer (Some v) then Some SW_PROPERTY_LIST_POWER_LEVEL_MUST_BE_INTEGER
        else if n \<le> MAX_POWER_LEVEL \<and> (n \<noteq> 0 \<or> shade) then None
        else Some SW_PROPERTY_LIST_POWER_LEVEL_MUST_BE_BETWEEN
      else if key = ''RampRate'' then
        if \<not> json_is_integer (Some v) then Some SW_PROPERTY_LIST_RAMP_RATE_MUST_BE_AN_INTEGER
        else if 0 \<le> n \<and> n \<le> MAX_RAMP_RATE then None else Some SW_PROPERTY_LIST_RAMP_RATE_MUST_BE_BETWEEN
      else if key = ''Name'' then if json_is_string (Some v) then None else Some SW_PROPERTY_LIST_NAME_MUST_BE_A_STRING
      else if key = ''Power'' then if json_is_boolean (Some v) then None else Some SW_PROPERTY_LIST_POWER_MUST_BE_BOOLEAN
      else if key = ''DeviceType'' then
        if \<not> json_is_string (Some v) then Some SW_PROPERTY_LIST_DEVICE_TYPE_MUST_BE_A_STRING
        else if device_type_of (json_string_value (Some v)) = NO_TYPE then Some SW_PROPERTY_LIST_DEVICE_TYPE_MUST_BE_DIM_OR_SW
        else if deviceType = NETWORK_REMOTE_TYPE \<or> deviceType = NO_TYPE then None
        else Some SW_PROPERTY_LIST_CAN_ONLY_CHANGE_DEVICE_TYPE_IF_NOT
      else Some SW_INVALID_PROPERTY_IN_LIST)"

definition zone_update :: "string \<Rightarrow> json \<Rightarrow> zone_properties \<Rightarrow> zone_properties" where
  "zone_update key v z =
     (let n = json_integer_value (Some v) in
      if key = ''PowerLevel'' then
        z\<lparr>zp_targetPowerLevel := if zp_deviceType z = SWITCH_TYPE then word_of_int MAX_POWER_LEVEL else word_of_int n\<rparr>
      else if key = ''RampRate'' then z\<lparr>zp_rampRate := word_of_int n\<rparr>
      else if key = ''Name'' then z\<lparr>zp_ZoneNameString := clean_name (json_string_value (Some v))\<rparr>
      else if key = ''Power'' then z\<lparr>zp_targetState := json_is_true (Some v)\<rparr>
      else z\<lparr>zp_deviceType := device_type_of (json_string_value (Some v))\<rparr>)"

text \<open>The same with the buffers of the code and the flags of the request.\<close>

definition execute_property :: "string \<Rightarrow> json \<Rightarrow> zone_request \<Rightarrow> zone_request" where
  "execute_property key v q =
     (let z = rq_zone q; name = JSON_STRING (clean_name (json_string_value (Some v))) in
      if key = ''Name'' then
        q\<lparr>rq_zone := z\<lparr>zp_ZoneNameString := set_name (zp_ZoneNameString z) name\<rparr>, rq_list := json_object_set (rq_list q) key name,
          rq_broadcast := True, rq_nameChange := True\<rparr>
      else if key = ''Power'' \<or> key = ''PowerLevel'' \<and> zp_deviceType z \<noteq> SWITCH_TYPE
      then q\<lparr>rq_zone := zone_update key v z, rq_send := True\<rparr>
      else q\<lparr>rq_zone := zone_update key v z, rq_broadcast := True\<rparr>)"

lemma device_type_unknown:
  "device_type_of s \<noteq> DIMMER_TYPE \<and> device_type_of s \<noteq> FAN_CONTROLLER_TYPE \<and> device_type_of s \<noteq> SWITCH_TYPE \<and>
   device_type_of s \<noteq> SHADE_TYPE \<and> device_type_of s \<noteq> SHADE_GROUP_TYPE \<longleftrightarrow> device_type_of s = NO_TYPE"
  by (cases "s = bytes_of ''Fan''"; cases "s = bytes_of ''Switch''"; cases "s = bytes_of ''Shade''";
      cases "s = bytes_of ''ShadeGroup''"; cases "s = bytes_of ''Dimmer''"; simp add: device_type_of_def)

lemma zone_property_cases:
  obtains "key = ''PowerLevel''" | "key = ''RampRate''" | "key = ''Name''" | "key = ''Power''" | "key = ''DeviceType''"
    | "key \<notin> {''PowerLevel'', ''RampRate'', ''Name'', ''Power'', ''DeviceType''}"
  by blast

lemma check_property:
  "HandleIndividualProperty env False key v q =
     (case zone_property_error (zp_deviceType (rq_zone q)) key v of
        None \<Rightarrow> Inr (False, q)
      | Some code \<Rightarrow> refuse code q)"
  by (cases key rule: zone_property_cases)
    (simp_all add: HandleIndividualProperty_def zone_property_error_def is_shade_def Let_def device_type_unknown not_le)

lemma execute_property:
  assumes "zone_property_error (zp_deviceType (rq_zone q)) key v = None"
    and "0 \<notin> set (json_string_value (Some v))" "length (stack_name env) = MAX_SIZE_NAME_STRING"
  shows "HandleIndividualProperty env True key v q = Inr (False, execute_property key v q)"
proof -
  have name: "SanitizeJsonStringObject (stack_name env) v = Inr (JSON_STRING (clean_name (json_string_value (Some v))))"
    if "json_is_string (Some v)"
    using SanitizeJsonStringObject_clean [OF _ assms(3)] assms(2) json_is_stringE [OF that] by auto
  show ?thesis
    using assms(1) name
    by (cases key rule: zone_property_cases;
      simp add: HandleIndividualProperty_def zone_property_error_def execute_property_def zone_update_def is_shade_def
        Let_def device_type_unknown split: if_splits; fastforce)
qed

text \<open>A change of the device type does not invalidate the properties that follow it.\<close>

lemma property_still_ok:
  "zone_property_error ty key v = None \<Longrightarrow> ty = NETWORK_REMOTE_TYPE \<or> ty = NO_TYPE \<Longrightarrow> key \<noteq> ''DeviceType'' \<Longrightarrow>
   zone_property_error ty' key v = None"
  by (auto simp: zone_property_error_def Let_def split: if_splits)

lemma device_type_ok: "zone_property_error ty ''DeviceType'' v = None \<Longrightarrow> ty = NETWORK_REMOTE_TYPE \<or> ty = NO_TYPE"
  by (auto simp: zone_property_error_def Let_def split: if_splits)

lemma execute_device_type:
  "key \<noteq> ''DeviceType'' \<Longrightarrow> zone_property_error ty key v = None \<Longrightarrow>
   zp_deviceType (rq_zone (execute_property key v q)) = zp_deviceType (rq_zone q)"
  by (auto simp: execute_property_def zone_update_def zone_property_error_def Let_def)

lemma execute_properties:
  assumes "\<And>key v. (key, v) \<in> set ps \<Longrightarrow> zone_property_error ty key v = None \<and> 0 \<notin> set (json_string_value (Some v))"
    and "distinct (map fst ps)" "length (stack_name env) = MAX_SIZE_NAME_STRING"
    and "zp_deviceType (rq_zone q) = ty \<or> ''DeviceType'' \<notin> fst ` set ps \<and> (ty = NETWORK_REMOTE_TYPE \<or> ty = NO_TYPE)"
  shows "each_property (HandleIndividualProperty env True) ps flag q =
    Inr (flag \<and> ps = [], fold (\<lambda>(key, v). execute_property key v) ps q)"
  using assms
proof (induction ps arbitrary: flag q)
  case (Cons p ps)
  obtain key v where p: "p = (key, v)" by fastforce
  have kv: "zone_property_error ty key v = None" "0 \<notin> set (json_string_value (Some v))" using Cons.prems(1) p by auto
  have rest: "key \<notin> fst ` set ps" "distinct (map fst ps)" using Cons.prems(2) p by auto
  have ok: "zone_property_error (zp_deviceType (rq_zone q)) key v = None"
    using Cons.prems(4) kv(1) property_still_ok [OF kv(1)] p by auto
  note step = execute_property [OF ok kv(2) Cons.prems(3)]
  have "zp_deviceType (rq_zone (execute_property key v q)) = ty \<or>
      ''DeviceType'' \<notin> fst ` set ps \<and> (ty = NETWORK_REMOTE_TYPE \<or> ty = NO_TYPE)"
  proof (cases "key = ''DeviceType''")
    case True
    then show ?thesis using rest(1) device_type_ok kv(1) by blast
  next
    case False
    then show ?thesis using Cons.prems(4) execute_device_type [OF False kv(1)] by auto
  qed
  then have "each_property (HandleIndividualProperty env True) ps False (execute_property key v q) =
      Inr (False \<and> ps = [], fold (\<lambda>(key, v). execute_property key v) ps (execute_property key v q))"
    using Cons.prems(1,3) rest(2) by (intro Cons.IH) auto
  then show ?case by (simp add: p step)
qed simp

text \<open>On the zone itself.\<close>

lemma execute_property_zone:
  assumes "zone_property_error ty key v = None" "length (zp_ZoneNameString (rq_zone q)) = MAX_SIZE_NAME_STRING"
    "0 \<in> set (zp_ZoneNameString (rq_zone q))"
  shows "cut_zone (rq_zone (execute_property key v q)) = zone_update key v (cut_zone (rq_zone q))"
    "length (zp_ZoneNameString (rq_zone (execute_property key v q))) = MAX_SIZE_NAME_STRING"
    "0 \<in> set (zp_ZoneNameString (rq_zone (execute_property key v q)))"
    "zp_EliotDeviceId (rq_zone (execute_property key v q)) = zp_EliotDeviceId (rq_zone q)"
    "rq_response (execute_property key v q) = rq_response q"
  using set_name_clean [OF assms(2), of "json_string_value (Some v)"] assms(2,3)
  by (auto simp: execute_property_def zone_update_def cut_zone_def Let_def)

lemma execute_properties_zone:
  assumes "\<And>key v. (key, v) \<in> set ps \<Longrightarrow> \<exists>ty. zone_property_error ty key v = None"
    and "length (zp_ZoneNameString (rq_zone q)) = MAX_SIZE_NAME_STRING" "0 \<in> set (zp_ZoneNameString (rq_zone q))"
  defines "q' \<equiv> fold (\<lambda>(key, v). execute_property key v) ps q"
  shows "cut_zone (rq_zone q') = fold (\<lambda>(key, v). zone_update key v) ps (cut_zone (rq_zone q)) \<and>
    length (zp_ZoneNameString (rq_zone q')) = MAX_SIZE_NAME_STRING \<and> 0 \<in> set (zp_ZoneNameString (rq_zone q')) \<and>
    zp_EliotDeviceId (rq_zone q') = zp_EliotDeviceId (rq_zone q) \<and> rq_response q' = rq_response q"
  using assms(1-3) unfolding q'_def
proof (induction ps arbitrary: q)
  case (Cons p ps)
  obtain key v where p: "p = (key, v)" by fastforce
  obtain ty where ty: "zone_property_error ty key v = None" using Cons.prems(1) [of key v] p by auto
  note step = execute_property_zone [OF ty Cons.prems(2,3)]
  show ?case using Cons.IH [OF _ step(2,3)] Cons.prems(1) step(1,4,5) p by simp
qed simp

text \<open>Whether a list asks for a ramp: it sets the power, or the level while the zone is not a switch.\<close>

fun asks_ramp :: "byte \<Rightarrow> (string \<times> json) list \<Rightarrow> bool" where
  "asks_ramp deviceType [] = False"
| "asks_ramp deviceType ((key, v) # ps) =
     (key = ''Power'' \<or> key = ''PowerLevel'' \<and> deviceType \<noteq> SWITCH_TYPE \<or>
      asks_ramp (if key = ''DeviceType'' then device_type_of (json_string_value (Some v)) else deviceType) ps)"

lemma execute_property_sends:
  assumes "zone_property_error ty key v = None"
  shows "rq_send (execute_property key v q) \<longleftrightarrow>
      rq_send q \<or> key = ''Power'' \<or> key = ''PowerLevel'' \<and> zp_deviceType (rq_zone q) \<noteq> SWITCH_TYPE"
    "zp_deviceType (rq_zone (execute_property key v q)) =
      (if key = ''DeviceType'' then device_type_of (json_string_value (Some v)) else zp_deviceType (rq_zone q))"
  using assms
  by (cases key rule: zone_property_cases; simp add: execute_property_def zone_update_def zone_property_error_def Let_def)+

lemma execute_properties_send:
  assumes "\<And>key v. (key, v) \<in> set ps \<Longrightarrow> \<exists>ty. zone_property_error ty key v = None"
  shows "rq_send (fold (\<lambda>(key, v). execute_property key v) ps q) \<longleftrightarrow> rq_send q \<or> asks_ramp (zp_deviceType (rq_zone q)) ps"
  using assms
proof (induction ps arbitrary: q)
  case (Cons p ps)
  obtain key v where p: "p = (key, v)" by fastforce
  obtain ty where "zone_property_error ty key v = None" using Cons.prems p by auto
  note step = execute_property_sends [OF this, of q]
  show ?case using Cons.IH [of "execute_property key v q"] Cons.prems step by (auto simp: p)
qed simp

lemma zone_update_name:
  "''Name'' \<notin> fst ` set ps \<Longrightarrow> zp_ZoneNameString (fold (\<lambda>(key, v). zone_update key v) ps z) = zp_ZoneNameString z"
  by (induction ps arbitrary: z) (auto simp: zone_update_def Let_def)

subsection \<open>The services on the map of zones\<close>

text \<open>The error a request is answered with, in the order of the checks.\<close>

definition zone_request_error :: "(nat \<Rightarrow> zone_properties option) \<Rightarrow> json \<Rightarrow> nat option" where
  "zone_request_error Z root =
     (let zoneObject = json_object_get (Some root) ''ZID''; i = unat (word_of_int (json_integer_value zoneObject) :: byte);
          list = json_object_get (Some root) ''PropertyList''; app = json_object_get (Some root) ''AppContextId''
      in if zoneObject = None then Some SW_NO_ZONE_ID_FIELD
         else if \<not> json_is_integer zoneObject then Some SW_ZONE_ID_MUST_BE_AN_INTEGER
         else if MAX_NUMBER_OF_ZONES \<le> i then Some SW_ZONE_ID_MUST_BE_LESS_THEN
         else case Z i of None \<Rightarrow> Some SW_COULD_NOT_GET_ZONE_PROPERTIES_FOR_ZONE
         | Some z \<Rightarrow>
             if \<not> json_is_object list then Some SW_INVALID_PROPERTY_LIST
             else case first_error (zone_property_error (zp_deviceType z)) (json_pairs list) of
                    Some code \<Rightarrow> Some code
                  | None \<Rightarrow> if app \<noteq> None \<and> \<not> json_is_integer app then Some SW_APP_CONTEXT_ID_ERROR else None)"

text \<open>The index and the properties a request without error sets.\<close>

definition requested_index :: "string \<Rightarrow> json \<Rightarrow> nat" where
  "requested_index key root = unat (word_of_int (json_integer_value (json_object_get (Some root) key)) :: byte)"

definition requested_zone :: "json \<Rightarrow> zone_properties \<Rightarrow> zone_properties" where
  "requested_zone root z =
     fold (\<lambda>(key, v). zone_update key v) (json_pairs (json_object_get (Some root) ''PropertyList''))
       (z\<lparr>zp_rampRate := 50, zp_AppContextId := word_of_int (json_integer_value (json_object_get (Some root) ''AppContextId''))\<rparr>)"

text \<open>What the parser guarantees, and no empty list; stored names are never empty.\<close>

definition property_list_ok :: "json \<Rightarrow> bool" where
  "property_list_ok root \<longleftrightarrow>
     (let ps = json_pairs (json_object_get (Some root) ''PropertyList'')
      in ps \<noteq> [] \<and> distinct (map fst ps) \<and> (\<forall>(key, v) \<in> set ps. 0 \<notin> set (json_string_value (Some v))))"

lemma set_zone_properties_refused:
  assumes "json_is_object (json_object_get (Some root) ''PropertyList'') \<longrightarrow> property_list_ok root"
    and "\<not> json_is_object (json_object_get (Some root) ''PropertyList'') \<and> code = SW_INVALID_PROPERTY_LIST \<or>
      json_is_object (json_object_get (Some root) ''PropertyList'') \<and>
      (case first_error (zone_property_error (zp_deviceType p)) (json_pairs (json_object_get (Some root) ''PropertyList'')) of
         Some c \<Rightarrow> code = c
       | None \<Rightarrow> (let app = json_object_get (Some root) ''AppContextId''
            in app \<noteq> None \<and> \<not> json_is_integer app \<and> code = SW_APP_CONTEXT_ID_ERROR))"
  shows "set_zone_properties env i p root l = Inr (Some code, None, l)"
proof -
  have check: "each_property (HandleIndividualProperty env False) ps flag q =
      (case first_error (zone_property_error (zp_deviceType (rq_zone q))) ps of None \<Rightarrow> Inr (flag \<and> ps = [], q)
       | Some c \<Rightarrow> Inr (True, q\<lparr>rq_response := BuildErrorResponse c (rq_response q)\<rparr>))" for ps flag q
    by (rule each_property_check) (simp add: check_property refuse_def split: option.split)
  show ?thesis
    using assms by (auto simp: set_zone_properties_def check Let_def BuildErrorResponse_def property_list_ok_def split: option.splits)
qed

lemma SendRamp_queue:
  assumes "good_env env" "lcm_inv l" "zone_of l i = Some z" "transmitMessages l < NUMBER_OF_RFM100_TRANSMIT_MESSAGES_IN_POOL"
  shows "transmitQueue (snd (SendRampCommandToTransmitTask env i sid pct prio l)) =
    snd (msgq_send_priority env (transmitQueue l) ((pool_message env)\<lparr>tm_command := RAMP, tm_groupId := zp_groupId z,
      tm_buildingId := zp_buildingId z, tm_houseId := zp_houseId z, tm_sceneId := sid, tm_scenePercent := pct\<rparr>) prio)"
proof -
  let ?l = "l\<lparr>transmitMessages := transmitMessages l + 1\<rparr>"
  obtain p where p: "get_zone l i (stack_zone env) = (True, p)" "cut_zone p = z"
    using get_zone_some [OF assms(2,3) good_envD(2) [OF assms(1)]] by metis
  have "get_zone ?l i (stack_zone env) = (True, p)"
    using same_tables(2) [of l ?l] p(1) by (simp add: same_zones_def)
  then show ?thesis
    using p(2) assms(1,4) by (auto simp: SendRampCommandToTransmitTask_def good_envD queue_message_def Let_def case_prod_beta)
qed

lemma set_zone_properties_accepted:
  assumes env: "good_env env" "length (stack_name env) = MAX_SIZE_NAME_STRING" and inv: "lcm_inv l"
    and ok: "property_list_ok root" and i: "i < MAX_NUMBER_OF_ZONES"
    and y: "zone_of l i = Some y" and p: "cut_zone p = y" "zone_args_ok p"
    and list: "json_is_object (json_object_get (Some root) ''PropertyList'')"
    "first_error (zone_property_error (zp_deviceType p)) (json_pairs (json_object_get (Some root) ''PropertyList'')) = None"
    "json_object_get (Some root) ''AppContextId'' = None \<or> json_is_integer (json_object_get (Some root) ''AppContextId'')"
    and id: "zp_ZoneNameString (requested_zone root y) = [] \<longrightarrow> zp_EliotDeviceId y = []"
  shows "\<exists>b l'. set_zone_properties env i p root l = Inr (None, b, l') \<and> lcm_inv l' \<and>
      zone_of l' = (zone_of l)(i := if zp_ZoneNameString (requested_zone root y) = [] then None else Some (requested_zone root y)) \<and>
      (\<not> asks_ramp (zp_deviceType y) (json_pairs (json_object_get (Some root) ''PropertyList'')) \<longrightarrow> transmitQueue l' = transmitQueue l) \<and>
      (asks_ramp (zp_deviceType y) (json_pairs (json_object_get (Some root) ''PropertyList'')) \<and>
         transmitMessages l < NUMBER_OF_RFM100_TRANSMIT_MESSAGES_IN_POOL \<longrightarrow>
         transmitQueue l' = snd (msgq_send_priority env (transmitQueue l) ((pool_message env)\<lparr>tm_command := RAMP,
           tm_groupId := zp_groupId y, tm_buildingId := zp_buildingId y, tm_houseId := zp_houseId y, tm_sceneId := 101,
           tm_scenePercent := 0\<rparr>) RFM100_MESSAGE_HIGH_PRIORITY)) \<and>
      same_scenes l l' \<and> same_controllers l l'"
proof -
  define ps where "ps = json_pairs (json_object_get (Some root) ''PropertyList'')"
  define app where "app = json_object_get (Some root) ''AppContextId''"
  define q where "q = \<lparr>rq_zone = p, rq_list = the (json_object_get (Some root) ''PropertyList''), rq_response = None,
    rq_send = False, rq_broadcast = False, rq_nameChange = False\<rparr>"
  define q1 where "q1 = q\<lparr>rq_zone := p\<lparr>zp_rampRate := 50, zp_AppContextId := word_of_int (json_integer_value app)\<rparr>\<rparr>"
  define q' where "q' = fold (\<lambda>(key, v). execute_property key v) ps q1"
  have each: "zone_property_error (zp_deviceType p) key v = None \<and> 0 \<notin> set (json_string_value (Some v))"
    if "(key, v) \<in> set ps" for key v
    using list(2) ok that by (auto simp: first_error_None property_list_ok_def ps_def Let_def)
  have d: "ps \<noteq> []" "distinct (map fst ps)" using ok by (simp_all add: property_list_ok_def ps_def Let_def)
  have "each_property (HandleIndividualProperty env False) ps flag q =
      (case first_error (zone_property_error (zp_deviceType p)) ps of None \<Rightarrow> Inr (flag \<and> ps = [], q)
       | Some c \<Rightarrow> Inr (True, q\<lparr>rq_response := BuildErrorResponse c (rq_response q)\<rparr>))" for flag
    by (rule each_property_check) (simp add: check_property refuse_def q_def split: option.split)
  then have pass1: "each_property (HandleIndividualProperty env False) ps flag q = Inr (False, q)" for flag
    using list(2) d(1) by (simp add: ps_def)
  have "zp_deviceType (rq_zone q1) = zp_deviceType p" by (simp add: q1_def q_def)
  then have pass2: "each_property (HandleIndividualProperty env True) ps False q1 = Inr (False, q')"
    using execute_properties [OF each d(2) env(2), of q1 False] by (simp add: q'_def)
  have b: "length (zp_ZoneNameString (rq_zone q1)) = 21" "0 \<in> set (zp_ZoneNameString (rq_zone q1))"
    using p(2) by (simp_all add: q1_def q_def zone_args_ok_def)
  have c: "cut_zone (rq_zone q') = fold (\<lambda>(key, v). zone_update key v) ps (cut_zone (rq_zone q1))"
    "length (zp_ZoneNameString (rq_zone q')) = 21" "0 \<in> set (zp_ZoneNameString (rq_zone q'))"
    "zp_EliotDeviceId (rq_zone q') = zp_EliotDeviceId (rq_zone q1)" "rq_response q' = rq_response q1"
    using execute_properties_zone [OF _ b, of ps] each by (auto simp: q'_def)
  have "cut_zone (rq_zone q1) = y\<lparr>zp_rampRate := 50, zp_AppContextId := word_of_int (json_integer_value app)\<rparr>"
    using p(1) by (auto simp: q1_def q_def cut_zone_def)
  then have z': "cut_zone (rq_zone q') = requested_zone root y" using c(1) by (simp add: requested_zone_def ps_def app_def)
  have ne: "zp_ZoneNameString (rq_zone q') \<noteq> []" "zp_EliotDeviceId p \<noteq> []" using c(2) p(2) by (auto simp: zone_args_ok_def)
  have name: "zp_ZoneNameString (rq_zone q') ! 0 \<noteq> 0 \<longleftrightarrow> zp_ZoneNameString (requested_zone root y) \<noteq> []"
    using nonempty_cstr [of 21 "zp_ZoneNameString (rq_zone q')"] ne(1) by (simp add: z' [symmetric] cut_zone_def)
  have eid: "zp_EliotDeviceId (rq_zone q') = zp_EliotDeviceId p" using c(4) by (simp add: q1_def q_def)
  have "zp_EliotDeviceId p ! 0 = 0" if "zp_EliotDeviceId y = []"
    using nonempty_cstr [of 37 "zp_EliotDeviceId p"] ne(2) that p(1) by (auto simp: cut_zone_def)
  then have args: "zone_args_ok (rq_zone q')" using c(2,3) eid p(2) name id by (auto simp: zone_args_ok_def)
  define l1 where "l1 = (if rq_send q' then snd (SendRampCommandToTransmitTask env i (of_nat (MAX_NUMBER_OF_SCENES + 1)) 0
      RFM100_MESSAGE_HIGH_PRIORITY l) else l)"
  define l2 where "l2 = set_zone env i (rq_zone q') l1"
  define l3 where "l3 = (if rq_nameChange q' then emit (EliotRenameZone i) l2 else l2)"
  have t1: "same_tables l l1" by (simp add: l1_def SendRamp_tables)
  note T1 = same_tables [OF t1]
  have inv1: "lcm_inv l1" using T1(1) inv by simp
  note l2 = set_zone_update [OF good_envD(1) [OF env(1)] inv1 i args, folded l2_def]
  have t3: "same_tables l2 l3" by (simp add: l3_def)
  note T3 = same_tables [OF t3]
  have "zone_of l3 = (zone_of l)(i := if zp_ZoneNameString (requested_zone root y) = [] then None else Some (requested_zone root y))"
    using l2(2) same_zones_map [OF T1(2)] same_zones_map [OF T3(2)] name z' by (simp add: fun_eq_iff)
  moreover have "same_scenes l l3" "same_controllers l l3"
    using T1(3,4) l2(3,4) T3(3,4) same_scenes_trans same_controllers_trans by blast+
  moreover have "lcm_inv l3" using T3(1) l2(1) by simp
  moreover have sends: "rq_send q' \<longleftrightarrow> asks_ramp (zp_deviceType y) ps"
  proof -
    have "zp_deviceType (rq_zone q1) = zp_deviceType y" using p(1) by (auto simp: q1_def q_def)
    then show ?thesis using execute_properties_send [of ps q1] each by (auto simp: q'_def q1_def q_def)
  qed
  moreover have "transmitQueue l3 = snd (msgq_send_priority env (transmitQueue l) ((pool_message env)\<lparr>tm_command := RAMP,
       tm_groupId := zp_groupId y, tm_buildingId := zp_buildingId y, tm_houseId := zp_houseId y, tm_sceneId := 101,
       tm_scenePercent := 0\<rparr>) RFM100_MESSAGE_HIGH_PRIORITY)"
    if "asks_ramp (zp_deviceType y) ps" "transmitMessages l < NUMBER_OF_RFM100_TRANSMIT_MESSAGES_IN_POOL"
    using sends that(1) SendRamp_queue [OF env(1) inv y that(2)] by (simp add: l3_def l2_def l1_def)
  moreover have "transmitQueue l3 = transmitQueue l" if "\<not> asks_ramp (zp_deviceType y) ps"
    using sends that by (simp add: l3_def l2_def l1_def)
  moreover have "set_zone_properties env i p root l = Inr (None, if rq_broadcast q' then Some (zone_broadcast root q') else None, l3)"
  proof -
    have "rq_response q' = None" using c(5) by (simp add: q1_def q_def)
    then have fin: "finish_zone_request env i root q' l = (None, if rq_broadcast q' then Some (zone_broadcast root q') else None, l3)"
      by (simp add: finish_zone_request_def Let_def l1_def l2_def l3_def)
    have q1': "q\<lparr>rq_zone := p\<lparr>zp_rampRate := 50, zp_AppContextId := word_of_int (json_integer_value app)\<rparr>\<rparr> = q1"
      by (simp add: q1_def)
    have "rq_zone q = p" by (simp add: q_def)
    then show ?thesis
      using list(1,3) by (simp add: set_zone_properties_def Let_def ps_def [symmetric] app_def [symmetric] q_def [symmetric]
          pass1 q1' pass2 fin)
  qed
  ultimately show ?thesis unfolding ps_def by blast
qed

text \<open>C33: a request to set the properties of a zone is carried out completely or not at all, when the library calls
  succeed and the flash is reliable, the property list is not empty (for an empty one the code acts on an
  uninitialised flag), and an empty new name is given only to a zone without an Eliot id. It is answered with an error
  exactly when a check of the first pass or of the ids fails, with the code of the first failing check, and nothing
  changes then; the second pass never fails. Otherwise the zone gets the properties of the list in their order, with
  ramp rate 50 unless the list has one; an empty name deletes the zone; the other zones, the scenes and the scene
  controllers stay as they are. A ramp of the zone is queued if the list sets the power, or the level of a zone that is
  not a switch at that point of the list, and there is room for a message; without either nothing is queued.\<close>

theorem set_zone_request_exact:
  fixes env :: environment and l :: lcm and root :: json
  assumes env: "good_env env" "length (stack_name env) = MAX_SIZE_NAME_STRING" and inv: "lcm_inv l"
    and ok: "property_list_ok root"
  defines "i \<equiv> requested_index ''ZID'' root"
  assumes id: "\<forall>z. zone_of l i = Some z \<and> zp_ZoneNameString (requested_zone root z) = [] \<longrightarrow> zp_EliotDeviceId z = []"
  shows "case zone_request_error (zone_of l) root of
      Some code \<Rightarrow> HandleSetZoneProperties env root l = Inr (Some code, None, l)
    | None \<Rightarrow> \<exists>z b l'. zone_of l i = Some z \<and> HandleSetZoneProperties env root l = Inr (None, b, l') \<and> lcm_inv l' \<and>
        zone_of l' = (zone_of l)(i := if zp_ZoneNameString (requested_zone root z) = [] then None else Some (requested_zone root z)) \<and>
        (\<not> asks_ramp (zp_deviceType z) (json_pairs (json_object_get (Some root) ''PropertyList'')) \<longrightarrow> transmitQueue l' = transmitQueue l) \<and>
        (asks_ramp (zp_deviceType z) (json_pairs (json_object_get (Some root) ''PropertyList'')) \<and>
           transmitMessages l < NUMBER_OF_RFM100_TRANSMIT_MESSAGES_IN_POOL \<longrightarrow>
           transmitQueue l' = snd (msgq_send_priority env (transmitQueue l) ((pool_message env)\<lparr>tm_command := RAMP,
             tm_groupId := zp_groupId z, tm_buildingId := zp_buildingId z, tm_houseId := zp_houseId z, tm_sceneId := 101,
             tm_scenePercent := 0\<rparr>) RFM100_MESSAGE_HIGH_PRIORITY)) \<and>
        same_scenes l l' \<and> same_controllers l l'"
proof -
  let ?ps = "json_pairs (json_object_get (Some root) ''PropertyList'')" and ?zo = "json_object_get (Some root) ''ZID''"
  let ?app = "json_object_get (Some root) ''AppContextId''"
  let ?stack = "stack_zone env"
  have id': "i = unat (word_of_int (json_integer_value ?zo) :: byte)" by (simp add: i_def requested_index_def)
  note E = zone_request_error_def [of "zone_of l" root, folded id', unfolded Let_def, folded id']
  note H = HandleSetZoneProperties_def [of env root l, unfolded Let_def, folded id']
  show ?thesis
  proof (cases "?zo = None \<or> \<not> json_is_integer ?zo \<or> MAX_NUMBER_OF_ZONES \<le> i \<or> zone_of l i = None")
    case True
    then show ?thesis
      using get_zone_none [of l i ?stack] by (auto simp: E H BuildErrorResponse_def case_prod_beta)
  next
    case False
    then obtain y where y: "zone_of l i = Some y" by blast
    have buf: "zone_buffers ?stack" by (rule good_envD(2) [OF env(1)])
    obtain p where p: "get_zone l i ?stack = (True, p)" "cut_zone p = y" "zone_args_ok p" "zp_ZoneNameString p ! 0 \<noteq> 0"
      using get_zone_some [OF inv y buf] by metis
    have ty: "zp_deviceType y = zp_deviceType p" using p(2) by auto
    have H': "HandleSetZoneProperties env root l = set_zone_properties env i p root l" using False p by (auto simp: H)
    show ?thesis
    proof (cases "zone_request_error (zone_of l) root")
      case (Some code)
      have "set_zone_properties env i p root l = Inr (Some code, None, l)"
        using Some False y ok by (intro set_zone_properties_refused) (auto simp: E ty Let_def split: if_splits option.splits)
      then show ?thesis using Some H' by simp
    next
      case None
      then have list: "json_is_object (json_object_get (Some root) ''PropertyList'')"
        "first_error (zone_property_error (zp_deviceType p)) ?ps = None" "?app = None \<or> json_is_integer ?app"
        using False y by (auto simp: E ty split: if_splits option.splits)
      have "\<exists>b l'. set_zone_properties env i p root l = Inr (None, b, l') \<and> lcm_inv l' \<and>
        zone_of l' = (zone_of l)(i := if zp_ZoneNameString (requested_zone root y) = [] then None else Some (requested_zone root y)) \<and>
        (\<not> asks_ramp (zp_deviceType y) ?ps \<longrightarrow> transmitQueue l' = transmitQueue l) \<and>
        (asks_ramp (zp_deviceType y) ?ps \<and> transmitMessages l < NUMBER_OF_RFM100_TRANSMIT_MESSAGES_IN_POOL \<longrightarrow>
           transmitQueue l' = snd (msgq_send_priority env (transmitQueue l) ((pool_message env)\<lparr>tm_command := RAMP,
             tm_groupId := zp_groupId y, tm_buildingId := zp_buildingId y, tm_houseId := zp_houseId y, tm_sceneId := 101,
             tm_scenePercent := 0\<rparr>) RFM100_MESSAGE_HIGH_PRIORITY)) \<and>
        same_scenes l l' \<and> same_controllers l l'"
        using id y by (intro set_zone_properties_accepted [OF env inv ok _ y p(2,3) list]) (use False in auto)
      then show ?thesis using None y H' by simp
    qed
  qed
qed

subsection \<open>Deleting\<close>

lemma loop_find_found: "loop_find P 0 n < n \<longleftrightarrow> (\<exists>i < n. P i)"
  using loop_find_none [of P n] loop_find_le [of P n] by (auto simp: le_less)

lemma any_zones_map:
  assumes "lcm_inv l"
  shows "AnyZonesInArray (zone_part l) \<longleftrightarrow> (\<exists>j z. zone_of l j = Some z \<and> \<not> is_shade z)"
proof -
  let ?P = "\<lambda>i. case nv_zone_of (zone_part l) i of None \<Rightarrow> False
      | Some b \<Rightarrow> nz_name b ! 0 \<noteq> 0 \<and> nz_deviceType b \<noteq> SHADE_TYPE \<and> nz_deviceType b \<noteq> SHADE_GROUP_TYPE"
  have P: "?P j \<longleftrightarrow> (\<exists>z. zone_of l j = Some z \<and> \<not> is_shade z)" if j: "j < MAX_NUMBER_OF_ZONES" for j
  proof (cases "zone_of l j")
    case None
    then show ?thesis using zone_of_record(1) [OF assms j] by simp
  next
    case (Some z)
    obtain b where b: "nv_zone_of (zone_part l) j = Some b" "nz_name b ! 0 \<noteq> 0" using zone_of_record(2) [OF assms j Some] by blast
    have "nz_deviceType b = zp_deviceType z"
      using Some b(1) j by (auto simp: zone_of_def get_zone_def GetZoneProperties_def Let_def)
    then show ?thesis using Some b by (simp add: is_shade_def)
  qed
  have "(\<exists>j < MAX_NUMBER_OF_ZONES. \<exists>z. zone_of l j = Some z \<and> \<not> is_shade z) \<longleftrightarrow> (\<exists>j z. zone_of l j = Some z \<and> \<not> is_shade z)"
    using zone_of_beyond [of _ l] by (metis not_le option.distinct(1))
  then show ?thesis
    unfolding AnyZonesInArray_def loop_find_found using P by blast
qed

lemma any_controllers_same:
  assumes "lcm_inv l" "lcm_inv l'" "same_controllers l l'"
  shows "AnySceneControllersInArray (controller_part l') = AnySceneControllersInArray (controller_part l)"
proof -
  have "AnySceneControllersInArray (controller_part l) \<longleftrightarrow>
      (\<exists>j < MAX_NUMBER_OF_SCENE_CONTROLLERS. fst (get_controller l j out))" if "lcm_inv l" for l out
  proof -
    have "AnySceneControllersInArray (controller_part l) \<longleftrightarrow>
        (\<exists>j < MAX_NUMBER_OF_SCENE_CONTROLLERS. sceneControllerArray (controller_part l) ! j \<noteq> None)"
      using controller_searches_exact [of "controller_part l"] that by (simp add: lcm_inv_def)
    moreover have "fst (get_controller l j out) \<longleftrightarrow> sceneControllerArray (controller_part l) ! j \<noteq> None"
      if "j < MAX_NUMBER_OF_SCENE_CONTROLLERS" for j
      using that by (simp add: get_controller_def GetSceneControllerProperties_def nv_controller_of_def split: option.split)
    ultimately show ?thesis by blast
  qed
  from this [OF assms(1)] this [OF assms(2)] show ?thesis using assms(3) by (simp add: same_controllers_def)
qed

text \<open>Flash behind the tables.\<close>

lemma flash_behind_tables:
  assumes "lcm_inv l" "lcm_zones l' = lcm_zones l" "lcm_scenes l' = lcm_scenes l" "lcm_controllers l' = lcm_controllers l"
    and m: "\<And>x. x < 0xef000 \<Longrightarrow> lcm_flash l' x = lcm_flash l x"
  shows "lcm_inv l'" "zone_of l' = zone_of l" "same_scenes l l'" "same_controllers l l'"
proof -
  have inv: "zone_inv (zone_part l)" "scene_inv (scene_part l)" "controller_inv (controller_part l)"
    using assms(1) by (simp_all add: lcm_inv_def)
  have z: "zone_inv (zone_part l')" "GetZoneProperties (zone_part l') j q = GetZoneProperties (zone_part l) j q" for j q
    by (rule zone_frame [OF inv(1)]; auto simp: zone_part_def assms(2) intro: m)+
  have s: "scene_inv (scene_part l')" "GetSceneProperties (scene_part l') j q = GetSceneProperties (scene_part l) j q"
    "j < MAX_NUMBER_OF_SCENES \<Longrightarrow> keeps_eliot_id (scene_part l') j q = keeps_eliot_id (scene_part l) j q" for j q
    by (rule scene_frame [OF inv(2)]; auto simp: scene_part_def assms(3) intro: m)+
  have c: "controller_inv (controller_part l')"
    "GetSceneControllerProperties (controller_part l') j q = GetSceneControllerProperties (controller_part l) j q" for j q
    by (rule controller_frame [OF inv(3)]; auto simp: controller_part_def assms(4) intro: m)+
  show "lcm_inv l'" using z s c by (simp add: lcm_inv_def)
  show "zone_of l' = zone_of l" using z by (simp add: zone_of_def get_zone_def fun_eq_iff)
  show "same_scenes l l'" "same_controllers l l'"
    using s c by (simp_all add: same_scenes_def same_controllers_def get_scene_def get_controller_def)
qed

lemma delete_zone_effect:
  assumes "good_env env" "lcm_inv l" "i < MAX_NUMBER_OF_ZONES"
  shows "lcm_inv (delete_zone env i p l)" "zone_of (delete_zone env i p l) = (zone_of l)(i := None)"
    "same_scenes l (delete_zone env i p l)" "same_controllers l (delete_zone env i p l)"
    "lcm_houseID (delete_zone env i p l) = lcm_houseID l" "transmitQueue (delete_zone env i p l) = transmitQueue l"
    "zp_EliotDeviceId p ! 0 \<noteq> 0 \<Longrightarrow>
      events (delete_zone env i p l) = events l @ [EliotDeleteDevice (cstr ELIOT_DEVICE_ID_SIZE (zp_EliotDeviceId p))]"
proof -
  define l1 where "l1 = (if zp_EliotDeviceId p ! 0 \<noteq> 0
    then emit (EliotDeleteDevice (cstr ELIOT_DEVICE_ID_SIZE (zp_EliotDeviceId p))) l else l)"
  define d where "d = p\<lparr>zp_ZoneNameString := replicate MAX_SIZE_NAME_STRING 0, zp_EliotDeviceId := replicate ELIOT_DEVICE_ID_SIZE 0\<rparr>"
  have t: "same_tables l l1" by (simp add: l1_def)
  note T = same_tables [OF t]
  have inv1: "lcm_inv l1" using T(1) assms(2) by simp
  have args: "zone_args_ok d" "\<not> zp_ZoneNameString d ! 0 \<noteq> 0" by (simp_all add: d_def zone_args_ok_def)
  define l2 where "l2 = set_zone env i d l1"
  note l2 = set_zone_update [OF good_envD(1) [OF assms(1)] inv1 assms(3) args(1), folded l2_def]
  have z2: "zone_of l2 = (zone_of l)(i := None)"
    using l2(2) args(2) same_zones_map [OF T(2)] by simp
  define l3 where "l3 = delete_zone env i p l"
  define ids where "ids = (lcm_shadeIds l2)[i := replicate 40 0]"
  have l3: "l3 = (if is_shade d then l2\<lparr>lcm_shadeIds := ids, lcm_flash := fst (WriteAllShadeIdsToFlash (env_hw env) (lcm_flash l2)
      (shadeInfoStruct ids (lcm_shadeGroups l2)) (shade_behind env))\<rparr> else l2)"
    by (simp add: l3_def delete_zone_def Let_def d_def l2_def l1_def ids_def)
  have f: "lcm_zones l3 = lcm_zones l2" "lcm_scenes l3 = lcm_scenes l2" "lcm_controllers l3 = lcm_controllers l2" by (simp_all add: l3)
  have m: "lcm_flash l3 x = lcm_flash l2 x" if "x < 0xef000" for x
    using write_shade_ids_outside [OF good_envD(1) [OF assms(1)], of x] that by (simp add: l3)
  note B = flash_behind_tables [OF l2(1) f m]
  show "lcm_inv (delete_zone env i p l)" "zone_of (delete_zone env i p l) = (zone_of l)(i := None)"
    using B z2 by (simp_all add: l3_def)
  show "same_scenes l (delete_zone env i p l)" "same_controllers l (delete_zone env i p l)"
    using T(3,4) l2(3,4) B(3,4) same_scenes_trans same_controllers_trans unfolding l3_def by blast+
  have "lcm_houseID l3 = lcm_houseID l" "transmitQueue l3 = transmitQueue l" "events l3 = events l1"
    by (simp_all add: l3 l2_def l1_def)
  then show "lcm_houseID (delete_zone env i p l) = lcm_houseID l" "transmitQueue (delete_zone env i p l) = transmitQueue l"
    "zp_EliotDeviceId p ! 0 \<noteq> 0 \<Longrightarrow>
      events (delete_zone env i p l) = events l @ [EliotDeleteDevice (cstr ELIOT_DEVICE_ID_SIZE (zp_EliotDeviceId p))]"
    by (simp_all add: l3_def [symmetric] l1_def)
qed

lemma forget_house_tables: "same_tables l (forget_house env l)"
  by (auto simp: forget_house_def same_tables_def emit_def Let_def)

lemma forget_house_effect:
  shows "lcm_houseID (forget_house env l) =
      (if \<not> AnyZonesInArray (zone_part l) \<and> \<not> AnySceneControllersInArray (controller_part l) then 0 else lcm_houseID l)"
    "transmitQueue (forget_house env l) = transmitQueue l"
    "lcm_configured (forget_house env l) =
      (lcm_configured l \<and> (AnyZonesInArray (zone_part l) \<or> AnySceneControllersInArray (controller_part l)))"
    "e \<in> set (events l) \<Longrightarrow> e \<in> set (events (forget_house env l))"
  by (simp_all add: forget_house_def Let_def emit_def)

text \<open>C34: deleting a stored zone removes it and nothing else: the other zones, the scenes, even those that
  refer to it, the scene controllers and the transmit queue stay; a device known to the cloud is
  deleted there; a wrong context id is reported as an error after the deletion. When no zone but shades
  and no scene controller is left, the LCM forgets its house.\<close>

theorem zone_deletion:
  assumes env: "good_env env" and inv: "lcm_inv l" and app: "json_object_get (Some root) ''AppContextId'' = app"
    and n: "json_object_get (Some root) ''ZID'' = Some (JSON_INTEGER n)" and z: "zone_of l (requested_index ''ZID'' root) = Some z"
  shows "\<exists>r b l'. HandleDeleteZone env root l = (r, Some b, l') \<and>
    (r = (if app = None \<or> json_is_integer app then None else Some SW_APP_CONTEXT_ID_ERROR)) \<and>
    json_object_get (Some b) ''Service'' = Some (JSON_STRING (bytes_of ''ZoneDeleted'')) \<and>
    lcm_inv l' \<and> zone_of l' = (zone_of l)(requested_index ''ZID'' root := None) \<and> same_scenes l l' \<and> same_controllers l l' \<and>
    transmitQueue l' = transmitQueue l \<and>
    (zp_EliotDeviceId z \<noteq> [] \<longrightarrow> EliotDeleteDevice (zp_EliotDeviceId z) \<in> set (events l')) \<and>
    (let deserted = ((\<forall>j y. j \<noteq> requested_index ''ZID'' root \<and> zone_of l j = Some y \<longrightarrow> is_shade y) \<and>
           \<not> AnySceneControllersInArray (controller_part l))
     in lcm_houseID l' = (if deserted then 0 else lcm_houseID l) \<and> (deserted \<longrightarrow> \<not> lcm_configured l'))"
proof -
  define i where "i = requested_index ''ZID'' root"
  have i: "i = unat (word_of_int n :: byte)" by (simp add: i_def requested_index_def n)
  have z: "zone_of l i = Some z" using z by (simp add: i_def)
  have i100: "i < MAX_NUMBER_OF_ZONES" using z zone_of_beyond [of i l] by (cases "i < MAX_NUMBER_OF_ZONES") auto
  obtain p where p: "get_zone l i (stack_zone env) = (True, p)" "cut_zone p = z" "zp_ZoneNameString p ! 0 \<noteq> 0" "zone_buffers p"
    using get_zone_some [OF inv z good_envD(2) [OF env]] by metis
  define r where "r = (if app = None \<or> json_is_integer app then None else Some SW_APP_CONTEXT_ID_ERROR)"
  define k where "k = snd (app_context (Some root) None)"
  have ctx: "app_context (Some root) None = (r, k)"
    by (auto simp: app_context_def Let_def app r_def k_def BuildErrorResponse_def)
  define l1 where "l1 = delete_zone env i p l"
  note D = delete_zone_effect [OF env inv i100, of p, folded l1_def]
  note T = same_tables [OF forget_house_tables [of l1 env]]
  let ?l' = "forget_house env l1"
  have eq: "HandleDeleteZone env root l = (r, Some (zone_deleted i k), ?l')"
    using i100 p(1,3) good_envD(5) [OF env]
    by (simp add: HandleDeleteZone_def Let_def n i [symmetric] ctx l1_def)
  have any: "AnyZonesInArray (zone_part l1) \<longleftrightarrow> (\<exists>j y. j \<noteq> i \<and> zone_of l j = Some y \<and> \<not> is_shade y)"
    using any_zones_map [OF D(1)] D(2) by auto
  note F = forget_house_effect [where env = env and l = l1, unfolded any any_controllers_same [OF inv D(1,4)] D(5,6)]
  have ev: "zp_EliotDeviceId z \<noteq> [] \<longrightarrow> EliotDeleteDevice (zp_EliotDeviceId z) \<in> set (events ?l')"
  proof
    assume that: "zp_EliotDeviceId z \<noteq> []"
    have "zp_EliotDeviceId p \<noteq> []" using p(4) by (auto simp: zone_buffers_def)
    then have "zp_EliotDeviceId p ! 0 \<noteq> 0"
      using nonempty_cstr [of 37 "zp_EliotDeviceId p"] that p(2) by (auto simp: cut_zone_def)
    from D(7) [OF this] have "EliotDeleteDevice (zp_EliotDeviceId z) \<in> set (events l1)" using p(2) by (auto simp: cut_zone_def)
    then show "EliotDeleteDevice (zp_EliotDeviceId z) \<in> set (events ?l')" by (rule F(4))
  qed
  have srv: "json_object_get (Some (zone_deleted i k)) ''Service'' = Some (JSON_STRING (bytes_of ''ZoneDeleted''))"
    by (simp add: zone_deleted_def)
  have fin: "same_scenes l ?l'" "same_controllers l ?l'" "lcm_inv ?l'" "zone_of ?l' = (zone_of l)(i := None)"
    using same_scenes_trans [OF D(3) T(3)] same_controllers_trans [OF D(4) T(4)] T(1) D(1,2) same_zones_map [OF T(2)] by simp_all
  define deserted where "deserted = ((\<forall>j y. j \<noteq> i \<and> zone_of l j = Some y \<longrightarrow> is_shade y) \<and>
      \<not> AnySceneControllersInArray (controller_part l))"
  have d: "\<not> (\<exists>j y. j \<noteq> i \<and> zone_of l j = Some y \<and> \<not> is_shade y) \<and> \<not> AnySceneControllersInArray (controller_part l) \<longleftrightarrow> deserted"
    unfolding deserted_def by blast
  have house: "lcm_houseID ?l' = (if deserted then 0 else lcm_houseID l)" using F(1) unfolding d .
  have conf: "deserted \<longrightarrow> \<not> lcm_configured ?l'" using F(3) d by blast
  show ?thesis
    unfolding i_def [symmetric] Let_def r_def [symmetric] deserted_def [symmetric]
    by (intro exI [of _ r] exI [of _ "zone_deleted i k"] exI [of _ ?l'] conjI refl eq srv fin F(2) ev house conf)
qed

lemma map_sum_bind:
  "(\<And>a. map_sum id g (f a) = map_sum id g (f' a)) \<Longrightarrow> map_sum id g (bind_sum x f) = map_sum id g (bind_sum x f')"
  by (cases x) auto

text \<open>The zone services cut the zone id to a byte before they check its range: every id stands for the
  one it is congruent to modulo 256, so that an id of 256 or -256 deletes or sets zone 0.\<close>

lemma zone_ids_wrap:
  assumes "json_is_object (Some root)"
  shows "HandleDeleteZone env (json_object_set root ''ZID'' (JSON_INTEGER (n + 256 * k))) l =
      HandleDeleteZone env (json_object_set root ''ZID'' (JSON_INTEGER n)) l \<and>
    map_sum id (\<lambda>(r, b, l). (r, l)) (HandleSetZoneProperties env (json_object_set root ''ZID'' (JSON_INTEGER (n + 256 * k))) l) =
      map_sum id (\<lambda>(r, b, l). (r, l)) (HandleSetZoneProperties env (json_object_set root ''ZID'' (JSON_INTEGER n)) l)"
proof -
  have w: "(word_of_int (n + 256 * k) :: byte) = word_of_int n"
    unfolding word_of_int_eq_iff take_bit_eq_mod by simp
  then have w': "(word_of_int n + 256 * word_of_int k :: byte) = word_of_int n" by simp
  have set: "map_sum id (\<lambda>(r, b, l). (r, l)) (set_zone_properties env i z (json_object_set root ''ZID'' v) l) =
      map_sum id (\<lambda>(r, b, l). (r, l)) (set_zone_properties env i z (json_object_set root ''ZID'' v') l)" for i z v v'
    unfolding set_zone_properties_def Let_def json_object_get_set [OF assms]
    by (auto simp: finish_zone_request_def Let_def intro!: map_sum_bind)
  show ?thesis
    unfolding HandleDeleteZone_def HandleSetZoneProperties_def Let_def json_object_get_set [OF assms] app_context_def
    using set by (simp add: w' case_prod_beta)
qed

subsection \<open>Sample requests\<close>

definition dim_request :: json where
  "dim_request = JSON_OBJECT [(''ZID'', JSON_INTEGER 3),
     (''PropertyList'', JSON_OBJECT [(''Power'', JSON_TRUE), (''PowerLevel'', JSON_INTEGER 40)])]"

theorem set_zone_request_exact_witness:
  "\<exists>l b l'. HandleSetZoneProperties calm_env dim_request l = Inr (None, b, l') \<and>
     (\<exists>z. zone_of l' 3 = Some z \<and> zp_targetPowerLevel z = 40 \<and> zp_targetState z)"
proof -
  obtain l where l: "lcm_inv l" "zone_of l = [3 \<mapsto> cut_zone sample_zone]" "distinct_addresses (zone_of l)"
    "transmitQueue l = []" "transmitMessages l = 0" "scene_of l 0 = Some (cut_scene lamp_scene)" "stored_id l 0"
    "lcm_houseID l = 0" "\<not> lcm_addALight l" "\<not> lcm_addASceneController l"
    "\<forall>out. \<exists>c. get_controller l 0 out = (True, c) \<and> same_controller lamp_controller c"
    by (rule sample_installation [OF lamp_scene_ok])
  let ?z = "requested_zone dim_request (cut_zone sample_zone)"
  have ok: "property_list_ok dim_request" "requested_index ''ZID'' dim_request = 3"
    by (simp_all add: property_list_ok_def dim_request_def requested_index_def)
  have z: "zp_ZoneNameString ?z \<noteq> []" "zp_targetPowerLevel ?z = 40" "zp_targetState ?z"
    by (simp_all add: requested_zone_def dim_request_def zone_update_def sample_zone_def cut_zone_def cstr_def)
  have "zone_request_error (zone_of l) dim_request = None"
    by (simp add: zone_request_error_def dim_request_def l(2) zone_property_error_def sample_zone_def)
  with set_zone_request_exact [OF calm_env_good _ l(1) ok(1), unfolded ok(2)] l(2) z
  show ?thesis by (simp add: calm_env_def) (metis fun_upd_same)
qed

theorem zone_deletion_witness:
  "\<exists>l b l'. HandleDeleteZone calm_env (JSON_OBJECT [(''ZID'', JSON_INTEGER 3)]) l = (None, Some b, l') \<and>
     zone_of l 3 \<noteq> None \<and> zone_of l' 3 = None \<and> EliotDeleteDevice [0x65] \<in> set (events l')"
proof -
  obtain l where l: "lcm_inv l" "zone_of l = [3 \<mapsto> cut_zone sample_zone]" "distinct_addresses (zone_of l)"
    "transmitQueue l = []" "transmitMessages l = 0" "scene_of l 0 = Some (cut_scene lamp_scene)" "stored_id l 0"
    "lcm_houseID l = 0" "\<not> lcm_addALight l" "\<not> lcm_addASceneController l"
    "\<forall>out. \<exists>c. get_controller l 0 out = (True, c) \<and> same_controller lamp_controller c"
    by (rule sample_installation [OF lamp_scene_ok])
  let ?root = "JSON_OBJECT [(''ZID'', JSON_INTEGER 3)]"
  have i: "requested_index ''ZID'' ?root = 3" by (simp add: requested_index_def)
  have n: "json_object_get (Some ?root) ''ZID'' = Some (JSON_INTEGER 3)" by simp
  have z: "zone_of l (requested_index ''ZID'' ?root) = Some (cut_zone sample_zone)" by (simp add: i l(2))
  have "zp_EliotDeviceId (cut_zone sample_zone) = [0x65]" by (simp add: sample_zone_def cut_zone_def cstr_def)
  with zone_deletion [OF calm_env_good l(1) refl n z]
  obtain b l' where "HandleDeleteZone calm_env ?root l = (None, Some b, l')" "zone_of l' = (zone_of l)(3 := None)"
    "EliotDeleteDevice [0x65] \<in> set (events l')" by (auto simp: i)
  then show ?thesis using l(2) by (intro exI [of _ l] exI [of _ b] exI [of _ l']) simp
qed

lemma zone_ids_wrap_witness:
  "HandleDeleteZone calm_env (JSON_OBJECT [(''ZID'', JSON_INTEGER 259)]) fresh_lcm =
     HandleDeleteZone calm_env (JSON_OBJECT [(''ZID'', JSON_INTEGER 3)]) fresh_lcm"
  using zone_ids_wrap [of "JSON_OBJECT []" calm_env 3 1 fresh_lcm] by simp

end
