(* ===== verification/Scene_Deletion.thy ===== *)
theory Scene_Deletion
  imports Scenes
begin

text \<open>
  Deleting a scene (HandleDeleteScene in Socket_Task.c) clears its name and hands the properties, the Eliot
  id among them, to SetSceneProperties. The record is erased; the id stays in flash, without its scene. What
  that means for the next scene in the slot is the property of this theory.
\<close>

definition clear_scene_name :: "scene_properties \<Rightarrow> scene_properties" where
  "clear_scene_name p = p\<lparr>sp_SceneNameString := replicate MAX_SIZE_NAME_STRING 0\<rparr>"

lemma set_deleted_scene:
  assumes "ftfe_reliable hw" "scenes.table_ok (sn_flash st)" "eliot_scenes.table_ok (sn_flash st)"
    and i: "i < NUM_ELIOT_PROPERTIES_IN_FLASH_SECTOR" and old: "memory_initialized (srec (sn_flash st) i)"
    "ns_name (srec (sn_flash st) i) ! 0 \<noteq> 0"
    and p: "sp_SceneNameString p = replicate MAX_SIZE_NAME_STRING 0" "unat (sp_numZonesInScene p) \<le> MAX_ZONES_IN_SCENE"
    "strncmp_eq ELIOT_DEVICE_ID_SIZE (sp_EliotDeviceId p) (serec (sn_flash st) i)"
  shows "\<exists>m'. scene_step (sn_flash st) m' i (replicate sizeof_nv_scene 0xFF) (serec (sn_flash st) i) \<and>
    SetSceneProperties hw ur st i p = Inr (True, (clear_scene i (entered_scene p i st))\<lparr>sn_flash := m'\<rparr>)"
proof -
  have i100: "i < 100" using i by simp
  let ?st1 = "entered_scene p i st" and ?b = "srec (sn_flash st) i"
  have fl: "sn_flash ?st1 = sn_flash st" by (simp add: entered_scene_def)
  have ok1: "scenes.table_ok (sn_flash ?st1)" "eliot_scenes.table_ok (sn_flash ?st1)" using assms(2,3) by (simp_all add: fl)
  have empty: "\<not> sp_SceneNameString p ! 0 \<noteq> 0" by (simp add: p(1))
  obtain m' where m': "scene_step (sn_flash st) m' i (replicate 436 0xFF) (serec (sn_flash st) i)"
    "save_scene hw ur i p ?st1 = Inr ((clear_scene i ?st1)\<lparr>sn_flash := m'\<rparr>)"
    using save_scene_effect [OF assms(1) ok1 i100 p(2), of ur] unfolding fl if_not_P [OF empty] by blast
  have e: "eliot_record m' (scene_eliot_ptr i) = serec (sn_flash st) i"
    using scene_eliot_lookup(3) [OF _ i] m'(1) i by (simp add: scene_step_def)
  have name: "cstr 21 (sp_SceneNameString p) \<noteq> cstr 21 (ns_name ?b)"
    using old(2) nonempty_cstr [of 21 "ns_name ?b"] length_srec [of "sn_flash st" i] by (auto simp: p(1) ns_name_def)
  have "length (ns_name ?b) \<ge> 21" using length_srec [of "sn_flash st" i] by (simp add: ns_name_def)
  then have "\<not> strncmp_eq 21 (sp_SceneNameString p) (ns_name ?b)"
    using name strncmp_eq_cstr [of 21 "sp_SceneNameString p" "ns_name ?b"] by (simp add: p(1))
  then have d: "scene_fields_differ p ?b" by (simp add: scene_fields_differ_def)
  have z: "bind_sum (scene_zones_differ p ?b) f = f ((sp_numZonesInScene p \<noteq> ns_numZones ?b \<or>
      (\<exists>k < unat (sp_numZonesInScene p). sp_zoneData p ! k \<noteq> ns_zone ?b k)))"
    for f :: "bool \<Rightarrow> memory_error + bool \<times> scene_state"
    by (simp only: scene_zones_differ_exact [OF p(2)] bind_sum.simps)
  have "SetSceneProperties hw ur st i p = Inr (True, (clear_scene i ?st1)\<lparr>sn_flash := m'\<rparr>)"
    using i100 old scene_lookup(2,3) [OF assms(2) i100] scene_eliot_lookup(2) [OF assms(3) i] p(3)
    by (simp add: SetSceneProperties_def Let_def fl entered_scene_def [symmetric] z d m'(2) e)
  with m'(1) show ?thesis by blast
qed

text \<open>A new scene in a slot whose Eliot id record is not erased.\<close>

lemma set_scene_over_stale_id:
  assumes "ftfe_reliable hw" "scenes.table_ok (sn_flash st)" "eliot_scenes.table_ok (sn_flash st)"
    and i: "i < NUM_ELIOT_PROPERTIES_IN_FLASH_SECTOR" and new: "\<not> memory_initialized (srec (sn_flash st) i)"
    and stale: "memory_initialized (serec (sn_flash st) i)"
    and p: "scene_args_ok p" "sp_SceneNameString p ! 0 \<noteq> 0"
  shows "\<exists>m' b. scene_step (sn_flash st) m' i b (serec (sn_flash st) i) \<and> scene_matches p b \<and> memory_initialized b \<and>
    SetSceneProperties hw ur st i p = Inr (True, clear_scene_eliot i ((entered_scene p i st)\<lparr>sn_flash := m'\<rparr>))"
proof -
  have i100: "i < 100" using i by simp
  have n: "unat (sp_numZonesInScene p) \<le> MAX_ZONES_IN_SCENE" using p(1) by (simp add: scene_args_ok_def)
  let ?b = "set_nv_scene p (read_bytes (local_scene ur) 0 436)"
  obtain m1 where m1: "WriteNV scene_region hw (sn_flash st) i (array_ram ?b (local_scene ur)) 0 = (m1, FTFx_OK)"
    "scenes.table_step (sn_flash st) m1 i ?b"
    using flash_store.write_new_slot [OF scene_store [OF assms(1)] assms(2) i100 new, of ?b "local_scene ur"]
      length_set_nv_scene [OF n] by (auto simp: scene_sizes)
  have s1: "scene_step (sn_flash st) m1 i ?b (serec (sn_flash st) i)" by (rule scene_record_step [OF assms(3) m1(2)])
  then have e1: "eliot_record m1 (scene_eliot_ptr i) = serec (sn_flash st) i"
    using scene_eliot_lookup(3) [OF _ i] i by (simp add: scene_step_def)
  have match: "scene_matches p ?b" using set_nv_scene_matches [OF p(1)] by simp
  have init: "memory_initialized ?b"
  proof -
    have "ns_numZones ?b \<noteq> 0xFF" using match n by (auto simp: scene_matches_def)
    then show ?thesis using length_set_nv_scene [OF n, of "read_bytes (local_scene ur) 0 436"]
      by (auto simp: memory_initialized_def list_ex_iff ns_numZones_def)
  qed
  have "SetSceneProperties hw ur st i p = Inr (True, clear_scene_eliot i ((entered_scene p i st)\<lparr>sn_flash := m1\<rparr>))"
    using p(2) n m1(1) stale e1
    by (simp add: SetScene_new_eq [OF assms(2,3) i new] store_new_scene_def Let_def entered_scene_def WriteScenePropertiesToFlash_def)
  with s1 match init show ?thesis by blast
qed

lemma get_scene_id:
  assumes inv: "scene_inv st" and i: "i < NUM_ELIOT_PROPERTIES_IN_FLASH_SECTOR"
    and stored: "memory_initialized (serec (sn_flash st) i)" "0 \<in> set (serec (sn_flash st) i)"
    and out: "length (sp_EliotDeviceId out) = ELIOT_DEVICE_ID_SIZE" and get: "GetSceneProperties st i out = Inr (True, p)"
  shows "strncmp_eq ELIOT_DEVICE_ID_SIZE (sp_EliotDeviceId p) (serec (sn_flash st) i)"
    "cstr ELIOT_DEVICE_ID_SIZE (sp_EliotDeviceId p) = cstr ELIOT_DEVICE_ID_SIZE (serec (sn_flash st) i)"
    "unat (sp_numZonesInScene p) \<le> MAX_ZONES_IN_SCENE"
proof -
  note I = scene_invD [OF inv i]
  have i100: "i < 100" using i by simp
  let ?e = "serec (sn_flash st) i"
  have b: "nv_scene_of st i = Some (srec (sn_flash st) i)" using nv_scene_of_inv [OF inv i100] I(4) stored(1) by simp
  have n: "unat (ns_numZones (srec (sn_flash st) i)) \<le> 100" using inv i100 I(4) stored(1) by (simp add: scene_inv_def)
  have "nvEliotSceneProperties (sceneArray st ! i) = Some (scene_eliot_ptr i)"
    using inv i100 scene_eliot_lookup(1) [OF I(2) i] stored(1) by (simp add: scene_inv_def)
  then have p: "sp_EliotDeviceId p = snprintf_s 37 (sp_EliotDeviceId out) ?e" "sp_numZonesInScene p = ns_numZones (srec (sn_flash st) i)"
    using get b n i100 scene_eliot_lookup(3) [OF I(2) i] by (auto simp: GetSceneProperties_def Let_def)
  show "unat (sp_numZonesInScene p) \<le> MAX_ZONES_IN_SCENE" using n by (simp add: p)
  have l: "length ?e = 37" using length_serec [of "sn_flash st" i] by simp
  show c: "cstr 37 (sp_EliotDeviceId p) = cstr 37 ?e"
    using cstr_terminated [of ?e 36] l stored(2) by (simp add: p cstr_snprintf_s)
  show "strncmp_eq 37 (sp_EliotDeviceId p) ?e"
    using c strncmp_eq_cstr [of 37 "sp_EliotDeviceId p" ?e] l out by (simp add: p)
qed

text \<open>C32: the Eliot id of a deleted scene passes to the next scene in its slot. Deleting a stored scene with
  a stored id succeeds: the scene is gone and the other scenes are as they were, but the id stays in flash. A
  new scene in the slot is stored, but without its own id, which is dropped; and after a restart it answers
  with the id of the deleted scene.\<close>

theorem deleted_scene_leaves_its_id:
  assumes rel: "ftfe_reliable hw" and inv: "scene_inv st" and i: "i < NUM_ELIOT_PROPERTIES_IN_FLASH_SECTOR"
    and stored: "nvEliotSceneProperties (sceneArray st ! i) \<noteq> None" "0 \<in> set (serec (sn_flash st) i)"
    and out: "length (sp_EliotDeviceId out) = ELIOT_DEVICE_ID_SIZE" and get: "GetSceneProperties st i out = Inr (True, p)"
    and new: "scene_args_ok q" "sp_SceneNameString q ! 0 \<noteq> 0"
  shows "cstr ELIOT_DEVICE_ID_SIZE (sp_EliotDeviceId p) \<noteq> [] \<and>
    (\<exists>st1. SetSceneProperties hw ur st i (clear_scene_name p) = Inr (True, st1) \<and>
      GetSceneProperties st1 i out = Inr (False, out) \<and> GetAvailableSceneIndex st1 \<le> i \<and>
      (\<exists>st2. SetSceneProperties hw ur' st1 i q = Inr (True, st2) \<and>
         (\<exists>r. GetSceneProperties st2 i out = Inr (True, r) \<and>
            cstr MAX_SIZE_NAME_STRING (sp_SceneNameString r) = cstr MAX_SIZE_NAME_STRING (sp_SceneNameString q) \<and>
            sp_EliotDeviceId r = replicate ELIOT_DEVICE_ID_SIZE 0) \<and>
         (\<exists>r. GetSceneProperties (fst (LoadScenesFromFlash (InitializeSceneArray st2))) i out = Inr (True, r) \<and>
            cstr MAX_SIZE_NAME_STRING (sp_SceneNameString r) = cstr MAX_SIZE_NAME_STRING (sp_SceneNameString q) \<and>
            cstr ELIOT_DEVICE_ID_SIZE (sp_EliotDeviceId r) = cstr ELIOT_DEVICE_ID_SIZE (sp_EliotDeviceId p))))"
proof -
  note I = scene_invD [OF inv i]
  have i100: "i < 100" using i by simp
  let ?e = "serec (sn_flash st) i" and ?d = "clear_scene_name p"
  have eptr: "nvEliotSceneProperties (sceneArray st ! i) = GetNVEliotScenePropertiesPtr (sn_flash st) i True"
    using inv i100 by (simp add: scene_inv_def)
  then have einit: "memory_initialized ?e" using stored(1) scene_eliot_lookup(1) [OF I(2) i] by (auto split: if_splits)
  note id = get_scene_id [OF inv i einit stored(2) out get]
  have l: "length ?e = 37" using length_serec [of "sn_flash st" i] by simp
  obtain m1 where m1: "scene_step (sn_flash st) m1 i (replicate 436 0xFF) ?e"
    "SetSceneProperties hw ur st i ?d = Inr (True, (clear_scene i (entered_scene ?d i st))\<lparr>sn_flash := m1\<rparr>)"
    using set_deleted_scene [OF rel I(1,2) i I(4) [OF einit] I(6) [OF I(4) [OF einit]], of ?d ur] id
    by (auto simp: clear_scene_name_def)
  define st1 where "st1 = (clear_scene i (entered_scene ?d i st))\<lparr>sn_flash := m1\<rparr>"
  have ok1: "scenes.table_ok (sn_flash st1)" "eliot_scenes.table_ok (sn_flash st1)" and r1: "srec (sn_flash st1) i = replicate 436 0xFF"
    "serec (sn_flash st1) i = ?e" using m1(1) i by (simp_all add: scene_step_def st1_def)
  have a1: "sceneArray st1 = (sceneArray st)[i := \<lparr>running = sp_running ?d, nvSceneProperties = None,
      nvEliotSceneProperties = Some (scene_eliot_ptr i)\<rparr>]"
    using I(3) i by (simp add: st1_def entered_scene_def)
  then have none: "nv_scene_of st1 i = None" using I(3) i by (simp add: nv_scene_of_def)
  have blank: "\<not> memory_initialized (srec (sn_flash st1) i)" by (simp add: r1)
  obtain m2 b where m2: "scene_step (sn_flash st1) m2 i b (serec (sn_flash st1) i)" "scene_matches q b" "memory_initialized b"
    "SetSceneProperties hw ur' st1 i q = Inr (True, clear_scene_eliot i ((entered_scene q i st1)\<lparr>sn_flash := m2\<rparr>))"
    using set_scene_over_stale_id [OF rel ok1 i blank _ new, of ur'] r1(2) einit by auto
  define st2 where "st2 = clear_scene_eliot i ((entered_scene q i st1)\<lparr>sn_flash := m2\<rparr>)"
  have ok2: "scenes.table_ok (sn_flash st2)" "eliot_scenes.table_ok (sn_flash st2)" and r2: "srec (sn_flash st2) i = b"
    "serec (sn_flash st2) i = ?e" using m2(1) i r1 by (simp_all add: scene_step_def st2_def)
  have a2: "sceneArray st2 ! i = \<lparr>running = sp_running q, nvSceneProperties = Some (scene_ptr i), nvEliotSceneProperties = None\<rparr>"
    "length (sceneArray st2) = 100"
    using I(3) i by (simp_all add: st2_def entered_scene_def a1)
  have b: "nv_scene_of st2 i = Some b" using a2(1) scene_lookup(3) [OF ok2(1) i100] r2 by (simp add: nv_scene_of_def)
  have n: "unat (ns_numZones b) \<le> 100" using m2(2) new(1) by (simp add: scene_matches_def scene_args_ok_def)
  have name: "cstr 21 (snprintf_s 21 old (ns_name b)) = cstr 21 (sp_SceneNameString q)" for old
    using snprintf_of_equal_strings [of "sp_SceneNameString q" 20 "ns_name b" old] m2(2) new(1)
    by (simp add: scene_matches_def scene_args_ok_def)
  let ?R = "fst (LoadScenesFromFlash (InitializeSceneArray st2))"
  have "length (sceneArray (InitializeSceneArray st2)) = 100" by (simp add: InitializeSceneArray_def)
  note L = load_scenes_upto [OF this order_refl, folded LoadScenesFromFlash_def]
  have R: "sn_flash ?R = sn_flash st2" "sceneArray ?R ! i = \<lparr>running = 0, nvSceneProperties = Some (scene_ptr i),
      nvEliotSceneProperties = Some (scene_eliot_ptr i)\<rparr>"
    using L i100 i scene_lookup(1) [OF ok2(1) i100] scene_eliot_lookup(1) [OF ok2(2) i] r2 m2(3) einit
    by (simp_all add: InitializeSceneArray_def loaded_scene_def initial_scene_def)
  have bR: "nv_scene_of ?R i = Some b" using R scene_lookup(3) [OF ok2(1) i100] r2 by (simp add: nv_scene_of_def)
  have eR: "eliot_record (sn_flash ?R) (scene_eliot_ptr i) = ?e" using R(1) scene_eliot_lookup(3) [OF ok2(2) i] r2 by simp
  have "cstr 37 (snprintf_s 37 old ?e) = cstr 37 (sp_EliotDeviceId p)" for old
    using cstr_terminated [of ?e 36] l stored(2) id(2) by (simp add: cstr_snprintf_s)
  then have "\<exists>r. GetSceneProperties ?R i out = Inr (True, r) \<and> cstr 21 (sp_SceneNameString r) = cstr 21 (sp_SceneNameString q) \<and>
      cstr 37 (sp_EliotDeviceId r) = cstr 37 (sp_EliotDeviceId p)"
    using i100 R(2) bR eR n name by (simp add: GetSceneProperties_def Let_def)
  moreover have "\<exists>r. GetSceneProperties st2 i out = Inr (True, r) \<and> cstr 21 (sp_SceneNameString r) = cstr 21 (sp_SceneNameString q) \<and>
      sp_EliotDeviceId r = replicate 37 0"
    using i100 a2(1) b n name by (simp add: GetSceneProperties_def Let_def)
  moreover have "GetSceneProperties st1 i out = Inr (False, out)"
    using none by (simp add: GetSceneProperties_def Let_def)
  moreover have "GetAvailableSceneIndex st1 \<le> i"
  proof (rule ccontr)
    assume "\<not> GetAvailableSceneIndex st1 \<le> i"
    then show False using none unfolding GetAvailableSceneIndex_def by (auto dest!: loop_find_first [OF le0] simp: not_le)
  qed
  moreover have "cstr 37 (sp_EliotDeviceId p) \<noteq> []"
    using id(2) nonempty_cstr [of 37 ?e] serec_not_Nil I(5) [OF einit] by simp
  ultimately show ?thesis using m1(2) m2(4) unfolding st1_def [symmetric] st2_def [symmetric] by blast
qed

theorem deleted_scene_leaves_its_id_witness:
  "\<exists>st p st1 st2 r. GetSceneProperties st 7 sample_scene = Inr (True, p) \<and>
     SetSceneProperties ftfe_emulator idle_scene_ram st 7 (clear_scene_name p) = Inr (True, st1) \<and>
     SetSceneProperties ftfe_emulator idle_scene_ram st1 7 sample_scene = Inr (True, st2) \<and>
     GetSceneProperties (fst (LoadScenesFromFlash (InitializeSceneArray st2))) 7 sample_scene = Inr (True, r) \<and>
     cstr ELIOT_DEVICE_ID_SIZE (sp_EliotDeviceId sample_scene) = [] \<and> cstr ELIOT_DEVICE_ID_SIZE (sp_EliotDeviceId r) \<noteq> []"
proof -
  let ?p = "sample_scene\<lparr>sp_EliotDeviceId := [0x37, 0x61] @ replicate 35 0\<rparr>"
  have ok: "scene_args_ok ?p" "sp_SceneNameString ?p ! 0 \<noteq> 0" "sp_EliotDeviceId ?p ! 0 \<noteq> 0"
    using sample_scene_ok by (simp_all add: scene_args_ok_def)
  obtain st b e where o: "scene_outcome ?p 7 fresh_scenes st b e"
    using SetScene_cases(2) [OF emulator_reliable fresh_scenes_inv _ scene_args_id [OF ok(1)] ok(1) fresh_keeps_eliot_id, of 7 idle_scene_ram] by auto
  have inv: "scene_inv st" using scene_outcome_inv [OF fresh_scenes_inv _ ok(1) o] by simp
  obtain p where p: "GetSceneProperties st 7 sample_scene = Inr (True, p)"
    using GetScene_record [OF inv _ ok(1) o ok(2), of sample_scene] by (auto simp: fresh_scenes_def)
  have at: "serec (sn_flash st) 7 = e" using o by (simp add: scene_outcome_def scene_step_def)
  have "cstr 37 e = cstr 37 (sp_EliotDeviceId ?p)" using o ok(3) by (simp add: scene_outcome_def Let_def)
  also have "\<dots> = [0x37, 0x61]" by (simp add: cstr_def)
  finally have cut: "cstr 37 e = [0x37, 0x61]" .
  have "0 \<in> set e"
  proof (rule ccontr)
    assume "0 \<notin> set e"
    then have "cstr 37 e = take 37 e" by (auto simp: cstr_def takeWhile_eq_all_conv dest: in_set_takeD)
    then have "length (cstr 37 e) = 37" using length_serec [of "sn_flash st" 7] at by simp
    with cut show False by simp
  qed
  moreover have "nvEliotSceneProperties (sceneArray st ! 7) \<noteq> None"
    using o ok(3) by (simp add: scene_outcome_def Let_def fresh_scenes_def)
  moreover have "length (sp_EliotDeviceId sample_scene) = 37" "cstr 37 (sp_EliotDeviceId sample_scene) = []"
    by (simp_all add: sample_scene_def)
  moreover note deleted_scene_leaves_its_id [OF emulator_reliable inv _ _ _ _ p sample_scene_ok, of idle_scene_ram idle_scene_ram]
  ultimately obtain st1 st2 r where "SetSceneProperties ftfe_emulator idle_scene_ram st 7 (clear_scene_name p) = Inr (True, st1)"
    "SetSceneProperties ftfe_emulator idle_scene_ram st1 7 sample_scene = Inr (True, st2)"
    "GetSceneProperties (fst (LoadScenesFromFlash (InitializeSceneArray st2))) 7 sample_scene = Inr (True, r)"
    "cstr 37 (sp_EliotDeviceId r) \<noteq> []"
    using at by simp metis
  with p \<open>cstr 37 (sp_EliotDeviceId sample_scene) = []\<close> show ?thesis by blast
qed

end
