(* ===== verification/Schedule.thy ===== *)
theory Schedule
  imports Scenes Sent_Queue
begin

unbundle bit_operations_syntax

text \<open>
  The clock arithmetic of Event\_Task.c: the calendar conversions of MQX as MQXWrapper.cpp implements
  them on gmtime and timegm, the next trigger of a scene and daylight saving time.
\<close>

subsection \<open>Calendar\<close>

record date_struct =
  YEAR :: int
  MONTH :: int
  DAY :: int
  HOUR :: int
  MINUTE :: int
  SECOND :: int
  MILLISEC :: int
  WDAY :: int
  YDAY :: int

definition leap_year :: "nat \<Rightarrow> bool" where
  "leap_year y \<longleftrightarrow> y mod 4 = 0 \<and> (y mod 100 \<noteq> 0 \<or> y mod 400 = 0)"

definition days_in_year :: "nat \<Rightarrow> nat" where
  "days_in_year y = (if leap_year y then 366 else 365)"

definition days_in_month :: "bool \<Rightarrow> nat \<Rightarrow> nat" where
  "days_in_month leap m = (if m = 2 then if leap then 29 else 28 else if m \<in> {4, 6, 9, 11} then 30 else 31)"

text \<open>Year and day of the year of a day counted from the first of January of year \<open>y\<close>; month and day
  of the month of a day counted from the first of month \<open>m\<close>.\<close>

function civil_year :: "nat \<Rightarrow> nat \<Rightarrow> nat \<times> nat" where
  "civil_year y d = (if d < days_in_year y then (y, d) else civil_year (y + 1) (d - days_in_year y))"
  by auto
termination by (relation "measure snd") (auto simp: days_in_year_def)

function civil_month :: "bool \<Rightarrow> nat \<Rightarrow> nat \<Rightarrow> nat \<times> nat" where
  "civil_month leap m d =
     (if d < days_in_month leap m \<or> 12 \<le> m then (m, d) else civil_month leap (m + 1) (d - days_in_month leap m))"
  by auto
termination by (relation "measure (\<lambda>(leap, m, d). 12 - m)") auto

declare civil_year.simps [simp del] civil_month.simps [simp del]

definition gmtime :: "nat \<Rightarrow> date_struct" where
  "gmtime s =
     (let (y, yd) = civil_year 1970 (s div 86400); (m, d) = civil_month (leap_year y) 1 yd
      in \<lparr>YEAR = int y, MONTH = int m, DAY = int d + 1, HOUR = int (s div 3600 mod 24), MINUTE = int (s div 60 mod 60),
          SECOND = int (s mod 60), MILLISEC = 0, WDAY = int ((4 + s div 86400) mod 7), YDAY = int yd\<rparr>)"

definition days_before_year :: "nat \<Rightarrow> nat" where
  "days_before_year y = sum_list (map days_in_year [1970..<y])"

definition days_before_month :: "bool \<Rightarrow> nat \<Rightarrow> nat" where
  "days_before_month leap m = sum_list (map (days_in_month leap) [1..<m])"

text \<open>timegm for years from 1970 on and months 1 to 12, with the time of day out of range or not.\<close>

definition timegm :: "date_struct \<Rightarrow> int" where
  "timegm d =
     (int (days_before_year (nat (YEAR d))) + int (days_before_month (leap_year (nat (YEAR d))) (nat (MONTH d))) + DAY d - 1) * 86400
     + HOUR d * 3600 + MINUTE d * 60 + SECOND d"

definition time_to_date :: "dword_t \<Rightarrow> date_struct" where
  "time_to_date t = gmtime (unat t)"

text \<open>The second argument is what the target held: it keeps it when the date is not after the epoch.\<close>

definition time_from_date :: "date_struct \<Rightarrow> dword_t \<Rightarrow> dword_t" where
  "time_from_date d t = (if 0 < timegm d then of_int (timegm d) else t)"

lemma civil_year_correct:
  "1970 \<le> y \<Longrightarrow> (let (y', d') = civil_year y d in y \<le> y' \<and> d' < days_in_year y' \<and> days_before_year y + d = days_before_year y' + d')"
proof (induction y d rule: civil_year.induct)
  case (1 y d)
  have "days_before_year (y + 1) = days_before_year y + days_in_year y"
    using 1(2) by (simp add: days_before_year_def)
  then show ?case using 1 by (subst (1) civil_year.simps) (auto simp: Let_def split: prod.splits)
qed

lemma civil_month_correct:
  "1 \<le> m \<Longrightarrow> m \<le> 12 \<Longrightarrow>
   (let (m', d') = civil_month leap m d in m \<le> m' \<and> m' \<le> 12 \<and> days_before_month leap m + d = days_before_month leap m' + d')"
proof (induction leap m d rule: civil_month.induct)
  case (1 leap m d)
  have "days_before_month leap (m + 1) = days_before_month leap m + days_in_month leap m"
    using 1(2) by (simp add: days_before_month_def)
  then show ?case using 1 by (subst (1) civil_month.simps) (auto simp: Let_def split: prod.splits)
qed

text \<open>The only facts about the calendar the rest uses.\<close>

lemma gmtime_fields:
  "HOUR (gmtime s) = int (s div 3600 mod 24)" "MINUTE (gmtime s) = int (s div 60 mod 60)" "SECOND (gmtime s) = int (s mod 60)"
  "WDAY (gmtime s) = int ((4 + s div 86400) mod 7)"
  by (simp_all add: gmtime_def Let_def split: prod.split)

lemma timegm_gmtime_at:
  "timegm ((gmtime s)\<lparr>SECOND := x, MILLISEC := 0, HOUR := h, MINUTE := m\<rparr>) = int (s div 86400) * 86400 + h * 3600 + m * 60 + x"
proof -
  obtain y yd where y: "civil_year 1970 (s div 86400) = (y, yd)" by fastforce
  obtain mo d where m: "civil_month (leap_year y) 1 yd = (mo, d)" by fastforce
  have "days_before_year y + yd = s div 86400"
    using civil_year_correct [of 1970 "s div 86400"] y by (simp add: days_before_year_def)
  moreover have "days_before_month (leap_year y) mo + d = yd"
    using civil_month_correct [of 1 "leap_year y" yd] m by (simp add: days_before_month_def)
  ultimately show ?thesis by (simp add: timegm_def gmtime_def y m del: One_nat_def)
qed

lemma timegm_gmtime: "timegm (gmtime s) = int s"
proof -
  have "gmtime s = (gmtime s)\<lparr>SECOND := int (s mod 60), MILLISEC := 0, HOUR := int (s div 3600 mod 24), MINUTE := int (s div 60 mod 60)\<rparr>"
    by (simp add: gmtime_def Let_def split: prod.split)
  then have "timegm (gmtime s) = int (s div 86400) * 86400 + int (s div 3600 mod 24) * 3600 + int (s div 60 mod 60) * 60 + int (s mod 60)"
    by (metis timegm_gmtime_at)
  then have "timegm (gmtime s) = int (s div 86400 * 86400 + s div 3600 mod 24 * 3600 + s div 60 mod 60 * 60 + s mod 60)"
    by simp
  moreover have "s div 86400 * 86400 + s div 3600 mod 24 * 3600 + s div 60 mod 60 * 60 + s mod 60 = s"
  proof -
    have "s div 60 * 60 + s mod 60 = s" "s div 60 div 60 * 60 + s div 60 mod 60 = s div 60"
      "s div 3600 div 24 * 24 + s div 3600 mod 24 = s div 3600" by (rule div_mult_mod_eq)+
    moreover have "s div 3600 = s div 60 div 60" "s div 86400 = s div 3600 div 24"
      using div_mult2_eq [of s 60 60] div_mult2_eq [of s 3600 24] by simp_all
    ultimately show ?thesis by linarith
  qed
  ultimately show ?thesis by simp
qed


subsection \<open>The next trigger of a scene\<close>

abbreviation NONE :: byte where "NONE \<equiv> 0"
abbreviation ONCE :: byte where "ONCE \<equiv> 1"
abbreviation EVERY_WEEK :: byte where "EVERY_WEEK \<equiv> 2"
abbreviation REGULAR_TIME :: byte where "REGULAR_TIME \<equiv> 0"
abbreviation SUNRISE :: byte where "SUNRISE \<equiv> 1"
abbreviation SUNSET :: byte where "SUNSET \<equiv> 2"
abbreviation SECONDS_PER_DAY :: dword_t where "SECONDS_PER_DAY \<equiv> 86400"

definition isInDayList :: "scene_properties \<Rightarrow> int \<Rightarrow> bool" where
  "isInDayList p day =
     (if bit (sp_days p) 0 \<and> day = 0 then True
      else if bit (sp_days p) 1 \<and> day = 1 then True
      else if bit (sp_days p) 2 \<and> day = 2 then True
      else if bit (sp_days p) 3 \<and> day = 3 then True
      else if bit (sp_days p) 4 \<and> day = 4 then True
      else if bit (sp_days p) 5 \<and> day = 5 then True
      else if bit (sp_days p) 6 \<and> day = 6 then True
      else False)"

definition anyDaysInList :: "scene_properties \<Rightarrow> bool" where
  "anyDaysInList p \<longleftrightarrow> bit (sp_days p) 0 \<or> bit (sp_days p) 1 \<or> bit (sp_days p) 2 \<or> bit (sp_days p) 3 \<or>
     bit (sp_days p) 4 \<or> bit (sp_days p) 5 \<or> bit (sp_days p) 6"

text \<open>The loop that advances the date by a day; \<open>tempTime\<close> is the variable outside the loop.\<close>

partial_function (option) advance_day :: "scene_properties \<Rightarrow> dword_t \<Rightarrow> date_struct \<Rightarrow> date_struct option" where
  "advance_day p tempTime date =
     (let tempTime = time_from_date date tempTime + SECONDS_PER_DAY;
          date = time_to_date tempTime
      in if \<not> isInDayList p (WDAY date) \<and> sp_freq p = EVERY_WEEK \<and> anyDaysInList p
         then advance_day p tempTime date else Some date)"

text \<open>\<open>getNextSunTimes\<close> computes with floating point numbers and is a parameter; \<open>junk\<close> is the value of
  uninitialised time variables.\<close>

definition calculateNewTrigger ::
  "(date_struct \<Rightarrow> bool \<Rightarrow> date_struct) \<Rightarrow> dword_t \<Rightarrow> scene_properties \<Rightarrow> time_struct \<Rightarrow> scene_properties option" where
  "calculateNewTrigger getNextSunTimes junk p rtcTime =
     (let currentDate = time_to_date (SECONDS rtcTime);
          sceneDate = time_to_date (sp_nextTriggerTime p);
          currentMinuteOfDay = HOUR currentDate * 60 + MINUTE currentDate;
          nextIsToday = (if sp_freq p = ONCE
             then YEAR sceneDate = YEAR currentDate \<and> MONTH sceneDate = MONTH currentDate \<and> DAY sceneDate = DAY currentDate
             else True);
          newTriggerDate = (if sp_freq p = ONCE then sceneDate else currentDate)\<lparr>SECOND := 0, MILLISEC := 0\<rparr>;
          dayTime = (if sp_trigger p = REGULAR_TIME then sceneDate
                     else getNextSunTimes newTriggerDate (sp_trigger p = SUNRISE));
          newTriggerDate = newTriggerDate\<lparr>HOUR := HOUR dayTime, MINUTE := MINUTE dayTime\<rparr>;
          sceneMinuteOfDay = HOUR newTriggerDate * 60 + MINUTE newTriggerDate
             + (if sp_trigger p = REGULAR_TIME then 0 else sint (sp_delta p))
      in map_option (\<lambda>newTriggerDate.
           let newTriggerTime = time_from_date (newTriggerDate\<lparr>SECOND := 0, MILLISEC := 0\<rparr>) junk
           in p\<lparr>sp_nextTriggerTime :=
                if sp_trigger p \<noteq> REGULAR_TIME then newTriggerTime + of_int (sint (sp_delta p) * 60) else newTriggerTime\<rparr>)
         (if (sceneMinuteOfDay \<le> currentMinuteOfDay \<and> nextIsToday \<or>
              \<not> isInDayList p (WDAY currentDate) \<and> anyDaysInList p) \<and> sp_freq p \<noteq> NONE
          then advance_day p junk newTriggerDate else Some newTriggerDate))"

subsection \<open>Advancing the date ends\<close>

lemma time_from_to [simp]: "time_from_date (time_to_date t) t = t"
  using timegm_gmtime [of "unat t"] by (simp add: time_from_date_def time_to_date_def)

definition weekday :: "nat \<Rightarrow> nat" where "weekday s = (4 + s div 86400) mod 7"

lemma WDAY_time_to_date: "WDAY (time_to_date t) = int (weekday (unat t))"
  by (simp add: time_to_date_def gmtime_fields weekday_def)

lemma isInDayList_bit: "isInDayList p (int w) \<longleftrightarrow> w < 7 \<and> bit (sp_days p) w"
proof -
  have "w < 7 \<longleftrightarrow> w = 0 \<or> w = 1 \<or> w = 2 \<or> w = 3 \<or> w = 4 \<or> w = 5 \<or> w = 6" by linarith
  then show ?thesis by (auto simp: isInDayList_def)
qed

lemma anyDaysInList_bit: "anyDaysInList p \<longleftrightarrow> (\<exists>w < 7. bit (sp_days p) w)"
proof -
  have "w < 7 \<longleftrightarrow> w = 0 \<or> w = 1 \<or> w = 2 \<or> w = 3 \<or> w = 4 \<or> w = 5 \<or> w = 6" for w :: nat by linarith
  then show ?thesis by (auto simp: anyDaysInList_def)
qed

text \<open>The loop in terms of the clock.\<close>

definition on_listed_day :: "scene_properties \<Rightarrow> nat \<Rightarrow> bool" where
  "on_listed_day p s \<longleftrightarrow> sp_freq p \<noteq> EVERY_WEEK \<or> \<not> anyDaysInList p \<or> bit (sp_days p) (weekday s)"

lemma advance_day_step:
  "advance_day p tmp date =
     (let t = time_from_date date tmp + SECONDS_PER_DAY
      in if on_listed_day p (unat t) then Some (time_to_date t) else advance_day p t (time_to_date t))"
proof -
  have "weekday s < 7" for s by (simp add: weekday_def)
  then show ?thesis
    by (subst advance_day.simps)
      (auto simp: Let_def WDAY_time_to_date isInDayList_bit on_listed_day_def)
qed

lemma advance_day_iterate:
  assumes "\<And>j. j < k \<Longrightarrow> \<not> on_listed_day p (unat (t + of_nat (j + 1) * SECONDS_PER_DAY))"
    and "on_listed_day p (unat (t + of_nat (k + 1) * SECONDS_PER_DAY))" "time_from_date date tmp = t"
  shows "advance_day p tmp date = Some (time_to_date (t + of_nat (k + 1) * SECONDS_PER_DAY))"
  using assms
proof (induction k arbitrary: t date tmp)
  case 0
  then show ?case by (subst advance_day_step) (simp add: Let_def)
next
  case (Suc k)
  let ?t = "t + SECONDS_PER_DAY"
  have e: "?t + of_nat (j + 1) * SECONDS_PER_DAY = t + of_nat (Suc j + 1) * SECONDS_PER_DAY" for j
    by (simp add: algebra_simps)
  have "\<not> on_listed_day p (unat ?t)" using Suc(2) [of 0] by simp
  moreover have "advance_day p ?t (time_to_date ?t) = Some (time_to_date (?t + of_nat (k + 1) * SECONDS_PER_DAY))"
  proof (rule Suc(1))
    show "\<not> on_listed_day p (unat (?t + of_nat (j + 1) * SECONDS_PER_DAY))" if "j < k" for j
      using Suc(2) [of "Suc j"] that unfolding e by simp
    show "on_listed_day p (unat (?t + of_nat (k + 1) * SECONDS_PER_DAY))" using Suc(3) unfolding e .
  qed simp
  ultimately show ?case by (subst advance_day_step) (simp only: Suc(4) Let_def e if_False)
qed

lemma unat_add_days:
  assumes "unat (t :: dword_t) + k * 86400 < 2 ^ 32"
  shows "unat (t + of_nat k * SECONDS_PER_DAY) = unat t + k * 86400"
proof -
  have "k * 86400 < 2 ^ LENGTH(32)" using assms by simp
  then have "unat (of_nat (k * 86400) :: dword_t) = k * 86400" unfolding unat_of_nat by (rule mod_less)
  then have k: "unat (of_nat k * SECONDS_PER_DAY) = k * 86400" unfolding of_nat_mult of_nat_numeral .
  then show ?thesis using assms unat_add_lem [of t "of_nat k * SECONDS_PER_DAY"] by simp
qed

lemma weekday_add: "weekday (s + k * 86400) = (weekday s + k) mod 7"
  by (simp add: weekday_def mod_simps ac_simps)

lemma listed_within_week: "\<exists>k < 7. on_listed_day p (s + (k + 1) * 86400)"
proof (cases "anyDaysInList p")
  case True
  then obtain w where w: "w < 7" "bit (sp_days p) w" by (auto simp: anyDaysInList_bit)
  let ?k = "(w + 6 * (weekday s + 1)) mod 7"
  have "(weekday s + (?k + 1)) mod 7 = (weekday s + 1 + ?k) mod 7" by (simp only: add.assoc add.commute [of 1])
  also have "\<dots> = (weekday s + 1 + (w + 6 * (weekday s + 1))) mod 7" by (rule mod_add_right_eq)
  also have "weekday s + 1 + (w + 6 * (weekday s + 1)) = w + 7 * (weekday s + 1)" by simp
  also have "\<dots> mod 7 = w" using w(1) by (simp only: mod_mult_self2 mod_less)
  finally have "weekday (s + (?k + 1) * 86400) = w" by (simp only: weekday_add)
  then have "on_listed_day p (s + (?k + 1) * 86400)" using w(2) by (simp only: on_listed_day_def) simp
  then show ?thesis by (intro exI [of _ ?k]) simp
next
  case False
  then show ?thesis by (auto simp: on_listed_day_def intro: exI [of _ 0])
qed

lemma listed_in_two_weeks: "\<exists>k. on_listed_day p (unat ((t :: dword_t) + of_nat (k + 1) * SECONDS_PER_DAY))"
proof -
  have no_wrap: "\<exists>k. on_listed_day p (unat (t + of_nat (k + 1) * SECONDS_PER_DAY))"
    if "unat t + 7 * 86400 < 2 ^ 32" for t :: dword_t
  proof -
    obtain k where k: "k < 7" "on_listed_day p (unat t + (k + 1) * 86400)" using listed_within_week by blast
    then have "unat t + (k + 1) * 86400 < 2 ^ 32" using that by simp
    with k(2) show ?thesis by (metis unat_add_days)
  qed
  show ?thesis
  proof (cases "unat t + 7 * 86400 < 2 ^ 32")
    case True
    then show ?thesis by (rule no_wrap)
  next
    case False
    have "unat t < 2 ^ LENGTH(32)" by (rule unsigned_less)
    then have "unat (t + of_nat 7 * SECONDS_PER_DAY) < 7 * 86400"
      using False by (simp add: unat_word_ariths mod_if) linarith
    then obtain k where "on_listed_day p (unat (t + of_nat 7 * SECONDS_PER_DAY + of_nat (k + 1) * SECONDS_PER_DAY))"
      using no_wrap [of "t + of_nat 7 * SECONDS_PER_DAY"] by auto
    moreover have "t + of_nat 7 * SECONDS_PER_DAY + of_nat (k + 1) * SECONDS_PER_DAY =
        t + of_nat (k + 7 + 1) * SECONDS_PER_DAY" by (simp add: algebra_simps)
    ultimately show ?thesis by metis
  qed
qed

lemma advance_day_first:
  "\<exists>k. advance_day p tmp date = Some (time_to_date (time_from_date date tmp + of_nat (k + 1) * SECONDS_PER_DAY)) \<and>
     on_listed_day p (unat (time_from_date date tmp + of_nat (k + 1) * SECONDS_PER_DAY)) \<and>
     (\<forall>j < k. \<not> on_listed_day p (unat (time_from_date date tmp + of_nat (j + 1) * SECONDS_PER_DAY)))"
proof -
  let ?P = "\<lambda>k. on_listed_day p (unat (time_from_date date tmp + of_nat (k + 1) * SECONDS_PER_DAY))"
  have "\<exists>k. ?P k" by (rule listed_in_two_weeks)
  then have "?P (LEAST k. ?P k)" by (rule LeastI_ex)
  moreover have "\<not> ?P j" if "j < (LEAST k. ?P k)" for j using that by (rule not_less_Least)
  ultimately show ?thesis using advance_day_iterate [OF _ _ refl] by blast
qed

lemma trigger_computed:
  "\<exists>t. calculateNewTrigger sun junk p now = Some (p\<lparr>sp_nextTriggerTime := t\<rparr>)"
proof -
  have adv: "\<exists>d. advance_day p junk date = Some d" for date using advance_day_first by blast
  have opt: "\<exists>t. map_option (\<lambda>d. p\<lparr>sp_nextTriggerTime := f d\<rparr>) x = Some (p\<lparr>sp_nextTriggerTime := t\<rparr>)"
    if "\<exists>d. x = Some d" for f and x :: "date_struct option" using that by auto
  show ?thesis unfolding calculateNewTrigger_def Let_def by (rule opt) (auto intro: adv)
qed

text \<open>Only the schedule of the scene is read.\<close>

lemma advance_day_cong:
  assumes "sp_freq q = sp_freq p" "sp_days q = sp_days p"
  shows "advance_day q tmp date = advance_day p tmp date"
proof -
  have "on_listed_day q = on_listed_day p" by (simp add: fun_eq_iff on_listed_day_def anyDaysInList_def assms)
  with advance_day_first [of p tmp date] advance_day_iterate [of _ q "time_from_date date tmp", OF _ _ refl]
  show ?thesis by auto
qed

lemma trigger_cong:
  assumes "sp_freq q = sp_freq p" "sp_days q = sp_days p" "sp_nextTriggerTime q = sp_nextTriggerTime p"
    "sp_trigger q = sp_trigger p" "sp_delta q = sp_delta p"
  shows "map_option sp_nextTriggerTime (calculateNewTrigger sun junk q now) =
    map_option sp_nextTriggerTime (calculateNewTrigger sun junk p now)"
proof -
  have d: "isInDayList q = isInDayList p" "anyDaysInList q = anyDaysInList p"
    by (simp_all add: fun_eq_iff isInDayList_def anyDaysInList_def assms)
  have sel: "sp_nextTriggerTime (r\<lparr>sp_nextTriggerTime := t\<rparr>) = t" for r t by simp
  show ?thesis
    unfolding calculateNewTrigger_def Let_def option.map_comp comp_def
    by (simp only: d sel assms advance_day_cong [OF assms(1,2)])
qed

text \<open>C23: computing the next trigger always ends, for every frequency, trigger kind, set of days, clock
  value (wrap-around of the 32-bit seconds included), whatever the sun times are and whatever the
  uninitialised variables hold; only the trigger time of the scene changes.\<close>

theorem calculateNewTrigger_returns:
  "\<exists>t. calculateNewTrigger sun junk p now = Some (p\<lparr>sp_nextTriggerTime := t\<rparr>)"
  by (rule trigger_computed)

subsection \<open>Weekly scenes\<close>

definition trigger_minute :: "scene_properties \<Rightarrow> nat" where
  "trigger_minute p = unat (sp_nextTriggerTime p) div 60 mod 1440"

text \<open>The instants a weekly scene may run at: its minute of the day, on its days (on all days if none is
  listed).\<close>

definition trigger_candidate :: "scene_properties \<Rightarrow> nat \<Rightarrow> bool" where
  "trigger_candidate p s \<longleftrightarrow> s mod 86400 = trigger_minute p * 60 \<and> (anyDaysInList p \<longrightarrow> bit (sp_days p) (weekday s))"

lemma candidate_weekly:
  "sp_freq p = EVERY_WEEK \<Longrightarrow> trigger_candidate p s \<longleftrightarrow> s mod 86400 = trigger_minute p * 60 \<and> on_listed_day p s"
  by (auto simp: trigger_candidate_def on_listed_day_def)

lemma minute_of_day: "int (s div 3600 mod 24) * 60 + int (s div 60 mod 60) = int (s div 60 mod 1440)"
proof -
  have "s div 3600 = s div 60 div 60" using div_mult2_eq [of s 60 60] by simp
  moreover have "s div 60 mod 1440 = 60 * (s div 60 div 60 mod 24) + s div 60 mod 60"
    using mod_mult2_eq [of "s div 60" 60 24] by simp
  ultimately show ?thesis by simp
qed

lemma time_minute: "HOUR (time_to_date t) * 60 + MINUTE (time_to_date t) = int (unat t div 60 mod 1440)"
  using minute_of_day [of "unat t"] by (simp add: time_to_date_def gmtime_fields)

lemma whole_minute:
  assumes "unat t mod 60 = 0" "0 < unat t"
  shows "time_from_date ((time_to_date t)\<lparr>SECOND := 0, MILLISEC := 0\<rparr>) x = t"
proof -
  have "(time_to_date t)\<lparr>SECOND := 0, MILLISEC := 0\<rparr> = time_to_date t"
    using assms(1) by (simp add: time_to_date_def gmtime_def Let_def split: prod.split)
  moreover have "0 < int (unat t)" using assms(2) by linarith
  ultimately show ?thesis by (simp add: time_from_date_def time_to_date_def timegm_gmtime)
qed

text \<open>The instant on the day of \<open>n\<close> at the minute of the scene; later days are whole days after it.\<close>

definition today_at :: "scene_properties \<Rightarrow> nat \<Rightarrow> nat" where
  "today_at p n = n div 86400 * 86400 + trigger_minute p * 60"

lemma trigger_minute_less: "trigger_minute p < 1440"
  by (simp add: trigger_minute_def)

lemma today_at_day: "today_at p n div 86400 = n div 86400" "today_at p n mod 86400 = trigger_minute p * 60"
  "today_at p n mod 60 = 0"
  using trigger_minute_less [of p] by (simp_all add: today_at_def)

lemma candidate_day:
  assumes "n < s" "trigger_candidate p s"
  shows "\<exists>j. s = today_at p n + j * 86400"
proof -
  have "n div 86400 \<le> s div 86400" using assms(1) by (intro div_le_mono) simp
  then obtain j where j: "n div 86400 + j = s div 86400" by (metis le_add_diff_inverse)
  have "s mod 86400 = trigger_minute p * 60" using assms(2) by (simp add: trigger_candidate_def)
  then have "s = today_at p n + j * 86400"
    using div_mult_mod_eq [of s 86400] by (simp add: today_at_def algebra_simps flip: j)
  then show ?thesis ..
qed

lemma today_at_date:
  fixes now :: dword_t
  assumes "86400 \<le> unat now" "unat now + 8 * 86400 < 2 ^ 32"
  shows "time_from_date ((time_to_date now)\<lparr>SECOND := 0, MILLISEC := 0, HOUR := HOUR (time_to_date (sp_nextTriggerTime p)),
      MINUTE := MINUTE (time_to_date (sp_nextTriggerTime p))\<rparr>) x = of_nat (today_at p (unat now))"
    "0 < today_at p (unat now)" "today_at p (unat now) + 7 * 86400 < 2 ^ 32"
proof -
  let ?n = "unat now"
  have n: "?n = ?n div 86400 * 86400 + ?n mod 86400" by simp
  have "0 < ?n div 86400" using assms(1) by (simp add: div_greater_zero_iff)
  then show B: "0 < today_at p ?n" "today_at p ?n + 7 * 86400 < 2 ^ 32"
    using assms(2) n trigger_minute_less [of p] by (simp_all add: today_at_def)
  have "timegm ((time_to_date now)\<lparr>SECOND := 0, MILLISEC := 0, HOUR := HOUR (time_to_date (sp_nextTriggerTime p)),
      MINUTE := MINUTE (time_to_date (sp_nextTriggerTime p))\<rparr>) = int (today_at p ?n)"
    using timegm_gmtime_at [where s = ?n] time_minute [of "sp_nextTriggerTime p"]
    by (simp add: time_to_date_def today_at_def trigger_minute_def)
  then show "time_from_date ((time_to_date now)\<lparr>SECOND := 0, MILLISEC := 0, HOUR := HOUR (time_to_date (sp_nextTriggerTime p)),
      MINUTE := MINUTE (time_to_date (sp_nextTriggerTime p))\<rparr>) x = of_nat (today_at p ?n)"
    using B(1) by (simp add: time_from_date_def)
qed

text \<open>The scene runs later today, or after \<open>k + 1\<close> days, the first of them that is listed.\<close>

lemma weekly_trigger_days:
  assumes "sp_freq p = EVERY_WEEK" "sp_trigger p = REGULAR_TIME"
    and "86400 \<le> unat (SECONDS now)" "unat (SECONDS now) + 8 * 86400 < 2 ^ 32"
  defines "n \<equiv> unat (SECONDS now)" and "B \<equiv> today_at p (unat (SECONDS now))"
  shows "\<exists>t. calculateNewTrigger sun junk p now = Some (p\<lparr>sp_nextTriggerTime := t\<rparr>) \<and>
    (if trigger_minute p \<le> n mod 86400 div 60 \<or> \<not> on_listed_day p n
     then \<exists>k. unat t = B + (k + 1) * 86400 \<and> on_listed_day p (unat t) \<and> (\<forall>j < k. \<not> on_listed_day p (B + (j + 1) * 86400))
     else unat t = B)"
proof -
  let ?date = "(time_to_date (SECONDS now))\<lparr>SECOND := 0, MILLISEC := 0, HOUR := HOUR (time_to_date (sp_nextTriggerTime p)),
     MINUTE := MINUTE (time_to_date (sp_nextTriggerTime p))\<rparr>"
  note date = today_at_date [OF assms(3,4), of p, folded B_def]
  have ub: "unat (of_nat B :: dword_t) = B" using date(3) by (simp add: unat_of_nat)
  have "HOUR ?date * 60 + MINUTE ?date \<le> HOUR (time_to_date (SECONDS now)) * 60 + MINUTE (time_to_date (SECONDS now)) \<longleftrightarrow>
      trigger_minute p \<le> n mod 86400 div 60"
    using time_minute [of "sp_nextTriggerTime p"] time_minute [of "SECONDS now"] mod_mult2_eq [of n 60 1440]
    by (simp add: trigger_minute_def n_def)
  moreover have "\<not> isInDayList p (WDAY (time_to_date (SECONDS now))) \<and> anyDaysInList p \<longleftrightarrow> \<not> on_listed_day p n"
    using assms(1) by (auto simp: WDAY_time_to_date isInDayList_bit on_listed_day_def n_def weekday_def)
  ultimately have eq: "calculateNewTrigger sun junk p now =
      map_option (\<lambda>d. p\<lparr>sp_nextTriggerTime := time_from_date (d\<lparr>SECOND := 0, MILLISEC := 0\<rparr>) junk\<rparr>)
        (if trigger_minute p \<le> n mod 86400 div 60 \<or> \<not> on_listed_day p n then advance_day p junk ?date else Some ?date)"
    using assms(1,2) by (simp add: calculateNewTrigger_def Let_def)
  show ?thesis
  proof (cases "trigger_minute p \<le> n mod 86400 div 60 \<or> \<not> on_listed_day p n")
    case True
    obtain k where k: "advance_day p junk ?date = Some (time_to_date (of_nat B + of_nat (k + 1) * SECONDS_PER_DAY))"
      "on_listed_day p (unat (of_nat B + of_nat (k + 1) * SECONDS_PER_DAY))"
      "\<forall>j < k. \<not> on_listed_day p (unat (of_nat B + of_nat (j + 1) * SECONDS_PER_DAY))"
      using advance_day_first [of p junk ?date] unfolding date(1) by blast
    have un: "unat (of_nat B + of_nat (j + 1) * SECONDS_PER_DAY) = B + (j + 1) * 86400" if "j < 7" for j
      using unat_add_days [of "of_nat B" "j + 1"] date(3) that unfolding ub by simp
    obtain k0 where k0: "k0 < 7" "on_listed_day p (B + (k0 + 1) * 86400)" using listed_within_week by blast
    have "k < 7"
    proof (rule ccontr)
      assume "\<not> k < 7"
      then have "k0 < k" using k0(1) by simp
      from k(3) [rule_format, OF this] k0(2) un [OF k0(1)] show False by simp
    qed
    let ?t = "of_nat B + of_nat (k + 1) * SECONDS_PER_DAY"
    have t: "unat ?t = B + (k + 1) * 86400" using un [OF \<open>k < 7\<close>] .
    have "B + (k + 1) * 86400 = B + 60 * ((k + 1) * 1440)" by simp
    also have "\<dots> mod 60 = 0" using today_at_day(3) [of p n] by (simp only: mod_mult_self2 B_def n_def)
    finally have "unat ?t mod 60 = 0" "0 < unat ?t" using date(2) unfolding t by simp_all
    from whole_minute [OF this] have calc: "calculateNewTrigger sun junk p now = Some (p\<lparr>sp_nextTriggerTime := ?t\<rparr>)"
      using True unfolding eq k(1) by simp
    have none: "\<forall>j < k. \<not> on_listed_day p (B + (j + 1) * 86400)"
    proof (intro allI impI)
      fix j assume j: "j < k"
      then have "j < 7" using \<open>k < 7\<close> by simp
      then show "\<not> on_listed_day p (B + (j + 1) * 86400)" using k(3) [rule_format, OF j] un [of j] by simp
    qed
    have "\<exists>k. unat ?t = B + (k + 1) * 86400 \<and> on_listed_day p (unat ?t) \<and> (\<forall>j < k. \<not> on_listed_day p (B + (j + 1) * 86400))"
      by (rule exI [of _ k]) (intro conjI t k(2) none)
    then show ?thesis unfolding if_P [OF True] by (intro exI [of _ ?t] conjI calc)
  next
    case False
    have "?date\<lparr>SECOND := 0, MILLISEC := 0\<rparr> = ?date" by simp
    then have "calculateNewTrigger sun junk p now = Some (p\<lparr>sp_nextTriggerTime := of_nat B\<rparr>)"
      unfolding eq by (simp only: False if_False option.map date(1))
    with ub False show ?thesis by auto
  qed
qed

lemma weekly_trigger_first:
  assumes "sp_freq p = EVERY_WEEK" "sp_trigger p = REGULAR_TIME"
    and "86400 \<le> unat (SECONDS now)" "unat (SECONDS now) + 8 * 86400 < 2 ^ 32"
  shows "\<exists>t. calculateNewTrigger sun junk p now = Some (p\<lparr>sp_nextTriggerTime := t\<rparr>) \<and>
    unat (SECONDS now) < unat t \<and> trigger_candidate p (unat t) \<and>
    (\<forall>s. unat (SECONDS now) < s \<and> s < unat t \<longrightarrow> \<not> trigger_candidate p s)"
proof -
  define n where "n = unat (SECONDS now)"
  define B where "B = today_at p n"
  obtain t where calc: "calculateNewTrigger sun junk p now = Some (p\<lparr>sp_nextTriggerTime := t\<rparr>)"
    and t: "if trigger_minute p \<le> n mod 86400 div 60 \<or> \<not> on_listed_day p n
     then \<exists>k. unat t = B + (k + 1) * 86400 \<and> on_listed_day p (unat t) \<and> (\<forall>j < k. \<not> on_listed_day p (B + (j + 1) * 86400))
     else unat t = B"
    using weekly_trigger_days [OF assms, of sun junk] unfolding n_def B_def by blast
  note cand = candidate_weekly [OF assms(1)]
  have n: "n = n div 86400 * 86400 + n mod 86400" by simp
  note day = today_at_day [of p n, folded B_def]
  have listedB: "on_listed_day p B \<longleftrightarrow> on_listed_day p n" by (simp add: on_listed_day_def weekday_def day)
  note B = B_def [unfolded today_at_def]
  have "n < unat t \<and> trigger_candidate p (unat t) \<and> (\<forall>s. n < s \<and> s < unat t \<longrightarrow> \<not> trigger_candidate p s)"
  proof (cases "trigger_minute p \<le> n mod 86400 div 60 \<or> \<not> on_listed_day p n")
    case True
    then obtain k where k: "unat t = B + (k + 1) * 86400" "on_listed_day p (unat t)"
      "\<forall>j < k. \<not> on_listed_day p (B + (j + 1) * 86400)" using t by auto
    have "(B + (k + 1) * 86400) mod 86400 = trigger_minute p * 60" using day(2) by (simp only: mod_mult_self1)
    then have "trigger_candidate p (unat t)" using k(2) unfolding cand k(1) by blast
    moreover have "n < unat t" using n unfolding k(1) B by simp
    moreover have "\<not> trigger_candidate p s" if s: "n < s" "s < unat t" for s
    proof
      assume cs: "trigger_candidate p s"
      obtain j where j: "s = B + j * 86400" using candidate_day [OF s(1) cs] unfolding B_def by blast
      show False
      proof (cases j)
        case 0
        then have "on_listed_day p n" using cs j cand listedB by simp
        then have "trigger_minute p \<le> n mod 86400 div 60" using True by simp
        then have "trigger_minute p * 60 \<le> n mod 86400" using less_eq_div_iff_mult_less_eq [of 60] by auto
        then have "B \<le> n" using n unfolding B by linarith
        with s(1) j 0 show False by simp
      next
        case (Suc i)
        then have "\<not> on_listed_day p (B + (i + 1) * 86400)" using k(3) s(2) j unfolding k(1) by simp
        with cs cand j Suc show False by simp
      qed
    qed
    ultimately show ?thesis by blast
  next
    case False
    then have tB: "unat t = B" and "n mod 86400 < trigger_minute p * 60"
      using t by (simp_all add: not_le div_less_iff_less_mult)
    then have "n < B" using n unfolding B by linarith
    moreover have "trigger_candidate p B" using False listedB day(2) by (simp add: cand)
    ultimately show ?thesis using candidate_day [of n _ p] unfolding tB B_def by auto
  qed
  with calc show ?thesis unfolding n_def by blast
qed

text \<open>C24: the next trigger of a weekly scene with a fixed time is the first instant after now at the
  scene's minute of the day on one of the scene's days.\<close>

theorem weekly_trigger_exact:
  assumes "sp_freq p = EVERY_WEEK" "sp_trigger p = REGULAR_TIME"
    and "86400 \<le> unat (SECONDS now)" "unat (SECONDS now) + 8 * 86400 < 2 ^ 32"
  shows "\<exists>t. calculateNewTrigger sun junk p now = Some (p\<lparr>sp_nextTriggerTime := t\<rparr>) \<and>
    unat (SECONDS now) < unat t \<and> trigger_candidate p (unat t) \<and>
    (\<forall>s. unat (SECONDS now) < s \<and> s < unat t \<longrightarrow> \<not> trigger_candidate p s)"
  by (rule weekly_trigger_first [OF assms])

definition weekly_sample :: scene_properties where
  "weekly_sample = sample_scene\<lparr>sp_nextTriggerTime := 0x5F0EC8A8, sp_freq := EVERY_WEEK, sp_trigger := REGULAR_TIME, sp_days := 0x22\<rparr>"

text \<open>A scene for 9:13 on Mondays and Fridays, on a Friday after 9:13.\<close>

theorem weekly_trigger_exact_witness:
  "\<exists>t. calculateNewTrigger (\<lambda>d b. d) 0 weekly_sample \<lparr>SECONDS = 0x5F12CBA0, MILLISECONDS = 0\<rparr> =
     Some (weekly_sample\<lparr>sp_nextTriggerTime := t\<rparr>) \<and> weekday (unat t) \<in> {1, 5} \<and> 0x5F12CBA0 < unat t"
proof -
  have table: "\<forall>w \<in> set [0..<8]. bit (0x22 :: byte) w \<longrightarrow> w = 1 \<or> w = 5" by code_simp
  have days: "w = 1 \<or> w = 5" if "bit (0x22 :: byte) w" for w
  proof -
    have "w \<in> set [0..<8]" using bit_imp_le_length [OF that] by (simp del: upt_rec_numeral)
    with table that show ?thesis by blast
  qed
  have any: "anyDaysInList weekly_sample" by (simp add: anyDaysInList_def weekly_sample_def)
  obtain t where "calculateNewTrigger (\<lambda>d b. d) 0 weekly_sample \<lparr>SECONDS = 0x5F12CBA0, MILLISECONDS = 0\<rparr> =
      Some (weekly_sample\<lparr>sp_nextTriggerTime := t\<rparr>)" "0x5F12CBA0 < unat t" "trigger_candidate weekly_sample (unat t)"
    using weekly_trigger_exact [of weekly_sample "\<lparr>SECONDS = 0x5F12CBA0, MILLISECONDS = 0\<rparr>" "\<lambda>d b. d" 0]
    by (auto simp: weekly_sample_def)
  moreover from this(3) any have "weekday (unat t) \<in> {1, 5}"
    using days [of "weekday (unat t)"] by (simp add: trigger_candidate_def weekly_sample_def)
  ultimately show ?thesis by blast
qed

subsection \<open>Daylight saving time\<close>

definition isItDST :: "bool \<Rightarrow> date_struct \<Rightarrow> bool" where
  "isItDST inDST t =
     (if MONTH t < 3 \<or> MONTH t > 11 then False
      else if MONTH t > 3 \<and> MONTH t < 11 then True
      else if MONTH t = 3 then
        if DAY t < 8 then False
        else if DAY t \<ge> 8 \<and> DAY t \<le> 14 then
          if WDAY t = 0 then (if HOUR t < 2 then False else True)
          else if DAY t - 7 > WDAY t then True else False
        else True
      else
        if DAY t \<le> 7 then
          if WDAY t = 0 then (if HOUR t \<ge> 2 then False else if HOUR t < 1 then True else inDST)
          else if DAY t > WDAY t then False else True
        else False)"

text \<open>The rule: from the second Sunday in March, 2:00, to the first Sunday in November, 2:00, where the
  hour before is the one that occurs twice. Sundays are counted through the month.\<close>

definition sundays_before :: "date_struct \<Rightarrow> nat" where
  "sundays_before t = length (filter (\<lambda>k. (WDAY t - (DAY t - k)) mod 7 = 0) [1..DAY t - 1])"

definition sunday_change :: "nat \<Rightarrow> date_struct \<Rightarrow> bool" where
  "sunday_change n t \<longleftrightarrow> n \<le> sundays_before t \<or> Suc (sundays_before t) = n \<and> WDAY t = 0 \<and> 2 \<le> HOUR t"

definition dst_rule :: "bool \<Rightarrow> date_struct \<Rightarrow> bool" where
  "dst_rule inDST t \<longleftrightarrow>
     (3 < MONTH t \<or> MONTH t = 3 \<and> sunday_change 2 t) \<and>
     (MONTH t < 11 \<or> MONTH t = 11 \<and> \<not> sunday_change 1 t \<and>
        (sundays_before t = 0 \<and> WDAY t = 0 \<and> HOUR t = 1 \<longrightarrow> inDST))"

lemma sundays_table:
  "\<forall>d \<in> set [1..31]. \<forall>w \<in> set [0..6]. (let n = length (filter (\<lambda>k. (w - (d - k)) mod 7 = 0) [1..d - 1]) in
     (2 \<le> n \<longleftrightarrow> 14 < d \<or> 8 \<le> d \<and> w \<noteq> 0 \<and> w < d - 7) \<and> (n = 1 \<and> w = 0 \<longleftrightarrow> w = 0 \<and> 8 \<le> d \<and> d \<le> 14) \<and>
     (1 \<le> n \<longleftrightarrow> 7 < d \<or> w \<noteq> 0 \<and> w < d))"
  by code_simp

text \<open>C25: isItDST follows the rule for daylight saving time on every date and hour; in the hour that occurs
  twice it answers what is in force.\<close>

theorem isItDST_correct:
  assumes "1 \<le> DAY t" "DAY t \<le> 31" "0 \<le> WDAY t" "WDAY t < 7" "0 \<le> HOUR t"
  shows "isItDST inDST t \<longleftrightarrow> dst_rule inDST t"
proof -
  have "DAY t \<in> set [1..31]" "WDAY t \<in> set [0..6]" using assms by (simp_all del: upto_rec_numeral)
  from bspec [OF bspec [OF sundays_table this(1)] this(2)]
  have n: "2 \<le> sundays_before t \<longleftrightarrow> 14 < DAY t \<or> 8 \<le> DAY t \<and> WDAY t \<noteq> 0 \<and> WDAY t < DAY t - 7"
    "sundays_before t = 1 \<and> WDAY t = 0 \<longleftrightarrow> WDAY t = 0 \<and> 8 \<le> DAY t \<and> DAY t \<le> 14"
    "1 \<le> sundays_before t \<longleftrightarrow> 7 < DAY t \<or> WDAY t \<noteq> 0 \<and> WDAY t < DAY t"
    by (simp_all only: Let_def sundays_before_def)
  have z: "sundays_before t = 0 \<longleftrightarrow> DAY t \<le> 7 \<and> (WDAY t = 0 \<or> DAY t \<le> WDAY t)" using n(3) by linarith
  have march: "sunday_change 2 t \<longleftrightarrow> 14 < DAY t \<or> 8 \<le> DAY t \<and> (if WDAY t = 0 then 2 \<le> HOUR t else WDAY t < DAY t - 7)"
    using n(1,2) by (auto simp: sunday_change_def)
  have nov: "sunday_change 1 t \<longleftrightarrow> 7 < DAY t \<or> (if WDAY t = 0 then 2 \<le> HOUR t else WDAY t < DAY t)"
    using n(3) z by (auto simp: sunday_change_def)
  show ?thesis
    using assms unfolding isItDST_def dst_rule_def march nov z by auto
qed

text \<open>Sunday the 10th of March 2024 at 2:00, the second Sunday of the month.\<close>

theorem isItDST_correct_witness:
  "dst_rule False \<lparr>YEAR = 2024, MONTH = 3, DAY = 10, HOUR = 2, MINUTE = 0, SECOND = 0, MILLISEC = 0, WDAY = 0, YDAY = 69\<rparr>"
  using isItDST_correct [of "\<lparr>YEAR = 2024, MONTH = 3, DAY = 10, HOUR = 2, MINUTE = 0, SECOND = 0, MILLISEC = 0, WDAY = 0, YDAY = 69\<rparr>" False]
  by (simp add: isItDST_def)

end
