(* ===== verification/Scene_Service.thy ===== *)
theory Scene_Service
  imports Zone_Service Scene_Deletion Schedule
begin

unbundle bit_operations_syntax

text \<open>
  The JSON services on scenes of Socket\_Task.c: creating a scene, setting its properties, deleting it
  and running it. As for zones, a property list is checked completely before it is executed; the list of zones
  of a scene has its own check. Saving a scene can overrun a buffer (Scenes.thy), which is the error value; the
  next trigger is computed by \<open>calculateNewTrigger\<close>, whose result is \<open>None\<close> if it does not return.
\<close>

abbreviation MAX_DELTA_VALUE :: int where "MAX_DELTA_VALUE \<equiv> 120"
abbreviation MIN_DELTA_VALUE :: int where "MIN_DELTA_VALUE \<equiv> - 120"

abbreviation USR_NO_SPACE_LEFT_FOR_SCENE_ADDITION :: nat where "USR_NO_SPACE_LEFT_FOR_SCENE_ADDITION \<equiv> 1000"
abbreviation USR_NO_ELEMENTS_IN_ZoneList_ARRAY :: nat where "USR_NO_ELEMENTS_IN_ZoneList_ARRAY \<equiv> 1005"
abbreviation USR_TOO_MANY_ZONES_IN_THE_SCENE :: nat where "USR_TOO_MANY_ZONES_IN_THE_SCENE \<equiv> 1006"
abbreviation SW_COULD_NOT_GET_SCENE_PROPERTIES_FOR_SCENE_INDEX :: nat where "SW_COULD_NOT_GET_SCENE_PROPERTIES_FOR_SCENE_INDEX \<equiv> 2013"
abbreviation SW_COULD_NOT_GET_SCENE_PROPERTIES_FOR_ZONE :: nat where "SW_COULD_NOT_GET_SCENE_PROPERTIES_FOR_ZONE \<equiv> 2014"
abbreviation SW_DAYBITS_INVALID :: nat where "SW_DAYBITS_INVALID \<equiv> 2017"
abbreviation SW_DAYBITS_MUST_BE_AN_INTEGER :: nat where "SW_DAYBITS_MUST_BE_AN_INTEGER \<equiv> 2018"
abbreviation SW_DELTA_MUST_BE_BETWEEN :: nat where "SW_DELTA_MUST_BE_BETWEEN \<equiv> 2019"
abbreviation SW_DELTA_MUST_BE_AN_INTEGER :: nat where "SW_DELTA_MUST_BE_AN_INTEGER \<equiv> 2020"
abbreviation SW_FREQUENCY_INDEX_TOO_GREAT :: nat where "SW_FREQUENCY_INDEX_TOO_GREAT \<equiv> 2023"
abbreviation SW_FREQUENCY_MUST_BE_AN_INTEGER :: nat where "SW_FREQUENCY_MUST_BE_AN_INTEGER \<equiv> 2024"
abbreviation SW_NEED_DAYBITS_WHEN_FREQ_IS_EVERY_WEEK :: nat where "SW_NEED_DAYBITS_WHEN_FREQ_IS_EVERY_WEEK \<equiv> 2031"
abbreviation SW_NEED_FREQ_EVERY_WEEK_WITH_DAYBITS :: nat where "SW_NEED_FREQ_EVERY_WEEK_WITH_DAYBITS \<equiv> 2032"
abbreviation SW_NO_SCENE_ID_FIELD :: nat where "SW_NO_SCENE_ID_FIELD \<equiv> 2039"
abbreviation SW_SCENE_ID_MUST_BE_AN_INTEGER :: nat where "SW_SCENE_ID_MUST_BE_AN_INTEGER \<equiv> 2075"
abbreviation SW_SCENE_ID_DOES_NOT_EXIST :: nat where "SW_SCENE_ID_DOES_NOT_EXIST \<equiv> 2076"
abbreviation SW_SCENE_ID_MUST_BE_LESS_THEN :: nat where "SW_SCENE_ID_MUST_BE_LESS_THEN \<equiv> 2077"
abbreviation SW_SKIP_MUST_BE_BOOLEAN :: nat where "SW_SKIP_MUST_BE_BOOLEAN \<equiv> 2081"
abbreviation SW_TRIGGER_INDEX_TOO_GREAT :: nat where "SW_TRIGGER_INDEX_TOO_GREAT \<equiv> 2085"
abbreviation SW_TRIGGER_TIME_MUST_BE_INTEGER :: nat where "SW_TRIGGER_TIME_MUST_BE_INTEGER \<equiv> 2086"
abbreviation SW_TRIGGER_TYPE_MUST_BE_INTEGER :: nat where "SW_TRIGGER_TYPE_MUST_BE_INTEGER \<equiv> 2087"
abbreviation SW_UNABLE_TO_GET_PROPERTIES_FOR_SCENE :: nat where "SW_UNABLE_TO_GET_PROPERTIES_FOR_SCENE \<equiv> 2088"
abbreviation SW_ZONE_LIST_HAS_TO_BE_AN_ARRAY :: nat where "SW_ZONE_LIST_HAS_TO_BE_AN_ARRAY \<equiv> 2094"
abbreviation SW_ZONE_LIST_COULD_NOT_GET_PROPERTIES_FOR_ZONE_ID :: nat where "SW_ZONE_LIST_COULD_NOT_GET_PROPERTIES_FOR_ZONE_ID \<equiv> 2095"
abbreviation SW_ZONE_LIST_POWER_LEVEL_MUST_BE_BETWEEN :: nat where "SW_ZONE_LIST_POWER_LEVEL_MUST_BE_BETWEEN \<equiv> 2096"
abbreviation SW_ZONE_LIST_POWER_LEVEL_MUST_BE_AN_INTEGER :: nat where "SW_ZONE_LIST_POWER_LEVEL_MUST_BE_AN_INTEGER \<equiv> 2097"
abbreviation SW_ZONE_LIST_RAMP_RATE_MUST_BE_BETWEEN :: nat where "SW_ZONE_LIST_RAMP_RATE_MUST_BE_BETWEEN \<equiv> 2098"
abbreviation SW_ZONE_LIST_RAMP_RATE_MUST_BE_AN_INTEGER :: nat where "SW_ZONE_LIST_RAMP_RATE_MUST_BE_AN_INTEGER \<equiv> 2099"
abbreviation SW_ZONE_LIST_STATE_MUST_BE_BOOLEAN :: nat where "SW_ZONE_LIST_STATE_MUST_BE_BOOLEAN \<equiv> 2100"
abbreviation SW_ZONE_LIST_ZONE_ID_DOES_NOT_EXIST :: nat where "SW_ZONE_LIST_ZONE_ID_DOES_NOT_EXIST \<equiv> 2101"
abbreviation SW_ZONE_LIST_ZONE_ID_DUPLICATE :: nat where "SW_ZONE_LIST_ZONE_ID_DUPLICATE \<equiv> 2102"
abbreviation SW_ZONE_LIST_ZONE_ID_MUST_BE_INTEGER :: nat where "SW_ZONE_LIST_ZONE_ID_MUST_BE_INTEGER \<equiv> 2103"
abbreviation SW_ZONE_LIST_ZONE_ID_MUST_BE_LESS_THEN :: nat where "SW_ZONE_LIST_ZONE_ID_MUST_BE_LESS_THEN \<equiv> 2104"

subsection \<open>The list of zones of a scene\<close>

text \<open>The comparison with the later elements: \<open>zoneId\<close> is a byte, the other side is not.\<close>

fun find_duplicate :: "byte \<Rightarrow> json list \<Rightarrow> nat option" where
  "find_duplicate zoneId [] = None"
| "find_duplicate zoneId (element # elements) =
     (let zoneListObject = json_object_get (Some element) ''ZID''
      in if \<not> json_is_integer zoneListObject then Some SW_ZONE_LIST_ZONE_ID_MUST_BE_INTEGER
         else if uint zoneId = json_integer_value zoneListObject then Some SW_ZONE_LIST_ZONE_ID_DUPLICATE
         else find_duplicate zoneId elements)"

fun check_zone_ids :: "environment \<Rightarrow> lcm \<Rightarrow> json list \<Rightarrow> nat option" where
  "check_zone_ids env l [] = None"
| "check_zone_ids env l (element # elements) =
     (let zoneListObject = json_object_get (Some element) ''ZID'';
          zoneId = word_of_int (json_integer_value zoneListObject) :: byte;
          (found, z) = get_zone l (unat zoneId) (stack_zone env)
      in if \<not> json_is_integer zoneListObject then Some SW_ZONE_LIST_ZONE_ID_MUST_BE_INTEGER
         else if \<not> found then Some SW_ZONE_LIST_COULD_NOT_GET_PROPERTIES_FOR_ZONE_ID
         else if zp_ZoneNameString z ! 0 = 0 then Some SW_ZONE_LIST_ZONE_ID_DOES_NOT_EXIST
         else case find_duplicate zoneId elements of
                Some code \<Rightarrow> Some code
              | None \<Rightarrow> check_zone_ids env l elements)"

text \<open>One element: what it sets of the entry \<open>k\<close>, up to the first error.\<close>

definition set_entry :: "bool \<Rightarrow> nat \<Rightarrow> (zone_in_scene \<Rightarrow> zone_in_scene) \<Rightarrow> scene_properties \<Rightarrow> scene_properties" where
  "set_entry setFlag k f p = (if setFlag then p\<lparr>sp_zoneData := (sp_zoneData p)[k := f (sp_zoneData p ! k)]\<rparr> else p)"

definition verify_entry :: "bool \<Rightarrow> nat \<Rightarrow> json \<Rightarrow> scene_properties \<Rightarrow> nat option \<times> scene_properties" where
  "verify_entry setFlag k element p =
     (let zid = json_object_get (Some element) ''ZID''; lvl = json_object_get (Some element) ''Lvl'';
          rr = json_object_get (Some element) ''RR''; st = json_object_get (Some element) ''St''
      in if \<not> json_is_integer zid then (Some SW_ZONE_LIST_ZONE_ID_MUST_BE_INTEGER, p)
         else if int MAX_NUMBER_OF_ZONES \<le> json_integer_value zid then (Some SW_ZONE_LIST_ZONE_ID_MUST_BE_LESS_THEN, p)
         else
           let p = set_entry setFlag k (\<lambda>e. e\<lparr>zs_zoneId := word_of_int (json_integer_value zid)\<rparr>) p
           in if lvl \<noteq> None \<and> \<not> json_is_integer lvl then (Some SW_ZONE_LIST_POWER_LEVEL_MUST_BE_AN_INTEGER, p)
              else if lvl \<noteq> None \<and> (MAX_POWER_LEVEL < json_integer_value lvl \<or> json_integer_value lvl = 0)
              then (Some SW_ZONE_LIST_POWER_LEVEL_MUST_BE_BETWEEN, p)
              else
                let p = (if lvl \<noteq> None
                         then set_entry setFlag k (\<lambda>e. e\<lparr>zs_powerLevel := word_of_int (json_integer_value lvl)\<rparr>) p else p)
                in if rr \<noteq> None \<and> \<not> json_is_integer rr then (Some SW_ZONE_LIST_RAMP_RATE_MUST_BE_AN_INTEGER, p)
                   else if rr \<noteq> None \<and> (MAX_RAMP_RATE < json_integer_value rr \<or> json_integer_value rr < 0)
                   then (Some SW_ZONE_LIST_RAMP_RATE_MUST_BE_BETWEEN, p)
                   else
                     let p = (if rr \<noteq> None
                              then set_entry setFlag k (\<lambda>e. e\<lparr>zs_rampRate := word_of_int (json_integer_value rr)\<rparr>) p else p)
                     in if st \<noteq> None \<and> \<not> json_is_boolean st then (Some SW_ZONE_LIST_STATE_MUST_BE_BOOLEAN, p)
                        else (None, if st \<noteq> None
                              then set_entry setFlag k (\<lambda>e. e\<lparr>zs_state := of_bool (json_is_true st)\<rparr>) p else p))"

fun verify_entries :: "bool \<Rightarrow> nat \<Rightarrow> json list \<Rightarrow> scene_properties \<Rightarrow> nat option \<times> scene_properties" where
  "verify_entries setFlag k [] p = (None, p)"
| "verify_entries setFlag k (element # elements) p =
     (let (err, p) = verify_entry setFlag k element p
      in if err \<noteq> None then (err, p) else verify_entries setFlag (k + 1) elements p)"

definition empty_entry :: zone_in_scene where
  "empty_entry = \<lparr>zs_zoneId = 0xFF, zs_powerLevel = 0, zs_rampRate = 50, zs_state = 0\<rparr>"

definition VerifySceneZoneList ::
  "environment \<Rightarrow> lcm \<Rightarrow> json \<Rightarrow> bool \<Rightarrow> scene_properties \<Rightarrow> nat option \<times> scene_properties" where
  "VerifySceneZoneList env l v setFlag p =
     (let zoneArraySize = json_array_size (Some v); elements = json_elements (Some v)
      in if zoneArraySize = 0 then (Some USR_NO_ELEMENTS_IN_ZoneList_ARRAY, p)
         else if MAX_ZONES_IN_SCENE < zoneArraySize then (Some USR_TOO_MANY_ZONES_IN_THE_SCENE, p)
         else if \<not> setFlag \<and> check_zone_ids env l elements \<noteq> None then (check_zone_ids env l elements, p)
         else
           let p = (if setFlag
                    then p\<lparr>sp_zoneData := replicate MAX_ZONES_IN_SCENE empty_entry, sp_numZonesInScene := of_nat zoneArraySize\<rparr>
                    else p)
           in verify_entries setFlag 0 elements p)"

subsection \<open>Properties of a scene\<close>

text \<open>The comparison of the one-bit field \<open>spare7\<close> with 0x80 never holds.\<close>

definition CheckFreqDaybits :: "json option \<Rightarrow> nat option" where
  "CheckFreqDaybits list =
     (let f = json_object_get list ''Frequency''; d = json_object_get list ''DayBits'';
          freq = (if f = None then NONE else word_of_int (json_integer_value f));
          days = word_of_int (json_integer_value d) :: byte
      in if f \<noteq> None \<and> \<not> json_is_integer f then Some SW_FREQUENCY_MUST_BE_AN_INTEGER
         else if f \<noteq> None \<and> EVERY_WEEK < freq then Some SW_FREQUENCY_INDEX_TOO_GREAT
         else if d \<noteq> None \<and> \<not> json_is_integer d then Some SW_DAYBITS_MUST_BE_AN_INTEGER
         else if d \<noteq> None \<and> days = 0 then Some SW_DAYBITS_INVALID
         else if freq = EVERY_WEEK then if d = None then Some SW_NEED_DAYBITS_WHEN_FREQ_IS_EVERY_WEEK else None
         else if d \<noteq> None then Some SW_NEED_FREQ_EVERY_WEEK_WITH_DAYBITS
         else None)"

record scene_request =
  sq_scene :: scene_properties
  sq_list :: json
  sq_response :: response
  sq_nameChange :: bool

definition refuse_scene :: "nat \<Rightarrow> scene_request \<Rightarrow> memory_error + bool \<times> scene_request" where
  "refuse_scene code q = Inr (True, q\<lparr>sq_response := BuildErrorResponse code (sq_response q)\<rparr>)"

definition accept_scene :: "bool \<Rightarrow> (scene_properties \<Rightarrow> scene_properties) \<Rightarrow> scene_request \<Rightarrow> memory_error + bool \<times> scene_request" where
  "accept_scene setFlag f q = Inr (False, if setFlag then q\<lparr>sq_scene := f (sq_scene q)\<rparr> else q)"

definition HandleIndividualSceneProperty ::
  "environment \<Rightarrow> lcm \<Rightarrow> bool \<Rightarrow> string \<Rightarrow> json \<Rightarrow> scene_request \<Rightarrow> memory_error + bool \<times> scene_request" where
  "HandleIndividualSceneProperty env l setFlag key v q =
     (let n = json_integer_value (Some v); b = word_of_int n :: byte; t = word_of_int n :: dword_t in
      if key = ''Name'' then
        if \<not> json_is_string (Some v) then refuse_scene SW_PROPERTY_LIST_NAME_MUST_BE_A_STRING q
        else if setFlag then
          bind_sum (SanitizeJsonStringObject (stack_name env) v) (\<lambda>v.
          Inr (False, q\<lparr>sq_scene := (sq_scene q)\<lparr>sp_SceneNameString := set_name (sp_SceneNameString (sq_scene q)) v\<rparr>,
                        sq_list := json_object_set (sq_list q) key v, sq_nameChange := True\<rparr>))
        else Inr (False, q)
      else if key = ''ZoneList'' then
        if \<not> json_is_array (Some v) then refuse_scene SW_ZONE_LIST_HAS_TO_BE_AN_ARRAY q
        else
          let (err, p) = VerifySceneZoneList env l v setFlag (sq_scene q); q = q\<lparr>sq_scene := p\<rparr>
          in case err of None \<Rightarrow> Inr (False, q) | Some code \<Rightarrow> refuse_scene code q
      else if key = ''TriggerTime'' then
        if \<not> json_is_integer (Some v) then refuse_scene SW_TRIGGER_TIME_MUST_BE_INTEGER q
        else accept_scene setFlag (\<lambda>p. p\<lparr>sp_nextTriggerTime := t - t mod 60\<rparr>) q
      else if key = ''Frequency'' then
        if \<not> json_is_integer (Some v) then refuse_scene SW_FREQUENCY_MUST_BE_AN_INTEGER q
        else if EVERY_WEEK < b then refuse_scene SW_FREQUENCY_INDEX_TOO_GREAT q
        else accept_scene setFlag (\<lambda>p. p\<lparr>sp_freq := b\<rparr>) q
      else if key = ''DayBits'' then
        if \<not> json_is_integer (Some v) then refuse_scene SW_DAYBITS_MUST_BE_AN_INTEGER q
        else if 0x80 \<le> b \<or> b = 0 then refuse_scene SW_DAYBITS_INVALID q
        else accept_scene setFlag (\<lambda>p. p\<lparr>sp_days := b\<rparr>) q
      else if key = ''TriggerType'' then
        if \<not> json_is_integer (Some v) then refuse_scene SW_TRIGGER_TYPE_MUST_BE_INTEGER q
        else if SUNSET < b then refuse_scene SW_TRIGGER_INDEX_TOO_GREAT q
        else accept_scene setFlag (\<lambda>p. p\<lparr>sp_trigger := b\<rparr>) q
      else if key = ''Delta'' then
        if \<not> json_is_integer (Some v) then refuse_scene SW_DELTA_MUST_BE_AN_INTEGER q
        else if MAX_DELTA_VALUE < n \<or> n < MIN_DELTA_VALUE then refuse_scene SW_DELTA_MUST_BE_BETWEEN q
        else accept_scene setFlag (\<lambda>p. p\<lparr>sp_delta := b\<rparr>) q
      else if key = ''Skip'' then
        if \<not> json_is_boolean (Some v) then refuse_scene SW_SKIP_MUST_BE_BOOLEAN q
        else accept_scene setFlag (\<lambda>p. p\<lparr>sp_skipNext := of_bool (json_is_true (Some v))\<rparr>) q
      else refuse_scene SW_INVALID_PROPERTY_IN_LIST q)"

text \<open>Checking and executing the list, as creating a scene and setting its properties do it.\<close>

definition scene_property_passes ::
  "environment \<Rightarrow> lcm \<Rightarrow> json option \<Rightarrow> scene_properties \<Rightarrow> memory_error + bool \<times> scene_request" where
  "scene_property_passes env l list p =
     (let q = \<lparr>sq_scene = p, sq_list = the list, sq_response = None, sq_nameChange = False\<rparr>; ps = json_pairs list
      in bind_sum (each_property (HandleIndividualSceneProperty env l False) ps False q) (\<lambda>(errorFlag, q).
           if errorFlag then Inr (True, q)
           else each_property (HandleIndividualSceneProperty env l True) ps False q))"

text \<open>What the environment of a request adds here: \<open>getNextSunTimes\<close>, the uninitialised times and the clock.\<close>

record trigger_inputs =
  ti_sunTimes :: "date_struct \<Rightarrow> bool \<Rightarrow> date_struct"
  ti_junk :: dword_t
  ti_currentTime :: time_struct

type_synonym scene_answer = "(memory_error + response \<times> json option \<times> lcm) option"

definition scene_broadcast :: "json \<Rightarrow> json \<Rightarrow> dword_t \<Rightarrow> dword_t \<Rightarrow> json" where
  "scene_broadcast root list nextTriggerTime appContextId =
     (let root = json_object_set root ''PropertyList''
            (json_object_set list ''TriggerTime'' (JSON_INTEGER (uint nextTriggerTime)));
          root = json_object_set root ''ID'' (JSON_INTEGER 0);
          root = json_object_set root ''Status'' (JSON_STRING (bytes_of ''Success''));
          root = (if appContextId \<noteq> 0 then json_object_set root ''AppContextId'' (JSON_INTEGER (uint appContextId)) else root)
      in json_object_set root ''Service'' (JSON_STRING (bytes_of ''ScenePropertiesChanged'')))"

definition finish_scene_request ::
  "environment \<Rightarrow> trigger_inputs \<Rightarrow> nat \<Rightarrow> json \<Rightarrow> scene_request \<Rightarrow> lcm \<Rightarrow> scene_answer" where
  "finish_scene_request env ti sceneIndex root q l =
     map_option (\<lambda>p.
       bind_sum (set_scene env sceneIndex p l) (\<lambda>l.
         let l = (if sq_nameChange q \<and> sp_EliotDeviceId p ! 0 \<noteq> 0 then emit (EliotRenameScene sceneIndex) l else l);
             (r, appContextId) = app_context (Some root) (sq_response q)
         in Inr (r, Some (scene_broadcast root (sq_list q) (sp_nextTriggerTime p) appContextId), l)))
     (calculateNewTrigger (ti_sunTimes ti) (ti_junk ti) (sq_scene q) (ti_currentTime ti))"

text \<open>An error value of a step that may fail ends the request.\<close>

fun after_passes :: "memory_error + bool \<times> scene_request \<Rightarrow> lcm \<Rightarrow> (scene_request \<Rightarrow> scene_answer) \<Rightarrow> scene_answer" where
  "after_passes (Inl e) l f = Some (Inl e)"
| "after_passes (Inr (errorFlag, q)) l f = (if errorFlag then Some (Inr (sq_response q, None, l)) else f q)"

definition set_scene_properties ::
  "environment \<Rightarrow> trigger_inputs \<Rightarrow> nat \<Rightarrow> scene_properties \<Rightarrow> json \<Rightarrow> lcm \<Rightarrow> scene_answer" where
  "set_scene_properties env ti sceneIndex p root l =
     (let list = json_object_get (Some root) ''PropertyList''
      in if \<not> json_is_object list then Some (Inr (BuildErrorResponse SW_INVALID_PROPERTY_LIST None, None, l))
         else case CheckFreqDaybits list of
                Some code \<Rightarrow> Some (Inr (BuildErrorResponse code None, None, l))
              | None \<Rightarrow> after_passes (scene_property_passes env l list p) l
                          (\<lambda>q. finish_scene_request env ti sceneIndex root q l))"

definition HandleSetSceneProperties :: "environment \<Rightarrow> trigger_inputs \<Rightarrow> json \<Rightarrow> lcm \<Rightarrow> scene_answer" where
  "HandleSetSceneProperties env ti root l =
     (let sceneObject = json_object_get (Some root) ''SID'';
          n = json_integer_value sceneObject;
          sceneIndex = unat (word_of_int n :: byte)
      in if sceneObject = None then Some (Inr (BuildErrorResponse SW_NO_SCENE_ID_FIELD None, None, l))
         else if \<not> json_is_integer sceneObject then Some (Inr (BuildErrorResponse SW_SCENE_ID_MUST_BE_AN_INTEGER None, None, l))
         else if int MAX_NUMBER_OF_SCENES \<le> n then Some (Inr (BuildErrorResponse SW_SCENE_ID_MUST_BE_LESS_THEN None, None, l))
         else case get_scene l sceneIndex (stack_scene env) of
                Inl e \<Rightarrow> Some (Inl e)
              | Inr (found, p) \<Rightarrow>
                  if \<not> found
                  then Some (Inr (BuildErrorResponse SW_COULD_NOT_GET_SCENE_PROPERTIES_FOR_SCENE_INDEX None, None, l))
                  else set_scene_properties env ti sceneIndex p root l)"

subsection \<open>Creating a scene\<close>

text \<open>Four fields are set; the others are what the stack held.\<close>

definition new_scene :: "scene_properties \<Rightarrow> scene_properties" where
  "new_scene stack = stack\<lparr>sp_running := 0, sp_skipNext := 0, sp_numZonesInScene := 0,
     sp_SceneNameString := replicate MAX_SIZE_NAME_STRING 0\<rparr>"

definition scene_created :: "nat \<Rightarrow> dword_t \<Rightarrow> json" where
  "scene_created sceneIndex appContextId =
     JSON_OBJECT ([(''ID'', JSON_INTEGER 0), (''SID'', JSON_INTEGER (int sceneIndex)),
       (''Service'', JSON_STRING (bytes_of ''SceneCreated'')), (''Status'', JSON_STRING (bytes_of ''Success''))] @
       (if appContextId \<noteq> 0 then [(''AppContextId'', JSON_INTEGER (uint appContextId))] else []))"

definition create_scene ::
  "environment \<Rightarrow> trigger_inputs \<Rightarrow> nat \<Rightarrow> json \<Rightarrow> scene_request \<Rightarrow> lcm \<Rightarrow> scene_answer" where
  "create_scene env ti sceneIndex root q l =
     (let (r, appContextId) = app_context (Some root) (sq_response q);
          b = (if json_object_ok env 7666 then Some (scene_created sceneIndex appContextId) else None)
      in map_option (\<lambda>p.
           bind_sum (set_scene env sceneIndex p l) (\<lambda>l. Inr (r, b, emit (EliotAddScene sceneIndex) l)))
         (calculateNewTrigger (ti_sunTimes ti) (ti_junk ti) (sq_scene q) (ti_currentTime ti)))"

definition HandleCreateScene :: "environment \<Rightarrow> trigger_inputs \<Rightarrow> json \<Rightarrow> lcm \<Rightarrow> scene_answer" where
  "HandleCreateScene env ti root l =
     (let sceneIndex = GetAvailableSceneIndex (scene_part l); list = json_object_get (Some root) ''PropertyList''
      in if sceneIndex < MAX_NUMBER_OF_SCENES then
           if \<not> json_is_object list then Some (Inr (BuildErrorResponse SW_INVALID_PROPERTY_LIST None, None, l))
           else case CheckFreqDaybits list of
                  Some code \<Rightarrow> Some (Inr (BuildErrorResponse code None, None, l))
                | None \<Rightarrow> after_passes (scene_property_passes env l list (new_scene (stack_scene env))) l
                            (\<lambda>q. create_scene env ti sceneIndex root q l)
         else Some (Inr (BuildErrorResponse USR_NO_SPACE_LEFT_FOR_SCENE_ADDITION None, None, l)))"

subsection \<open>Deleting a scene\<close>

text \<open>The banks of one scene controller; an assignment is sent with the id that is already cleared.\<close>

abbreviation NO_SCENE :: byte where "NO_SCENE \<equiv> 0xFF"

fun unassign_banks ::
  "environment \<Rightarrow> byte \<Rightarrow> nat list \<Rightarrow> scene_controller_properties \<times> bool \<times> lcm \<Rightarrow> scene_controller_properties \<times> bool \<times> lcm" where
  "unassign_banks env sceneIndex [] s = s"
| "unassign_banks env sceneIndex (k # ks) (c, changeFlag, l) =
     unassign_banks env sceneIndex ks
       (if bk_sceneId (sc_bank c ! k) = sceneIndex then
          let c = c\<lparr>sc_bank := (sc_bank c)[k := (sc_bank c ! k)\<lparr>bk_sceneId := NO_SCENE\<rparr>]\<rparr>
          in (c, True, snd (SendAssignSceneCommandToTransmitTask env (Some c) k 0 l))
        else (c, changeFlag, l))"

text \<open>\<open>changeFlag\<close> and the local properties pass from one controller to the next.\<close>

definition unassign_controller ::
  "environment \<Rightarrow> byte \<Rightarrow> nat \<Rightarrow> scene_controller_properties \<times> bool \<times> lcm \<Rightarrow> scene_controller_properties \<times> bool \<times> lcm" where
  "unassign_controller env sceneIndex i = (\<lambda>(c, changeFlag, l).
     let (found, c) = get_controller l i c
     in if found \<and> sc_NameString c ! 0 \<noteq> 0 then
          let (c, changeFlag, l) = unassign_banks env sceneIndex [0..<MAX_SCENES_IN_SCENE_CONTROLLER] (c, changeFlag, l)
          in (c, changeFlag, if changeFlag then set_controller env i c l else l)
        else (c, changeFlag, l))"

definition DeleteSceneFromSceneController :: "environment \<Rightarrow> byte \<Rightarrow> lcm \<Rightarrow> lcm" where
  "DeleteSceneFromSceneController env sceneIndex l =
     snd (snd (fold (unassign_controller env sceneIndex) [0..<MAX_NUMBER_OF_SCENE_CONTROLLERS] (stack_controller env, False, l)))"

definition scene_deleted :: "nat \<Rightarrow> dword_t \<Rightarrow> json" where
  "scene_deleted sceneIndex appContextId =
     JSON_OBJECT ([(''ID'', JSON_INTEGER 0), (''SID'', JSON_INTEGER (int sceneIndex)),
       (''Service'', JSON_STRING (bytes_of ''SceneDeleted'')), (''Status'', JSON_STRING (bytes_of ''Success''))] @
       (if appContextId \<noteq> 0 then [(''AppContextId'', JSON_INTEGER (uint appContextId))] else []))"

definition delete_scene ::
  "environment \<Rightarrow> byte \<Rightarrow> scene_properties \<Rightarrow> json \<Rightarrow> lcm \<Rightarrow> memory_error + response \<times> json option \<times> lcm" where
  "delete_scene env sceneIndex p root l =
     (let l = (if sp_EliotDeviceId p ! 0 \<noteq> 0 then emit (EliotDeleteDevice (cstr ELIOT_DEVICE_ID_SIZE (sp_EliotDeviceId p))) l else l)
      in bind_sum (set_scene env (unat sceneIndex) (clear_scene_name p) l) (\<lambda>l.
         let (r, appContextId) = app_context (Some root) None;
             l = DeleteSceneFromSceneController env sceneIndex l
         in Inr (r, if json_object_ok env 7815 then Some (scene_deleted (unat sceneIndex) appContextId) else None, l)))"

definition HandleDeleteScene :: "environment \<Rightarrow> json \<Rightarrow> lcm \<Rightarrow> memory_error + response \<times> json option \<times> lcm" where
  "HandleDeleteScene env root l =
     (let sceneObject = json_object_get (Some root) ''SID'';
          sceneIndex = word_of_int (json_integer_value sceneObject) :: byte
      in if sceneObject = None then Inr (BuildErrorResponse SW_NO_SCENE_ID_FIELD None, None, l)
         else if \<not> json_is_integer sceneObject then Inr (BuildErrorResponse SW_SCENE_ID_MUST_BE_AN_INTEGER None, None, l)
         else if MAX_NUMBER_OF_SCENES \<le> unat sceneIndex then Inr (BuildErrorResponse SW_SCENE_ID_MUST_BE_LESS_THEN None, None, l)
         else bind_sum (get_scene l (unat sceneIndex) (stack_scene env)) (\<lambda>(found, p).
           if \<not> found then Inr (BuildErrorResponse SW_COULD_NOT_GET_SCENE_PROPERTIES_FOR_ZONE None, None, l)
           else if sp_SceneNameString p ! 0 = 0 then Inr (BuildErrorResponse SW_SCENE_ID_DOES_NOT_EXIST None, None, l)
           else delete_scene env sceneIndex p root l))"

subsection \<open>Running a scene\<close>

text \<open>A missing id is reported as one that is not an integer: the second error replaces the first.\<close>

definition HandleRunScene :: "environment \<Rightarrow> json \<Rightarrow> lcm \<Rightarrow> memory_error + response \<times> lcm" where
  "HandleRunScene env root l =
     (let sceneObject = json_object_get (Some root) ''SID'';
          n = json_integer_value sceneObject;
          sceneIndex = word_of_int n :: byte;
          r = (if sceneObject = None then BuildErrorResponse SW_NO_SCENE_ID_FIELD None else None)
      in if \<not> (json_is_integer sceneObject \<and> r = None) then Inr (BuildErrorResponse SW_SCENE_ID_MUST_BE_AN_INTEGER r, l)
         else if int MAX_NUMBER_OF_SCENES \<le> n then Inr (BuildErrorResponse SW_SCENE_ID_MUST_BE_LESS_THEN r, l)
         else bind_sum (get_scene l (unat sceneIndex) (stack_scene env)) (\<lambda>(found, p).
           if \<not> found then Inr (BuildErrorResponse SW_UNABLE_TO_GET_PROPERTIES_FOR_SCENE r, l)
           else if sp_SceneNameString p ! 0 = 0 then Inr (BuildErrorResponse SW_SCENE_ID_DOES_NOT_EXIST r, l)
           else
             let (r, appContextId) = app_context (Some root) r
             in bind_sum (ExecuteScene env sceneIndex p appContextId True 0 1 0 l) (\<lambda>(p, l).
                bind_sum (set_scene env (unat sceneIndex) p l) (\<lambda>l. Inr (r, l)))))"

subsection \<open>What a list of zones stores\<close>

text \<open>The errors of the two loops over the elements, and the entry an element stands for.\<close>

fun list_error :: "('a \<Rightarrow> nat option) \<Rightarrow> 'a list \<Rightarrow> nat option" where
  "list_error err [] = None"
| "list_error err (x # xs) = (case err x of None \<Rightarrow> list_error err xs | Some code \<Rightarrow> Some code)"

fun zone_ids_error :: "(nat \<Rightarrow> zone_properties option) \<Rightarrow> json list \<Rightarrow> nat option" where
  "zone_ids_error Z [] = None"
| "zone_ids_error Z (element # elements) =
     (let zid = json_object_get (Some element) ''ZID''; zoneId = word_of_int (json_integer_value zid) :: byte
      in if \<not> json_is_integer zid then Some SW_ZONE_LIST_ZONE_ID_MUST_BE_INTEGER
         else if Z (unat zoneId) = None then Some SW_ZONE_LIST_COULD_NOT_GET_PROPERTIES_FOR_ZONE_ID
         else case find_duplicate zoneId elements of
                Some code \<Rightarrow> Some code
              | None \<Rightarrow> zone_ids_error Z elements)"

definition entry_error :: "json \<Rightarrow> nat option" where
  "entry_error element =
     (let zid = json_object_get (Some element) ''ZID''; lvl = json_object_get (Some element) ''Lvl'';
          rr = json_object_get (Some element) ''RR''; st = json_object_get (Some element) ''St''
      in if \<not> json_is_integer zid then Some SW_ZONE_LIST_ZONE_ID_MUST_BE_INTEGER
         else if int MAX_NUMBER_OF_ZONES \<le> json_integer_value zid then Some SW_ZONE_LIST_ZONE_ID_MUST_BE_LESS_THEN
         else if lvl \<noteq> None \<and> \<not> json_is_integer lvl then Some SW_ZONE_LIST_POWER_LEVEL_MUST_BE_AN_INTEGER
         else if lvl \<noteq> None \<and> (MAX_POWER_LEVEL < json_integer_value lvl \<or> json_integer_value lvl = 0)
         then Some SW_ZONE_LIST_POWER_LEVEL_MUST_BE_BETWEEN
         else if rr \<noteq> None \<and> \<not> json_is_integer rr then Some SW_ZONE_LIST_RAMP_RATE_MUST_BE_AN_INTEGER
         else if rr \<noteq> None \<and> (MAX_RAMP_RATE < json_integer_value rr \<or> json_integer_value rr < 0)
         then Some SW_ZONE_LIST_RAMP_RATE_MUST_BE_BETWEEN
         else if st \<noteq> None \<and> \<not> json_is_boolean st then Some SW_ZONE_LIST_STATE_MUST_BE_BOOLEAN
         else None)"

definition entry_of :: "json \<Rightarrow> zone_in_scene" where
  "entry_of element =
     (let zid = json_object_get (Some element) ''ZID''; lvl = json_object_get (Some element) ''Lvl'';
          rr = json_object_get (Some element) ''RR''; st = json_object_get (Some element) ''St''
      in \<lparr>zs_zoneId = word_of_int (json_integer_value zid), zs_powerLevel = word_of_int (json_integer_value lvl),
          zs_rampRate = (if rr = None then 50 else word_of_int (json_integer_value rr)), zs_state = of_bool (json_is_true st)\<rparr>)"

definition zone_list_error :: "(nat \<Rightarrow> zone_properties option) \<Rightarrow> json list \<Rightarrow> nat option" where
  "zone_list_error Z elements =
     (if elements = [] then Some USR_NO_ELEMENTS_IN_ZoneList_ARRAY
      else if MAX_ZONES_IN_SCENE < length elements then Some USR_TOO_MANY_ZONES_IN_THE_SCENE
      else case zone_ids_error Z elements of Some code \<Rightarrow> Some code | None \<Rightarrow> list_error entry_error elements)"

lemma list_error_None: "list_error err xs = None \<longleftrightarrow> (\<forall>x \<in> set xs. err x = None)"
  by (induction xs) (auto split: option.splits)

lemma check_zone_ids_map:
  assumes "good_env env" "lcm_inv l"
  shows "check_zone_ids env l elements = zone_ids_error (zone_of l) elements"
proof (induction elements)
  case (Cons e es)
  let ?i = "unat (word_of_int (json_integer_value (json_object_get (Some e) ''ZID'')) :: byte)"
  show ?case
  proof (cases "zone_of l ?i")
    case None
    then show ?thesis using get_zone_none [OF None] Cons by (simp add: Let_def)
  next
    case (Some z)
    obtain p where "get_zone l ?i (stack_zone env) = (True, p)" "zp_ZoneNameString p ! 0 \<noteq> 0"
      using get_zone_some [OF assms(2) Some good_envD(2) [OF assms(1)]] by metis
    then show ?thesis using Some Cons by (simp add: Let_def split: option.split)
  qed
qed simp

lemma set_entry_False [simp]: "set_entry False k f p = p"
  by (simp add: set_entry_def)

lemma verify_entry_check: "verify_entry False k e p = (entry_error e, p)"
  by (simp add: verify_entry_def entry_error_def Let_def)

lemma verify_entries_check: "verify_entries False k es p = (list_error entry_error es, p)"
  by (induction es arbitrary: k) (simp_all add: verify_entry_check split: option.split)

lemma verify_entry_set:
  assumes "entry_error e = None" "k < length (sp_zoneData p)" "sp_zoneData p ! k = empty_entry"
  shows "verify_entry True k e p = (None, p\<lparr>sp_zoneData := (sp_zoneData p)[k := entry_of e]\<rparr>)"
proof -
  let ?z = "sp_zoneData p"
  have k: "?z[k := x] ! k = x" "length (?z[k := x]) = length ?z" for x using assms(2) by simp_all
  obtain zid lvl rr st where g: "json_object_get (Some e) ''ZID'' = zid" "json_object_get (Some e) ''Lvl'' = lvl"
    "json_object_get (Some e) ''RR'' = rr" "json_object_get (Some e) ''St'' = st" by blast
  have ok: "json_is_integer zid" "json_integer_value zid < int MAX_NUMBER_OF_ZONES"
    "lvl = None \<or> json_is_integer lvl \<and> json_integer_value lvl \<le> MAX_POWER_LEVEL \<and> json_integer_value lvl \<noteq> 0"
    "rr = None \<or> json_is_integer rr \<and> json_integer_value rr \<le> MAX_RAMP_RATE \<and> 0 \<le> json_integer_value rr"
    "st = None \<or> json_is_boolean st"
    using assms(1) by (auto simp: entry_error_def g Let_def split: if_splits)
  have none: "json_integer_value None = 0" "json_is_true None = False" by simp_all
  show ?thesis
    using ok by (cases lvl; cases rr; cases st)
      (simp_all add: verify_entry_def set_entry_def entry_of_def g Let_def k assms(3) not_le not_less none empty_entry_def)
qed

lemma verify_entries_set:
  assumes "\<forall>e \<in> set es. entry_error e = None" "k + length es \<le> length (sp_zoneData p)"
    "\<forall>j. k \<le> j \<and> j < length (sp_zoneData p) \<longrightarrow> sp_zoneData p ! j = empty_entry"
  shows "verify_entries True k es p =
    (None, p\<lparr>sp_zoneData := take k (sp_zoneData p) @ map entry_of es @ drop (k + length es) (sp_zoneData p)\<rparr>)"
  using assms
proof (induction es arbitrary: k p)
  case (Cons e es)
  let ?p = "p\<lparr>sp_zoneData := (sp_zoneData p)[k := entry_of e]\<rparr>"
  have "verify_entry True k e p = (None, ?p)" using Cons.prems by (intro verify_entry_set) auto
  moreover have "verify_entries True (k + 1) es ?p =
      (None, ?p\<lparr>sp_zoneData := take (k + 1) (sp_zoneData ?p) @ map entry_of es @ drop (k + 1 + length es) (sp_zoneData ?p)\<rparr>)"
    using Cons.prems by (intro Cons.IH) auto
  ultimately show ?case using Cons.prems(2) by (simp add: take_Suc_conv_app_nth take_update_cancel)
qed simp

text \<open>Both passes over a list of zones.\<close>

lemma verify_list_check:
  assumes "good_env env" "lcm_inv l"
  shows "VerifySceneZoneList env l (JSON_ARRAY elements) False p = (zone_list_error (zone_of l) elements, p)"
  by (simp add: VerifySceneZoneList_def zone_list_error_def Let_def json_array_size_def check_zone_ids_map [OF assms]
      verify_entries_check split: option.split)

definition stored_zones :: "json list \<Rightarrow> scene_properties \<Rightarrow> scene_properties" where
  "stored_zones elements p = p\<lparr>sp_numZonesInScene := of_nat (length elements),
     sp_zoneData := map entry_of elements @ replicate (MAX_ZONES_IN_SCENE - length elements) empty_entry\<rparr>"

lemma verify_list_set:
  assumes "zone_list_error Z elements = None"
  shows "VerifySceneZoneList env l (JSON_ARRAY elements) True p = (None, stored_zones elements p)"
proof -
  have n: "elements \<noteq> []" "length elements \<le> 100" "\<forall>e \<in> set elements. entry_error e = None"
    using assms by (auto simp: zone_list_error_def list_error_None split: if_splits option.splits)
  let ?p = "p\<lparr>sp_zoneData := replicate 100 empty_entry, sp_numZonesInScene := of_nat (length elements)\<rparr>"
  have "verify_entries True 0 elements ?p =
      (None, ?p\<lparr>sp_zoneData := take 0 (sp_zoneData ?p) @ map entry_of elements @ drop (0 + length elements) (sp_zoneData ?p)\<rparr>)"
    using n by (intro verify_entries_set) auto
  then show ?thesis
    using n(1,2) by (simp add: VerifySceneZoneList_def Let_def json_array_size_def stored_zones_def)
qed

subsection \<open>Checking and executing\<close>

text \<open>The error a property is refused with, and what an accepted one does to a scene whose strings and list
  of zones are cut.\<close>

definition scene_property_error :: "(nat \<Rightarrow> zone_properties option) \<Rightarrow> string \<Rightarrow> json \<Rightarrow> nat option" where
  "scene_property_error Z key v =
     (let n = json_integer_value (Some v); b = word_of_int n :: byte;
          integer = (\<lambda>code err. if json_is_integer (Some v) then err else Some code)
      in if key = ''Name'' then if json_is_string (Some v) then None else Some SW_PROPERTY_LIST_NAME_MUST_BE_A_STRING
         else if key = ''ZoneList'' then
           if json_is_array (Some v) then zone_list_error Z (json_elements (Some v)) else Some SW_ZONE_LIST_HAS_TO_BE_AN_ARRAY
         else if key = ''TriggerTime'' then integer SW_TRIGGER_TIME_MUST_BE_INTEGER None
         else if key = ''Frequency'' then
           integer SW_FREQUENCY_MUST_BE_AN_INTEGER (if b \<le> EVERY_WEEK then None else Some SW_FREQUENCY_INDEX_TOO_GREAT)
         else if key = ''DayBits'' then
           integer SW_DAYBITS_MUST_BE_AN_INTEGER (if 0 < b \<and> b < 0x80 then None else Some SW_DAYBITS_INVALID)
         else if key = ''TriggerType'' then
           integer SW_TRIGGER_TYPE_MUST_BE_INTEGER (if b \<le> SUNSET then None else Some SW_TRIGGER_INDEX_TOO_GREAT)
         else if key = ''Delta'' then
           integer SW_DELTA_MUST_BE_AN_INTEGER
             (if MIN_DELTA_VALUE \<le> n \<and> n \<le> MAX_DELTA_VALUE then None else Some SW_DELTA_MUST_BE_BETWEEN)
         else if key = ''Skip'' then if json_is_boolean (Some v) then None else Some SW_SKIP_MUST_BE_BOOLEAN
         else Some SW_INVALID_PROPERTY_IN_LIST)"

text \<open>Everything but the name and the list of zones.\<close>

definition set_schedule :: "string \<Rightarrow> json \<Rightarrow> scene_properties \<Rightarrow> scene_properties" where
  "set_schedule key v s =
     (let n = json_integer_value (Some v); t = word_of_int n :: dword_t
      in if key = ''TriggerTime'' then s\<lparr>sp_nextTriggerTime := t - t mod 60\<rparr>
         else if key = ''Frequency'' then s\<lparr>sp_freq := word_of_int n\<rparr>
         else if key = ''DayBits'' then s\<lparr>sp_days := word_of_int n\<rparr>
         else if key = ''TriggerType'' then s\<lparr>sp_trigger := word_of_int n\<rparr>
         else if key = ''Delta'' then s\<lparr>sp_delta := word_of_int n\<rparr>
         else s\<lparr>sp_skipNext := of_bool (json_is_true (Some v))\<rparr>)"

definition scene_update :: "string \<Rightarrow> json \<Rightarrow> scene_properties \<Rightarrow> scene_properties" where
  "scene_update key v s =
     (if key = ''Name'' then s\<lparr>sp_SceneNameString := clean_name (json_string_value (Some v))\<rparr>
      else if key = ''ZoneList'' then
        s\<lparr>sp_numZonesInScene := of_nat (length (json_elements (Some v))), sp_zoneData := map entry_of (json_elements (Some v))\<rparr>
      else set_schedule key v s)"

definition execute_scene_property :: "string \<Rightarrow> json \<Rightarrow> scene_request \<Rightarrow> scene_request" where
  "execute_scene_property key v q =
     (let p = sq_scene q; name = JSON_STRING (clean_name (json_string_value (Some v))) in
      if key = ''Name'' then
        q\<lparr>sq_scene := p\<lparr>sp_SceneNameString := set_name (sp_SceneNameString p) name\<rparr>,
          sq_list := json_object_set (sq_list q) key name, sq_nameChange := True\<rparr>
      else if key = ''ZoneList'' then q\<lparr>sq_scene := stored_zones (json_elements (Some v)) p\<rparr>
      else q\<lparr>sq_scene := set_schedule key v p\<rparr>)"

lemma one_of_eight:
  obtains "key = a" | "key = b" | "key = c" | "key = d" | "key = e" | "key = f" | "key = g" | "key = h"
    | "key \<notin> {a, b, c, d, e, f, g, h}"
  by blast

lemmas scene_property_cases = one_of_eight [where a = "''Name''" and b = "''ZoneList''" and c = "''TriggerTime''"
  and d = "''Frequency''" and e = "''DayBits''" and f = "''TriggerType''" and g = "''Delta''" and h = "''Skip''"]

lemma json_is_arrayE: "json_is_array v \<Longrightarrow> \<exists>vs. v = Some (JSON_ARRAY vs)"
  by (cases v rule: json_is_array.cases) simp_all

lemma check_scene_property:
  assumes "good_env env" "lcm_inv l"
  shows "HandleIndividualSceneProperty env l False key v q =
     (case scene_property_error (zone_of l) key v of None \<Rightarrow> Inr (False, q) | Some code \<Rightarrow> refuse_scene code q)"
proof (cases key rule: scene_property_cases)
  case 2
  show ?thesis
  proof (cases "json_is_array (Some v)")
    case True
    then obtain vs where "v = JSON_ARRAY vs" using json_is_arrayE by auto
    then show ?thesis
      using 2 by (simp add: HandleIndividualSceneProperty_def scene_property_error_def Let_def verify_list_check [OF assms] split: option.split)
  qed (simp add: 2 HandleIndividualSceneProperty_def scene_property_error_def Let_def)
qed (auto simp: HandleIndividualSceneProperty_def scene_property_error_def accept_scene_def Let_def not_le not_less
      word_gt_0 split: option.split)

lemma execute_scene_property:
  assumes "scene_property_error Z key v = None"
    and "0 \<notin> set (json_string_value (Some v))" "length (stack_name env) = MAX_SIZE_NAME_STRING"
  shows "HandleIndividualSceneProperty env l True key v q = Inr (False, execute_scene_property key v q)"
proof (cases key rule: scene_property_cases)
  case 1
  then obtain s where "v = JSON_STRING s" using assms(1) json_is_stringE [of "Some v"] by (auto simp: scene_property_error_def split: if_splits)
  then show ?thesis
    using 1 SanitizeJsonStringObject_clean [OF _ assms(3), of s] assms(2)
    by (simp add: HandleIndividualSceneProperty_def execute_scene_property_def Let_def)
next
  case 2
  then obtain vs where "v = JSON_ARRAY vs" "zone_list_error Z vs = None"
    using assms(1) json_is_arrayE [of "Some v"] by (auto simp: scene_property_error_def split: if_splits)
  then show ?thesis
    using 2 verify_list_set [of Z vs] by (simp add: HandleIndividualSceneProperty_def execute_scene_property_def Let_def)
next
  case 9
  then show ?thesis using assms(1) by (simp add: scene_property_error_def)
qed (use assms(1) in \<open>simp add: HandleIndividualSceneProperty_def scene_property_error_def execute_scene_property_def
      set_schedule_def accept_scene_def Let_def not_le not_less word_gt_0 split: if_splits\<close>; fastforce)+

text \<open>On the scene itself: buffers stay buffers, and the cut scene is updated.\<close>

definition scene_buffers_ok :: "scene_properties \<Rightarrow> bool" where
  "scene_buffers_ok p \<longleftrightarrow> unat (sp_numZonesInScene p) \<le> MAX_ZONES_IN_SCENE \<and> length (sp_zoneData p) = MAX_ZONES_IN_SCENE \<and>
     length (sp_SceneNameString p) = MAX_SIZE_NAME_STRING \<and> 0 \<in> set (sp_SceneNameString p)"

lemma execute_scene_step:
  assumes "scene_property_error Z key v = None" "scene_buffers_ok (sq_scene q)"
  defines "q' \<equiv> execute_scene_property key v q"
  shows "scene_buffers_ok (sq_scene q')" "cut_scene (sq_scene q') = scene_update key v (cut_scene (sq_scene q))"
    "sp_EliotDeviceId (sq_scene q') = sp_EliotDeviceId (sq_scene q)" "sq_response q' = sq_response q"
    "sq_nameChange q' \<longleftrightarrow> sq_nameChange q \<or> key = ''Name''"
proof -
  have sched: "scene_buffers_ok (set_schedule key v p) = scene_buffers_ok p"
    "cut_scene (set_schedule key v p) = set_schedule key v (cut_scene p)"
    "sp_EliotDeviceId (set_schedule key v p) = sp_EliotDeviceId p" for p
    by (simp_all add: set_schedule_def scene_buffers_ok_def cut_scene_def Let_def)
  have n: "unat (of_nat (length vs) :: byte) = length vs" if "zone_list_error Z vs = None" for vs
    using that by (simp add: zone_list_error_def unat_of_nat split: if_splits)
  have zl: "zone_list_error Z (json_elements (Some v)) = None" if "key = ''ZoneList''"
    using assms(1) that by (simp add: scene_property_error_def split: if_splits)
  note name = set_name_clean [of "sp_SceneNameString (sq_scene q)" "json_string_value (Some v)"]
  show "scene_buffers_ok (sq_scene q')"
    using assms(2) name n [OF zl] zl sched(1)
    by (auto simp: q'_def execute_scene_property_def Let_def stored_zones_def scene_buffers_ok_def zone_list_error_def split: if_splits)
  show "cut_scene (sq_scene q') = scene_update key v (cut_scene (sq_scene q))"
    using assms(2) name n [OF zl] sched(2)
    by (auto simp: q'_def execute_scene_property_def scene_update_def Let_def stored_zones_def scene_buffers_ok_def)
      (auto simp: cut_scene_def)
  show "sp_EliotDeviceId (sq_scene q') = sp_EliotDeviceId (sq_scene q)" "sq_response q' = sq_response q"
    "sq_nameChange q' \<longleftrightarrow> sq_nameChange q \<or> key = ''Name''"
    using sched(3) by (simp_all add: q'_def execute_scene_property_def Let_def stored_zones_def)
qed

lemma execute_scene_list:
  assumes "\<And>key v. (key, v) \<in> set ps \<Longrightarrow> scene_property_error Z key v = None" "scene_buffers_ok (sq_scene q)"
  defines "q' \<equiv> fold (\<lambda>(key, v). execute_scene_property key v) ps q"
  shows "scene_buffers_ok (sq_scene q') \<and> cut_scene (sq_scene q') = fold (\<lambda>(key, v). scene_update key v) ps (cut_scene (sq_scene q)) \<and>
    sp_EliotDeviceId (sq_scene q') = sp_EliotDeviceId (sq_scene q) \<and> sq_response q' = sq_response q \<and>
    (sq_nameChange q' \<longleftrightarrow> sq_nameChange q \<or> ''Name'' \<in> fst ` set ps)"
  using assms(1,2) unfolding q'_def
proof (induction ps arbitrary: q)
  case (Cons p ps)
  obtain key v where p: "p = (key, v)" by fastforce
  have err: "scene_property_error Z key v = None" using Cons.prems(1) p by simp
  note step = execute_scene_step [OF err Cons.prems(2)]
  show ?case using Cons.IH [OF _ step(1)] Cons.prems(1) step(2-5) p by auto
qed simp

definition no_nul_names :: "json option \<Rightarrow> bool" where
  "no_nul_names list \<longleftrightarrow> (\<forall>(key, v) \<in> set (json_pairs list). 0 \<notin> set (json_string_value (Some v)))"

lemma scene_passes:
  fixes p :: scene_properties
  assumes "good_env env" "lcm_inv l" "no_nul_names list" "length (stack_name env) = MAX_SIZE_NAME_STRING"
  defines "q \<equiv> \<lparr>sq_scene = p, sq_list = the list, sq_response = None, sq_nameChange = False\<rparr>"
  shows "scene_property_passes env l list p =
    (case first_error (scene_property_error (zone_of l)) (json_pairs list) of
       Some code \<Rightarrow> Inr (True, q\<lparr>sq_response := Some code\<rparr>)
     | None \<Rightarrow> Inr (False, fold (\<lambda>(key, v). execute_scene_property key v) (json_pairs list) q))"
proof -
  let ?ps = "json_pairs list"
  have check: "each_property (HandleIndividualSceneProperty env l False) ?ps False q =
      (case first_error (scene_property_error (zone_of l)) ?ps of None \<Rightarrow> Inr (False \<and> ?ps = [], q)
       | Some c \<Rightarrow> Inr (True, q\<lparr>sq_response := BuildErrorResponse c (sq_response q)\<rparr>))"
    by (rule each_property_check) (simp add: check_scene_property [OF assms(1,2)] refuse_scene_def split: option.split)
  show ?thesis
  proof (cases "first_error (scene_property_error (zone_of l)) ?ps")
    case None
    then have ok: "scene_property_error (zone_of l) key v = None" "0 \<notin> set (json_string_value (Some v))"
      if "(key, v) \<in> set ?ps" for key v
      using that assms(3) by (auto simp: first_error_None no_nul_names_def)
    have "each_property (HandleIndividualSceneProperty env l True) ?ps False q =
        Inr (False \<and> ?ps = [], fold (\<lambda>(key, v). execute_scene_property key v) ?ps q) \<and> True"
      by (rule each_property_fold) (use execute_scene_property [OF ok(1) ok(2) assms(4)] in auto)
    then show ?thesis using None check by (simp add: scene_property_passes_def q_def Let_def)
  next
    case (Some code)
    then show ?thesis using check by (simp add: scene_property_passes_def q_def Let_def BuildErrorResponse_def)
  qed
qed

subsection \<open>The services on the map of scenes\<close>

definition scene_list_error :: "(nat \<Rightarrow> zone_properties option) \<Rightarrow> json option \<Rightarrow> nat option" where
  "scene_list_error Z list =
     (if \<not> json_is_object list then Some SW_INVALID_PROPERTY_LIST
      else case CheckFreqDaybits list of Some code \<Rightarrow> Some code
           | None \<Rightarrow> first_error (scene_property_error Z) (json_pairs list))"

definition scene_request_error ::
  "(nat \<Rightarrow> zone_properties option) \<Rightarrow> (nat \<Rightarrow> scene_properties option) \<Rightarrow> json \<Rightarrow> nat option" where
  "scene_request_error Z S root =
     (let sceneObject = json_object_get (Some root) ''SID''
      in if sceneObject = None then Some SW_NO_SCENE_ID_FIELD
         else if \<not> json_is_integer sceneObject then Some SW_SCENE_ID_MUST_BE_AN_INTEGER
         else if int MAX_NUMBER_OF_SCENES \<le> json_integer_value sceneObject then Some SW_SCENE_ID_MUST_BE_LESS_THEN
         else if S (requested_index ''SID'' root) = None then Some SW_COULD_NOT_GET_SCENE_PROPERTIES_FOR_SCENE_INDEX
         else scene_list_error Z (json_object_get (Some root) ''PropertyList''))"

definition requested_scene :: "json \<Rightarrow> scene_properties \<Rightarrow> scene_properties" where
  "requested_scene root s =
     fold (\<lambda>(key, v). scene_update key v) (json_pairs (json_object_get (Some root) ''PropertyList'')) s"

definition context_error :: "json \<Rightarrow> nat option" where
  "context_error root =
     (let app = json_object_get (Some root) ''AppContextId''
      in if app \<noteq> None \<and> \<not> json_is_integer app then Some SW_APP_CONTEXT_ID_ERROR else None)"

lemma app_context_error: "fst (app_context (Some root) None) = context_error root"
  by (simp add: app_context_def context_error_def Let_def BuildErrorResponse_def)

lemma trigger_cut:
  obtains t where "calculateNewTrigger sun junk p now = Some (p\<lparr>sp_nextTriggerTime := t\<rparr>)"
    "calculateNewTrigger sun junk (cut_scene p) now = Some (cut_scene (p\<lparr>sp_nextTriggerTime := t\<rparr>))"
proof -
  obtain t where t: "calculateNewTrigger sun junk p now = Some (p\<lparr>sp_nextTriggerTime := t\<rparr>)" using trigger_computed by blast
  obtain t' where t': "calculateNewTrigger sun junk (cut_scene p) now = Some ((cut_scene p)\<lparr>sp_nextTriggerTime := t'\<rparr>)"
    using trigger_computed by blast
  have "t' = t" using trigger_cong [of "cut_scene p" p sun junk now] t t' by simp
  then have "(cut_scene p)\<lparr>sp_nextTriggerTime := t'\<rparr> = cut_scene (p\<lparr>sp_nextTriggerTime := t\<rparr>)" by (simp add: cut_scene_def)
  then show thesis using that t t' by simp
qed

lemma scene_broadcast_time:
  "json_is_object (Some root) \<Longrightarrow> json_is_object (Some list) \<Longrightarrow>
   json_object_get (json_object_get (Some (scene_broadcast root list t k)) ''PropertyList'') ''TriggerTime'' = Some (JSON_INTEGER (uint t))"
  by (cases root; cases list) (simp_all add: scene_broadcast_def Let_def update_conv')

lemma execute_keeps_object:
  "json_is_object (Some (sq_list q)) \<Longrightarrow> json_is_object (Some (sq_list (fold (\<lambda>(key, v). execute_scene_property key v) ps q)))"
proof (induction ps arbitrary: q)
  case (Cons p ps)
  have "json_is_object (Some (json_object_set w k v)) \<longleftrightarrow> json_is_object (Some w)" for w k v by (cases w) simp_all
  then show ?case using Cons by (auto simp: execute_scene_property_def Let_def split: prod.split)
qed simp

lemma passes_accepted:
  assumes env: "good_env env" "length (stack_name env) = MAX_SIZE_NAME_STRING" and inv: "lcm_inv l"
    and list: "no_nul_names list" "scene_list_error (zone_of l) list = None" and p: "scene_buffers_ok p"
  obtains q where "json_is_object list" "CheckFreqDaybits list = None" "scene_property_passes env l list p = Inr (False, q)"
    "cut_scene (sq_scene q) = fold (\<lambda>(key, v). scene_update key v) (json_pairs list) (cut_scene p)"
    "scene_buffers_ok (sq_scene q)" "sp_EliotDeviceId (sq_scene q) = sp_EliotDeviceId p" "sq_response q = None"
    "sq_nameChange q \<longleftrightarrow> ''Name'' \<in> fst ` set (json_pairs list)" "json_is_object (Some (sq_list q))"
proof -
  define q where "q = \<lparr>sq_scene = p, sq_list = the list, sq_response = None, sq_nameChange = False\<rparr>"
  define q' where "q' = fold (\<lambda>(key, v). execute_scene_property key v) (json_pairs list) q"
  have obj: "json_is_object list" "CheckFreqDaybits list = None" "first_error (scene_property_error (zone_of l)) (json_pairs list) = None"
    using list(2) by (auto simp: scene_list_error_def split: if_splits option.splits)
  have each: "scene_property_error (zone_of l) key v = None" if "(key, v) \<in> set (json_pairs list)" for key v
    using obj(3) that by (auto simp: first_error_None)
  have "scene_buffers_ok (sq_scene q)" using p by (simp add: q_def)
  note E = execute_scene_list [where ps = "json_pairs list" and q = q, OF each this, folded q'_def]
  have "scene_property_passes env l list p = Inr (False, q')"
    using scene_passes [OF env(1) inv list(1) env(2), of p] obj(3) by (simp add: q_def [symmetric] q'_def [symmetric])
  moreover have "json_is_object (Some (sq_list q'))"
    unfolding q'_def using obj(1) by (intro execute_keeps_object) (auto simp: q_def dest!: json_is_objectE)
  ultimately show thesis using that [of q'] obj(1,2) E by (simp add: q_def)
qed

lemma set_scene_properties_accepted:
  assumes env: "good_env env" "length (stack_name env) = MAX_SIZE_NAME_STRING" and inv: "lcm_inv l"
    and s: "scene_of l i = Some s" "stored_id l i" and p: "cut_scene p = s" "scene_args_ok p"
    and list: "no_nul_names (json_object_get (Some root) ''PropertyList'')" "scene_list_error (zone_of l) (json_object_get (Some root) ''PropertyList'') = None"
    and name: "sp_SceneNameString (requested_scene root s) \<noteq> []"
  shows "\<exists>s' b l'. calculateNewTrigger (ti_sunTimes ti) (ti_junk ti) (requested_scene root s) (ti_currentTime ti) = Some s' \<and>
    set_scene_properties env ti i p root l = Some (Inr (context_error root, Some b, l')) \<and> lcm_inv l' \<and>
    scene_of l' = (scene_of l)(i \<mapsto> s') \<and> stored_id l' i \<and> same_zones l l' \<and> same_controllers l l' \<and>
    json_object_get (json_object_get (Some b) ''PropertyList'') ''TriggerTime'' = Some (JSON_INTEGER (uint (sp_nextTriggerTime s'))) \<and>
    (''Name'' \<in> fst ` set (json_pairs (json_object_get (Some root) ''PropertyList'')) \<longrightarrow> EliotRenameScene i \<in> set (events l'))"
proof -
  define list where "list = json_object_get (Some root) ''PropertyList''"
  have buf: "scene_buffers_ok p" using p(2) by (simp add: scene_args_ok_def scene_buffers_ok_def)
  obtain q' where q': "json_is_object list" "CheckFreqDaybits list = None" "scene_property_passes env l list p = Inr (False, q')"
    "cut_scene (sq_scene q') = fold (\<lambda>(key, v). scene_update key v) (json_pairs list) (cut_scene p)"
    "scene_buffers_ok (sq_scene q')" "sp_EliotDeviceId (sq_scene q') = sp_EliotDeviceId p" "sq_response q' = None"
    "sq_nameChange q' \<longleftrightarrow> ''Name'' \<in> fst ` set (json_pairs list)" "json_is_object (Some (sq_list q'))"
    by (rule passes_accepted [OF env inv list [folded list_def] buf])
  have cut: "cut_scene (sq_scene q') = requested_scene root s" using q'(4) p(1) by (simp add: requested_scene_def list_def)
  obtain t where t: "calculateNewTrigger (ti_sunTimes ti) (ti_junk ti) (sq_scene q') (ti_currentTime ti) = Some ((sq_scene q')\<lparr>sp_nextTriggerTime := t\<rparr>)"
    "calculateNewTrigger (ti_sunTimes ti) (ti_junk ti) (requested_scene root s) (ti_currentTime ti) =
      Some (cut_scene ((sq_scene q')\<lparr>sp_nextTriggerTime := t\<rparr>))"
    unfolding cut [symmetric] by (rule trigger_cut)
  let ?p = "(sq_scene q')\<lparr>sp_nextTriggerTime := t\<rparr>"
  have "sp_SceneNameString (sq_scene q') \<noteq> []" using q'(5) by (auto simp: scene_buffers_ok_def)
  then have n0: "sp_SceneNameString ?p ! 0 \<noteq> 0"
    using name nonempty_cstr [of 21 "sp_SceneNameString (sq_scene q')"] by (simp add: cut [symmetric]) (simp add: cut_scene_def)
  have args: "scene_args_ok ?p" using q'(5,6) p(2) n0 by (simp add: scene_args_ok_def scene_buffers_ok_def)
  have eid: "cstr 37 (sp_EliotDeviceId ?p) = sp_EliotDeviceId s" using q'(6) p(1) by (auto simp: cut_scene_def)
  obtain l1 where l1: "set_scene env i ?p l = Inr l1" "lcm_inv l1" "same_zones l l1" "same_controllers l l1"
    "scene_of l1 = (scene_of l)(i \<mapsto> cut_scene ?p)" "stored_id l1 i"
    by (rule set_scene_map [OF good_envD(1) [OF env(1)] inv s(2) args n0 s(1) eid])
  define l2 where "l2 = (if sq_nameChange q' \<and> sp_EliotDeviceId ?p ! 0 \<noteq> 0 then emit (EliotRenameScene i) l1 else l1)"
  have T: "same_tables l1 l2" by (simp add: l2_def)
  note T = same_tables [OF T]
  obtain k where k: "app_context (Some root) None = (context_error root, k)" using app_context_error [of root] by (metis prod.collapse)
  let ?b = "scene_broadcast root (sq_list q') t k"
  have fin: "finish_scene_request env ti i root q' l = Some (Inr (context_error root, Some ?b, l2))"
    by (simp add: finish_scene_request_def t(1) l1(1) l2_def q'(7) k Let_def)
  have eq: "set_scene_properties env ti i p root l = Some (Inr (context_error root, Some ?b, l2))"
    using q'(1-3) by (simp add: set_scene_properties_def list_def [symmetric] Let_def fin)
  have "json_is_object (Some root)" using q'(1) by (cases root) (simp_all add: list_def json_object_get_def)
  then have b: "json_object_get (json_object_get (Some ?b) ''PropertyList'') ''TriggerTime'' =
      Some (JSON_INTEGER (uint (sp_nextTriggerTime (cut_scene ?p))))"
    using q'(9) by (simp add: scene_broadcast_time)
  have "sp_EliotDeviceId ?p \<noteq> []" "sp_EliotDeviceId s \<noteq> []" using s args by (auto simp: stored_id_def scene_args_ok_def)
  then have given: "sp_EliotDeviceId ?p ! 0 \<noteq> 0" using nonempty_cstr [of 37 "sp_EliotDeviceId ?p"] eid by simp
  have ev: "''Name'' \<in> fst ` set (json_pairs list) \<longrightarrow> EliotRenameScene i \<in> set (events l2)"
    using q'(8) given by (simp add: l2_def emit_def)
  have tabs: "lcm_inv l2" "scene_of l2 = (scene_of l)(i \<mapsto> cut_scene ?p)" "stored_id l2 i" "same_zones l l2" "same_controllers l l2"
    using T l1 same_scenes_map [OF T(3)] same_scenes_stored [OF T(3)] same_controllers_trans by (auto simp: same_zones_def)
  show ?thesis
    unfolding list_def [symmetric]
    by (intro exI [of _ "cut_scene ?p"] exI [of _ ?b] exI [of _ l2] conjI t(2) eq tabs b ev)
qed

text \<open>The same request for a scene whose Eliot id is not in flash.\<close>

lemma set_scene_properties_unstored:
  assumes env: "good_env env" "length (stack_name env) = MAX_SIZE_NAME_STRING" and inv: "lcm_inv l"
    and s: "scene_of l i = Some s" "i < NUM_ELIOT_PROPERTIES_IN_FLASH_SECTOR" "\<not> stored_id l i" and p: "cut_scene p = s" "scene_args_ok p"
    and list: "no_nul_names (json_object_get (Some root) ''PropertyList'')" "scene_list_error (zone_of l) (json_object_get (Some root) ''PropertyList'') = None"
  shows "set_scene_properties env ti i p root l = Some (Inl OutOfBoundsWrite)"
proof -
  define list where "list = json_object_get (Some root) ''PropertyList''"
  have buf: "scene_buffers_ok p" using p(2) by (simp add: scene_args_ok_def scene_buffers_ok_def)
  obtain q' where q': "json_is_object list" "CheckFreqDaybits list = None" "scene_property_passes env l list p = Inr (False, q')"
    "cut_scene (sq_scene q') = fold (\<lambda>(key, v). scene_update key v) (json_pairs list) (cut_scene p)"
    "scene_buffers_ok (sq_scene q')" "sp_EliotDeviceId (sq_scene q') = sp_EliotDeviceId p" "sq_response q' = None"
    "sq_nameChange q' \<longleftrightarrow> ''Name'' \<in> fst ` set (json_pairs list)" "json_is_object (Some (sq_list q'))"
    by (rule passes_accepted [OF env inv list [folded list_def] buf])
  obtain t where t: "calculateNewTrigger (ti_sunTimes ti) (ti_junk ti) (sq_scene q') (ti_currentTime ti) = Some ((sq_scene q')\<lparr>sp_nextTriggerTime := t\<rparr>)"
    by (rule trigger_cut)
  let ?p = "(sq_scene q')\<lparr>sp_nextTriggerTime := t\<rparr>"
  have "scene_id_ok ?p" using q'(5,6) p(2) by (simp add: scene_id_ok_def scene_args_ok_def scene_buffers_ok_def)
  moreover have "cstr 37 (sp_EliotDeviceId ?p) = sp_EliotDeviceId s" using q'(6) p(1) by (auto simp: cut_scene_def)
  ultimately have "set_scene env i ?p l = Inl OutOfBoundsWrite"
    by (rule unstored_save_overflows [OF good_envD(1) [OF env(1)] inv s])
  then have "finish_scene_request env ti i root q' l = Some (Inl OutOfBoundsWrite)" using t by (simp add: finish_scene_request_def)
  then show ?thesis using q'(1-3) by (simp add: set_scene_properties_def list_def [symmetric])
qed

text \<open>C35: a request to set the properties of a scene is carried out completely or not at all. It is
  answered with an error, and changes nothing, exactly when a check of the first pass or of the ids fails,
  with the code of the first failing check, and the second pass never fails. Otherwise, for a scene in one of the
  first 50 slots (only those are ever written) with its Eliot id in flash, and a list that leaves it a name that is not
  empty, the scene gets the
  properties of the list in their order and its next trigger; the other scenes, the zones and the scene
  controllers stay as they are, a renamed scene is renamed in the cloud, and the broadcast has the new trigger
  time. A wrong context id is reported although the request was carried out. If the scene's Eliot id is not in flash, an
  accepted request ends in the save that writes outside an array (C21).\<close>

theorem set_scene_request_exact:
  fixes env :: environment and l :: lcm and root :: json
  assumes env: "good_env env" "length (stack_name env) = MAX_SIZE_NAME_STRING" and inv: "lcm_inv l"
    and names: "no_nul_names (json_object_get (Some root) ''PropertyList'')"
  defines "i \<equiv> requested_index ''SID'' root"
  assumes id: "\<forall>s. scene_of l i = Some s \<longrightarrow>
      i < NUM_ELIOT_PROPERTIES_IN_FLASH_SECTOR \<and> sp_SceneNameString (requested_scene root s) \<noteq> []"
  shows "case scene_request_error (zone_of l) (scene_of l) root of
      Some code \<Rightarrow> HandleSetSceneProperties env ti root l = Some (Inr (Some code, None, l))
    | None \<Rightarrow> if stored_id l i
        then \<exists>s s' b l'. scene_of l i = Some s \<and>
          calculateNewTrigger (ti_sunTimes ti) (ti_junk ti) (requested_scene root s) (ti_currentTime ti) = Some s' \<and>
          HandleSetSceneProperties env ti root l = Some (Inr (context_error root, Some b, l')) \<and> lcm_inv l' \<and>
          scene_of l' = (scene_of l)(i \<mapsto> s') \<and> stored_id l' i \<and> same_zones l l' \<and> same_controllers l l' \<and>
          json_object_get (json_object_get (Some b) ''PropertyList'') ''TriggerTime'' = Some (JSON_INTEGER (uint (sp_nextTriggerTime s'))) \<and>
          (''Name'' \<in> fst ` set (json_pairs (json_object_get (Some root) ''PropertyList'')) \<longrightarrow> EliotRenameScene i \<in> set (events l'))
        else HandleSetSceneProperties env ti root l = Some (Inl OutOfBoundsWrite)"
proof -
  let ?so = "json_object_get (Some root) ''SID''" and ?list = "json_object_get (Some root) ''PropertyList''"
  have i: "i = unat (word_of_int (json_integer_value ?so) :: byte)" by (simp add: i_def requested_index_def)
  note E = scene_request_error_def [of "zone_of l" "scene_of l" root, folded i_def, unfolded Let_def]
  note H = HandleSetSceneProperties_def [of env ti root l, unfolded Let_def, folded i]
  show ?thesis
  proof (cases "?so = None \<or> \<not> json_is_integer ?so \<or> int MAX_NUMBER_OF_SCENES \<le> json_integer_value ?so \<or> scene_of l i = None")
    case True
    then show ?thesis using scene_of_get(2) [OF inv, of i "stack_scene env"] by (auto simp: E H BuildErrorResponse_def)
  next
    case False
    then obtain s where s: "scene_of l i = Some s" by blast
    obtain p where p: "get_scene l i (stack_scene env) = Inr (True, p)" "cut_scene p = s" "scene_args_ok p"
      using get_scene_some [OF inv s good_envD(3) [OF env(1)]] by metis
    have H': "HandleSetSceneProperties env ti root l = set_scene_properties env ti i p root l" using False p by (auto simp: H)
    show ?thesis
    proof (cases "scene_list_error (zone_of l) ?list")
      case None
      then have none: "scene_request_error (zone_of l) (scene_of l) root = None" using False by (auto simp: E)
      have slot: "i < NUM_ELIOT_PROPERTIES_IN_FLASH_SECTOR" and name: "sp_SceneNameString (requested_scene root s) \<noteq> []"
        using id s by auto
      show ?thesis
      proof (cases "stored_id l i")
        case True
        from set_scene_properties_accepted [OF env inv s True p(2,3) names None name, of ti]
        show ?thesis unfolding none option.case if_P [OF True] H' using s by blast
      next
        case False
        show ?thesis
          unfolding none option.case if_not_P [OF False] H'
          by (rule set_scene_properties_unstored [OF env inv s slot False p(2,3) names None])
      qed
    next
      case (Some code)
      then have "scene_request_error (zone_of l) (scene_of l) root = Some code" using False by (auto simp: E)
      moreover have "set_scene_properties env ti i p root l = Some (Inr (Some code, None, l))"
        using Some scene_passes [OF env(1) inv names env(2), of p]
        by (auto simp: set_scene_properties_def scene_list_error_def Let_def BuildErrorResponse_def split: if_splits option.splits)
      ultimately show ?thesis using H' by simp
    qed
  qed
qed

subsection \<open>Accepted lists of zones\<close>

lemma no_duplicate: "find_duplicate b es = None \<Longrightarrow> e \<in> set es \<Longrightarrow> json_integer_value (json_object_get (Some e) ''ZID'') \<noteq> uint b"
  by (induction es) (auto simp: Let_def split: if_splits)

lemma entry_error_id: "entry_error e = None \<Longrightarrow> json_integer_value (json_object_get (Some e) ''ZID'') < 100"
  by (simp add: entry_error_def Let_def split: if_split_asm)

lemma zone_ids_error_Cons:
  "zone_ids_error Z (e # es) = None \<longleftrightarrow> json_is_integer (json_object_get (Some e) ''ZID'') \<and>
     Z (unat (zs_zoneId (entry_of e))) \<noteq> None \<and> find_duplicate (zs_zoneId (entry_of e)) es = None \<and> zone_ids_error Z es = None"
  by (simp add: Let_def entry_of_def split: option.split)

lemma zone_ids_accepted:
  assumes "zone_ids_error Z es = None"
  shows "e \<in> set es \<Longrightarrow> Z (unat (zs_zoneId (entry_of e))) \<noteq> None"
    "\<forall>e \<in> set es. 0 \<le> json_integer_value (json_object_get (Some e) ''ZID'') \<Longrightarrow> \<forall>e \<in> set es. entry_error e = None \<Longrightarrow>
     distinct (map (\<lambda>e. zs_zoneId (entry_of e)) es)"
proof -
  show "e \<in> set es \<Longrightarrow> Z (unat (zs_zoneId (entry_of e))) \<noteq> None"
    using assms
  proof (induction es)
    case (Cons a es)
    then show ?case unfolding zone_ids_error_Cons by auto
  qed simp
  show "distinct (map (\<lambda>e. zs_zoneId (entry_of e)) es)"
    if "\<forall>e \<in> set es. 0 \<le> json_integer_value (json_object_get (Some e) ''ZID'')" "\<forall>e \<in> set es. entry_error e = None"
    using assms that
  proof (induction es)
    case (Cons e es)
    let ?zid = "\<lambda>e. json_integer_value (json_object_get (Some e) ''ZID'')"
    have e: "find_duplicate (zs_zoneId (entry_of e)) es = None" "zone_ids_error Z es = None"
      using Cons.prems(1) unfolding zone_ids_error_Cons by simp_all
    have "zs_zoneId (entry_of e') \<noteq> zs_zoneId (entry_of e)" if e': "e' \<in> set es" for e'
    proof -
      have "0 \<le> ?zid e'" "?zid e' < 100" using Cons.prems(2,3) e' entry_error_id [of e'] by simp_all
      then have "uint (zs_zoneId (entry_of e')) = ?zid e'" by (simp add: entry_of_def Let_def uint_word_of_int)
      then show ?thesis using no_duplicate [OF e(1) e'] by metis
    qed
    then have "zs_zoneId (entry_of e) \<notin> (\<lambda>e. zs_zoneId (entry_of e)) ` set es" by (metis imageE)
    then show ?case using Cons.IH [OF e(2)] Cons.prems(2,3) by simp
  qed simp
qed

text \<open>C36: a list of zones that passes the first pass is stored by the second one as a well-formed list: one
  to 100 entries, the count and the 100-entry array agree with the list, every entry names a zone that exists
  and holds the levels of its element (level 0, ramp rate 50 and off where it has none), the rest of the array is
  empty, and no zone is listed twice if no id in the list is negative.\<close>

theorem accepted_zone_list:
  assumes "good_env env" "lcm_inv l" "VerifySceneZoneList env l (JSON_ARRAY elements) False p = (None, p')"
  defines "n \<equiv> length elements"
  shows "\<exists>q'. VerifySceneZoneList env l' (JSON_ARRAY elements) True q = (None, q') \<and>
    0 < n \<and> n \<le> MAX_ZONES_IN_SCENE \<and> unat (sp_numZonesInScene q') = n \<and> length (sp_zoneData q') = MAX_ZONES_IN_SCENE \<and>
    (\<forall>k < n. sp_zoneData q' ! k = entry_of (elements ! k) \<and> zone_of l (entry_zone q' k) \<noteq> None) \<and>
    (\<forall>k. n \<le> k \<and> k < MAX_ZONES_IN_SCENE \<longrightarrow> sp_zoneData q' ! k = empty_entry) \<and>
    ((\<forall>e \<in> set elements. 0 \<le> json_integer_value (json_object_get (Some e) ''ZID'')) \<longrightarrow>
       (\<forall>j k. j < k \<and> k < n \<longrightarrow> entry_zone q' j \<noteq> entry_zone q' k))"
proof -
  have err: "zone_list_error (zone_of l) elements = None"
    using assms(3) by (simp add: verify_list_check [OF assms(1,2)])
  then have n: "0 < n" "n \<le> MAX_ZONES_IN_SCENE" "zone_ids_error (zone_of l) elements = None" "\<forall>e \<in> set elements. entry_error e = None"
    by (auto simp: zone_list_error_def list_error_None n_def split: if_splits option.splits)
  let ?q = "stored_zones elements q"
  have len: "unat (sp_numZonesInScene ?q) = n" "length (sp_zoneData ?q) = MAX_ZONES_IN_SCENE"
    using n(2) by (simp_all add: stored_zones_def unat_of_nat n_def)
  have at: "sp_zoneData ?q ! k = entry_of (elements ! k)" if "k < n" for k
    using that by (simp add: stored_zones_def n_def nth_append)
  have rest: "sp_zoneData ?q ! k = empty_entry" if "n \<le> k" "k < MAX_ZONES_IN_SCENE" for k
    using that by (simp add: stored_zones_def n_def nth_append del: replicate.simps)
  have ex: "zone_of l (entry_zone ?q k) \<noteq> None" if "k < n" for k
    using zone_ids_accepted(1) [OF n(3)] that by (simp add: at n_def)
  have "entry_zone ?q j \<noteq> entry_zone ?q k"
    if "\<forall>e \<in> set elements. 0 \<le> json_integer_value (json_object_get (Some e) ''ZID'')" "j < k" "k < n" for j k
  proof -
    have "distinct (map (\<lambda>e. zs_zoneId (entry_of e)) elements)" by (rule zone_ids_accepted(2) [OF n(3) that(1) n(4)])
    then show ?thesis using that(2,3) by (simp add: at n_def distinct_conv_nth word_unat_eq_iff [symmetric])
  qed
  then show ?thesis using verify_list_set [OF err, of env l' q] n(1,2) len at rest ex by (intro exI [of _ ?q]) blast
qed

text \<open>A negative id is compared without being cut to the byte that is stored, so that it can repeat a zone.\<close>

lemma negative_id_repeats_zone:
  assumes "good_env env" "lcm_inv l" "0 \<le> a" "a < 100" "zone_of l (nat a) \<noteq> None"
  defines "elements \<equiv> [JSON_OBJECT [(''ZID'', JSON_INTEGER a)], JSON_OBJECT [(''ZID'', JSON_INTEGER (a - 256))]]"
  shows "VerifySceneZoneList env l (JSON_ARRAY elements) False p = (None, p)"
    "entry_of (elements ! 1) = entry_of (elements ! 0)"
proof -
  have w: "(word_of_int (a - 256) :: byte) = word_of_int a" unfolding word_of_int_eq_iff take_bit_eq_mod by simp
  have u: "unat (word_of_int a :: byte) = nat a" "uint (word_of_int a :: byte) = a"
    using assms(3,4) by (simp_all add: unat_eq_nat_uint uint_word_of_int)
  have "zone_list_error (zone_of l) elements = None"
    using assms(3-5) by (simp add: elements_def zone_list_error_def entry_error_def Let_def w u del: of_int_diff)
  then show "VerifySceneZoneList env l (JSON_ARRAY elements) False p = (None, p)" by (simp add: verify_list_check [OF assms(1,2)])
  show "entry_of (elements ! 1) = entry_of (elements ! 0)" by (simp add: elements_def entry_of_def w del: of_int_diff)
qed

subsection \<open>Deleting a scene\<close>

text \<open>Reading a scene depends on its slots only, whatever is left in the others.\<close>

lemma scene_reads:
  assumes "i < MAX_NUMBER_OF_SCENES" "sceneArray st' ! i = sceneArray st ! i"
    and "nvSceneProperties (sceneArray st ! i) \<in> {None, Some (scene_ptr i)}"
    "nvEliotSceneProperties (sceneArray st ! i) = None \<or>
       nvEliotSceneProperties (sceneArray st ! i) = Some (scene_eliot_ptr i) \<and> i < NUM_ELIOT_PROPERTIES_IN_FLASH_SECTOR"
    and "scenes.table_ok (sn_flash st)" "eliot_scenes.table_ok (sn_flash st)"
    "scenes.table_ok (sn_flash st')" "eliot_scenes.table_ok (sn_flash st')"
    and "srec (sn_flash st') i = srec (sn_flash st) i"
    "i < NUM_ELIOT_PROPERTIES_IN_FLASH_SECTOR \<Longrightarrow> serec (sn_flash st') i = serec (sn_flash st) i"
  shows "GetSceneProperties st' i out = GetSceneProperties st i out"
proof -
  have "scene_record (sn_flash st') (scene_ptr i) = scene_record (sn_flash st) (scene_ptr i)"
    using scene_lookup(3) [OF assms(5,1)] scene_lookup(3) [OF assms(7,1)] assms(9) by simp
  then have "nv_scene_of st' i = nv_scene_of st i" using assms(2,3) by (auto simp: nv_scene_of_def)
  moreover have "eliot_record (sn_flash st') (scene_eliot_ptr i) = eliot_record (sn_flash st) (scene_eliot_ptr i)"
    if "i < NUM_ELIOT_PROPERTIES_IN_FLASH_SECTOR"
    using scene_eliot_lookup(3) [OF assms(6) that] scene_eliot_lookup(3) [OF assms(8) that] assms(10) that by simp
  ultimately show ?thesis using assms(1,2,4) by (auto simp: GetSceneProperties_def Let_def split: option.split)
qed

lemma scene_pointers:
  assumes "scene_inv st" "i < MAX_NUMBER_OF_SCENES"
  shows "nvSceneProperties (sceneArray st ! i) \<in> {None, Some (scene_ptr i)}"
    "nvEliotSceneProperties (sceneArray st ! i) = None \<or>
       nvEliotSceneProperties (sceneArray st ! i) = Some (scene_eliot_ptr i) \<and> i < NUM_ELIOT_PROPERTIES_IN_FLASH_SECTOR"
proof -
  have p: "nvSceneProperties (sceneArray st ! i) = GetNVScenePropertiesPtr (sn_flash st) i True"
    "nvEliotSceneProperties (sceneArray st ! i) = GetNVEliotScenePropertiesPtr (sn_flash st) i True"
    using assms by (simp_all add: scene_inv_def)
  show "nvSceneProperties (sceneArray st ! i) \<in> {None, Some (scene_ptr i)}"
    using p(1) scene_lookup(1) [OF _ assms(2), of "sn_flash st"] assms by (simp add: scene_inv_def)
  show "nvEliotSceneProperties (sceneArray st ! i) = None \<or>
       nvEliotSceneProperties (sceneArray st ! i) = Some (scene_eliot_ptr i) \<and> i < NUM_ELIOT_PROPERTIES_IN_FLASH_SECTOR"
    using p(2) eliot_scenes.GetNVPtr_some unfolding GetNVEliotScenePropertiesPtr_def
    by (cases "nvEliotSceneProperties (sceneArray st ! i)") auto
qed

text \<open>The banks of a controller.\<close>

definition unassign_bank :: "byte \<Rightarrow> scene_controller_bank \<Rightarrow> scene_controller_bank" where
  "unassign_bank sid b = (if bk_sceneId b = sid then b\<lparr>bk_sceneId := NO_SCENE\<rparr> else b)"

definition unassigned :: "byte \<Rightarrow> scene_controller_properties \<Rightarrow> scene_controller_properties" where
  "unassigned sid c = c\<lparr>sc_bank := map (unassign_bank sid) (sc_bank c)\<rparr>"

lemma unassign_banks_effect:
  assumes "unassign_banks env sid ks (c, changeFlag, l) = (c', changeFlag', l')"
  shows "c' = c\<lparr>sc_bank := fold (\<lambda>k bs. bs[k := unassign_bank sid (bs ! k)]) ks (sc_bank c)\<rparr> \<and> (changeFlag \<longrightarrow> changeFlag') \<and>
    (\<not> changeFlag' \<longrightarrow> c' = c) \<and> same_tables l l' \<and> events l' = events l"
  using assms
proof (induction ks arbitrary: c changeFlag l)
  case (Cons k ks)
  show ?case
  proof (cases "bk_sceneId (sc_bank c ! k) = sid")
    case True
    let ?c = "c\<lparr>sc_bank := (sc_bank c)[k := (sc_bank c ! k)\<lparr>bk_sceneId := NO_SCENE\<rparr>]\<rparr>"
    let ?l = "snd (SendAssignSceneCommandToTransmitTask env (Some ?c) k 0 l)"
    have f: "same_tables l ?l \<and> events ?l = events l"
      using send_controller_message_tables unfolding SendAssignSceneCommandToTransmitTask_def by blast
    have "unassign_banks env sid ks (?c, True, ?l) = (c', changeFlag', l')" using Cons.prems True by (simp add: Let_def)
    note IH = Cons.IH [OF this]
    have "unassign_bank sid (sc_bank c ! k) = (sc_bank c ! k)\<lparr>bk_sceneId := NO_SCENE\<rparr>" using True by (simp add: unassign_bank_def)
    then show ?thesis using IH f by (auto simp: same_tables_def)
  next
    case False
    then have "unassign_banks env sid ks (c, changeFlag, l) = (c', changeFlag', l')" using Cons.prems by simp
    note IH = Cons.IH [OF this]
    have "(sc_bank c)[k := unassign_bank sid (sc_bank c ! k)] = sc_bank c" using False by (simp add: unassign_bank_def)
    then have skip: "fold (\<lambda>k bs. bs[k := unassign_bank sid (bs ! k)]) (k # ks) (sc_bank c) =
        fold (\<lambda>k bs. bs[k := unassign_bank sid (bs ! k)]) ks (sc_bank c)" by simp
    show ?thesis unfolding skip by (rule IH)
  qed
qed (auto simp: same_tables_def)

lemma unassign_four:
  assumes "length bs = MAX_SCENES_IN_SCENE_CONTROLLER"
  shows "fold (\<lambda>k bs. bs[k := unassign_bank sid (bs ! k)]) [0..<MAX_SCENES_IN_SCENE_CONTROLLER] bs = map (unassign_bank sid) bs"
proof -
  obtain a b c d where "bs = [a, b, c, d]" using assms by (auto simp: numeral_eq_Suc length_Suc_conv)
  then show ?thesis by (simp add: upt_conv_Cons eval_nat_numeral)
qed

lemma get_controller_agree:
  assumes "fst (get_controller l i out)"
  shows "fst (get_controller l i out')" "same_controller (snd (get_controller l i out)) (snd (get_controller l i out'))"
  using assms by (auto simp: get_controller_def GetSceneControllerProperties_def same_controller_def cstr_snprintf_s
      simp del: upt_rec_numeral split: option.splits if_splits)

definition controllers_unassigned :: "byte \<Rightarrow> lcm \<Rightarrow> lcm \<Rightarrow> nat \<Rightarrow> bool" where
  "controllers_unassigned sid l l' j \<longleftrightarrow> (\<forall>out. fst (get_controller l' j out) = fst (get_controller l j out) \<and>
     (fst (get_controller l j out) \<longrightarrow> same_controller (unassigned sid (snd (get_controller l j out))) (snd (get_controller l' j out))))"

definition only_controllers :: "lcm \<Rightarrow> lcm \<Rightarrow> bool" where
  "only_controllers l l' \<longleftrightarrow> lcm_zones l' = lcm_zones l \<and> lcm_scenes l' = lcm_scenes l \<and> events l' = events l \<and>
     (\<forall>x. x < 0xea000 \<or> 0xeb000 \<le> x \<longrightarrow> lcm_flash l' x = lcm_flash l x)"

lemma unassign_controller_step:
  assumes rel: "ftfe_reliable (env_hw env)" and inv: "controller_inv (controller_part l)" and i: "i < MAX_NUMBER_OF_SCENE_CONTROLLERS"
    and c: "length (sc_NameString c) = MAX_SIZE_NAME_STRING"
    and step: "unassign_controller env sid i (c, changeFlag, l) = (c', changeFlag', l')"
  shows "controller_inv (controller_part l')" "length (sc_NameString c') = MAX_SIZE_NAME_STRING" "only_controllers l l'"
    "controllers_unassigned sid l l' i" "\<And>j out. j \<noteq> i \<Longrightarrow> get_controller l' j out = get_controller l j out"
proof -
  obtain found c1 where g: "get_controller l i c = (found, c1)" by fastforce
  have all: "controller_inv (controller_part l') \<and> length (sc_NameString c') = MAX_SIZE_NAME_STRING \<and> only_controllers l l' \<and>
    controllers_unassigned sid l l' i \<and> (\<forall>j out. j \<noteq> i \<longrightarrow> get_controller l' j out = get_controller l j out)"
  proof (cases found)
    case False
    then have "c1 = c" using controller_cases [OF inv c, of i] g by auto
    then have "c' = c" "l' = l" using step g False by (simp_all add: unassign_controller_def)
    moreover have "\<not> fst (get_controller l i out)" for out using get_controller_agree(1) [of l i out c] g False by auto
    ultimately show ?thesis using inv c by (simp add: only_controllers_def controllers_unassigned_def)
  next
    case True
    then have c1: "controller_args_ok c1" "sc_NameString c1 ! 0 \<noteq> 0" using controller_cases [OF inv c, of i] g by auto
    obtain c2 f2 l2 where b: "unassign_banks env sid [0..<MAX_SCENES_IN_SCENE_CONTROLLER] (c1, changeFlag, l) = (c2, f2, l2)"
      by (metis prod_cases3)
    have e: "c2 = c1\<lparr>sc_bank := fold (\<lambda>k bs. bs[k := unassign_bank sid (bs ! k)]) [0..<MAX_SCENES_IN_SCENE_CONTROLLER] (sc_bank c1)\<rparr>"
      "\<not> f2 \<Longrightarrow> c2 = c1" "same_tables l l2" "events l2 = events l"
      using unassign_banks_effect [OF b] by blast+
    have c2: "c2 = unassigned sid c1" using e(1) c1(1) by (simp only: unassigned_def unassign_four controller_args_ok_def)
    then have args: "controller_args_ok c2" "sc_NameString c2 ! 0 \<noteq> 0" using c1 by (simp_all add: unassigned_def controller_args_ok_def)
    have s: "c' = c2" "l' = (if f2 then set_controller env i c2 l2 else l2)"
      using step g True c1(2) b by (auto simp add: unassign_controller_def simp del: upt_rec_numeral split: if_splits)
    note T = same_tables [OF e(3)]
    have inv2: "controller_inv (controller_part l2)" using T(6) inv by simp
    have get2: "get_controller l2 j out = get_controller l j out" for j out using T(4) by (simp add: same_controllers_def)
    have agree: "fst (get_controller l i out)" "same_controller (snd (get_controller l i out)) c1" for out
      using get_controller_agree [of l i c out] get_controller_agree [of l i out c] g True by auto
    have target: "same_controller (unassigned sid (snd (get_controller l i out))) c2" for out
      using agree(2) [of out] by (simp add: c2 unassigned_def same_controller_def)
    show ?thesis
    proof (cases f2)
      case change: True
      note S = set_controller_alone [OF rel inv2 i args]
      have "same_controller (unassigned sid (snd (get_controller l i out))) (snd (get_controller l' i out))" for out
        using target [of out] S(4) [of out] by (simp add: s change same_controller_def)
      moreover have "lcm_flash l2 = lcm_flash l" "lcm_zones l2 = lcm_zones l" "lcm_scenes l2 = lcm_scenes l"
        using e(3) by (simp_all add: same_tables_def)
      ultimately show ?thesis
        using S(1,2,3,5) args(1) agree(1) get2 e(4) by (simp add: s change only_controllers_def controllers_unassigned_def controller_args_ok_def)
    next
      case False
      have "same_controller (unassigned sid (snd (get_controller l i out))) (snd (get_controller l i out))" for out
        using target [of out] agree(2) [of out] e(2) [OF False] by (simp add: same_controller_def)
      then show ?thesis
        using inv2 args(1) get2 e(3,4) by (simp add: s False only_controllers_def controllers_unassigned_def controller_args_ok_def same_tables_def)
    qed
  qed
  then show "controller_inv (controller_part l')" "length (sc_NameString c') = MAX_SIZE_NAME_STRING" "only_controllers l l'"
    "controllers_unassigned sid l l' i" "\<And>j out. j \<noteq> i \<Longrightarrow> get_controller l' j out = get_controller l j out" by auto
qed

lemma unassign_upto:
  assumes "ftfe_reliable (env_hw env)" "controller_inv (controller_part l)" "length (sc_NameString c) = MAX_SIZE_NAME_STRING"
    and "n \<le> MAX_NUMBER_OF_SCENE_CONTROLLERS"
    and "fold (unassign_controller env sid) [0..<n] (c, False, l) = (c', f', l')"
  shows "controller_inv (controller_part l') \<and> length (sc_NameString c') = MAX_SIZE_NAME_STRING \<and> only_controllers l l' \<and>
    (\<forall>j < n. controllers_unassigned sid l l' j) \<and> (\<forall>j out. n \<le> j \<longrightarrow> get_controller l' j out = get_controller l j out)"
  using assms(4,5)
proof (induction n arbitrary: c' f' l')
  case 0
  then show ?case using assms(2,3) by (simp add: only_controllers_def)
next
  case (Suc n)
  obtain c1 f1 l1 where s1: "fold (unassign_controller env sid) [0..<n] (c, False, l) = (c1, f1, l1)" by (metis prod_cases3)
  note IH = Suc.IH [OF _ s1]
  have step: "unassign_controller env sid n (c1, f1, l1) = (c', f', l')" using Suc.prems(2) s1 by simp
  have n: "n < MAX_NUMBER_OF_SCENE_CONTROLLERS" using Suc.prems(1) by simp
  have I: "controller_inv (controller_part l1)" "length (sc_NameString c1) = MAX_SIZE_NAME_STRING" "only_controllers l l1"
    "\<forall>j < n. controllers_unassigned sid l l1 j" "\<forall>j out. n \<le> j \<longrightarrow> get_controller l1 j out = get_controller l j out"
    using IH n by auto
  note S = unassign_controller_step [OF assms(1) I(1) n I(2) step]
  have "only_controllers l l'" using I(3) S(3) by (simp add: only_controllers_def)
  moreover have "controllers_unassigned sid l l' j" if "j < Suc n" for j
  proof (cases "j = n")
    case True
    then show ?thesis using S(4) I(5) by (simp add: controllers_unassigned_def)
  next
    case False
    then show ?thesis using S(5) [OF False] I(4) that by (simp add: controllers_unassigned_def)
  qed
  moreover have "get_controller l' j out = get_controller l j out" if "Suc n \<le> j" for j out
    using S(5) [of j out] I(5) that by simp
  ultimately show ?case using S(1,2) by blast
qed

lemma cstr_full: "0 \<notin> set a \<Longrightarrow> cstr (length a) a = a"
  by (auto simp: cstr_def takeWhile_eq_all_conv)

lemma cstr_fits: "0 \<in> set a \<Longrightarrow> length (cstr (length a) a) < length a"
proof -
  have "0 \<in> set a \<Longrightarrow> length (takeWhile (\<lambda>b. b \<noteq> 0) a) < length a" by (induction a) auto
  then show "0 \<in> set a \<Longrightarrow> length (cstr (length a) a) < length a" by (simp add: cstr_def)
qed

lemma stored_id_record:
  assumes "lcm_inv l" "stored_id l i" "get_scene l i out = Inr (True, p)" "scene_args_ok p"
  shows "i < NUM_ELIOT_PROPERTIES_IN_FLASH_SECTOR" "memory_initialized (serec (lcm_flash l) i)" "0 \<in> set (serec (lcm_flash l) i)"
    "sp_EliotDeviceId p ! 0 \<noteq> 0"
proof -
  have inv: "scene_inv (scene_part l)" and f: "sn_flash (scene_part l) = lcm_flash l"
    using assms(1) by (simp_all add: lcm_inv_def scene_part_def)
  have s: "scene_of l i = Some (cut_scene p)" by (rule scene_of_get(1) [OF assms(1,3)])
  show i: "i < 50" using assms(2) by (simp add: stored_id_def)
  have id: "cstr 37 (sp_EliotDeviceId p) \<noteq> []" "keeps_eliot_id (scene_part l) i (cut_scene p)"
    using assms(2) s by (simp_all add: stored_id_def) (simp add: cut_scene_def)
  have "nvSceneProperties (sceneArray (scene_part l) ! i) \<noteq> None"
    using assms(3) by (auto simp: get_scene_def GetSceneProperties_def nv_scene_of_def Let_def split: option.splits if_splits)
  then obtain q where q: "nvEliotSceneProperties (sceneArray (scene_part l) ! i) = Some q"
    "cstr 37 (sp_EliotDeviceId (cut_scene p)) = cstr 37 (eliot_record (lcm_flash l) q)"
    using id(2) f by (auto simp: keeps_eliot_id_def split: option.splits)
  have i100: "i < 100" using i by simp
  have qi: "q = scene_eliot_ptr i" using scene_pointers(2) [OF inv i100] q(1) by auto
  note I = scene_invD [OF inv i, unfolded f]
  have "GetNVEliotScenePropertiesPtr (lcm_flash l) i True = Some q" using inv i100 q(1) by (simp add: scene_inv_def f)
  then show "memory_initialized (serec (lcm_flash l) i)" using scene_eliot_lookup(1) [OF I(2) i] by (simp split: if_splits)
  have e: "cstr 37 (sp_EliotDeviceId p) = cstr 37 (serec (lcm_flash l) i)"
    using q(2) scene_eliot_lookup(3) [OF I(2) i] by (simp add: qi) (simp add: cut_scene_def)
  have len: "length (serec (lcm_flash l) i) = 37" by (rule length_serec)
  have p: "length (sp_EliotDeviceId p) = 37" "0 \<in> set (sp_EliotDeviceId p)" using assms(4) by (simp_all add: scene_args_ok_def)
  have full: "length (cstr 37 (serec (lcm_flash l) i)) = 37" if "0 \<notin> set (serec (lcm_flash l) i)"
    using cstr_full [OF that, unfolded len] len by metis
  have "length (cstr 37 (serec (lcm_flash l) i)) < 37" using cstr_fits [OF p(2), unfolded p(1)] unfolding e .
  then show "0 \<in> set (serec (lcm_flash l) i)" using full by fastforce
  have "sp_EliotDeviceId p \<noteq> []" using p by auto
  then show "sp_EliotDeviceId p ! 0 \<noteq> 0" using id(1) nonempty_cstr [of 37 "sp_EliotDeviceId p"] by simp
qed

text \<open>The scene table without the scene, its Eliot id left.\<close>

lemma set_cleared_scene:
  assumes rel: "ftfe_reliable (env_hw env)" and inv: "lcm_inv l" and id: "stored_id l i"
    and get: "get_scene l i out = Inr (True, p)" and args: "scene_args_ok p" and buf: "length (sp_EliotDeviceId out) = ELIOT_DEVICE_ID_SIZE"
  obtains l' where "set_scene env i (clear_scene_name p) l = Inr l'" "controller_inv (controller_part l')" "zone_inv (zone_part l')"
    "same_zones l l'" "same_controllers l l'" "\<And>j out. get_scene l' j out = (if j = i then Inr (False, out) else get_scene l j out)"
    "scenes.table_ok (lcm_flash l')" "eliot_scenes.table_ok (lcm_flash l')" "events l' = events l"
    "\<And>j. j < MAX_NUMBER_OF_SCENES \<Longrightarrow> nvSceneProperties (lcm_scenes l' ! j) \<in> {None, Some (scene_ptr j)} \<and>
      (nvEliotSceneProperties (lcm_scenes l' ! j) = None \<or>
       nvEliotSceneProperties (lcm_scenes l' ! j) = Some (scene_eliot_ptr j) \<and> j < NUM_ELIOT_PROPERTIES_IN_FLASH_SECTOR)"
proof -
  let ?st = "scene_part l" and ?d = "clear_scene_name p"
  have f: "sn_flash ?st = lcm_flash l" "sceneArray ?st = lcm_scenes l" by (simp_all add: scene_part_def)
  have invs: "zone_inv (zone_part l)" "scene_inv ?st" "controller_inv (controller_part l)" using inv by (simp_all add: lcm_inv_def)
  note R = stored_id_record [OF inv id get args]
  have i100: "i < 100" using R(1) by simp
  note I = scene_invD [OF invs(2) R(1), unfolded f]
  have got: "GetSceneProperties ?st i out = Inr (True, p)" using get by (simp add: get_scene_def)
  note G = get_scene_id [OF invs(2) R(1) _ _ buf got, unfolded f, OF R(2,3)]
  obtain m1 where m1: "scene_step (lcm_flash l) m1 i (replicate 436 0xFF) (serec (lcm_flash l) i)"
    "SetSceneProperties (env_hw env) (env_scene_ram env) ?st i ?d = Inr (True, (clear_scene i (entered_scene ?d i ?st))\<lparr>sn_flash := m1\<rparr>)"
    using set_deleted_scene [OF rel _ _ R(1), where st = ?st and p = ?d and ur = "env_scene_ram env", unfolded f,
        OF I(1,2) I(4) [OF R(2)] I(6) [OF I(4) [OF R(2)]]] G
    by (auto simp: clear_scene_name_def)
  define l' where "l' = l\<lparr>lcm_flash := m1, lcm_scenes := sceneArray (clear_scene i (entered_scene ?d i ?st))\<rparr>"
  have set: "set_scene env i ?d l = Inr l'" by (simp add: set_scene_def m1(2) l'_def)
  have a: "lcm_scenes l' = (lcm_scenes l)[i := \<lparr>running = sp_running ?d, nvSceneProperties = None,
      nvEliotSceneProperties = Some (scene_eliot_ptr i)\<rparr>]" and len: "length (lcm_scenes l) = 100"
    using I(3) i100 by (simp_all add: l'_def entered_scene_def f)
  have out: "lcm_flash l' x = lcm_flash l x" if "outside_scenes x" for x using m1(1) that by (simp add: scene_step_def l'_def)
  have ok: "scenes.table_ok (lcm_flash l')" "eliot_scenes.table_ok (lcm_flash l')" using m1(1) by (simp_all add: scene_step_def l'_def)
  have z: "zone_inv (zone_part l')" "GetZoneProperties (zone_part l') j q = GetZoneProperties (zone_part l) j q" for j q
    by (rule zone_frame [OF invs(1)]; auto simp: zone_part_def outside_scenes_def intro: out; simp add: l'_def)+
  have c: "controller_inv (controller_part l')"
    "GetSceneControllerProperties (controller_part l') j q = GetSceneControllerProperties (controller_part l) j q" for j q
    by (rule controller_frame [OF invs(3)]; auto simp: controller_part_def outside_scenes_def intro: out; simp add: l'_def)+
  have other: "get_scene l' j out = get_scene l j out" if "j \<noteq> i" for j out
  proof (cases "j < 100")
    case True
    show ?thesis unfolding get_scene_def
    proof (rule scene_reads [OF True])
      show "sceneArray (scene_part l') ! j = sceneArray ?st ! j" using that by (simp add: scene_part_def a)
      show "nvSceneProperties (sceneArray ?st ! j) \<in> {None, Some (scene_ptr j)}" by (rule scene_pointers(1) [OF invs(2) True])
      show "nvEliotSceneProperties (sceneArray ?st ! j) = None \<or>
         nvEliotSceneProperties (sceneArray ?st ! j) = Some (scene_eliot_ptr j) \<and> j < NUM_ELIOT_PROPERTIES_IN_FLASH_SECTOR"
        by (rule scene_pointers(2) [OF invs(2) True])
      show "scenes.table_ok (sn_flash ?st)" "eliot_scenes.table_ok (sn_flash ?st)" using I by (simp_all add: f)
      show "scenes.table_ok (sn_flash (scene_part l'))" "eliot_scenes.table_ok (sn_flash (scene_part l'))" using ok by (simp_all add: scene_part_def)
      show "srec (sn_flash (scene_part l')) j = srec (sn_flash ?st) j"
        using m1(1) True that by (simp add: scene_step_def scene_part_def l'_def)
      show "j < NUM_ELIOT_PROPERTIES_IN_FLASH_SECTOR \<Longrightarrow> serec (sn_flash (scene_part l')) j = serec (sn_flash ?st) j"
        using m1(1) that by (simp add: scene_step_def scene_part_def l'_def)
    qed
  qed (simp add: get_scene_def GetSceneProperties_def)
  have gone: "get_scene l' i out = Inr (False, out)" for out
    using i100 len by (simp add: get_scene_def GetSceneProperties_def nv_scene_of_def scene_part_def a Let_def)
  have ptr: "nvSceneProperties (lcm_scenes l' ! j) \<in> {None, Some (scene_ptr j)} \<and>
      (nvEliotSceneProperties (lcm_scenes l' ! j) = None \<or>
       nvEliotSceneProperties (lcm_scenes l' ! j) = Some (scene_eliot_ptr j) \<and> j < NUM_ELIOT_PROPERTIES_IN_FLASH_SECTOR)"
    if "j < 100" for j
    using scene_pointers [OF invs(2) that, unfolded f] R(1) len by (cases "j = i") (simp_all add: a)
  show thesis
    by (rule that [OF set c(1) z(1) _ _ _ ok _ ptr])
      (use z(2) c(2) gone other in \<open>simp_all add: same_zones_def same_controllers_def get_zone_def get_controller_def l'_def\<close>)
qed

text \<open>Only the records of the scene controllers change.\<close>

lemma only_controllers_frame:
  assumes o: "only_controllers l l'" and z: "zone_inv (zone_part l)"
    and ok: "scenes.table_ok (lcm_flash l)" "eliot_scenes.table_ok (lcm_flash l)"
    and ptr: "\<And>j. j < MAX_NUMBER_OF_SCENES \<Longrightarrow> nvSceneProperties (lcm_scenes l ! j) \<in> {None, Some (scene_ptr j)} \<and>
      (nvEliotSceneProperties (lcm_scenes l ! j) = None \<or>
       nvEliotSceneProperties (lcm_scenes l ! j) = Some (scene_eliot_ptr j) \<and> j < NUM_ELIOT_PROPERTIES_IN_FLASH_SECTOR)"
  shows "same_zones l l'" "get_scene l' i out = get_scene l i out"
proof -
  have f: "lcm_zones l' = lcm_zones l" "lcm_scenes l' = lcm_scenes l"
    and m: "x < 0xea000 \<or> 0xeb000 \<le> x \<Longrightarrow> lcm_flash l' x = lcm_flash l x" for x
    using o by (auto simp: only_controllers_def)
  have "GetZoneProperties (zone_part l') j q = GetZoneProperties (zone_part l) j q" for j q
    by (rule zone_frame(2) [OF z]; auto simp: zone_part_def f intro: m)
  then show "same_zones l l'" by (simp add: same_zones_def get_zone_def)
  have start: "rg_start scene_region = 0xde000" "rg_start eliot_scene_region = 0xed000"
    by (simp_all add: scene_region_def eliot_scene_region_def)
  have t: "scenes.table_ok (lcm_flash l') = scenes.table_ok (lcm_flash l)" "j < 100 \<Longrightarrow> srec (lcm_flash l') j = srec (lcm_flash l) j" for j
    using m by (intro scenes.table_frame; simp add: start)+
  have te: "eliot_scenes.table_ok (lcm_flash l') = eliot_scenes.table_ok (lcm_flash l)"
    "j < 50 \<Longrightarrow> serec (lcm_flash l') j = serec (lcm_flash l) j" for j
    using m by (intro eliot_scenes.table_frame; simp add: start)+
  show "get_scene l' i out = get_scene l i out"
  proof (cases "i < 100")
    case True
    show ?thesis unfolding get_scene_def
      by (rule scene_reads [OF True]) (use t te ok ptr [OF True] True in \<open>simp_all add: scene_part_def f\<close>)
  qed (simp add: get_scene_def GetSceneProperties_def)
qed

lemma unassigned_free:
  assumes "sid \<noteq> NO_SCENE" "same_controller (unassigned sid c) c'" "length (sc_bank c') = MAX_SCENES_IN_SCENE_CONTROLLER"
    "k < MAX_SCENES_IN_SCENE_CONTROLLER"
  shows "bk_sceneId (sc_bank c' ! k) \<noteq> sid"
proof -
  have "sc_bank c' = map (unassign_bank sid) (sc_bank c)" using assms(2) by (simp add: same_controller_def unassigned_def)
  then have "sc_bank c' ! k = unassign_bank sid (sc_bank c ! k)" using assms(3,4) by simp
  then show ?thesis using assms(1) by (auto simp: unassign_bank_def)
qed

lemma stored_scene_deleted:
  assumes env: "good_env env" and inv: "lcm_inv l" and n: "json_object_get (Some root) ''SID'' = Some (JSON_INTEGER n)"
  defines "i \<equiv> requested_index ''SID'' root"
  assumes s: "scene_of l i = Some s" "stored_id l i"
  shows "\<exists>b l'. HandleDeleteScene env root l = Inr (context_error root, Some b, l') \<and>
    json_object_get (Some b) ''Service'' = Some (JSON_STRING (bytes_of ''SceneDeleted'')) \<and>
    EliotDeleteDevice (sp_EliotDeviceId s) \<in> set (events l') \<and> scene_of l' = (scene_of l)(i := None) \<and> zone_of l' = zone_of l \<and>
    (\<forall>j < MAX_NUMBER_OF_SCENE_CONTROLLERS. controllers_unassigned (of_nat i) l l' j) \<and>
    (\<forall>j out k. fst (get_controller l' j out) \<and> k < MAX_SCENES_IN_SCENE_CONTROLLER \<longrightarrow>
       bk_sceneId (sc_bank (snd (get_controller l' j out)) ! k) \<noteq> of_nat i)"
proof -
  define sid :: byte where "sid = word_of_int n"
  have i: "i = unat sid" "of_nat i = sid" by (simp_all add: i_def requested_index_def n sid_def)
  let ?out = "stack_scene env"
  have buf: "scene_buffers ?out" by (rule good_envD(3) [OF env])
  obtain p where p: "get_scene l i ?out = Inr (True, p)" "cut_scene p = s" "scene_args_ok p" "sp_SceneNameString p ! 0 \<noteq> 0"
    "i < MAX_NUMBER_OF_SCENES" using get_scene_some [OF inv s(1) buf] by metis
  have given: "sp_EliotDeviceId p ! 0 \<noteq> 0" by (rule stored_id_record(4) [OF inv s(2) p(1,3)])
  define l0 where "l0 = emit (EliotDeleteDevice (cstr ELIOT_DEVICE_ID_SIZE (sp_EliotDeviceId p))) l"
  have T: "same_tables l l0" by (simp add: l0_def)
  note T = same_tables [OF T]
  have l0: "lcm_inv l0" "stored_id l0 i" "get_scene l0 i ?out = Inr (True, p)"
    using T inv s(2) p(1) same_scenes_stored [OF T(3)] by (simp_all add: same_scenes_def)
  have len: "length (sp_EliotDeviceId ?out) = ELIOT_DEVICE_ID_SIZE" using buf by (simp add: scene_buffers_def)
  obtain l1 where l1: "set_scene env i (clear_scene_name p) l0 = Inr l1" "controller_inv (controller_part l1)" "zone_inv (zone_part l1)"
    "same_zones l0 l1" "same_controllers l0 l1" "\<And>j out. get_scene l1 j out = (if j = i then Inr (False, out) else get_scene l0 j out)"
    "scenes.table_ok (lcm_flash l1)" "eliot_scenes.table_ok (lcm_flash l1)" "events l1 = events l0"
    "\<And>j. j < MAX_NUMBER_OF_SCENES \<Longrightarrow> nvSceneProperties (lcm_scenes l1 ! j) \<in> {None, Some (scene_ptr j)} \<and>
      (nvEliotSceneProperties (lcm_scenes l1 ! j) = None \<or>
       nvEliotSceneProperties (lcm_scenes l1 ! j) = Some (scene_eliot_ptr j) \<and> j < NUM_ELIOT_PROPERTIES_IN_FLASH_SECTOR)"
    using set_cleared_scene [OF good_envD(1) [OF env] l0 p(3) len] by blast
  define l2 where "l2 = DeleteSceneFromSceneController env sid l1"
  obtain c' f' where "fold (unassign_controller env sid) [0..<MAX_NUMBER_OF_SCENE_CONTROLLERS] (stack_controller env, False, l1) = (c', f', l2)"
    unfolding l2_def DeleteSceneFromSceneController_def by (metis prod.collapse)
  note U = unassign_upto [OF good_envD(1) [OF env] l1(2) good_envD(4) [OF env] order_refl this]
  have o: "only_controllers l1 l2" "\<forall>j < MAX_NUMBER_OF_SCENE_CONTROLLERS. controllers_unassigned sid l1 l2 j" using U by blast+
  note F = only_controllers_frame [OF o(1) l1(3,7,8,10)]
  have get1: "get_controller l1 j out = get_controller l j out" for j out
    using l1(5) T(4) by (simp add: same_controllers_def)
  have un: "controllers_unassigned sid l l2 j" if "j < MAX_NUMBER_OF_SCENE_CONTROLLERS" for j
    using o(2) that get1 by (simp add: controllers_unassigned_def)
  have gone: "get_scene l2 i out = Inr (False, out)" for out using F(2) l1(6) by simp
  have others: "get_scene l2 j out = get_scene l j out" if "j \<noteq> i" for j out
    using F(2) l1(6) T(3) that by (simp add: same_scenes_def)
  have sc: "scene_of l2 = (scene_of l)(i := None)" using gone others by (auto simp: scene_of_def fun_eq_iff)
  have zn: "zone_of l2 = zone_of l" using same_zones_map [OF F(1)] same_zones_map [OF l1(4)] same_zones_map [OF T(2)] by simp
  have "sid \<noteq> NO_SCENE" using p(5) i(1) by auto
  then have free: "bk_sceneId (sc_bank (snd (get_controller l2 j out)) ! k) \<noteq> sid"
    if "fst (get_controller l2 j out)" "k < MAX_SCENES_IN_SCENE_CONTROLLER" for j out k
  proof (rule unassigned_free [OF _ _ _ that(2)])
    have j: "j < MAX_NUMBER_OF_SCENE_CONTROLLERS"
      using that(1) by (auto simp: get_controller_def GetSceneControllerProperties_def split: if_splits)
    show "same_controller (unassigned sid (snd (get_controller l j out))) (snd (get_controller l2 j out))"
      using un [OF j] that(1) by (simp add: controllers_unassigned_def)
    show "length (sc_bank (snd (get_controller l2 j out))) = MAX_SCENES_IN_SCENE_CONTROLLER"
      using that(1) by (auto simp: get_controller_def GetSceneControllerProperties_def simp del: upt_rec_numeral split: option.splits if_splits)
  qed
  have ev: "EliotDeleteDevice (sp_EliotDeviceId s) \<in> set (events l2)"
    using o(1) l1(9) p(2) by (auto simp: only_controllers_def l0_def emit_def cut_scene_def)
  obtain k where k: "app_context (Some root) None = (context_error root, k)" using app_context_error [of root] by (metis prod.collapse)
  have eq: "HandleDeleteScene env root l = Inr (context_error root, Some (scene_deleted i k), l2)"
    using p(1,4,5) given good_envD(5) [OF env] l1(1)
    by (simp add: HandleDeleteScene_def Let_def n sid_def [symmetric] i(1) [symmetric] delete_scene_def l0_def [symmetric] k l2_def)
  have srv: "json_object_get (Some (scene_deleted i k)) ''Service'' = Some (JSON_STRING (bytes_of ''SceneDeleted''))"
    by (simp add: scene_deleted_def)
  show ?thesis
    unfolding i(2) using un free
    by (intro exI [of _ "scene_deleted i k"] exI [of _ l2] conjI eq srv ev sc zn) blast+
qed

lemma unstored_scene_not_deleted:
  assumes env: "good_env env" and inv: "lcm_inv l" and n: "json_object_get (Some root) ''SID'' = Some (JSON_INTEGER n)"
  defines "i \<equiv> requested_index ''SID'' root"
  assumes s: "scene_of l i = Some s" "i < NUM_ELIOT_PROPERTIES_IN_FLASH_SECTOR" "\<not> stored_id l i"
  shows "HandleDeleteScene env root l = Inl OutOfBoundsWrite"
proof -
  define sid :: byte where "sid = word_of_int n"
  have i: "i = unat sid" by (simp add: i_def requested_index_def n sid_def)
  obtain p where p: "get_scene l i (stack_scene env) = Inr (True, p)" "cut_scene p = s" "scene_args_ok p" "sp_SceneNameString p ! 0 \<noteq> 0"
    "i < MAX_NUMBER_OF_SCENES" using get_scene_some [OF inv s(1) good_envD(3) [OF env]] by metis
  define l0 where "l0 = (if sp_EliotDeviceId p ! 0 \<noteq> 0 then emit (EliotDeleteDevice (cstr ELIOT_DEVICE_ID_SIZE (sp_EliotDeviceId p))) l else l)"
  have T: "same_tables l l0" by (simp add: l0_def)
  note T = same_tables [OF T]
  have "scene_id_ok (clear_scene_name p)" using scene_args_id [OF p(3)] by (simp add: scene_id_ok_def clear_scene_name_def)
  moreover have "cstr ELIOT_DEVICE_ID_SIZE (sp_EliotDeviceId (clear_scene_name p)) = sp_EliotDeviceId s"
    using p(2) by (auto simp: clear_scene_name_def cut_scene_def)
  ultimately have "set_scene env i (clear_scene_name p) l0 = Inl OutOfBoundsWrite"
    using unstored_save_overflows [OF good_envD(1) [OF env], of l0 i s "clear_scene_name p"] T inv s
      same_scenes_map [OF T(3)] same_scenes_stored [OF T(3)] by simp
  then show ?thesis
    using p(1,4,5) good_envD(5) [OF env]
    by (simp add: HandleDeleteScene_def Let_def n sid_def [symmetric] i [symmetric] delete_scene_def l0_def [symmetric])
qed

text \<open>C37: deleting a scene in one of the first 50 slots (only those are ever written) whose Eliot id is in flash removes it
  everywhere: the scene is gone, no button of any scene controller calls
  it any more, and nothing else changes: the other scenes, the zones, and the scene controllers apart from
  those buttons. The device is deleted in the cloud and the deletion is broadcast; a wrong context id is reported
  as an error after the deletion. If the scene's Eliot id is not in flash, the request ends in the save that writes
  outside an array (C21).\<close>

theorem scene_deletion:
  assumes env: "good_env env" and inv: "lcm_inv l" and n: "json_object_get (Some root) ''SID'' = Some (JSON_INTEGER n)"
  defines "i \<equiv> requested_index ''SID'' root"
  assumes s: "scene_of l i = Some s" "i < NUM_ELIOT_PROPERTIES_IN_FLASH_SECTOR"
  shows "if stored_id l i
    then \<exists>b l'. HandleDeleteScene env root l = Inr (context_error root, Some b, l') \<and>
      json_object_get (Some b) ''Service'' = Some (JSON_STRING (bytes_of ''SceneDeleted'')) \<and>
      EliotDeleteDevice (sp_EliotDeviceId s) \<in> set (events l') \<and> scene_of l' = (scene_of l)(i := None) \<and> zone_of l' = zone_of l \<and>
      (\<forall>j < MAX_NUMBER_OF_SCENE_CONTROLLERS. controllers_unassigned (of_nat i) l l' j) \<and>
      (\<forall>j out k. fst (get_controller l' j out) \<and> k < MAX_SCENES_IN_SCENE_CONTROLLER \<longrightarrow>
         bk_sceneId (sc_bank (snd (get_controller l' j out)) ! k) \<noteq> of_nat i)
    else HandleDeleteScene env root l = Inl OutOfBoundsWrite"
proof (cases "stored_id l i")
  case True
  show ?thesis unfolding i_def if_P [OF True [unfolded i_def]] by (rule stored_scene_deleted [OF env inv n s(1) [unfolded i_def] True [unfolded i_def]])
next
  case False
  show ?thesis unfolding i_def if_not_P [OF False [unfolded i_def]] by (rule unstored_scene_not_deleted [OF env inv n s [unfolded i_def] False [unfolded i_def]])
qed

subsection \<open>Creating a scene\<close>

lemma available_scene:
  assumes "lcm_inv l" "GetAvailableSceneIndex (scene_part l) = i" "i < MAX_NUMBER_OF_SCENES"
  shows "scene_of l i = None" "nvSceneProperties (sceneArray (scene_part l) ! i) = None" "\<not> memory_initialized (srec (lcm_flash l) i)"
proof -
  have inv: "scene_inv (scene_part l)" using assms(1) by (simp add: lcm_inv_def)
  let ?b = "srec (sn_flash (scene_part l)) i"
  have b: "nv_scene_of (scene_part l) i = (if memory_initialized ?b then Some ?b else None)" by (rule nv_scene_of_inv [OF inv assms(3)])
  have "case nv_scene_of (scene_part l) i of None \<Rightarrow> True | Some b \<Rightarrow> ns_name b ! 0 = 0"
    using assms(2,3) loop_find_hit [of "\<lambda>i. case nv_scene_of (scene_part l) i of None \<Rightarrow> True | Some b \<Rightarrow> ns_name b ! 0 = 0" 0 100]
    by (simp add: GetAvailableSceneIndex_def)
  then have none: "nv_scene_of (scene_part l) i = None" using b inv assms(3) by (auto simp: scene_inv_def split: if_splits)
  then show "scene_of l i = None" by (simp add: scene_of_def get_scene_def GetSceneProperties_def Let_def)
  show "nvSceneProperties (sceneArray (scene_part l) ! i) = None" using none by (simp add: nv_scene_of_def)
  show "\<not> memory_initialized (srec (lcm_flash l) i)" using none b by (simp add: scene_part_def split: if_splits)
qed

lemma set_scene_nameless:
  assumes inv: "lcm_inv l" and i: "i < NUM_ELIOT_PROPERTIES_IN_FLASH_SECTOR" and none: "scene_of l i = None"
    "nvSceneProperties (sceneArray (scene_part l) ! i) = None" "\<not> memory_initialized (srec (lcm_flash l) i)"
    and p: "sp_SceneNameString p ! 0 = 0"
  obtains l' where "set_scene env i p l = Inr l'" "lcm_inv l'" "same_zones l l'" "same_controllers l l'" "scene_of l' = scene_of l"
proof -
  let ?st = "scene_part l"
  have invs: "zone_inv (zone_part l)" "scene_inv ?st" "controller_inv (controller_part l)" using inv by (simp_all add: lcm_inv_def)
  note I = scene_invD [OF invs(2) i]
  have i100: "i < 100" using i by simp
  have f: "sn_flash ?st = lcm_flash l" by (simp add: scene_part_def)
  define st' where "st' = clear_scene_eliot i (clear_scene i (entered_scene p i ?st))"
  have set: "SetSceneProperties (env_hw env) (env_scene_ram env) ?st i p = Inr (True, st')"
    using SetScene_new_eq [OF I(1,2) i, unfolded f, OF none(3), of "env_hw env" "env_scene_ram env" p] p
    by (simp add: store_new_scene_def st'_def entered_scene_def)
  have a: "sn_flash st' = lcm_flash l" "sceneArray st' = (sceneArray ?st)[i := \<lparr>running = sp_running p, nvSceneProperties = None,
      nvEliotSceneProperties = None\<rparr>]"
    using I(3) i100 by (simp_all add: st'_def entered_scene_def f)
  have e: "\<not> memory_initialized (serec (lcm_flash l) i)" using I(4) none(3) by (auto simp: f)
  have blank: "GetNVScenePropertiesPtr (lcm_flash l) i True = None" "GetNVEliotScenePropertiesPtr (lcm_flash l) i True = None"
    using scene_lookup(1) [OF I(1) i100] scene_eliot_lookup(1) [OF I(2) i] none(3) e by (simp_all add: f)
  have at: "sceneArray st' ! j = (if j = i then \<lparr>running = sp_running p, nvSceneProperties = None, nvEliotSceneProperties = None\<rparr>
      else sceneArray ?st ! j)" "length (sceneArray st') = 100" for j
    using I(3) i100 by (simp_all add: a(2))
  have inv': "scene_inv st'"
    using invs(2) blank unfolding scene_inv_def at a(1) f by auto
  define l' where "l' = l\<lparr>lcm_flash := sn_flash st', lcm_scenes := sceneArray st'\<rparr>"
  have st: "scene_part l' = st'" by (simp add: scene_part_def l'_def)
  have z: "zone_inv (zone_part l')" "GetZoneProperties (zone_part l') j q = GetZoneProperties (zone_part l) j q" for j q
    by (rule zone_frame [OF invs(1)]; simp add: zone_part_def l'_def a)+
  have c: "controller_inv (controller_part l')"
    "GetSceneControllerProperties (controller_part l') j q = GetSceneControllerProperties (controller_part l) j q" for j q
    by (rule controller_frame [OF invs(3)]; simp add: controller_part_def l'_def a)+
  have "get_scene l' j out = get_scene l j out" if "j \<noteq> i" for j out
    unfolding get_scene_def st GetSceneProperties_def nv_scene_of_def at if_not_P [OF that] a(1) f ..
  moreover have "get_scene l' i out = Inr (False, out)" for out
    by (simp add: get_scene_def st GetSceneProperties_def nv_scene_of_def at Let_def)
  ultimately have "scene_of l' j = scene_of l j" for j using none(1) by (cases "j = i") (simp_all add: scene_of_def)
  then have "scene_of l' = scene_of l" ..
  moreover have "set_scene env i p l = Inr l'" by (simp add: set_scene_def set l'_def)
  ultimately show thesis
    using that [of l'] z c inv' by (simp add: lcm_inv_def st same_zones_def same_controllers_def get_zone_def get_controller_def)
qed

lemma scene_update_keeps:
  "key \<noteq> ''Frequency'' \<Longrightarrow> sp_freq (scene_update key v s) = sp_freq s"
  "key \<noteq> ''DayBits'' \<Longrightarrow> sp_days (scene_update key v s) = sp_days s"
  "key \<noteq> ''TriggerType'' \<Longrightarrow> sp_trigger (scene_update key v s) = sp_trigger s"
  "key \<noteq> ''Delta'' \<Longrightarrow> sp_delta (scene_update key v s) = sp_delta s"
  by (simp_all add: scene_update_def set_schedule_def Let_def)

text \<open>What creating a scene makes of a list that passes the checks, in the first free slot, below slot 50. The scene has the
  properties of the list and is not running; of the others, frequency, days, trigger type, offset, the Eliot id and
  the time its next trigger is computed from are whatever the stack held where the list does not name them. And a list
  without a name creates nothing, although the answer is that of success, a creation is broadcast and the
  scene is added in the cloud.\<close>

lemma created_scene_reads_the_stack:
  fixes env :: environment and l :: lcm and root :: json
  assumes env: "good_env env" "length (stack_name env) = MAX_SIZE_NAME_STRING" and inv: "lcm_inv l"
    and list: "no_nul_names (json_object_get (Some root) ''PropertyList'')"
    "scene_list_error (zone_of l) (json_object_get (Some root) ''PropertyList'') = None"
    and i: "GetAvailableSceneIndex (scene_part l) = i" "i < NUM_ELIOT_PROPERTIES_IN_FLASH_SECTOR"
    and id: "0 \<in> set (sp_EliotDeviceId (stack_scene env))"
  defines "s \<equiv> requested_scene root (cut_scene (new_scene (stack_scene env)))"
    and "keys \<equiv> fst ` set (json_pairs (json_object_get (Some root) ''PropertyList''))"
  shows "\<exists>s' b l'. calculateNewTrigger (ti_sunTimes ti) (ti_junk ti) s (ti_currentTime ti) = Some s' \<and>
    HandleCreateScene env ti root l = Some (Inr (context_error root, Some b, l')) \<and>
    json_object_get (Some b) ''Service'' = Some (JSON_STRING (bytes_of ''SceneCreated'')) \<and>
    EliotAddScene i \<in> set (events l') \<and> lcm_inv l' \<and> same_zones l l' \<and> same_controllers l l' \<and> scene_of l i = None \<and>
    scene_of l' = (if sp_SceneNameString s = [] then scene_of l else (scene_of l)(i \<mapsto> s')) \<and>
    (''Frequency'' \<notin> keys \<longrightarrow> sp_freq s' = sp_freq (stack_scene env)) \<and>
    (''DayBits'' \<notin> keys \<longrightarrow> sp_days s' = sp_days (stack_scene env)) \<and>
    (''TriggerType'' \<notin> keys \<longrightarrow> sp_trigger s' = sp_trigger (stack_scene env)) \<and>
    (''Delta'' \<notin> keys \<longrightarrow> sp_delta s' = sp_delta (stack_scene env)) \<and>
    sp_EliotDeviceId s' = cstr ELIOT_DEVICE_ID_SIZE (sp_EliotDeviceId (stack_scene env))"
proof -
  let ?list = "json_object_get (Some root) ''PropertyList''" and ?stack = "stack_scene env"
  have i100: "i < MAX_NUMBER_OF_SCENES" using i(2) by simp
  note A = available_scene [OF inv i(1) i100]
  have sb: "scene_buffers ?stack" by (rule good_envD(3) [OF env(1)])
  have buf: "scene_buffers_ok (new_scene ?stack)" using sb by (simp add: scene_buffers_ok_def scene_buffers_def new_scene_def)
  obtain q where q: "json_is_object ?list" "CheckFreqDaybits ?list = None" "scene_property_passes env l ?list (new_scene ?stack) = Inr (False, q)"
    "cut_scene (sq_scene q) = fold (\<lambda>(key, v). scene_update key v) (json_pairs ?list) (cut_scene (new_scene ?stack))"
    "scene_buffers_ok (sq_scene q)" "sp_EliotDeviceId (sq_scene q) = sp_EliotDeviceId (new_scene ?stack)" "sq_response q = None"
    "sq_nameChange q \<longleftrightarrow> ''Name'' \<in> fst ` set (json_pairs ?list)" "json_is_object (Some (sq_list q))"
    by (rule passes_accepted [OF env inv list buf])
  have cut: "cut_scene (sq_scene q) = s" using q(4) by (simp add: s_def requested_scene_def)
  obtain t where t: "calculateNewTrigger (ti_sunTimes ti) (ti_junk ti) (sq_scene q) (ti_currentTime ti) = Some ((sq_scene q)\<lparr>sp_nextTriggerTime := t\<rparr>)"
    "calculateNewTrigger (ti_sunTimes ti) (ti_junk ti) s (ti_currentTime ti) = Some (cut_scene ((sq_scene q)\<lparr>sp_nextTriggerTime := t\<rparr>))"
    unfolding cut [symmetric] by (rule trigger_cut)
  let ?p = "(sq_scene q)\<lparr>sp_nextTriggerTime := t\<rparr>"
  have pid: "sp_EliotDeviceId ?p = sp_EliotDeviceId ?stack" using q(6) by (simp add: new_scene_def)
  have ne: "sp_SceneNameString (sq_scene q) \<noteq> []" using q(5) by (auto simp: scene_buffers_ok_def)
  have name: "sp_SceneNameString ?p ! 0 \<noteq> 0 \<longleftrightarrow> sp_SceneNameString s \<noteq> []"
    using nonempty_cstr [of 21 "sp_SceneNameString (sq_scene q)"] ne by (simp add: cut [symmetric]) (simp add: cut_scene_def)
  obtain l1 where l1: "set_scene env i ?p l = Inr l1" "lcm_inv l1" "same_zones l l1" "same_controllers l l1"
    "scene_of l1 = (if sp_SceneNameString s = [] then scene_of l else (scene_of l)(i \<mapsto> cut_scene ?p))"
  proof (cases "sp_SceneNameString ?p ! 0 = 0")
    case True
    then show thesis using that name by (metis set_scene_nameless [OF inv i(2) A True])
  next
    case False
    have args: "scene_args_ok ?p"
      using q(5) pid sb id False by (simp add: scene_args_ok_def scene_buffers_ok_def scene_buffers_def)
    have keeps: "keeps_eliot_id (scene_part l) i ?p" using A(2) by (simp add: keeps_eliot_id_def)
    obtain l1 where k: "set_scene env i ?p l = Inr l1" "lcm_inv l1" "same_zones l l1" "same_controllers l l1"
      "\<And>out. \<exists>r. get_scene l1 i out = Inr (True, r) \<and> same_scene ?p r"
      "\<And>j out. j \<noteq> i \<Longrightarrow> get_scene l1 j out = get_scene l j out"
      using set_scene_kept [OF good_envD(1) [OF env(1)] inv i(2) args keeps False] by metis
    have at: "scene_of l1 i = Some (cut_scene ?p)"
      using k(5) [of blank_scene] cut_scene_eq_iff [of _ ?p] by (auto simp: scene_of_def)
    then have "scene_of l1 = (scene_of l)(i \<mapsto> cut_scene ?p)" using k(6) by (auto simp: scene_of_def fun_eq_iff)
    then show thesis using that k(1-4) name False by simp
  qed
  obtain k where k: "app_context (Some root) None = (context_error root, k)" using app_context_error [of root] by (metis prod.collapse)
  let ?b = "scene_created i k" and ?l = "emit (EliotAddScene i) l1"
  have eq: "HandleCreateScene env ti root l = Some (Inr (context_error root, Some ?b, ?l))"
    using i(1) i100 q(1-3,7) good_envD(5) [OF env(1)]
    by (simp add: HandleCreateScene_def Let_def create_scene_def k t(1) l1(1))
  have T: "same_tables l1 ?l" by simp
  note T = same_tables [OF T]
  have tabs: "lcm_inv ?l" "same_zones l ?l" "same_controllers l ?l"
    "scene_of ?l = (if sp_SceneNameString s = [] then scene_of l else (scene_of l)(i \<mapsto> cut_scene ?p))"
    using T l1 same_scenes_map [OF T(3)] same_controllers_trans by (auto simp: same_zones_def)
  have srv: "json_object_get (Some ?b) ''Service'' = Some (JSON_STRING (bytes_of ''SceneCreated''))" by (simp add: scene_created_def)
  have kept: "f (fold (\<lambda>(key, v). scene_update key v) ps s0) = f s0"
    if "\<And>key v s. key \<in> fst ` set ps \<Longrightarrow> f (scene_update key v s) = f s" for f :: "scene_properties \<Rightarrow> 'z" and ps s0
    using that by (induction ps arbitrary: s0) (auto split: prod.split)
  have unset: "K \<notin> keys \<longrightarrow> f (cut_scene ?p) = f ?stack"
    if f: "\<And>key v s. key \<noteq> K \<Longrightarrow> f (scene_update key v s) = f s" "\<And>s t. f (s\<lparr>sp_nextTriggerTime := t\<rparr>) = f s"
      and stack: "f (cut_scene (new_scene ?stack)) = f ?stack"
    for f :: "scene_properties \<Rightarrow> 'z" and K
  proof
    assume K: "K \<notin> keys"
    have "f (scene_update key v s) = f s" if "key \<in> fst ` set (json_pairs ?list)" for key v s
      using that K by (intro f(1)) (auto simp: keys_def)
    then have "f s = f (cut_scene (new_scene ?stack))" unfolding s_def requested_scene_def by (rule kept)
    moreover have "cut_scene ?p = s\<lparr>sp_nextTriggerTime := t\<rparr>" by (simp add: cut [symmetric]) (simp add: cut_scene_def)
    ultimately show "f (cut_scene ?p) = f ?stack" using f(2) stack by simp
  qed
  have fields: "''Frequency'' \<notin> keys \<longrightarrow> sp_freq (cut_scene ?p) = sp_freq ?stack"
    "''DayBits'' \<notin> keys \<longrightarrow> sp_days (cut_scene ?p) = sp_days ?stack"
    "''TriggerType'' \<notin> keys \<longrightarrow> sp_trigger (cut_scene ?p) = sp_trigger ?stack"
    "''Delta'' \<notin> keys \<longrightarrow> sp_delta (cut_scene ?p) = sp_delta ?stack"
    by (rule unset; simp add: scene_update_keeps new_scene_def)+
  have eid: "sp_EliotDeviceId (cut_scene ?p) = cstr ELIOT_DEVICE_ID_SIZE (sp_EliotDeviceId ?stack)" using pid by (simp add: cut_scene_def)
  have ev: "EliotAddScene i \<in> set (events ?l)" by (simp add: emit_def)
  show ?thesis
    by (intro exI [of _ "cut_scene ?p"] exI [of _ ?b] exI [of _ ?l] conjI t(2) eq srv ev tabs A(1) fields eid)
qed

subsection \<open>Running a scene\<close>

definition run_scene_error :: "(nat \<Rightarrow> scene_properties option) \<Rightarrow> json \<Rightarrow> nat option" where
  "run_scene_error S root =
     (let sceneObject = json_object_get (Some root) ''SID''
      in if \<not> json_is_integer sceneObject then Some SW_SCENE_ID_MUST_BE_AN_INTEGER
         else if int MAX_NUMBER_OF_SCENES \<le> json_integer_value sceneObject then Some SW_SCENE_ID_MUST_BE_LESS_THEN
         else if S (requested_index ''SID'' root) = None then Some SW_UNABLE_TO_GET_PROPERTIES_FOR_SCENE
         else None)"

lemma run_scene_executes:
  assumes "good_env env" "lcm_inv l" "run_scene_error (scene_of l) root = None"
  defines "sid \<equiv> word_of_int (json_integer_value (json_object_get (Some root) ''SID'')) :: byte"
  shows "HandleRunScene env root l =
    bind_sum (execute_stored_scene env sid (snd (app_context (Some root) None)) True 0 1 0 l) (\<lambda>l. Inr (context_error root, l))"
proof -
  let ?so = "json_object_get (Some root) ''SID''"
  have n: "json_is_integer ?so" "\<not> int MAX_NUMBER_OF_SCENES \<le> json_integer_value ?so" "scene_of l (unat sid) \<noteq> None"
    using assms(3) by (auto simp: run_scene_error_def requested_index_def sid_def Let_def split: if_splits)
  then obtain s where s: "scene_of l (unat sid) = Some s" by blast
  obtain p where p: "get_scene l (unat sid) (stack_scene env) = Inr (True, p)" "sp_SceneNameString p ! 0 \<noteq> 0"
    using get_scene_some [OF assms(2) s good_envD(3) [OF assms(1)]] by metis
  obtain k where k: "app_context (Some root) None = (context_error root, k)" using app_context_error [of root] by (metis prod.collapse)
  have "?so \<noteq> None" using json_is_integerE [OF n(1)] by auto
  then show ?thesis
    using n(1,2) p by (cases "ExecuteScene env sid p k True 0 1 0 l")
      (auto simp: HandleRunScene_def Let_def sid_def [symmetric] k execute_stored_scene_def)
qed

text \<open>C38: a request to run a scene is answered with an error and does nothing, or runs the scene to the end. A missing
  id is answered like one that is not an integer. Otherwise, from a consistent state with an idle transmit task
  and distinct zone addresses, a scene with zones that is not running, in one of the first 50 slots (only those are ever
  written) and with its Eliot id in flash, brings every existing zone to the
  level (at most 100) and the state of its last entry once the transmit task has emptied its queue; the other
  zones stay as they were and the scene is saved as not running. If the scene's Eliot id is not in flash, the
  request ends in the save that writes outside an array (C21).\<close>

theorem run_scene_request:
  assumes "good_env env" "lcm_inv l" "distinct_addresses (zone_of l)" "transmitQueue l = []" "transmitMessages l = 0"
    and ready: "\<forall>s. scene_of l (requested_index ''SID'' root) = Some s \<longrightarrow>
      requested_index ''SID'' root < NUM_ELIOT_PROPERTIES_IN_FLASH_SECTOR \<and> sp_running s \<noteq> 1 \<and> 0 < unat (sp_numZonesInScene s)"
  defines "i \<equiv> requested_index ''SID'' root"
  shows "case run_scene_error (scene_of l) root of
      Some code \<Rightarrow> HandleRunScene env root l = Inr (Some code, l)
    | None \<Rightarrow> if stored_id l i
        then \<exists>s l1 l2. scene_of l i = Some s \<and> HandleRunScene env root l = Inr (context_error root, l1) \<and>
          transmit_run env acks (length (transmitQueue l1)) l1 = Inr l2 \<and> lcm_inv l2 \<and> transmitQueue l2 = [] \<and>
          scene_of l2 = (scene_of l)(i \<mapsto> s\<lparr>sp_running := 0\<rparr>) \<and>
          (\<forall>k < unat (sp_numZonesInScene s). last_entry s k \<and> zone_of l (entry_zone s k) \<noteq> None \<longrightarrow>
             (\<exists>z. zone_of l2 (entry_zone s k) = Some z \<and> zp_state z = (zs_state (sp_zoneData s ! k) \<noteq> 0) \<and>
                zp_powerLevel z = min 100 (zs_powerLevel (sp_zoneData s ! k)))) \<and>
          (\<forall>j. j \<notin> entry_zone s ` {0..<unat (sp_numZonesInScene s)} \<longrightarrow> zone_of l2 j = zone_of l j)
        else HandleRunScene env root l = Inl OutOfBoundsWrite"
proof (cases "run_scene_error (scene_of l) root")
  case None
  define sid :: byte where "sid = word_of_int (json_integer_value (json_object_get (Some root) ''SID''))"
  have i: "i = unat sid" by (simp add: i_def requested_index_def sid_def)
  obtain s where s: "scene_of l (unat sid) = Some s"
    using None by (auto simp: run_scene_error_def i [symmetric] i_def Let_def split: if_splits)
  have slot: "unat sid < NUM_ELIOT_PROPERTIES_IN_FLASH_SECTOR" and r: "sp_running s \<noteq> 1" "0 < unat (sp_numZonesInScene s)"
    using ready s by (simp_all add: i [symmetric] i_def)
  note H = run_scene_executes [OF assms(1,2) None, folded sid_def]
  show ?thesis
  proof (cases "stored_id l (unat sid)")
    case False
    have "HandleRunScene env root l = Inl OutOfBoundsWrite" using H execute_unstored_scene [OF assms(1,2) s slot False r(1)] by simp
    then show ?thesis unfolding None option.case i if_not_P [OF False] .
  next
    case True
    from scene_reaches_its_levels [OF assms(1-5) s True r, of "snd (app_context (Some root) None)" 1 0 acks]
    obtain l1 l2 where l: "execute_stored_scene env sid (snd (app_context (Some root) None)) True 0 1 0 l = Inr l1"
      "transmit_run env acks (length (transmitQueue l1)) l1 = Inr l2" "lcm_inv l2" "transmitQueue l2 = []"
      "scene_of l2 = (scene_of l)(unat sid \<mapsto> s\<lparr>sp_running := 0\<rparr>)"
      "\<forall>k < unat (sp_numZonesInScene s). last_entry s k \<and> zone_of l (entry_zone s k) \<noteq> None \<longrightarrow>
         (\<exists>z. zone_of l2 (entry_zone s k) = Some z \<and> zp_state z = (zs_state (sp_zoneData s ! k) \<noteq> 0) \<and>
            zp_powerLevel z = min 100 (zs_powerLevel (sp_zoneData s ! k)))"
      "\<forall>j. j \<notin> entry_zone s ` {0..<unat (sp_numZonesInScene s)} \<longrightarrow> zone_of l2 j = zone_of l j"
      unfolding if_P [OF refl] by blast
    have H': "HandleRunScene env root l = Inr (context_error root, l1)" using H l(1) by simp
    show ?thesis unfolding None option.case i if_P [OF True] by (intro exI [of _ s] exI [of _ l1] exI [of _ l2] conjI s H' l)
  qed
next
  case (Some code)
  have none: "get_scene l j (stack_scene env) = Inr (False, stack_scene env)" if "scene_of l j = None" for j
    by (rule scene_of_get(2) [OF assms(2) that])
  show ?thesis
    using Some none json_is_integerE [of "json_object_get (Some root) ''SID''"]
    by (auto simp: run_scene_error_def HandleRunScene_def requested_index_def Let_def BuildErrorResponse_def split: if_splits)
qed

subsection \<open>Sample requests\<close>

definition sample_inputs :: trigger_inputs where
  "sample_inputs = \<lparr>ti_sunTimes = (\<lambda>d b. d), ti_junk = 0, ti_currentTime = \<lparr>SECONDS = 0x5F12CBA0, MILLISECONDS = 0\<rparr>\<rparr>"

theorem accepted_zone_list_witness:
  "\<exists>l. lcm_inv l \<and> (\<exists>q'. VerifySceneZoneList calm_env l (JSON_ARRAY [JSON_OBJECT [(''ZID'', JSON_INTEGER 3), (''Lvl'', JSON_INTEGER 40)]]) True
      lamp_scene = (None, q') \<and> unat (sp_numZonesInScene q') = 1 \<and> zone_of l (entry_zone q' 0) \<noteq> None)"
proof -
  obtain l where l: "lcm_inv l" "zone_of l = [3 \<mapsto> cut_zone sample_zone]" "distinct_addresses (zone_of l)"
    "transmitQueue l = []" "transmitMessages l = 0" "scene_of l 0 = Some (cut_scene lamp_scene)" "stored_id l 0"
    "lcm_houseID l = 0" "\<not> lcm_addALight l" "\<not> lcm_addASceneController l"
    "\<forall>out. \<exists>c. get_controller l 0 out = (True, c) \<and> same_controller lamp_controller c"
    by (rule sample_installation [OF lamp_scene_ok])
  let ?es = "[JSON_OBJECT [(''ZID'', JSON_INTEGER 3), (''Lvl'', JSON_INTEGER 40)]]"
  have "zone_list_error (zone_of l) ?es = None" by (simp add: zone_list_error_def entry_error_def Let_def l(2))
  then have "VerifySceneZoneList calm_env l (JSON_ARRAY ?es) False lamp_scene = (None, lamp_scene)"
    by (simp add: verify_list_check [OF calm_env_good l(1)])
  from accepted_zone_list [OF calm_env_good l(1) this, of l lamp_scene] l(1) show ?thesis by auto
qed

definition dim_scene_request :: json where
  "dim_scene_request = JSON_OBJECT [(''SID'', JSON_INTEGER 0), (''PropertyList'',
     JSON_OBJECT [(''ZoneList'', JSON_ARRAY [JSON_OBJECT [(''ZID'', JSON_INTEGER 3), (''Lvl'', JSON_INTEGER 40)]])])]"

theorem set_scene_request_exact_witness:
  "\<exists>l b l'. HandleSetSceneProperties calm_env sample_inputs dim_scene_request l = Some (Inr (None, Some b, l')) \<and>
     (\<exists>s. scene_of l' 0 = Some s \<and> map zs_powerLevel (sp_zoneData s) = [40])"
proof -
  obtain l where l: "lcm_inv l" "zone_of l = [3 \<mapsto> cut_zone sample_zone]" "distinct_addresses (zone_of l)"
    "transmitQueue l = []" "transmitMessages l = 0" "scene_of l 0 = Some (cut_scene lamp_scene)" "stored_id l 0"
    "lcm_houseID l = 0" "\<not> lcm_addALight l" "\<not> lcm_addASceneController l"
    "\<forall>out. \<exists>c. get_controller l 0 out = (True, c) \<and> same_controller lamp_controller c"
    by (rule sample_installation [OF lamp_scene_ok])
  let ?s = "requested_scene dim_scene_request (cut_scene lamp_scene)"
  have i: "requested_index ''SID'' dim_scene_request = 0" by (simp add: requested_index_def dim_scene_request_def)
  have names: "no_nul_names (json_object_get (Some dim_scene_request) ''PropertyList'')"
    by (simp add: no_nul_names_def dim_scene_request_def)
  have s: "sp_SceneNameString ?s = cstr 21 (sp_SceneNameString lamp_scene)" "map zs_powerLevel (sp_zoneData ?s) = [40]"
    by (simp_all add: requested_scene_def dim_scene_request_def scene_update_def entry_of_def Let_def) (simp add: cut_scene_def)
  have ne: "cstr 21 (sp_SceneNameString lamp_scene) \<noteq> []" by (simp add: lamp_scene_def sample_scene_def cstr_def)
  have id: "\<forall>s. scene_of l (requested_index ''SID'' dim_scene_request) = Some s \<longrightarrow>
      requested_index ''SID'' dim_scene_request < NUM_ELIOT_PROPERTIES_IN_FLASH_SECTOR \<and>
      sp_SceneNameString (requested_scene dim_scene_request s) \<noteq> []"
    using l(6) s(1) ne by (simp add: i)
  have "scene_list_error (zone_of l) (json_object_get (Some dim_scene_request) ''PropertyList'') = None"
    by (simp add: scene_list_error_def dim_scene_request_def CheckFreqDaybits_def scene_property_error_def zone_list_error_def
        entry_error_def Let_def l(2))
  then have "scene_request_error (zone_of l) (scene_of l) dim_scene_request = None" "context_error dim_scene_request = None"
    by (simp_all add: scene_request_error_def i l(6) context_error_def) (simp_all add: dim_scene_request_def)
  with set_scene_request_exact [OF calm_env_good _ l(1) names id, of sample_inputs, unfolded i if_P [OF l(7)]]
  obtain s' b l' where r: "HandleSetSceneProperties calm_env sample_inputs dim_scene_request l = Some (Inr (None, Some b, l'))"
    "scene_of l' = (scene_of l)(0 \<mapsto> s')"
    "calculateNewTrigger (ti_sunTimes sample_inputs) (ti_junk sample_inputs) ?s (ti_currentTime sample_inputs) = Some s'"
    using l(6) by (auto simp: calm_env_def)
  have "sp_zoneData s' = sp_zoneData ?s"
    using r(3) trigger_computed [of "ti_sunTimes sample_inputs" "ti_junk sample_inputs" ?s "ti_currentTime sample_inputs"] by auto
  then show ?thesis using r(1,2) s(2) by (intro exI [of _ l] exI [of _ b] exI [of _ l']) simp
qed

theorem scene_deletion_witness:
  "\<exists>l b l' c. HandleDeleteScene calm_env (JSON_OBJECT [(''SID'', JSON_INTEGER 0)]) l = Inr (None, Some b, l') \<and>
     scene_of l 0 \<noteq> None \<and> scene_of l' 0 = None \<and> EliotDeleteDevice [0x65] \<in> set (events l') \<and>
     get_controller l' 0 sample_controller = (True, c) \<and> bk_sceneId (sc_bank c ! 0) = NO_SCENE"
proof -
  obtain l where l: "lcm_inv l" "zone_of l = [3 \<mapsto> cut_zone sample_zone]" "distinct_addresses (zone_of l)"
    "transmitQueue l = []" "transmitMessages l = 0" "scene_of l 0 = Some (cut_scene lamp_scene)" "stored_id l 0"
    "lcm_houseID l = 0" "\<not> lcm_addALight l" "\<not> lcm_addASceneController l"
    "\<forall>out. \<exists>c. get_controller l 0 out = (True, c) \<and> same_controller lamp_controller c"
    by (rule sample_installation [OF lamp_scene_ok])
  let ?root = "JSON_OBJECT [(''SID'', JSON_INTEGER 0)]"
  have i: "requested_index ''SID'' ?root = 0" by (simp add: requested_index_def)
  have n: "json_object_get (Some ?root) ''SID'' = Some (JSON_INTEGER 0)" by simp
  have s: "scene_of l (requested_index ''SID'' ?root) = Some (cut_scene lamp_scene)"
    "requested_index ''SID'' ?root < NUM_ELIOT_PROPERTIES_IN_FLASH_SECTOR" and id: "stored_id l (requested_index ''SID'' ?root)"
    using l(6,7) by (simp_all add: i)
  have none: "context_error ?root = None" by (simp add: context_error_def)
  have eid: "sp_EliotDeviceId (cut_scene lamp_scene) = [0x65]" by (simp add: cut_scene_def lamp_scene_def cstr_def)
  from scene_deletion [OF calm_env_good l(1) n s, unfolded if_P [OF id], unfolded none i eid]
  obtain b l' where r: "HandleDeleteScene calm_env ?root l = Inr (None, Some b, l')" "scene_of l' = (scene_of l)(0 := None)"
    "EliotDeleteDevice [0x65] \<in> set (events l')" "controllers_unassigned 0 l l' 0" by auto
  obtain c0 where c0: "get_controller l 0 sample_controller = (True, c0)" "same_controller lamp_controller c0" using l(11) by blast
  obtain f c where c: "get_controller l' 0 sample_controller = (f, c)" by fastforce
  have "f" "sc_bank c = map (unassign_bank 0) (sc_bank c0)"
    using r(4) c0(1) c by (auto simp: controllers_unassigned_def same_controller_def unassigned_def dest!: spec [of _ sample_controller])
  moreover have "bk_sceneId (map (unassign_bank 0) (sc_bank c0) ! 0) = NO_SCENE"
    using c0(2) by (simp add: same_controller_def lamp_controller_def unassign_bank_def)
  ultimately show ?thesis
    using r(1-3) l(6) c by (intro exI [of _ l] exI [of _ b] exI [of _ l'] exI [of _ c]) simp
qed

definition named_scene_request :: json where
  "named_scene_request = JSON_OBJECT [(''PropertyList'', JSON_OBJECT [(''Name'', JSON_STRING [0x41])])]"

lemma created_scene_reads_the_stack_witness:
  "\<exists>b l' s'. HandleCreateScene calm_env sample_inputs named_scene_request fresh_lcm = Some (Inr (None, Some b, l')) \<and>
     scene_of l' 0 = Some s' \<and> sp_freq s' = sp_freq sample_scene"
proof -
  have names: "no_nul_names (json_object_get (Some named_scene_request) ''PropertyList'')"
    by (simp add: no_nul_names_def named_scene_request_def)
  have "clean_name [0x41] = [0x41]" by code_simp
  then have s: "sp_SceneNameString (requested_scene named_scene_request (cut_scene (new_scene sample_scene))) = [0x41]"
    by (simp add: requested_scene_def named_scene_request_def scene_update_def)
  have list: "scene_list_error (zone_of fresh_lcm) (json_object_get (Some named_scene_request) ''PropertyList'') = None"
    by (simp add: scene_list_error_def named_scene_request_def CheckFreqDaybits_def scene_property_error_def Let_def)
  have free: "GetAvailableSceneIndex (scene_part fresh_lcm) = 0"
    unfolding GetAvailableSceneIndex_def
    by (rule loop_find_eqI) (simp_all add: nv_scene_of_def scene_part_def fresh_lcm_def initial_scene_def)
  have ctx: "context_error named_scene_request = None" by (simp add: context_error_def named_scene_request_def)
  have freq: "''Frequency'' \<notin> fst ` set (json_pairs (json_object_get (Some named_scene_request) ''PropertyList''))"
    by (simp add: named_scene_request_def)
  have stack: "stack_scene calm_env = sample_scene" "length (stack_name calm_env) = MAX_SIZE_NAME_STRING"
    "0 \<in> set (sp_EliotDeviceId (stack_scene calm_env))" by (simp_all add: calm_env_def sample_scene_def)
  from created_scene_reads_the_stack [OF calm_env_good stack(2) fresh_lcm_inv names list free _ stack(3), of sample_inputs]
    freq s show ?thesis unfolding ctx stack(1) by auto
qed

theorem run_scene_request_witness:
  "\<exists>l l1 l2 z. HandleRunScene calm_env (JSON_OBJECT [(''SID'', JSON_INTEGER 0)]) l = Inr (None, l1) \<and>
     transmit_run calm_env (\<lambda>n k. None) (length (transmitQueue l1)) l1 = Inr l2 \<and>
     zone_of l2 3 = Some z \<and> zp_powerLevel z = 50 \<and> zp_state z"
proof -
  obtain l where l: "lcm_inv l" "zone_of l = [3 \<mapsto> cut_zone sample_zone]" "distinct_addresses (zone_of l)"
    "transmitQueue l = []" "transmitMessages l = 0" "scene_of l 0 = Some (cut_scene lamp_scene)" "stored_id l 0"
    "lcm_houseID l = 0" "\<not> lcm_addALight l" "\<not> lcm_addASceneController l"
    "\<forall>out. \<exists>c. get_controller l 0 out = (True, c) \<and> same_controller lamp_controller c"
    by (rule sample_installation [OF lamp_scene_ok])
  let ?root = "JSON_OBJECT [(''SID'', JSON_INTEGER 0)]" and ?s = "cut_scene lamp_scene"
  have i: "requested_index ''SID'' ?root = 0" by (simp add: requested_index_def)
  have s: "sp_running ?s \<noteq> 1" "unat (sp_numZonesInScene ?s) = 1" by (simp_all add: lamp_scene_def sample_scene_def)
  have "0 < unat (sp_numZonesInScene ?s)" "(0 :: nat) < NUM_ELIOT_PROPERTIES_IN_FLASH_SECTOR" unfolding s(2) by simp_all
  then have ready: "\<forall>s. scene_of l (requested_index ''SID'' ?root) = Some s \<longrightarrow>
      requested_index ''SID'' ?root < NUM_ELIOT_PROPERTIES_IN_FLASH_SECTOR \<and> sp_running s \<noteq> 1 \<and> 0 < unat (sp_numZonesInScene s)"
    using l(6) s(1) by (simp only: i option.inject) blast
  have none: "run_scene_error (scene_of l) ?root = None" "context_error ?root = None"
    by (simp_all add: run_scene_error_def i l(6) context_error_def)
  have e: "sp_zoneData ?s ! 0 = \<lparr>zs_zoneId = 3, zs_powerLevel = 50, zs_rampRate = 60, zs_state = 1\<rparr>"
    by (simp add: cut_scene_def lamp_scene_def sample_scene_def)
  have "unat (sp_numZonesInScene lamp_scene) = 1" by (simp add: lamp_scene_def)
  then have last: "last_entry ?s 0" "entry_zone ?s 0 = 3" by (simp_all add: last_entry_def e)
  from run_scene_request [OF calm_env_good l(1,3-5) ready, unfolded none option.case i if_P [OF l(7)], of "\<lambda>n k. None"]
  obtain l1 l2 where r: "HandleRunScene calm_env ?root l = Inr (None, l1)"
    "transmit_run calm_env (\<lambda>n k. None) (length (transmitQueue l1)) l1 = Inr l2"
    "\<forall>k < unat (sp_numZonesInScene ?s). last_entry ?s k \<and> zone_of l (entry_zone ?s k) \<noteq> None \<longrightarrow>
       (\<exists>z. zone_of l2 (entry_zone ?s k) = Some z \<and> zp_state z = (zs_state (sp_zoneData ?s ! k) \<noteq> 0) \<and>
          zp_powerLevel z = min 100 (zs_powerLevel (sp_zoneData ?s ! k)))"
    using l(6) by (metis option.inject)
  have "\<exists>z. zone_of l2 3 = Some z \<and> zp_state z = ((1 :: byte) \<noteq> 0) \<and> zp_powerLevel z = min 100 50"
    using r(3) [rule_format, of 0] last l(2) e s(2) by simp
  then show ?thesis using r(1,2) by (auto simp: min_def)
qed

end
