(* ===== verification/Trigger_Check.thy ===== *)
theory Trigger_Check
  imports Scene_Service
begin

unbundle bit_operations_syntax

text \<open>
  The minute check of the scenes of Event\_Task.c: \<open>checkScenes\<close> repairs every stored scene, runs those whose time has
  come, unless they are to be skipped once, and takes them off the schedule or moves them to their next trigger.
  The clock itself, and what moves it, is in \<open>Local_Time\<close>.
\<close>

abbreviation MIN_SYSTEM_TIME :: dword_t where "MIN_SYSTEM_TIME \<equiv> 1429810320"
abbreviation MAX_SYSTEM_TIME :: dword_t where "MAX_SYSTEM_TIME \<equiv> 2147483647"

subsection \<open>checkScenes\<close>

text \<open>\<open>ev_json_ok i n\<close> is whether the allocation at line \<open>n\<close> of Event\_Task.c succeeds for scene \<open>i\<close>;
  \<open>ti_currentTime\<close> is the argument \<open>rtcTime\<close>.\<close>

record event_inputs = trigger_inputs +
  ev_json_ok :: "nat \<Rightarrow> nat \<Rightarrow> bool"

definition clean_scene :: "scene_properties \<Rightarrow> scene_properties" where
  "clean_scene p =
     (let p = (if sp_trigger p \<noteq> REGULAR_TIME \<and> sp_trigger p \<noteq> SUNRISE \<and> sp_trigger p \<noteq> SUNSET
               then p\<lparr>sp_trigger := REGULAR_TIME\<rparr> else p);
          p = (if sp_nextTriggerTime p \<noteq> 0 \<and> \<not> (MIN_SYSTEM_TIME \<le> sp_nextTriggerTime p \<and> sp_nextTriggerTime p \<le> MAX_SYSTEM_TIME)
               then p\<lparr>sp_nextTriggerTime := 0\<rparr> else p);
          p = (if MAX_DELTA_VALUE < sint (sp_delta p) \<or> sint (sp_delta p) < MIN_DELTA_VALUE then p\<lparr>sp_delta := 0\<rparr> else p)
      in if sp_freq p \<noteq> NONE \<and> sp_freq p \<noteq> ONCE \<and> sp_freq p \<noteq> EVERY_WEEK then p\<lparr>sp_freq := NONE\<rparr> else p)"

text \<open>The first component is whether the end of the skip is announced.\<close>

definition run_or_skip ::
  "environment \<Rightarrow> nat \<Rightarrow> scene_properties \<Rightarrow> lcm \<Rightarrow> memory_error + bool \<times> scene_properties \<times> lcm" where
  "run_or_skip env sceneIdx p l =
     (if sp_skipNext p = 0
      then bind_sum (ExecuteScene env (of_nat sceneIdx) p 0 True 0 1 0 l) (\<lambda>s. Inr (False, s))
      else Inr (True, p\<lparr>sp_skipNext := 0\<rparr>, l))"

text \<open>The switch over the frequency.\<close>

definition trigger_scene ::
  "environment \<Rightarrow> event_inputs \<Rightarrow> nat \<Rightarrow> scene_properties \<times> lcm \<Rightarrow> (memory_error + scene_properties \<times> lcm) option" where
  "trigger_scene env ti sceneIdx = (\<lambda>(p, l).
     if sp_freq p = ONCE then
       if sp_nextTriggerTime p \<le> SECONDS (ti_currentTime ti) \<and> ev_json_ok ti sceneIdx 1132 \<and> ev_json_ok ti sceneIdx 1135 then
         Some (bind_sum (run_or_skip env sceneIdx p l) (\<lambda>(skipped, p, l).
           Inr (p\<lparr>sp_freq := NONE\<rparr>, emit (SceneScheduleChanged sceneIdx None skipped) l)))
       else Some (Inr (p, l))
     else if sp_freq p = EVERY_WEEK then
       if sp_nextTriggerTime p \<le> SECONDS (ti_currentTime ti) \<and> ev_json_ok ti sceneIdx 1177 \<and> ev_json_ok ti sceneIdx 1180 then
         (case run_or_skip env sceneIdx p l of
            Inl e \<Rightarrow> Some (Inl e)
          | Inr (skipped, p, l) \<Rightarrow>
              map_option (\<lambda>p. Inr (p, emit (SceneScheduleChanged sceneIdx (Some (sp_nextTriggerTime p)) skipped) l))
                (calculateNewTrigger (ti_sunTimes ti) (ti_junk ti) p (ti_currentTime ti)))
       else Some (Inr (p, l))
     else Some (Inr (p, l)))"

text \<open>One round of the loop; the scene is the local variable that all rounds share.\<close>

definition check_scene ::
  "environment \<Rightarrow> event_inputs \<Rightarrow> nat \<Rightarrow> scene_properties \<times> lcm \<Rightarrow> (memory_error + scene_properties \<times> lcm) option" where
  "check_scene env ti sceneIdx = (\<lambda>(p, l).
     case get_scene l sceneIdx p of
       Inl e \<Rightarrow> Some (Inl e)
     | Inr (found, p) \<Rightarrow>
         if \<not> found then Some (Inr (p, l))
         else
           let p = clean_scene p
           in if sp_SceneNameString p ! 0 = 0 then Some (Inr (p, l))
              else map_option (\<lambda>r. bind_sum r (\<lambda>(p, l). bind_sum (set_scene env sceneIdx p l) (\<lambda>l. Inr (p, l))))
                     (trigger_scene env ti sceneIdx (p, l)))"

fun check_scene_loop ::
  "environment \<Rightarrow> event_inputs \<Rightarrow> nat list \<Rightarrow> scene_properties \<times> lcm \<Rightarrow> (memory_error + scene_properties \<times> lcm) option" where
  "check_scene_loop env ti [] s = Some (Inr s)"
| "check_scene_loop env ti (i # is) s =
     (case check_scene env ti i s of
        Some (Inr s) \<Rightarrow> check_scene_loop env ti is s
      | r \<Rightarrow> r)"

definition checkScenes :: "environment \<Rightarrow> event_inputs \<Rightarrow> lcm \<Rightarrow> (memory_error + lcm) option" where
  "checkScenes env ti l =
     (if \<not> lcm_addALight l
      then map_option (\<lambda>r. bind_sum r (\<lambda>(p, l). Inr l)) (check_scene_loop env ti [0..<MAX_NUMBER_OF_SCENES] (stack_scene env, l))
      else Some (Inr l))"

subsection \<open>The schedule on the scene table\<close>

text \<open>A scene whose time has come. A skipped one is not run.\<close>

definition scene_due :: "dword_t \<Rightarrow> scene_properties \<Rightarrow> bool" where
  "scene_due now s \<longleftrightarrow> (sp_freq s = ONCE \<or> sp_freq s = EVERY_WEEK) \<and> sp_nextTriggerTime s \<le> now"

text \<open>What a minute does to a scene: \<open>present\<close> tells which zones exist. A scene that runs is marked as running
  until its zones are done, unless its last zone does not exist.\<close>

definition run_flag :: "(nat \<Rightarrow> bool) \<Rightarrow> scene_properties \<Rightarrow> scene_properties" where
  "run_flag present s =
     (if sp_running s = 1 then s
      else s\<lparr>sp_running := if 0 < unat (sp_numZonesInScene s) \<and> \<not> present (entry_zone s (unat (sp_numZonesInScene s) - 1))
                           then 0 else 1\<rparr>)"

definition reschedule :: "event_inputs \<Rightarrow> scene_properties \<Rightarrow> scene_properties" where
  "reschedule ti s =
     (if sp_freq s = ONCE then s\<lparr>sp_freq := NONE\<rparr>
      else case calculateNewTrigger (ti_sunTimes ti) (ti_junk ti) s (ti_currentTime ti) of Some s \<Rightarrow> s | None \<Rightarrow> s)"

definition scene_tick :: "event_inputs \<Rightarrow> (nat \<Rightarrow> bool) \<Rightarrow> scene_properties \<Rightarrow> scene_properties" where
  "scene_tick ti present s =
     (let s = clean_scene s
      in if \<not> scene_due (SECONDS (ti_currentTime ti)) s then s
         else reschedule ti (if sp_skipNext s = 0 then run_flag present s else s\<lparr>sp_skipNext := 0\<rparr>))"

text \<open>And to the zones: those of a scene that is due, not skipped and not running get its levels as targets.\<close>

definition zones_tick ::
  "environment \<Rightarrow> event_inputs \<Rightarrow> nat \<Rightarrow> scene_properties option \<Rightarrow> (nat \<Rightarrow> zone_properties option) \<Rightarrow> nat \<Rightarrow> zone_properties option" where
  "zones_tick env ti i so Z =
     (case so of None \<Rightarrow> Z
      | Some s \<Rightarrow>
          if scene_due (SECONDS (ti_currentTime ti)) (clean_scene s) \<and> sp_skipNext s = 0 \<and> sp_running s \<noteq> 1
          then fst (scene_run env (execution_of (of_nat i) s 0 True 0 1) s [0..<unat (sp_numZonesInScene s)] (Z, []))
          else Z)"

text \<open>The four repairs are independent.\<close>

definition clean_trigger :: "byte \<Rightarrow> byte" where
  "clean_trigger t = (if t \<noteq> REGULAR_TIME \<and> t \<noteq> SUNRISE \<and> t \<noteq> SUNSET then REGULAR_TIME else t)"

definition clean_time :: "dword_t \<Rightarrow> dword_t" where
  "clean_time t = (if t \<noteq> 0 \<and> \<not> (MIN_SYSTEM_TIME \<le> t \<and> t \<le> MAX_SYSTEM_TIME) then 0 else t)"

definition clean_delta :: "byte \<Rightarrow> byte" where
  "clean_delta d = (if MAX_DELTA_VALUE < sint d \<or> sint d < MIN_DELTA_VALUE then 0 else d)"

definition clean_freq :: "byte \<Rightarrow> byte" where
  "clean_freq f = (if f \<noteq> NONE \<and> f \<noteq> ONCE \<and> f \<noteq> EVERY_WEEK then NONE else f)"

lemma clean_scene_eq:
  "clean_scene p = p\<lparr>sp_nextTriggerTime := clean_time (sp_nextTriggerTime p), sp_freq := clean_freq (sp_freq p),
     sp_trigger := clean_trigger (sp_trigger p), sp_delta := clean_delta (sp_delta p)\<rparr>"
proof -
  have upd: "(if c then q\<lparr>sp_trigger := x\<rparr> else q) = q\<lparr>sp_trigger := if c then x else sp_trigger q\<rparr>"
    "(if c then q\<lparr>sp_nextTriggerTime := y\<rparr> else q) = q\<lparr>sp_nextTriggerTime := if c then y else sp_nextTriggerTime q\<rparr>"
    "(if c then q\<lparr>sp_delta := x\<rparr> else q) = q\<lparr>sp_delta := if c then x else sp_delta q\<rparr>"
    "(if c then q\<lparr>sp_freq := x\<rparr> else q) = q\<lparr>sp_freq := if c then x else sp_freq q\<rparr>" for c q x y by simp_all
  have sel: "sp_nextTriggerTime (q\<lparr>sp_trigger := x\<rparr>) = sp_nextTriggerTime q"
    "sp_delta (q\<lparr>sp_nextTriggerTime := t\<rparr>) = sp_delta q" "sp_delta (q\<lparr>sp_trigger := x\<rparr>) = sp_delta q"
    "sp_freq (q\<lparr>sp_delta := x\<rparr>) = sp_freq q" "sp_freq (q\<lparr>sp_nextTriggerTime := t\<rparr>) = sp_freq q"
    "sp_freq (q\<lparr>sp_trigger := x\<rparr>) = sp_freq q" for q x t by simp_all
  have comm: "p\<lparr>sp_trigger := a, sp_nextTriggerTime := b, sp_delta := c, sp_freq := d\<rparr> =
      p\<lparr>sp_nextTriggerTime := b, sp_freq := d, sp_trigger := a, sp_delta := c\<rparr>" for a b c d by simp
  show ?thesis
    unfolding clean_scene_def Let_def upd sel comm
    unfolding clean_time_def clean_freq_def clean_trigger_def clean_delta_def by (rule refl)
qed

lemma clean_scene_fields [simp]:
  "sp_numZonesInScene (clean_scene p) = sp_numZonesInScene p" "sp_zoneData (clean_scene p) = sp_zoneData p"
  "sp_days (clean_scene p) = sp_days p" "sp_running (clean_scene p) = sp_running p" "sp_skipNext (clean_scene p) = sp_skipNext p"
  "sp_SceneNameString (clean_scene p) = sp_SceneNameString p" "sp_EliotDeviceId (clean_scene p) = sp_EliotDeviceId p"
  by (simp_all add: clean_scene_eq)

lemma clean_idem:
  "clean_trigger (clean_trigger t) = clean_trigger t" "clean_time (clean_time u) = clean_time u"
  "clean_delta (clean_delta d) = clean_delta d" "clean_freq (clean_freq f) = clean_freq f"
  by (simp_all add: clean_trigger_def clean_time_def clean_delta_def clean_freq_def)

lemma clean_scene_cut: "clean_scene (cut_scene p) = cut_scene (clean_scene p)"
  by (simp add: clean_scene_eq) (simp add: cut_scene_def)

lemma clean_scene_idem [simp]: "clean_scene (clean_scene p) = clean_scene p"
  by (simp add: clean_scene_eq clean_idem)

lemma reschedule_cut: "reschedule ti (cut_scene p) = cut_scene (reschedule ti p)"
proof -
  obtain t where t: "calculateNewTrigger (ti_sunTimes ti) (ti_junk ti) p (ti_currentTime ti) = Some (p\<lparr>sp_nextTriggerTime := t\<rparr>)"
    using trigger_computed by blast
  obtain u where u: "calculateNewTrigger (ti_sunTimes ti) (ti_junk ti) (cut_scene p) (ti_currentTime ti) =
      Some ((cut_scene p)\<lparr>sp_nextTriggerTime := u\<rparr>)" using trigger_computed by blast
  have "u = t" using trigger_cong [of "cut_scene p" p "ti_sunTimes ti" "ti_junk ti" "ti_currentTime ti"] t u by simp
  then show ?thesis by (simp add: reschedule_def t u) (simp add: cut_scene_def)
qed

lemma reschedule_fields [simp]:
  "sp_numZonesInScene (reschedule ti p) = sp_numZonesInScene p" "sp_zoneData (reschedule ti p) = sp_zoneData p"
  "sp_SceneNameString (reschedule ti p) = sp_SceneNameString p" "sp_EliotDeviceId (reschedule ti p) = sp_EliotDeviceId p"
  "sp_running (reschedule ti p) = sp_running p" "sp_skipNext (reschedule ti p) = sp_skipNext p"
proof -
  obtain t where "calculateNewTrigger (ti_sunTimes ti) (ti_junk ti) p (ti_currentTime ti) = Some (p\<lparr>sp_nextTriggerTime := t\<rparr>)"
    using trigger_computed by blast
  then show "sp_numZonesInScene (reschedule ti p) = sp_numZonesInScene p" "sp_zoneData (reschedule ti p) = sp_zoneData p"
    "sp_SceneNameString (reschedule ti p) = sp_SceneNameString p" "sp_EliotDeviceId (reschedule ti p) = sp_EliotDeviceId p"
    "sp_running (reschedule ti p) = sp_running p" "sp_skipNext (reschedule ti p) = sp_skipNext p"
    by (simp_all add: reschedule_def)
qed

lemma reschedule_args: "scene_args_ok (reschedule ti p) = scene_args_ok p"
  by (simp add: scene_args_ok_def)

lemma run_flag_fields [simp]:
  "sp_numZonesInScene (run_flag present p) = sp_numZonesInScene p" "sp_zoneData (run_flag present p) = sp_zoneData p"
  "sp_SceneNameString (run_flag present p) = sp_SceneNameString p" "sp_EliotDeviceId (run_flag present p) = sp_EliotDeviceId p"
  "sp_freq (run_flag present p) = sp_freq p" "sp_skipNext (run_flag present p) = sp_skipNext p"
  "sp_trigger (run_flag present p) = sp_trigger p"
  by (simp_all add: run_flag_def)

lemma run_flag_cut: "run_flag present (cut_scene p) = cut_scene (run_flag present p)"
proof (cases "0 < unat (sp_numZonesInScene p)")
  case True
  then have "sp_zoneData (cut_scene p) ! (unat (sp_numZonesInScene p) - 1) = sp_zoneData p ! (unat (sp_numZonesInScene p) - 1)"
    by (intro cut_scene_zone) simp
  then show ?thesis by (simp add: run_flag_def)
qed (simp add: run_flag_def)

text \<open>What a round does once the scene is read and repaired.\<close>

definition ran :: "scene_properties \<Rightarrow> bool" where
  "ran p \<longleftrightarrow> sp_skipNext p = 0 \<and> sp_running p \<noteq> 1"

abbreviation present :: "lcm \<Rightarrow> nat \<Rightarrow> bool" where
  "present l i \<equiv> zone_of l i \<noteq> None"

definition targets_of :: "environment \<Rightarrow> nat \<Rightarrow> scene_properties \<Rightarrow> (nat \<Rightarrow> zone_properties option) \<Rightarrow> nat \<Rightarrow> zone_properties option" where
  "targets_of env i p Z = fst (scene_run env (execution_of (of_nat i) p 0 True 0 1) p [0..<unat (sp_numZonesInScene p)] (Z, []))"

lemma targets_of_cut: "targets_of env i (cut_scene p) Z = targets_of env i p Z"
  using scene_run_of_cut [of env "of_nat i" p 0 True 0 1 "(Z, [])"] by (simp add: targets_of_def)

lemma run_or_skip_effect:
  assumes "good_env env" "lcm_inv l" "scene_args_ok p"
  shows "\<exists>l'. run_or_skip env i p l = Inr (sp_skipNext p \<noteq> 0, if sp_skipNext p = 0 then run_flag (present l) p else p\<lparr>sp_skipNext := 0\<rparr>, l') \<and>
    lcm_inv l' \<and> same_scenes l l' \<and> zone_of l' = (if ran p then targets_of env i p (zone_of l) else zone_of l)"
proof -
  consider (skip) "sp_skipNext p \<noteq> 0" | (running) "sp_skipNext p = 0" "sp_running p = 1" | (run) "sp_skipNext p = 0" "sp_running p \<noteq> 1" by blast
  then show ?thesis
  proof cases
    case skip
    then show ?thesis using assms(2) by (simp add: run_or_skip_def ran_def)
  next
    case running
    let ?l = "emit (SceneAlreadyRunning (of_nat i) 0) l"
    have "ExecuteScene env (of_nat i) p 0 True 0 1 0 l = Inr (p, ?l)"
      using running(2) good_envD(5) [OF assms(1)] by (simp add: ExecuteScene_def)
    moreover have t: "same_tables l ?l" by (simp add: same_tables_def emit_def)
    have "lcm_inv ?l" "same_scenes l ?l" "zone_of ?l = zone_of l"
      using same_tables(1,3) [OF t] same_zones_map [OF same_tables(2) [OF t]] assms(2) by simp_all
    ultimately show ?thesis using running by (simp add: run_or_skip_def ran_def run_flag_def)
  next
    case run
    have flag: "p\<lparr>sp_running := if 0 < unat (sp_numZonesInScene p) \<and> zone_of l (entry_zone p (unat (sp_numZonesInScene p) - 1)) = None
        then 0 else 1\<rparr> = run_flag (present l) p" using run(2) by (simp add: run_flag_def)
    from ExecuteScene_refines [OF assms run(2), of "of_nat i" 0 True 0 1 0, unfolded flag]
    obtain l' where l': "ExecuteScene env (of_nat i) p 0 True 0 1 0 l = Inr (run_flag (present l) p, l')" "lcm_inv l'" "same_scenes l l'"
      "zone_of l' = fst (scene_run env (execution_of (of_nat i) p 0 True 0 1) p [0..<unat (sp_numZonesInScene p)] (zone_of l, transmitQueue l))"
      by (auto simp only: Let_def split_beta)
    have "zone_of l' = targets_of env i p (zone_of l)" unfolding l'(4) targets_of_def by (rule scene_run_fst)
    with l' run show ?thesis by (simp add: run_or_skip_def ran_def)
  qed
qed

lemma trigger_scene_effect:
  assumes "good_env env" "\<And>k n. ev_json_ok ti k n" "lcm_inv l" "scene_args_ok p"
  defines "due \<equiv> scene_due (SECONDS (ti_currentTime ti)) p"
  shows "\<exists>l'. trigger_scene env ti i (p, l) =
      Some (Inr (if due then reschedule ti (if sp_skipNext p = 0 then run_flag (present l) p else p\<lparr>sp_skipNext := 0\<rparr>) else p, l')) \<and>
    lcm_inv l' \<and> same_scenes l l' \<and> zone_of l' = (if due \<and> ran p then targets_of env i p (zone_of l) else zone_of l)"
proof (cases due)
  case False
  then show ?thesis using assms(3) by (auto simp: trigger_scene_def due_def scene_due_def)
next
  case True
  let ?q = "if sp_skipNext p = 0 then run_flag (present l) p else p\<lparr>sp_skipNext := 0\<rparr>"
  obtain l' where l': "run_or_skip env i p l = Inr (sp_skipNext p \<noteq> 0, ?q, l')" "lcm_inv l'" "same_scenes l l'"
    "zone_of l' = (if ran p then targets_of env i p (zone_of l) else zone_of l)"
    using run_or_skip_effect [OF assms(1,3,4)] by blast
  have f: "sp_freq ?q = sp_freq p" by simp
  have due: "sp_nextTriggerTime p \<le> SECONDS (ti_currentTime ti)" "sp_freq p = ONCE \<or> sp_freq p = EVERY_WEEK"
    using True by (simp_all add: due_def scene_due_def)
  obtain t where t: "calculateNewTrigger (ti_sunTimes ti) (ti_junk ti) ?q (ti_currentTime ti) = Some (?q\<lparr>sp_nextTriggerTime := t\<rparr>)"
    using trigger_computed by blast
  obtain e where e: "trigger_scene env ti i (p, l) = Some (Inr (reschedule ti ?q, emit e l'))"
  proof (cases "sp_freq p = ONCE")
    case True
    then have "reschedule ti ?q = ?q\<lparr>sp_freq := NONE\<rparr>" unfolding reschedule_def f by (rule if_P)
    then show thesis using that due(1) True l'(1) assms(2) by (simp add: trigger_scene_def)
  next
    case False
    then have "reschedule ti ?q = ?q\<lparr>sp_nextTriggerTime := t\<rparr>" unfolding reschedule_def f t if_not_P [OF False] by simp
    then show thesis using that due False l'(1) assms(2) t by (simp add: trigger_scene_def)
  qed
  have t: "same_tables l' (emit e l')" by (simp add: same_tables_def emit_def)
  have "lcm_inv (emit e l')" "same_scenes l (emit e l')" "zone_of (emit e l') = zone_of l'"
    using same_tables(1) [OF t] l'(2) same_scenes_trans [OF l'(3) same_tables(3) [OF t]] same_zones_map [OF same_tables(2) [OF t]] by simp_all
  with e l'(4) True show ?thesis by auto
qed

text \<open>All stored scenes can be saved.\<close>

definition all_stored :: "lcm \<Rightarrow> bool" where
  "all_stored l \<longleftrightarrow> (\<forall>i. scene_of l i \<noteq> None \<longrightarrow> stored_id l i)"

lemma save_stored_scene:
  assumes "ftfe_reliable (env_hw env)" "lcm_inv l" "all_stored l" "scene_of l i = Some s" "scene_args_ok r"
    and "sp_SceneNameString r ! 0 \<noteq> 0" "cstr ELIOT_DEVICE_ID_SIZE (sp_EliotDeviceId r) = sp_EliotDeviceId s"
  shows "\<exists>l'. set_scene env i r l = Inr l' \<and> lcm_inv l' \<and> all_stored l' \<and> zone_of l' = zone_of l \<and>
    scene_of l' = (scene_of l)(i \<mapsto> cut_scene r)"
proof -
  have st: "stored_id l i" using assms(3,4) by (simp add: all_stored_def)
  from set_scene_map [OF assms(1,2) st assms(5,6,4,7)]
  obtain l' where l': "set_scene env i r l = Inr l'" "lcm_inv l'" "same_zones l l'"
    "scene_of l' = (scene_of l)(i \<mapsto> cut_scene r)" "stored_id l' i" by metis
  note others = set_scene_others [OF assms(1,2) st assms(5,6,4,7) l'(1)]
  have "stored_id l' j" if j: "scene_of l' j \<noteq> None" for j
  proof (cases "j = i")
    case False
    then have "scene_of l j \<noteq> None" using j l'(4) by simp
    then show ?thesis using assms(3) others [OF False] by (simp add: all_stored_def)
  qed (simp add: l'(5))
  with l' same_zones_map [OF l'(3)] show ?thesis by (auto simp: all_stored_def)
qed

lemma all_stored_same: "same_scenes l l' \<Longrightarrow> all_stored l' = all_stored l"
  by (simp add: all_stored_def same_scenes_map same_scenes_stored)

lemma scene_tick_cut: "scene_tick ti pr (cut_scene p) = cut_scene (scene_tick ti pr p)"
proof -
  have "cut_scene (p\<lparr>sp_skipNext := 0\<rparr>) = (cut_scene p)\<lparr>sp_skipNext := 0\<rparr>" for p by (simp add: cut_scene_def)
  then show ?thesis
    by (simp add: scene_tick_def Let_def clean_scene_cut scene_due_def run_flag_cut reschedule_cut flip: reschedule_cut)
qed

lemma scene_tick_fields [simp]:
  "sp_numZonesInScene (scene_tick ti pr p) = sp_numZonesInScene p" "sp_zoneData (scene_tick ti pr p) = sp_zoneData p"
  "sp_SceneNameString (scene_tick ti pr p) = sp_SceneNameString p" "sp_EliotDeviceId (scene_tick ti pr p) = sp_EliotDeviceId p"
  by (simp_all add: scene_tick_def Let_def)

lemma zones_tick_targets:
  "zones_tick env ti i (Some (cut_scene p)) Z =
     (if scene_due (SECONDS (ti_currentTime ti)) (clean_scene p) \<and> ran p then targets_of env i (clean_scene p) Z else Z)"
proof -
  have "execution_of (of_nat i) (clean_scene p) 0 True 0 1 = execution_of (of_nat i) p 0 True 0 1" by (simp add: execution_of_def)
  then have "targets_of env i (clean_scene p) Z = targets_of env i (cut_scene p) Z"
    using scene_run_cong [of "clean_scene p" p] by (simp add: targets_of_cut) (simp add: targets_of_def)
  moreover have "scene_due now (clean_scene (cut_scene p)) = scene_due now (clean_scene p)" for now
    by (simp add: clean_scene_cut scene_due_def)
  ultimately show ?thesis unfolding zones_tick_def option.case ran_def by (simp only: targets_of_def) simp
qed

lemma check_scene_step:
  assumes "good_env env" "\<And>k n. ev_json_ok ti k n" "lcm_inv l" "all_stored l" "scene_buffers p"
  shows "\<exists>p' l'. check_scene env ti i (p, l) = Some (Inr (p', l')) \<and> scene_buffers p' \<and> lcm_inv l' \<and> all_stored l' \<and>
    scene_of l' = (scene_of l)(i := map_option (scene_tick ti (present l)) (scene_of l i)) \<and>
    zone_of l' = zones_tick env ti i (scene_of l i) (zone_of l)"
proof (cases "scene_of l i")
  case None
  then have "get_scene l i p = Inr (False, p)" by (rule scene_of_get(2) [OF assms(3)])
  moreover have "scene_of l = (scene_of l)(i := None)" using None by auto
  ultimately show ?thesis using None assms(3-5) by (simp add: check_scene_def zones_tick_def)
next
  case (Some s)
  from get_scene_some [OF assms(3) Some assms(5)]
  obtain q where q: "get_scene l i p = Inr (True, q)" "cut_scene q = s" "scene_args_ok q" "sp_SceneNameString q ! 0 \<noteq> 0" "scene_buffers q"
    by metis
  let ?q = "clean_scene q"
  define r where "r = scene_tick ti (present l) q"
  have args: "scene_args_ok ?q" using q(3) by (simp add: scene_args_ok_def)
  obtain l1 where l1: "trigger_scene env ti i (?q, l) = Some (Inr (r, l1))" "lcm_inv l1" "same_scenes l l1"
    "zone_of l1 = zones_tick env ti i (Some s) (zone_of l)"
    using trigger_scene_effect [OF assms(1,2,3) args, where i = i]
    unfolding r_def scene_tick_def Let_def q(2) [symmetric] zones_tick_targets by (auto simp: ran_def)
  have r: "scene_args_ok r" "sp_SceneNameString r ! 0 \<noteq> 0" "cstr 37 (sp_EliotDeviceId r) = sp_EliotDeviceId s" "scene_buffers r"
    using q(2-5) by (auto simp: r_def scene_args_ok_def scene_buffers_def cut_scene_def)
  have sc: "scene_of l1 = scene_of l" and st: "all_stored l1"
    using same_scenes_map [OF l1(3)] all_stored_same [OF l1(3)] assms(4) by simp_all
  have "scene_of l1 i = Some s" using sc Some by simp
  from save_stored_scene [OF good_envD(1) [OF assms(1)] l1(2) st this r(1-3)]
  obtain l2 where l2: "set_scene env i r l1 = Inr l2" "lcm_inv l2" "all_stored l2" "zone_of l2 = zone_of l1"
    "scene_of l2 = (scene_of l1)(i \<mapsto> cut_scene r)" by blast
  have "scene_of l2 = (scene_of l)(i \<mapsto> scene_tick ti (present l) s)"
    using l2(5) sc by (simp add: r_def scene_tick_cut flip: q(2))
  moreover have "check_scene env ti i (p, l) = Some (Inr (r, l2))"
    using q(1,4) l1(1) l2(1) by (simp add: check_scene_def Let_def)
  ultimately show ?thesis using r(4) l2(2-4) l1(4) Some by auto
qed

lemma zones_tick_dom: "dom (zones_tick env ti i so Z) = dom Z"
  by (simp add: zones_tick_def scene_run_dom split: option.split)

lemma check_scene_loop_effect:
  assumes "good_env env" "\<And>k n. ev_json_ok ti k n" "lcm_inv l" "all_stored l" "scene_buffers p" "distinct is"
  shows "\<exists>p' l'. check_scene_loop env ti is (p, l) = Some (Inr (p', l')) \<and> lcm_inv l' \<and> all_stored l' \<and>
    (\<forall>i. scene_of l' i = (if i \<in> set is then map_option (scene_tick ti (present l)) (scene_of l i) else scene_of l i)) \<and>
    zone_of l' = fold (\<lambda>i. zones_tick env ti i (scene_of l i)) is (zone_of l)"
  using assms(3-6)
proof (induction "is" arbitrary: l p)
  case (Cons i "is")
  from check_scene_step [OF assms(1,2) Cons.prems(1-3), where i = i]
  obtain p1 l1 where 1: "check_scene env ti i (p, l) = Some (Inr (p1, l1))" "scene_buffers p1" "lcm_inv l1" "all_stored l1"
    "scene_of l1 = (scene_of l)(i := map_option (scene_tick ti (present l)) (scene_of l i))"
    "zone_of l1 = zones_tick env ti i (scene_of l i) (zone_of l)" by blast
  have d: "i \<notin> set is" "distinct is" using Cons.prems(4) by simp_all
  from Cons.IH [OF 1(3,4,2) d(2)]
  obtain p2 l2 where 2: "check_scene_loop env ti is (p1, l1) = Some (Inr (p2, l2))" "lcm_inv l2" "all_stored l2"
    "\<And>j. scene_of l2 j = (if j \<in> set is then map_option (scene_tick ti (present l1)) (scene_of l1 j) else scene_of l1 j)"
    "zone_of l2 = fold (\<lambda>i. zones_tick env ti i (scene_of l1 i)) is (zone_of l1)" by blast
  have pr: "present l1 = present l"
    using zones_tick_dom [of env ti i "scene_of l i" "zone_of l"] by (auto simp: fun_eq_iff 1(6) dom_def set_eq_iff)
  have f: "fold (\<lambda>i. zones_tick env ti i (scene_of l1 i)) is Z = fold (\<lambda>i. zones_tick env ti i (scene_of l i)) is Z" for Z
    by (rule fold_cong) (use d(1) in \<open>auto simp: 1(5)\<close>)
  show ?case
  proof (intro exI conjI)
    show "check_scene_loop env ti (i # is) (p, l) = Some (Inr (p2, l2))" using 1(1) 2(1) by simp
    show "lcm_inv l2" "all_stored l2" by (rule 2)+
    show "\<forall>j. scene_of l2 j = (if j \<in> set (i # is) then map_option (scene_tick ti (present l)) (scene_of l j) else scene_of l j)"
      using 2(4) [unfolded pr] d(1) by (auto simp: 1(5))
    show "zone_of l2 = fold (\<lambda>i. zones_tick env ti i (scene_of l i)) (i # is) (zone_of l)" using 2(5) by (simp add: f 1(6))
  qed
qed simp

lemma check_scenes_effect:
  assumes "good_env env" "\<And>k n. ev_json_ok ti k n" "lcm_inv l" "all_stored l" "\<not> lcm_addALight l"
  shows "\<exists>l'. checkScenes env ti l = Some (Inr l') \<and> lcm_inv l' \<and> all_stored l' \<and>
    scene_of l' = (\<lambda>i. map_option (scene_tick ti (present l)) (scene_of l i)) \<and>
    zone_of l' = fold (\<lambda>i. zones_tick env ti i (scene_of l i)) [0..<MAX_NUMBER_OF_SCENES] (zone_of l)"
proof -
  have d: "distinct [0..<MAX_NUMBER_OF_SCENES]" by simp
  from check_scene_loop_effect [OF assms(1-4) good_envD(3) [OF assms(1)] d]
  obtain p' l' where l': "check_scene_loop env ti [0..<MAX_NUMBER_OF_SCENES] (stack_scene env, l) = Some (Inr (p', l'))" "lcm_inv l'" "all_stored l'"
    "\<forall>i. scene_of l' i = (if i \<in> set [0..<MAX_NUMBER_OF_SCENES] then map_option (scene_tick ti (present l)) (scene_of l i) else scene_of l i)"
    "zone_of l' = fold (\<lambda>i. zones_tick env ti i (scene_of l i)) [0..<MAX_NUMBER_OF_SCENES] (zone_of l)" by blast
  have "scene_of l' = (\<lambda>i. map_option (scene_tick ti (present l)) (scene_of l i))"
    using l'(4) scene_of_beyond [of _ l] by (auto simp: fun_eq_iff)
  moreover have "checkScenes env ti l = Some (Inr l')" using assms(5) l'(1) by (simp add: checkScenes_def)
  ultimately show ?thesis using l' by blast
qed

subsection \<open>Once a minute\<close>

lemma weekly_trigger_soon:
  assumes "sp_freq p = EVERY_WEEK" "sp_trigger p = REGULAR_TIME"
    and "86400 \<le> unat (SECONDS now)" "unat (SECONDS now) + 8 * 86400 < 2 ^ 32"
  shows "\<exists>t. calculateNewTrigger sun junk p now = Some (p\<lparr>sp_nextTriggerTime := t\<rparr>) \<and>
    unat (SECONDS now) < unat t \<and> unat t \<le> unat (SECONDS now) + 8 * 86400"
proof -
  let ?n = "unat (SECONDS now)"
  obtain t where t: "calculateNewTrigger sun junk p now = Some (p\<lparr>sp_nextTriggerTime := t\<rparr>)" "?n < unat t"
    "\<forall>s. ?n < s \<and> s < unat t \<longrightarrow> \<not> trigger_candidate p s"
    using weekly_trigger_first [OF assms, of sun junk] by blast
  obtain k where k: "k < 7" "on_listed_day p (today_at p ?n + (k + 1) * 86400)" using listed_within_week by blast
  let ?s = "today_at p ?n + (k + 1) * 86400"
  have "?s mod 86400 = trigger_minute p * 60" using today_at_day(2) [of p ?n] by (simp only: mod_mult_self1)
  then have "trigger_candidate p ?s" using k(2) candidate_weekly [OF assms(1)] by blast
  have n: "?n = ?n div 86400 * 86400 + ?n mod 86400" "?n mod 86400 < 86400" by simp_all
  then have "?n < ?s" "?s \<le> ?n + 8 * 86400"
    using k(1) trigger_minute_less [of p] unfolding today_at_def by simp_all
  moreover have "\<not> ?s < unat t" using t(3) \<open>?n < ?s\<close> \<open>trigger_candidate p ?s\<close> by blast
  ultimately have "unat t \<le> ?n + 8 * 86400" by linarith
  with t show ?thesis by blast
qed

text \<open>The scenes the firmware can schedule itself: those that follow the sun depend on the sun times.\<close>

definition fixed_time :: "scene_properties \<Rightarrow> bool" where
  "fixed_time s \<longleftrightarrow> sp_freq s = EVERY_WEEK \<longrightarrow> sp_trigger s \<noteq> SUNRISE \<and> sp_trigger s \<noteq> SUNSET"

definition clock_in_range :: "time_struct \<Rightarrow> bool" where
  "clock_in_range now \<longleftrightarrow> MIN_SYSTEM_TIME \<le> SECONDS now \<and> unat (SECONDS now) + 8 * 86400 \<le> unat MAX_SYSTEM_TIME"

lemma tick_settles:
  assumes "fixed_time s" "clock_in_range (ti_currentTime ti)"
  shows "clean_scene (scene_tick ti pr s) = scene_tick ti pr s"
    "\<not> scene_due (SECONDS (ti_currentTime ti)) (scene_tick ti pr s)"
proof -
  let ?now = "SECONDS (ti_currentTime ti)"
  define c where "c = clean_scene s"
  define r where "r = (if sp_skipNext c = 0 then run_flag pr c else c\<lparr>sp_skipNext := 0\<rparr>)"
  have cc: "clean_scene c = c" by (simp add: c_def)
  then have fields: "clean_freq (sp_freq c) = sp_freq c" "clean_trigger (sp_trigger c) = sp_trigger c"
    "clean_delta (sp_delta c) = sp_delta c" "clean_time (sp_nextTriggerTime c) = sp_nextTriggerTime c"
    by (simp_all add: c_def clean_scene_eq clean_idem)
  have rf: "sp_freq r = sp_freq c" "sp_trigger r = sp_trigger c" "sp_delta r = sp_delta c" "sp_nextTriggerTime r = sp_nextTriggerTime c"
    by (simp_all add: r_def run_flag_def)
  have keep: "clean_scene (r\<lparr>sp_nextTriggerTime := t, sp_freq := f\<rparr>) = r\<lparr>sp_nextTriggerTime := t, sp_freq := f\<rparr>"
    if "clean_time t = t" "clean_freq f = f" for t f
    using that fields rf by (simp add: clean_scene_eq)
  have "clean_scene (scene_tick ti pr s) = scene_tick ti pr s \<and> \<not> scene_due ?now (scene_tick ti pr s)"
  proof (cases "scene_due ?now c")
    case False
    then show ?thesis using cc by (simp add: scene_tick_def flip: c_def)
  next
    case True
    then have tick: "scene_tick ti pr s = reschedule ti r" by (simp add: scene_tick_def r_def flip: c_def)
    show ?thesis
    proof (cases "sp_freq c = ONCE")
      case True
      then have "reschedule ti r = r\<lparr>sp_nextTriggerTime := sp_nextTriggerTime r, sp_freq := NONE\<rparr>" by (simp add: reschedule_def rf)
      then show ?thesis unfolding tick using keep [of "sp_nextTriggerTime r" NONE] fields(4)
        by (simp add: rf clean_freq_def scene_due_def)
    next
      case False
      then have week: "sp_freq r = EVERY_WEEK" using True by (simp add: scene_due_def rf)
      then have "sp_freq s = EVERY_WEEK" by (simp add: rf c_def clean_scene_eq clean_freq_def split: if_splits)
      then have reg: "sp_trigger r = REGULAR_TIME" using assms(1) by (simp add: fixed_time_def rf c_def clean_scene_eq clean_trigger_def)
      have range: "86400 \<le> unat ?now" "unat ?now + 8 * 86400 < 2 ^ 32" "1429810320 \<le> unat ?now" "unat ?now + 8 * 86400 \<le> 2147483647"
        using assms(2) by (simp_all add: clock_in_range_def word_le_nat_alt)
      from weekly_trigger_soon [OF week reg range(1,2), of "ti_sunTimes ti" "ti_junk ti"]
      obtain t where t: "reschedule ti r = r\<lparr>sp_nextTriggerTime := t\<rparr>" "unat ?now < unat t" "unat t \<le> unat ?now + 8 * 86400"
        using week by (auto simp: reschedule_def)
      have "clean_time t = t" using range t(2,3) by (simp add: clean_time_def word_le_nat_alt)
      moreover have "r\<lparr>sp_nextTriggerTime := t\<rparr> = r\<lparr>sp_nextTriggerTime := t, sp_freq := EVERY_WEEK\<rparr>" using week by simp
      ultimately have "clean_scene (r\<lparr>sp_nextTriggerTime := t\<rparr>) = r\<lparr>sp_nextTriggerTime := t\<rparr>"
        using keep [of t EVERY_WEEK] by (simp add: clean_freq_def)
      moreover have "\<not> t \<le> ?now" using t(2) by (simp add: word_le_nat_alt)
      ultimately show ?thesis unfolding tick t(1) by (simp add: scene_due_def)
    qed
  qed
  then show "clean_scene (scene_tick ti pr s) = scene_tick ti pr s" "\<not> scene_due ?now (scene_tick ti pr s)" by blast+
qed

text \<open>A scene runs once when its time comes. With the clock between April 2015 and eight days before its end in 2038,
  and no weekly scene that follows the sun, a second check at the same time changes neither the scenes nor the
  zones, although every scene whose time had passed, by a minute or by a month, has been run by the first.\<close>

lemma scheduled_scenes_run_once:
  assumes "good_env env" "\<And>k n. ev_json_ok ti k n" "lcm_inv l" "all_stored l" "\<not> lcm_addALight l"
    and fixed: "\<And>i s. scene_of l i = Some s \<Longrightarrow> fixed_time s" and "clock_in_range (ti_currentTime ti)"
  shows "\<exists>l' l''. checkScenes env ti l = Some (Inr l') \<and> checkScenes env ti l' = Some (Inr l'') \<and>
    zone_of l'' = zone_of l' \<and> scene_of l'' = scene_of l' \<and>
    (\<forall>i s. scene_of l' i = Some s \<longrightarrow> \<not> scene_due (SECONDS (ti_currentTime ti)) s)"
proof -
  from check_scenes_effect [OF assms(1-5)]
  obtain l' where l': "checkScenes env ti l = Some (Inr l')" "lcm_inv l'" "all_stored l'"
    "scene_of l' = (\<lambda>i. map_option (scene_tick ti (present l)) (scene_of l i))" by blast
  have settled: "clean_scene s = s \<and> \<not> scene_due (SECONDS (ti_currentTime ti)) s" if s: "scene_of l' i = Some s" for i s
    using s tick_settles [OF fixed assms(7), of i] by (auto simp: l'(4))
  then have tick: "scene_tick ti pr s = s" "zones_tick env ti i (Some s) Z = Z" if "scene_of l' i = Some s" for i s pr Z
    using that by (simp_all add: scene_tick_def zones_tick_def)
  obtain l'' where l'': "checkScenes env ti l' = Some (Inr l'')" "scene_of l'' = scene_of l'" "zone_of l'' = zone_of l'"
  proof (cases "lcm_addALight l'")
    case True
    then show thesis using that [of l'] by (simp add: checkScenes_def)
  next
    case False
    from check_scenes_effect [OF assms(1,2) l'(2,3) False]
    obtain l'' where l'': "checkScenes env ti l' = Some (Inr l'')"
      "scene_of l'' = (\<lambda>i. map_option (scene_tick ti (present l')) (scene_of l' i))"
      "zone_of l'' = fold (\<lambda>i. zones_tick env ti i (scene_of l' i)) [0..<MAX_NUMBER_OF_SCENES] (zone_of l')" by blast
    have "map_option (scene_tick ti (present l')) (scene_of l' i) = scene_of l' i" for i
      using tick(1) [of i] by (cases "scene_of l' i") simp_all
    moreover have "zones_tick env ti i (scene_of l' i) = id" for i
      using tick(2) [of i] by (cases "scene_of l' i") (auto simp: fun_eq_iff zones_tick_def)
    then have "fold (\<lambda>i. zones_tick env ti i (scene_of l' i)) xs Z = Z" for xs Z by (induction xs) simp_all
    ultimately show thesis using that l'' by (metis (no_types, lifting) ext)
  qed
  with l' settled show ?thesis by blast
qed

text \<open>The installation of the samples with a scene that ran at 9:13 on its days, looked at later on one of them.\<close>

definition weekly_lamp_scene :: scene_properties where
  "weekly_lamp_scene = lamp_scene\<lparr>sp_trigger := REGULAR_TIME, sp_days := 0x22\<rparr>"

definition late_inputs :: event_inputs where
  "late_inputs = \<lparr>ti_sunTimes = (\<lambda>d b. d), ti_junk = 0, ti_currentTime = \<lparr>SECONDS = 0x5F12CBA0, MILLISECONDS = 0\<rparr>,
     ev_json_ok = (\<lambda>i n. True)\<rparr>"

lemma weekly_installation:
  obtains l where "lcm_inv l" "all_stored l" "\<not> lcm_addALight l" "zone_of l = [3 \<mapsto> cut_zone sample_zone]"
    "scene_of l = [0 \<mapsto> cut_scene weekly_lamp_scene]"
proof -
  have "scene_args_ok weekly_lamp_scene" "sp_SceneNameString weekly_lamp_scene ! 0 \<noteq> 0" "sp_EliotDeviceId weekly_lamp_scene ! 0 \<noteq> 0"
    using lamp_scene_ok by (simp_all add: weekly_lamp_scene_def scene_args_ok_def)
  then obtain l where l: "lcm_inv l" "zone_of l = [3 \<mapsto> cut_zone sample_zone]" "distinct_addresses (zone_of l)"
    "transmitQueue l = []" "transmitMessages l = 0" "scene_of l 0 = Some (cut_scene weekly_lamp_scene)" "stored_id l 0"
    "lcm_houseID l = 0" "\<not> lcm_addALight l" "\<not> lcm_addASceneController l"
    "\<forall>out. \<exists>c. get_controller l 0 out = (True, c) \<and> same_controller lamp_controller c"
    "scene_of l = [0 \<mapsto> cut_scene weekly_lamp_scene]" by (rule sample_tables)
  have "all_stored l" unfolding all_stored_def
  proof (intro allI impI)
    fix i assume "scene_of l i \<noteq> None"
    then have "i = 0" using l(12) by (simp split: if_splits)
    then show "stored_id l i" using l(7) by simp
  qed
  with l show thesis by (intro that)
qed

lemma weekly_lamp_due:
  "scene_due 0x5F12CBA0 (clean_scene (cut_scene weekly_lamp_scene))" "fixed_time (cut_scene weekly_lamp_scene)"
  "sp_skipNext (cut_scene weekly_lamp_scene) = 0" "sp_running (cut_scene weekly_lamp_scene) = 0"
  by (simp_all add: scene_due_def fixed_time_def clean_scene_eq clean_time_def clean_freq_def weekly_lamp_scene_def lamp_scene_def
      sample_scene_def)

lemma scheduled_scenes_run_once_witness:
  "\<exists>l l' l''. scene_of l 0 = Some (cut_scene weekly_lamp_scene) \<and> checkScenes calm_env late_inputs l = Some (Inr l') \<and>
     checkScenes calm_env late_inputs l' = Some (Inr l'') \<and> scene_of l'' = scene_of l'"
proof -
  obtain l where l: "lcm_inv l" "all_stored l" "\<not> lcm_addALight l" "zone_of l = [3 \<mapsto> cut_zone sample_zone]"
    "scene_of l = [0 \<mapsto> cut_scene weekly_lamp_scene]" by (rule weekly_installation)
  have "fixed_time s" if "scene_of l i = Some s" for i s
    using that weekly_lamp_due(2) by (auto simp: l(5) split: if_splits)
  moreover have "clock_in_range (ti_currentTime late_inputs)" "\<And>k n. ev_json_ok late_inputs k n"
    by (simp_all add: late_inputs_def clock_in_range_def)
  ultimately obtain l' l'' where "checkScenes calm_env late_inputs l = Some (Inr l')"
    "checkScenes calm_env late_inputs l' = Some (Inr l'')" "scene_of l'' = scene_of l'"
    using scheduled_scenes_run_once [OF calm_env_good _ l(1-3), of late_inputs] by blast
  moreover have "scene_of l 0 = Some (cut_scene weekly_lamp_scene)" using l(5) by simp
  ultimately show ?thesis by blast
qed

end
