(* ===== verification/Local_Time.thy ===== *)
theory Local_Time
  imports Trigger_Check
begin

unbundle bit_operations_syntax

text \<open>
  The local time of the LCM. The real-time clock runs in local time; the offset in force is the offset of the
  time zone, plus an hour while \<open>inDST\<close> is set. From Event\_Task.c \<open>adjustTriggers\<close> and \<open>checkForDST\<close>, and the
  minute tick that calls them; from \<open>HandleIndividualSystemProperty\<close> of Socket\_Task.c the properties
  \<open>TimeZone\<close>, \<open>DaylightSavingTime\<close> and \<open>CurrentTime\<close>, which act on the same state.
\<close>

subsection \<open>Offsets and the clock\<close>

text \<open>The offsets are \<open>int32_t\<close>, read signed where they are sent; the arithmetic on them wraps around.\<close>

record local_time =
  lt_rtc :: dword_t
  lt_useDaylightSaving :: bool
  lt_inDST :: bool
  lt_gmtOffset :: dword_t
  lt_effectiveGmtOffset :: dword_t
  lt_lcm :: lcm

definition on_lcm :: "(lcm \<Rightarrow> lcm) \<Rightarrow> local_time \<Rightarrow> local_time" where
  "on_lcm f st = st\<lparr>lt_lcm := f (lt_lcm st)\<rparr>"

definition broadcastNewSceneTriggerTime :: "event_inputs \<Rightarrow> nat \<Rightarrow> scene_properties \<Rightarrow> lcm \<Rightarrow> lcm" where
  "broadcastNewSceneTriggerTime ti sceneIndex p l =
     (if ev_json_ok ti sceneIndex 515 \<and> ev_json_ok ti sceneIndex 519
      then emit (SceneScheduleChanged sceneIndex (Some (sp_nextTriggerTime p)) False) l else l)"

text \<open>One round of the loop, on the shared local variable.\<close>

definition adjust_trigger ::
  "environment \<Rightarrow> event_inputs \<Rightarrow> dword_t \<Rightarrow> nat \<Rightarrow> scene_properties \<times> lcm \<Rightarrow> memory_error + scene_properties \<times> lcm" where
  "adjust_trigger env ti adjustment sceneIdx = (\<lambda>(p, l).
     bind_sum (get_scene l sceneIdx p) (\<lambda>(found, p).
       if found \<and> sp_SceneNameString p ! 0 \<noteq> 0 \<and> sp_trigger p \<noteq> REGULAR_TIME then
         let p = p\<lparr>sp_nextTriggerTime := sp_nextTriggerTime p + adjustment\<rparr>
         in bind_sum (set_scene env sceneIdx p (broadcastNewSceneTriggerTime ti sceneIdx p l)) (\<lambda>l. Inr (p, l))
       else Inr (p, l)))"

fun adjust_loop ::
  "environment \<Rightarrow> event_inputs \<Rightarrow> dword_t \<Rightarrow> nat list \<Rightarrow> scene_properties \<times> lcm \<Rightarrow> memory_error + scene_properties \<times> lcm" where
  "adjust_loop env ti adjustment [] s = Inr s"
| "adjust_loop env ti adjustment (i # is) s = bind_sum (adjust_trigger env ti adjustment i s) (adjust_loop env ti adjustment is)"

definition adjustTriggers :: "environment \<Rightarrow> event_inputs \<Rightarrow> dword_t \<Rightarrow> lcm \<Rightarrow> memory_error + lcm" where
  "adjustTriggers env ti adjustment l =
     bind_sum (adjust_loop env ti adjustment [0..<MAX_NUMBER_OF_SCENES] (stack_scene env, l)) (\<lambda>(p, l). Inr l)"

definition adjust_scenes :: "environment \<Rightarrow> event_inputs \<Rightarrow> dword_t \<Rightarrow> local_time \<Rightarrow> memory_error + local_time" where
  "adjust_scenes env ti adjustment st =
     bind_sum (adjustTriggers env ti adjustment (lt_lcm st)) (\<lambda>l. Inr (st\<lparr>lt_lcm := l\<rparr>))"

definition broadcastEffGmtOffsetChange :: "local_time \<Rightarrow> local_time" where
  "broadcastEffGmtOffsetChange st = on_lcm (emit (EffectiveTimeZoneChanged (lt_effectiveGmtOffset st))) st"

definition save_soon :: "local_time \<Rightarrow> local_time" where
  "save_soon = on_lcm (\<lambda>l. l\<lparr>lcm_flashSaveTimer := FLASH_SAVE_TIMER\<rparr>)"

definition checkForDST :: "environment \<Rightarrow> event_inputs \<Rightarrow> date_struct \<Rightarrow> local_time \<Rightarrow> memory_error + local_time" where
  "checkForDST env ti curTime st =
     (if lt_useDaylightSaving st then
        if \<not> lt_inDST st \<and> isItDST (lt_inDST st) curTime then
          let st = st\<lparr>lt_inDST := True, lt_effectiveGmtOffset := lt_gmtOffset st + 3600\<rparr>;
              st = st\<lparr>lt_rtc := lt_rtc st + 3600\<rparr>;
              st = broadcastEffGmtOffsetChange st
          in bind_sum (adjust_scenes env ti 3600 st) (\<lambda>st. Inr (save_soon st))
        else if lt_inDST st \<and> \<not> isItDST (lt_inDST st) curTime then
          let st = st\<lparr>lt_inDST := False, lt_effectiveGmtOffset := lt_gmtOffset st\<rparr>;
              st = st\<lparr>lt_rtc := lt_rtc st - 3600\<rparr>;
              st = broadcastEffGmtOffsetChange st
          in bind_sum (adjust_scenes env ti (- 3600) st) (\<lambda>st. Inr (save_soon st))
        else Inr st
      else if lt_inDST st then
        let st = st\<lparr>lt_inDST := False\<rparr>;
            st = st\<lparr>lt_effectiveGmtOffset := lt_gmtOffset st\<rparr>;
            st = st\<lparr>lt_rtc := lt_rtc st - 3600\<rparr>;
            st = broadcastEffGmtOffsetChange st
        in adjust_scenes env ti (- 3600) st
      else Inr st)"

subsection \<open>System properties\<close>

abbreviation SW_PROPERTY_LIST_DAYLIGHTSAVINGS_MUST_BE_BOOLEAN :: nat where "SW_PROPERTY_LIST_DAYLIGHTSAVINGS_MUST_BE_BOOLEAN \<equiv> 2050"
abbreviation SW_TIMEZONE_MUST_BE_INTEGER :: nat where "SW_TIMEZONE_MUST_BE_INTEGER \<equiv> 2084"
abbreviation MINUS_ONE :: nat where "MINUS_ONE \<equiv> 4294967295"

text \<open>The branches of \<open>HandleIndividualSystemProperty\<close>: the error code, if any, and the new state.\<close>

definition time_zone_property ::
  "environment \<Rightarrow> event_inputs \<Rightarrow> bool \<Rightarrow> json \<Rightarrow> local_time \<Rightarrow> memory_error + response \<times> local_time" where
  "time_zone_property env ti setFlag v st =
     (if \<not> json_is_integer (Some v) then Inr (BuildErrorResponse SW_TIMEZONE_MUST_BE_INTEGER None, st)
      else if setFlag then
        let originalGmtOffset = lt_gmtOffset st;
            st = st\<lparr>lt_gmtOffset := word_of_int (json_integer_value (Some v))\<rparr>;
            diffOffset = originalGmtOffset - lt_gmtOffset st;
            st = st\<lparr>lt_effectiveGmtOffset := lt_effectiveGmtOffset st - diffOffset\<rparr>;
            st = st\<lparr>lt_rtc := lt_rtc st - diffOffset\<rparr>;
            st = (if json_object_ok env 9583
                  then on_lcm (emit (TimeAndZoneChanged (lt_rtc st - lt_effectiveGmtOffset st) (lt_effectiveGmtOffset st))) st
                  else st)
        in bind_sum (adjust_scenes env ti (- diffOffset) st) (\<lambda>st. Inr (None, save_soon st))
      else Inr (None, st))"

definition daylight_saving_property ::
  "environment \<Rightarrow> event_inputs \<Rightarrow> bool \<Rightarrow> json \<Rightarrow> local_time \<Rightarrow> memory_error + response \<times> local_time" where
  "daylight_saving_property env ti setFlag v st =
     (if \<not> json_is_boolean (Some v) then Inr (BuildErrorResponse SW_PROPERTY_LIST_DAYLIGHTSAVINGS_MUST_BE_BOOLEAN None, st)
      else if setFlag then
        let st = st\<lparr>lt_useDaylightSaving := json_is_true (Some v)\<rparr>
        in bind_sum (checkForDST env ti (time_to_date (lt_rtc st)) st) (\<lambda>st. Inr (None, save_soon st))
      else Inr (None, st))"

text \<open>\<open>setFlag\<close> is not looked at.\<close>

definition current_time_property :: "json \<Rightarrow> local_time \<Rightarrow> response \<times> local_time" where
  "current_time_property v st =
     (if \<not> json_is_integer (Some v) then (BuildErrorResponse MINUS_ONE None, st)
      else (None, st\<lparr>lt_rtc := word_of_int (json_integer_value (Some v)) + lt_effectiveGmtOffset st\<rparr>))"

subsection \<open>The minute tick\<close>

abbreviation ADD_A_LIGHT_TIMEOUT_SECONDS :: dword_t where "ADD_A_LIGHT_TIMEOUT_SECONDS \<equiv> 300"

text \<open>\<open>HandleMinuteChange\<close> from the reading of the clock on, without the broadcasts of the time, the memory use and
  the diagnostics and the query of the shades; the clock is read once, before any of it, its milliseconds being those
  of the inputs. Asking a time server for the time, before that, is not modelled.\<close>

definition end_adding_light :: "event_inputs \<Rightarrow> dword_t \<Rightarrow> dword_t \<Rightarrow> lcm \<Rightarrow> lcm" where
  "end_adding_light ti lastAddALightTime now l =
     (if lcm_addALight l \<and> lastAddALightTime + ADD_A_LIGHT_TIMEOUT_SECONDS < now then
        let l = l\<lparr>lcm_addALight := False\<rparr>
        in if ev_json_ok ti 0 603 then emit SystemPropertiesChanged l else l
      else l)"

definition HandleMinuteChange :: "environment \<Rightarrow> event_inputs \<Rightarrow> dword_t \<Rightarrow> local_time \<Rightarrow> (memory_error + local_time) option" where
  "HandleMinuteChange env ti lastAddALightTime st =
     (let now = lt_rtc st;
          myDate = time_to_date now;
          st = on_lcm (end_adding_light ti lastAddALightTime now) st
      in map_option (\<lambda>r. bind_sum r (\<lambda>l. checkForDST env ti myDate (st\<lparr>lt_lcm := l\<rparr>)))
           (checkScenes env (ti\<lparr>ti_currentTime := \<lparr>SECONDS = now, MILLISECONDS = MILLISECONDS (ti_currentTime ti)\<rparr>\<rparr>) (lt_lcm st)))"

subsection \<open>Moving the scenes that follow the sun\<close>

definition shift_scene :: "dword_t \<Rightarrow> scene_properties \<Rightarrow> scene_properties" where
  "shift_scene d s = (if sp_trigger s \<noteq> REGULAR_TIME then s\<lparr>sp_nextTriggerTime := sp_nextTriggerTime s + d\<rparr> else s)"

definition shift_scenes :: "dword_t \<Rightarrow> (nat \<Rightarrow> scene_properties option) \<Rightarrow> nat \<Rightarrow> scene_properties option" where
  "shift_scenes d S i = map_option (shift_scene d) (S i)"

lemma shift_scene_simps [simp]:
  "shift_scene 0 s = s" "shift_scene d (shift_scene e s) = shift_scene (e + d) s"
  "sp_SceneNameString (shift_scene d s) = sp_SceneNameString s" "sp_EliotDeviceId (shift_scene d s) = sp_EliotDeviceId s"
  "sp_zoneData (shift_scene d s) = sp_zoneData s" "sp_numZonesInScene (shift_scene d s) = sp_numZonesInScene s"
  by (simp_all add: shift_scene_def add.assoc)

lemma shift_scene_cut: "cut_scene (shift_scene d p) = shift_scene d (cut_scene p)"
  by (simp add: shift_scene_def) (simp add: cut_scene_def)

lemma shift_scenes_simps [simp]:
  "shift_scenes 0 S = S" "shift_scenes d (shift_scenes e S) = shift_scenes (e + d) S"
proof -
  show "shift_scenes 0 S = S"
  proof
    show "shift_scenes 0 S i = S i" for i by (cases "S i") (simp_all add: shift_scenes_def)
  qed
  show "shift_scenes d (shift_scenes e S) = shift_scenes (e + d) S"
    by (simp add: shift_scenes_def fun_eq_iff option.map_comp comp_def)
qed

text \<open>A state the operations start from and leave.\<close>

definition tables_ok :: "lcm \<Rightarrow> bool" where
  "tables_ok l \<longleftrightarrow> lcm_inv l \<and> all_stored l"

lemma tables_ok_outer:
  assumes "same_tables l l'"
  shows "tables_ok l' = tables_ok l" "zone_of l' = zone_of l" "scene_of l' = scene_of l"
  using same_tables(1-3) [OF assms] all_stored_same same_scenes_map same_zones_map by (auto simp: tables_ok_def)

lemma broadcast_trigger_tables: "same_tables l (broadcastNewSceneTriggerTime ti i p l)"
  by (simp add: same_tables_def broadcastNewSceneTriggerTime_def emit_def)

lemma adjust_trigger_step:
  assumes "good_env env" "tables_ok l" "scene_buffers p"
  shows "\<exists>p' l'. adjust_trigger env ti d i (p, l) = Inr (p', l') \<and> scene_buffers p' \<and> tables_ok l' \<and> zone_of l' = zone_of l \<and>
    scene_of l' = (scene_of l)(i := map_option (shift_scene d) (scene_of l i))"
proof (cases "scene_of l i")
  case None
  have "get_scene l i p = Inr (False, p)" using scene_of_get(2) [OF _ None] assms(2) by (simp add: tables_ok_def)
  moreover have "scene_of l = (scene_of l)(i := None)" using None by auto
  ultimately show ?thesis using None assms(2,3) by (simp add: adjust_trigger_def)
next
  case (Some s)
  have inv: "lcm_inv l" using assms(2) by (simp add: tables_ok_def)
  from get_scene_some [OF inv Some assms(3)]
  obtain q where q: "get_scene l i p = Inr (True, q)" "cut_scene q = s" "scene_args_ok q" "sp_SceneNameString q ! 0 \<noteq> 0" "scene_buffers q"
    by metis
  have trigger: "sp_trigger s = sp_trigger q" using q(2) by auto
  show ?thesis
  proof (cases "sp_trigger q = REGULAR_TIME")
    case True
    then have "adjust_trigger env ti d i (p, l) = Inr (q, l)" using q(1) by (simp add: adjust_trigger_def)
    moreover have "scene_of l = (scene_of l)(i := map_option (shift_scene d) (scene_of l i))"
      using Some True trigger by (auto simp: shift_scene_def)
    ultimately show ?thesis using q(5) assms(2) by metis
  next
    case False
    let ?r = "q\<lparr>sp_nextTriggerTime := sp_nextTriggerTime q + d\<rparr>"
    have r: "?r = shift_scene d q" using False by (simp add: shift_scene_def)
    define l1 where "l1 = broadcastNewSceneTriggerTime ti i ?r l"
    note t = tables_ok_outer [OF broadcast_trigger_tables [of l ti i ?r], folded l1_def]
    have args: "scene_args_ok ?r" "sp_SceneNameString ?r ! 0 \<noteq> 0" "cstr 37 (sp_EliotDeviceId ?r) = sp_EliotDeviceId s"
      using q(2-4) by (auto simp: scene_args_ok_def cut_scene_def)
    have l1: "lcm_inv l1" "all_stored l1" "scene_of l1 i = Some s" using t assms(2) Some by (simp_all add: tables_ok_def)
    from save_stored_scene [OF good_envD(1) [OF assms(1)] l1 args]
    obtain l2 where l2: "set_scene env i ?r l1 = Inr l2" "lcm_inv l2" "all_stored l2" "zone_of l2 = zone_of l1"
      "scene_of l2 = (scene_of l1)(i \<mapsto> cut_scene ?r)" by blast
    have "adjust_trigger env ti d i (p, l) = Inr (?r, l2)" using q(1,4) False l2(1) by (simp add: adjust_trigger_def l1_def)
    moreover have "cut_scene ?r = shift_scene d s" unfolding r shift_scene_cut q(2) ..
    then have "scene_of l2 = (scene_of l)(i := map_option (shift_scene d) (scene_of l i))" using l2(5) t(3) Some by simp
    moreover have "scene_buffers ?r" using q(5) by (simp add: scene_buffers_def)
    ultimately show ?thesis using l2(2-4) t(2) by (auto simp: tables_ok_def)
  qed
qed

lemma adjust_loop_effect:
  assumes "good_env env" "tables_ok l" "scene_buffers p" "distinct is"
  shows "\<exists>p' l'. adjust_loop env ti d is (p, l) = Inr (p', l') \<and> tables_ok l' \<and> zone_of l' = zone_of l \<and>
    (\<forall>i. scene_of l' i = (if i \<in> set is then map_option (shift_scene d) (scene_of l i) else scene_of l i))"
  using assms(2-4)
proof (induction "is" arbitrary: p l)
  case (Cons i "is")
  from adjust_trigger_step [OF assms(1) Cons.prems(1,2)]
  obtain p1 l1 where 1: "adjust_trigger env ti d i (p, l) = Inr (p1, l1)" "scene_buffers p1" "tables_ok l1" "zone_of l1 = zone_of l"
    "scene_of l1 = (scene_of l)(i := map_option (shift_scene d) (scene_of l i))" by blast
  have d: "i \<notin> set is" "distinct is" using Cons.prems(3) by simp_all
  from Cons.IH [OF 1(3,2) d(2)]
  obtain p2 l2 where 2: "adjust_loop env ti d is (p1, l1) = Inr (p2, l2)" "tables_ok l2" "zone_of l2 = zone_of l1"
    "\<And>j. scene_of l2 j = (if j \<in> set is then map_option (shift_scene d) (scene_of l1 j) else scene_of l1 j)" by blast
  have "scene_of l2 j = (if j \<in> set (i # is) then map_option (shift_scene d) (scene_of l j) else scene_of l j)" for j
    using 2(4) d(1) by (auto simp: 1(5))
  then show ?case using 1(1,4) 2(1-3) by auto
qed simp

lemma adjustTriggers_effect:
  assumes "good_env env" "tables_ok l"
  shows "\<exists>l'. adjustTriggers env ti d l = Inr l' \<and> tables_ok l' \<and> zone_of l' = zone_of l \<and> scene_of l' = shift_scenes d (scene_of l)"
proof -
  have d: "distinct [0..<MAX_NUMBER_OF_SCENES]" by simp
  from adjust_loop_effect [OF assms good_envD(3) [OF assms(1)] d]
  obtain p l' where l': "adjust_loop env ti d [0..<MAX_NUMBER_OF_SCENES] (stack_scene env, l) = Inr (p, l')" "tables_ok l'"
    "zone_of l' = zone_of l"
    "\<forall>i. scene_of l' i = (if i \<in> set [0..<MAX_NUMBER_OF_SCENES] then map_option (shift_scene d) (scene_of l i) else scene_of l i)"
    by blast
  have "scene_of l' = shift_scenes d (scene_of l)"
    using l'(4) scene_of_beyond [of _ l] by (auto simp: fun_eq_iff shift_scenes_def)
  with l' show ?thesis by (simp add: adjustTriggers_def)
qed

text \<open>A change of the offset by \<open>d\<close>.\<close>

definition offset_moved :: "dword_t \<Rightarrow> local_time \<Rightarrow> local_time \<Rightarrow> bool" where
  "offset_moved d st st' \<longleftrightarrow> lt_rtc st' = lt_rtc st + d \<and> lt_effectiveGmtOffset st' = lt_effectiveGmtOffset st + d \<and>
     tables_ok (lt_lcm st') \<and> zone_of (lt_lcm st') = zone_of (lt_lcm st) \<and>
     scene_of (lt_lcm st') = shift_scenes d (scene_of (lt_lcm st))"

definition offset_inv :: "local_time \<Rightarrow> bool" where
  "offset_inv st \<longleftrightarrow> lt_effectiveGmtOffset st = lt_gmtOffset st + (if lt_inDST st then 3600 else 0)"

lemma adjust_scenes_effect:
  assumes "good_env env" "tables_ok (lt_lcm st)"
  shows "\<exists>st'. adjust_scenes env ti d st = Inr st' \<and> tables_ok (lt_lcm st') \<and> zone_of (lt_lcm st') = zone_of (lt_lcm st) \<and>
    scene_of (lt_lcm st') = shift_scenes d (scene_of (lt_lcm st)) \<and> st' = st\<lparr>lt_lcm := lt_lcm st'\<rparr>"
  using adjustTriggers_effect [OF assms, of ti d] by (auto simp: adjust_scenes_def)

lemma outer_lcm:
  "tables_ok (emit e l) = tables_ok l" "zone_of (emit e l) = zone_of l" "scene_of (emit e l) = scene_of l"
  "tables_ok (l\<lparr>lcm_flashSaveTimer := x\<rparr>) = tables_ok l" "zone_of (l\<lparr>lcm_flashSaveTimer := x\<rparr>) = zone_of l"
  "scene_of (l\<lparr>lcm_flashSaveTimer := x\<rparr>) = scene_of l"
  "tables_ok (l\<lparr>lcm_addALight := b\<rparr>) = tables_ok l" "zone_of (l\<lparr>lcm_addALight := b\<rparr>) = zone_of l"
  "scene_of (l\<lparr>lcm_addALight := b\<rparr>) = scene_of l"
  by (rule tables_ok_outer; simp add: same_tables_def emit_def)+

lemma checkForDST_effect:
  assumes "good_env env" "tables_ok (lt_lcm st)" "offset_inv st"
  shows "\<exists>st' d. checkForDST env ti date st = Inr st' \<and> offset_moved d st st' \<and> offset_inv st' \<and>
    lt_gmtOffset st' = lt_gmtOffset st \<and> lt_useDaylightSaving st' = lt_useDaylightSaving st \<and>
    (lt_inDST st' \<longleftrightarrow> lt_useDaylightSaving st \<and> isItDST (lt_inDST st) date)"
proof -
  define w where "w = (lt_useDaylightSaving st \<and> isItDST (lt_inDST st) date)"
  let ?d = "if w then 3600 else - 3600 :: dword_t"
  define st1 where "st1 = broadcastEffGmtOffsetChange (st\<lparr>lt_inDST := \<not> lt_inDST st,
     lt_effectiveGmtOffset := if lt_inDST st then lt_gmtOffset st else lt_gmtOffset st + 3600,
     lt_rtc := lt_rtc st + ?d\<rparr>)"
  have ok1: "tables_ok (lt_lcm st1)" using assms(2) by (simp add: st1_def broadcastEffGmtOffsetChange_def on_lcm_def outer_lcm)
  obtain st2 where st2: "adjust_scenes env ti ?d st1 = Inr st2" "tables_ok (lt_lcm st2)" "zone_of (lt_lcm st2) = zone_of (lt_lcm st1)"
    "scene_of (lt_lcm st2) = shift_scenes ?d (scene_of (lt_lcm st1))" "st2 = st1\<lparr>lt_lcm := lt_lcm st2\<rparr>"
    using adjust_scenes_effect [OF assms(1) ok1] by blast
  have f: "lt_rtc st2 = lt_rtc st1" "lt_effectiveGmtOffset st2 = lt_effectiveGmtOffset st1" "lt_gmtOffset st2 = lt_gmtOffset st1"
    "lt_inDST st2 = lt_inDST st1" "lt_useDaylightSaving st2 = lt_useDaylightSaving st1"
    by (subst st2(5), simp)+
  have moved: "offset_moved ?d st st2 \<and> offset_inv st2 \<and> lt_gmtOffset st2 = lt_gmtOffset st \<and>
      lt_useDaylightSaving st2 = lt_useDaylightSaving st \<and> lt_inDST st2 = (\<not> lt_inDST st)"
    if "lt_inDST st = (\<not> w)"
    using st2(2-4) f assms(3) that
    by (cases w) (simp_all add: offset_moved_def offset_inv_def st1_def broadcastEffGmtOffsetChange_def on_lcm_def outer_lcm)
  have saved: "offset_moved d st (save_soon st2) = offset_moved d st st2" "offset_inv (save_soon st2) = offset_inv st2"
    "lt_gmtOffset (save_soon st2) = lt_gmtOffset st2" "lt_useDaylightSaving (save_soon st2) = lt_useDaylightSaving st2"
    "lt_inDST (save_soon st2) = lt_inDST st2" for d
    by (simp_all add: offset_moved_def offset_inv_def save_soon_def on_lcm_def outer_lcm)
  show ?thesis
  proof (cases "lt_inDST st \<longleftrightarrow> lt_useDaylightSaving st \<and> isItDST (lt_inDST st) date")
    case True
    then have "checkForDST env ti date st = Inr st" by (auto simp: checkForDST_def)
    moreover have "offset_moved 0 st st" using assms(2) by (simp add: offset_moved_def)
    ultimately show ?thesis using assms(3) True by blast
  next
    case False
    have "checkForDST env ti date st = Inr (if lt_useDaylightSaving st then save_soon st2 else st2)"
    proof (cases "lt_inDST st")
      case True
      then show ?thesis using False st2(1) by (auto simp: checkForDST_def st1_def w_def Let_def)
    next
      case f: False
      then show ?thesis using False st2(1) by (auto simp: checkForDST_def st1_def w_def Let_def)
    qed
    moreover have "lt_inDST st = (\<not> w)" using False by (auto simp: w_def)
    note moved [OF this]
    ultimately show ?thesis using False saved by (intro exI [of _ "if lt_useDaylightSaving st then save_soon st2 else st2"] exI [of _ ?d]) auto
  qed
qed

lemma offset_moved_trans:
  "offset_moved d st st' \<Longrightarrow> offset_moved e st' st'' \<Longrightarrow> offset_moved (d + e) st st''"
  by (simp add: offset_moved_def add.assoc)

lemma time_zone_effect:
  assumes "good_env env" "tables_ok (lt_lcm st)" "offset_inv st"
  shows "\<exists>r st' d. time_zone_property env ti setFlag v st = Inr (r, st') \<and> offset_moved d st st' \<and> offset_inv st' \<and>
    lt_inDST st' = lt_inDST st \<and> (json_is_integer (Some v) \<and> setFlag \<longrightarrow> lt_gmtOffset st' = word_of_int (json_integer_value (Some v)))"
proof (cases "json_is_integer (Some v) \<and> setFlag")
  case False
  then have "\<exists>r. time_zone_property env ti setFlag v st = Inr (r, st)"
    by (auto simp: time_zone_property_def)
  moreover have "offset_moved 0 st st" using assms(2) by (simp add: offset_moved_def)
  ultimately show ?thesis using assms(3) False by blast
next
  case True
  let ?z = "word_of_int (json_integer_value (Some v)) :: dword_t"
  define k where "k = lt_gmtOffset st - ?z"
  let ?d = "- k"
  define e where "e = TimeAndZoneChanged (lt_rtc st - k - (lt_effectiveGmtOffset st - k)) (lt_effectiveGmtOffset st - k)"
  define st1 where "st1 = on_lcm (emit e) (st\<lparr>lt_gmtOffset := ?z, lt_effectiveGmtOffset := lt_effectiveGmtOffset st - k, lt_rtc := lt_rtc st - k\<rparr>)"
  have ok1: "tables_ok (lt_lcm st1)" using assms(2) by (simp add: st1_def on_lcm_def outer_lcm)
  obtain st2 where st2: "adjust_scenes env ti ?d st1 = Inr st2" "tables_ok (lt_lcm st2)" "zone_of (lt_lcm st2) = zone_of (lt_lcm st1)"
    "scene_of (lt_lcm st2) = shift_scenes ?d (scene_of (lt_lcm st1))" "st2 = st1\<lparr>lt_lcm := lt_lcm st2\<rparr>"
    using adjust_scenes_effect [OF assms(1) ok1] by blast
  have f: "lt_rtc st2 = lt_rtc st1" "lt_effectiveGmtOffset st2 = lt_effectiveGmtOffset st1" "lt_gmtOffset st2 = lt_gmtOffset st1"
    "lt_inDST st2 = lt_inDST st1" by (subst st2(5), simp)+
  have "time_zone_property env ti setFlag v st = Inr (None, save_soon st2)"
    using True st2(1) good_envD(5) [OF assms(1)] by (simp add: time_zone_property_def Let_def st1_def e_def del: minus_diff_eq flip: k_def)
  moreover have "offset_moved ?d st (save_soon st2)" "offset_inv (save_soon st2)" "lt_gmtOffset (save_soon st2) = ?z"
    "lt_inDST (save_soon st2) = lt_inDST st"
    using st2(2-4) f assms(3) by (simp_all add: offset_moved_def offset_inv_def save_soon_def on_lcm_def outer_lcm st1_def k_def)
  ultimately show ?thesis by blast
qed

lemma daylight_saving_effect:
  assumes "good_env env" "tables_ok (lt_lcm st)" "offset_inv st"
  shows "\<exists>r st' d. daylight_saving_property env ti setFlag v st = Inr (r, st') \<and> offset_moved d st st' \<and> offset_inv st'"
proof (cases "json_is_boolean (Some v) \<and> setFlag")
  case False
  then have "\<exists>r. daylight_saving_property env ti setFlag v st = Inr (r, st)" by (auto simp: daylight_saving_property_def)
  moreover have "offset_moved 0 st st" using assms(2) by (simp add: offset_moved_def)
  ultimately show ?thesis using assms(3) by blast
next
  case True
  let ?st = "st\<lparr>lt_useDaylightSaving := json_is_true (Some v)\<rparr>"
  have "tables_ok (lt_lcm ?st)" "offset_inv ?st" using assms(2,3) by (simp_all add: offset_inv_def)
  from checkForDST_effect [OF assms(1) this, of ti "time_to_date (lt_rtc st)"]
  obtain st' d where st': "checkForDST env ti (time_to_date (lt_rtc st)) ?st = Inr st'" "offset_moved d ?st st'" "offset_inv st'" by blast
  have "daylight_saving_property env ti setFlag v st = Inr (None, save_soon st')"
    using True st'(1) by (simp add: daylight_saving_property_def)
  moreover have "offset_moved d st (save_soon st')" "offset_inv (save_soon st')"
    using st'(2,3) by (simp_all add: offset_moved_def offset_inv_def save_soon_def on_lcm_def outer_lcm)
  ultimately show ?thesis by blast
qed

subsection \<open>Sequences of changes\<close>

datatype clock_event = CheckForDST date_struct | SetTimeZone bool json | SetDaylightSaving bool json | SetCurrentTime json

fun clock_step :: "environment \<Rightarrow> event_inputs \<Rightarrow> clock_event \<Rightarrow> local_time \<Rightarrow> memory_error + local_time" where
  "clock_step env ti (CheckForDST date) st = checkForDST env ti date st"
| "clock_step env ti (SetTimeZone setFlag v) st = bind_sum (time_zone_property env ti setFlag v st) (\<lambda>(r, st). Inr st)"
| "clock_step env ti (SetDaylightSaving setFlag v) st = bind_sum (daylight_saving_property env ti setFlag v st) (\<lambda>(r, st). Inr st)"
| "clock_step env ti (SetCurrentTime v) st = Inr (snd (current_time_property v st))"

fun clock_run :: "environment \<Rightarrow> event_inputs \<Rightarrow> clock_event list \<Rightarrow> local_time \<Rightarrow> memory_error + local_time" where
  "clock_run env ti [] st = Inr st"
| "clock_run env ti (e # es) st = bind_sum (clock_step env ti e st) (clock_run env ti es)"

text \<open>Universal time is the clock less the offset in force; only the property \<open>CurrentTime\<close> sets it.\<close>

definition universal_clock :: "local_time \<Rightarrow> dword_t" where
  "universal_clock st = lt_rtc st - lt_effectiveGmtOffset st"

fun universal_after :: "clock_event \<Rightarrow> dword_t \<Rightarrow> dword_t" where
  "universal_after (SetCurrentTime v) u = (if json_is_integer (Some v) then word_of_int (json_integer_value (Some v)) else u)"
| "universal_after _ u = u"

definition clock_effect :: "dword_t \<Rightarrow> dword_t \<Rightarrow> local_time \<Rightarrow> local_time \<Rightarrow> bool" where
  "clock_effect d u st st' \<longleftrightarrow> universal_clock st' = u \<and> lt_effectiveGmtOffset st' = lt_effectiveGmtOffset st + d \<and>
     tables_ok (lt_lcm st') \<and> zone_of (lt_lcm st') = zone_of (lt_lcm st) \<and>
     scene_of (lt_lcm st') = shift_scenes d (scene_of (lt_lcm st)) \<and> offset_inv st'"

lemma clock_effect_moved:
  assumes "offset_moved d st st'" "offset_inv st'"
  shows "clock_effect d (universal_clock st) st st'"
  using assms by (simp add: offset_moved_def clock_effect_def universal_clock_def)

lemma clock_step_effect:
  assumes "good_env env" "tables_ok (lt_lcm st)" "offset_inv st"
  shows "\<exists>st' d. clock_step env ti e st = Inr st' \<and> clock_effect d (universal_after e (universal_clock st)) st st'"
proof (cases e)
  case (CheckForDST date)
  obtain st' d where "checkForDST env ti date st = Inr st'" "offset_moved d st st'" "offset_inv st'"
    using checkForDST_effect [OF assms] by blast
  then show ?thesis using CheckForDST clock_effect_moved by fastforce
next
  case (SetTimeZone setFlag v)
  obtain r st' d where "time_zone_property env ti setFlag v st = Inr (r, st')" "offset_moved d st st'" "offset_inv st'"
    using time_zone_effect [OF assms] by blast
  then show ?thesis using SetTimeZone clock_effect_moved by fastforce
next
  case (SetDaylightSaving setFlag v)
  obtain r st' d where "daylight_saving_property env ti setFlag v st = Inr (r, st')" "offset_moved d st st'" "offset_inv st'"
    using daylight_saving_effect [OF assms] by blast
  then show ?thesis using SetDaylightSaving clock_effect_moved by fastforce
next
  case (SetCurrentTime v)
  have "clock_effect 0 (universal_after e (universal_clock st)) st (snd (current_time_property v st))"
    using assms(2,3) SetCurrentTime
    by (simp add: clock_effect_def current_time_property_def universal_clock_def offset_inv_def)
  then show ?thesis using SetCurrentTime by auto
qed

lemma clock_effect_trans:
  "clock_effect d u st st' \<Longrightarrow> clock_effect e u' st' st'' \<Longrightarrow> clock_effect (d + e) u' st st''"
  by (simp add: clock_effect_def add.assoc)

lemma clock_run_effect:
  assumes "good_env env" "tables_ok (lt_lcm st)" "offset_inv st"
  shows "\<exists>st' d. clock_run env ti es st = Inr st' \<and> clock_effect d (fold universal_after es (universal_clock st)) st st'"
  using assms(2,3)
proof (induction es arbitrary: st)
  case Nil
  then have "clock_effect 0 (universal_clock st) st st" by (simp add: clock_effect_def)
  then show ?case by auto
next
  case (Cons e es)
  obtain st1 d where 1: "clock_step env ti e st = Inr st1" "clock_effect d (universal_after e (universal_clock st)) st st1"
    using clock_step_effect [OF assms(1) Cons.prems] by blast
  have "tables_ok (lt_lcm st1)" "offset_inv st1" "universal_clock st1 = universal_after e (universal_clock st)"
    using 1(2) by (simp_all add: clock_effect_def)
  then obtain st2 f where "clock_run env ti es st1 = Inr st2" "clock_effect f (fold universal_after (e # es) (universal_clock st)) st1 st2"
    using Cons.IH by fastforce
  with 1 clock_effect_trans show ?case by fastforce
qed

text \<open>C40: changes of the time zone, of the use of daylight saving time and of the time itself, and the start and end of
  daylight saving time, in any order, refused requests included, keep the offset in force equal to that of the
  time zone plus the hour of daylight saving time; universal time (the clock less the offset) is what CurrentTime set it
  to last, and what it was if nothing set it; every scene that follows the sun stays at the same instant of universal
  time, every scene with a fixed time at its local time, and the zones are as they were. In particular a scene is
  as it was when the offset is. With a reliable flash, the library calls succeeding, a consistent state to start
  from, and every stored scene in the first 50 slots with its Eliot id in flash, none of them fails.\<close>

theorem offset_changes_keep_instants:
  assumes "good_env env" "lcm_inv (lt_lcm st)" "all_stored (lt_lcm st)" "offset_inv st"
  shows "\<exists>st'. clock_run env ti es st = Inr st' \<and> offset_inv st' \<and> lcm_inv (lt_lcm st') \<and> all_stored (lt_lcm st') \<and>
    universal_clock st' = fold universal_after es (universal_clock st) \<and> zone_of (lt_lcm st') = zone_of (lt_lcm st) \<and>
    (\<forall>i. scene_of (lt_lcm st') i = map_option (\<lambda>s. if sp_trigger s = REGULAR_TIME then s
        else s\<lparr>sp_nextTriggerTime := sp_nextTriggerTime s - lt_effectiveGmtOffset st + lt_effectiveGmtOffset st'\<rparr>) (scene_of (lt_lcm st) i))"
proof -
  have "tables_ok (lt_lcm st)" using assms(2,3) by (simp add: tables_ok_def)
  from clock_run_effect [OF assms(1) this assms(4), of ti es]
  obtain st' d where st': "clock_run env ti es st = Inr st'" "clock_effect d (fold universal_after es (universal_clock st)) st st'" by blast
  have "shift_scene d = (\<lambda>s. if sp_trigger s = REGULAR_TIME then s
      else s\<lparr>sp_nextTriggerTime := sp_nextTriggerTime s - lt_effectiveGmtOffset st + lt_effectiveGmtOffset st'\<rparr>)"
    using st'(2) by (simp add: shift_scene_def clock_effect_def fun_eq_iff)
  with st' show ?thesis by (simp add: clock_effect_def tables_ok_def shift_scenes_def)
qed

subsection \<open>The minute tick on the tables\<close>

lemma end_adding_effect:
  "tables_ok (end_adding_light ti t now l) = tables_ok l" "zone_of (end_adding_light ti t now l) = zone_of l"
  "scene_of (end_adding_light ti t now l) = scene_of l"
  by (rule tables_ok_outer; simp add: same_tables_def end_adding_light_def emit_def Let_def)+

lemma end_adding_mode:
  "lcm_addALight (end_adding_light ti t now l) \<longleftrightarrow> lcm_addALight l \<and> now \<le> t + ADD_A_LIGHT_TIMEOUT_SECONDS"
  by (auto simp: end_adding_light_def emit_def not_less Let_def)

text \<open>C39: one minute of the LCM. With a reliable flash, the library calls succeeding, a consistent state (the
  tables, and the offset in force, which is that of the time zone plus the hour of daylight saving time), every stored
  scene in the first 50 slots with its Eliot id in flash, and whatever the clock, HandleMinuteChange, from the reading
  of the clock on, returns normally (no call runs out
  of bounds of memory, every search for a next trigger ends) and keeps all this. Unless a light is being added, for at
  most five minutes, every scene is repaired, and one whose time has come is taken off the schedule or moved to its
  next trigger, and marked as running; the zones of the scenes that are due, not skipped and not yet running get the
  scene's levels as targets, in the order of the scenes; nothing else in the two tables changes. Then daylight
  saving time is brought in line with the rule for the local time, moving the clock, the offset and the scenes that
  follow the sun together.\<close>

theorem minute_tick_refines_schedule:
  fixes lastAddALightTime :: dword_t
  assumes "good_env env" "\<And>k n. ev_json_ok ti k n" "lcm_inv (lt_lcm st)" "all_stored (lt_lcm st)" "offset_inv st"
  defines "l \<equiv> lt_lcm st" and "now \<equiv> ti\<lparr>ti_currentTime := \<lparr>SECONDS = lt_rtc st, MILLISECONDS = MILLISECONDS (ti_currentTime ti)\<rparr>\<rparr>"
    and "adding \<equiv> lcm_addALight (lt_lcm st) \<and> lt_rtc st \<le> lastAddALightTime + ADD_A_LIGHT_TIMEOUT_SECONDS"
  shows "\<exists>st' d. HandleMinuteChange env ti lastAddALightTime st = Some (Inr st') \<and> lcm_inv (lt_lcm st') \<and> all_stored (lt_lcm st') \<and>
    offset_inv st' \<and> lt_rtc st' = lt_rtc st + d \<and> lt_effectiveGmtOffset st' = lt_effectiveGmtOffset st + d \<and>
    (lt_inDST st' \<longleftrightarrow> lt_useDaylightSaving st \<and> isItDST (lt_inDST st) (time_to_date (lt_rtc st))) \<and>
    scene_of (lt_lcm st') = shift_scenes d (if adding then scene_of l else (\<lambda>i. map_option (scene_tick now (present l)) (scene_of l i))) \<and>
    zone_of (lt_lcm st') = (if adding then zone_of l
       else fold (\<lambda>i. zones_tick env now i (scene_of l i)) [0..<MAX_NUMBER_OF_SCENES] (zone_of l))"
proof -
  define l0 where "l0 = end_adding_light ti lastAddALightTime (lt_rtc st) l"
  have l0: "tables_ok l0" "zone_of l0 = zone_of l" "scene_of l0 = scene_of l" "lcm_addALight l0 = adding"
    using assms(3,4) unfolding l0_def l_def adding_def end_adding_effect end_adding_mode by (simp_all add: tables_ok_def)
  have ok: "\<And>k n. ev_json_ok now k n" using assms(2) by (simp add: now_def)
  obtain l1 where l1: "checkScenes env now l0 = Some (Inr l1)" "tables_ok l1"
    "scene_of l1 = (if adding then scene_of l else (\<lambda>i. map_option (scene_tick now (present l)) (scene_of l i)))"
    "zone_of l1 = (if adding then zone_of l else fold (\<lambda>i. zones_tick env now i (scene_of l i)) [0..<MAX_NUMBER_OF_SCENES] (zone_of l))"
  proof (cases adding)
    case True
    then show thesis using that [of l0] l0 by (simp add: checkScenes_def)
  next
    case False
    then have "\<not> lcm_addALight l0" using l0(4) by simp
    from check_scenes_effect [OF assms(1) ok _ _ this] l0(1) obtain l1 where "checkScenes env now l0 = Some (Inr l1)" "tables_ok l1"
      "scene_of l1 = (\<lambda>i. map_option (scene_tick now (present l0)) (scene_of l0 i))"
      "zone_of l1 = fold (\<lambda>i. zones_tick env now i (scene_of l0 i)) [0..<MAX_NUMBER_OF_SCENES] (zone_of l0)"
      by (auto simp: tables_ok_def)
    then show thesis using that [of l1] False unfolding l0(2,3) by simp
  qed
  let ?st = "on_lcm (end_adding_light ti lastAddALightTime (lt_rtc st)) st"
  let ?st1 = "?st\<lparr>lt_lcm := l1\<rparr>"
  have st1: "tables_ok (lt_lcm ?st1)" "offset_inv ?st1" using l1(2) assms(5) by (simp_all add: offset_inv_def on_lcm_def)
  obtain st2 d where st2: "checkForDST env ti (time_to_date (lt_rtc st)) ?st1 = Inr st2" "offset_moved d ?st1 st2" "offset_inv st2"
    "lt_inDST st2 \<longleftrightarrow> lt_useDaylightSaving ?st1 \<and> isItDST (lt_inDST ?st1) (time_to_date (lt_rtc st))"
    using checkForDST_effect [OF assms(1) st1, of ti "time_to_date (lt_rtc st)"] by blast
  have "lt_lcm ?st = l0" by (simp add: on_lcm_def l0_def l_def)
  then have "HandleMinuteChange env ti lastAddALightTime st = Some (Inr st2)"
    using l1(1) st2(1) by (simp add: HandleMinuteChange_def Let_def now_def)
  moreover have "lt_rtc ?st1 = lt_rtc st" "lt_effectiveGmtOffset ?st1 = lt_effectiveGmtOffset st" "lt_lcm ?st1 = l1"
    "lt_useDaylightSaving ?st1 = lt_useDaylightSaving st" "lt_inDST ?st1 = lt_inDST st" by (simp_all add: on_lcm_def)
  ultimately show ?thesis
    using st2(2-4) l1(3,4) unfolding offset_moved_def tables_ok_def by (intro exI [of _ st2] exI [of _ d]) (simp only: simp_thms)
qed

subsection \<open>Sample clocks\<close>

definition sample_clock :: "lcm \<Rightarrow> local_time" where
  "sample_clock l = \<lparr>lt_rtc = 0x5F12CBA0, lt_useDaylightSaving = True, lt_inDST = False, lt_gmtOffset = - 18000,
     lt_effectiveGmtOffset = - 18000, lt_lcm = l\<rparr>"

lemma sample_clock_fields [simp]:
  "lt_lcm (sample_clock l) = l" "lt_rtc (sample_clock l) = 0x5F12CBA0" "lt_effectiveGmtOffset (sample_clock l) = - 18000"
  "lt_inDST (sample_clock l) = False" "lt_useDaylightSaving (sample_clock l) = True" "offset_inv (sample_clock l)"
  by (simp_all add: sample_clock_def offset_inv_def)

lemma late_inputs_ok: "ev_json_ok late_inputs k n"
  by (simp add: late_inputs_def)

lemma summer_clock: "isItDST False (time_to_date 0x5F12CBA0)"
proof -
  have "civil_year 1970 18461 = (2020, 199)" by (simp add: civil_year.simps days_in_year_def leap_year_def)
  moreover have "civil_month True (Suc 0) 199 = (7, 17)" by (simp add: civil_month.simps days_in_month_def)
  ultimately show ?thesis by (simp add: isItDST_def time_to_date_def gmtime_def leap_year_def)
qed

text \<open>Saturday the 18th of July 2020, 10:14: the scene of 9:13 is run and has a new trigger; the clock is put forward.\<close>

theorem minute_tick_refines_schedule_witness:
  "\<exists>l st s. HandleMinuteChange calm_env late_inputs 0 (sample_clock l) = Some (Inr st) \<and> scene_of (lt_lcm st) 0 = Some s \<and>
     sp_running s = 1 \<and> lt_inDST st"
proof -
  obtain l where l: "lcm_inv l" "all_stored l" "\<not> lcm_addALight l" "zone_of l = [3 \<mapsto> cut_zone sample_zone]"
    "scene_of l = [0 \<mapsto> cut_scene weekly_lamp_scene]" by (rule weekly_installation)
  define now where "now = late_inputs\<lparr>ti_currentTime := \<lparr>SECONDS = 0x5F12CBA0, MILLISECONDS = MILLISECONDS (ti_currentTime late_inputs)\<rparr>\<rparr>"
  have ok: "lcm_inv (lt_lcm (sample_clock l))" "all_stored (lt_lcm (sample_clock l))" "offset_inv (sample_clock l)" using l(1,2) by simp_all
  have idle: "\<not> (lcm_addALight (lt_lcm (sample_clock l)) \<and> lt_rtc (sample_clock l) \<le> 0 + ADD_A_LIGHT_TIMEOUT_SECONDS)"
    using l(3) by simp
  from minute_tick_refines_schedule [OF calm_env_good late_inputs_ok ok, of 0, unfolded if_not_P [OF idle], unfolded sample_clock_fields]
  obtain st d where st: "HandleMinuteChange calm_env late_inputs 0 (sample_clock l) = Some (Inr st)"
    "lt_inDST st \<longleftrightarrow> True \<and> isItDST False (time_to_date 0x5F12CBA0)"
    "scene_of (lt_lcm st) = shift_scenes d (\<lambda>i. map_option (scene_tick now (present l)) (scene_of l i))"
    unfolding now_def by (elim exE conjE)
  have "scene_of (lt_lcm st) 0 = Some (shift_scene d (scene_tick now (present l) (cut_scene weekly_lamp_scene)))"
    unfolding st(3) shift_scenes_def by (simp add: l(5))
  moreover have "sp_running (shift_scene d s) = sp_running s" for d s by (simp add: shift_scene_def)
  moreover have "sp_running (scene_tick now (present l) (cut_scene weekly_lamp_scene)) = 1"
  proof -
    have "SECONDS (ti_currentTime now) = 0x5F12CBA0" by (simp add: now_def)
    then have "scene_tick now (present l) (cut_scene weekly_lamp_scene) =
        reschedule now (run_flag (present l) (clean_scene (cut_scene weekly_lamp_scene)))"
      using weekly_lamp_due(1,3) by (simp add: scene_tick_def)
    moreover have "entry_zone (clean_scene (cut_scene weekly_lamp_scene)) 0 = 3"
      by (simp add: weekly_lamp_scene_def lamp_scene_def sample_scene_def cut_scene_def)
    moreover have "unat (sp_numZonesInScene (cut_scene weekly_lamp_scene)) = 1"
      by (simp add: weekly_lamp_scene_def lamp_scene_def)
    ultimately show ?thesis using weekly_lamp_due(4) by (simp add: run_flag_def l(4))
  qed
  moreover have "lt_inDST st" using st(2) summer_clock by simp
  ultimately show ?thesis using st(1) by metis
qed

text \<open>From New York to Berlin: the trigger of a scene at sunrise moves by six hours.\<close>

theorem offset_changes_keep_instants_witness:
  "\<exists>l st s. scene_of l 0 = Some s \<and> clock_run calm_env late_inputs [SetTimeZone True (JSON_INTEGER 3600)] (sample_clock l) = Inr st \<and>
     lt_effectiveGmtOffset st = 3600 \<and> scene_of (lt_lcm st) 0 = Some (s\<lparr>sp_nextTriggerTime := sp_nextTriggerTime s + 21600\<rparr>)"
proof -
  obtain l where l: "lcm_inv l" "zone_of l = [3 \<mapsto> cut_zone sample_zone]" "distinct_addresses (zone_of l)"
    "transmitQueue l = []" "transmitMessages l = 0" "scene_of l 0 = Some (cut_scene lamp_scene)" "stored_id l 0"
    "lcm_houseID l = 0" "\<not> lcm_addALight l" "\<not> lcm_addASceneController l"
    "\<forall>out. \<exists>c. get_controller l 0 out = (True, c) \<and> same_controller lamp_controller c"
    "scene_of l = [0 \<mapsto> cut_scene lamp_scene]" by (rule sample_tables [OF lamp_scene_ok])
  have "all_stored l" using l(7,12) by (auto simp: all_stored_def split: if_splits)
  then have ok: "lcm_inv (lt_lcm (sample_clock l))" "all_stored (lt_lcm (sample_clock l))" "offset_inv (sample_clock l)" using l(1) by simp_all
  have t: "sp_trigger (cut_scene lamp_scene) \<noteq> REGULAR_TIME" by (simp add: lamp_scene_def sample_scene_def)
  from offset_changes_keep_instants [OF calm_env_good ok, of late_inputs "[SetTimeZone True (JSON_INTEGER 3600)]"]
  obtain st where st: "clock_run calm_env late_inputs [SetTimeZone True (JSON_INTEGER 3600)] (sample_clock l) = Inr st" "offset_inv st"
    "scene_of (lt_lcm st) 0 = map_option (\<lambda>s. if sp_trigger s = REGULAR_TIME then s
      else s\<lparr>sp_nextTriggerTime := sp_nextTriggerTime s - (- 18000) + lt_effectiveGmtOffset st\<rparr>) (scene_of l 0)"
    unfolding sample_clock_fields by blast
  have tab: "tables_ok (lt_lcm (sample_clock l))" using ok(1,2) by (simp add: tables_ok_def)
  obtain r st' where st': "time_zone_property calm_env late_inputs True (JSON_INTEGER 3600) (sample_clock l) = Inr (r, st')"
    "lt_gmtOffset st' = 3600" "\<not> lt_inDST st'"
    using time_zone_effect [OF calm_env_good tab ok(3), of late_inputs True "JSON_INTEGER 3600"] by auto
  have "st' = st" using st(1) st'(1) by simp
  then have e: "lt_effectiveGmtOffset st = 3600" using st(2) st'(2,3) by (simp add: offset_inv_def)
  have "scene_of (lt_lcm st) 0 = Some ((cut_scene lamp_scene)\<lparr>sp_nextTriggerTime := sp_nextTriggerTime (cut_scene lamp_scene) + 21600\<rparr>)"
    using st(3) t by (simp add: l(6) e add.assoc)
  then show ?thesis using l(6) st(1) e by blast
qed

end
