(* ===== verification/Flash_Bank.thy ===== *)
theory Flash_Bank
  imports Crc Flash_Driver Flash_Slots
begin

unbundle bit_operations_syntax

text \<open>
  The flash bank routines of Flash.c (FBK): 4088 bytes of storage without alignment or size
  restrictions, kept in two 4 KB banks that are written alternately. A write erases the inactive bank,
  copies the active one with the new bytes merged in, and last stores a series number with a check
  word; \<open>FBK_Init\<close> selects the newer valid bank. Debug output and the mutex are left out.
\<close>

abbreviation FBK_BANK_SIZE :: nat where "FBK_BANK_SIZE \<equiv> 4096"
abbreviation FBK_INFO_SIZE :: nat where "FBK_INFO_SIZE \<equiv> 8"
abbreviation FBK_BLOCK_SIZE :: nat where "FBK_BLOCK_SIZE \<equiv> 128"

text \<open>\<open>bank_info\<close> are the addresses of the two banks.\<close>

record FBK_Context =
  active_bank :: nat
  bank_info :: "nat \<Rightarrow> nat"

definition bank_not :: "nat \<Rightarrow> nat" where "bank_not x = (if x = 0 then 1 else 0)"

text \<open>The fields of \<open>FBK_Bank_Info\<close> behind the data.\<close>

definition bank_series :: "memory \<Rightarrow> nat \<Rightarrow> word_t" where
  "bank_series m a = word_of_bytes (m (a + 4089)) (m (a + 4088))"

definition bank_check_word :: "memory \<Rightarrow> nat \<Rightarrow> word_t" where
  "bank_check_word m a = word_of_bytes (m (a + 4091)) (m (a + 4090))"

definition bank_bad :: "memory \<Rightarrow> nat \<Rightarrow> bool" where
  "bank_bad m a \<longleftrightarrow> 0xFFFF XOR bank_series m a XOR bank_check_word m a \<noteq> 0"

definition FBK_Init :: "memory \<Rightarrow> FBK_Context \<Rightarrow> FBK_Context" where
  "FBK_Init m ctx =
     (if bank_bad m (bank_info ctx 0) then ctx\<lparr>active_bank := 1\<rparr>
      else if bank_bad m (bank_info ctx 1) then ctx\<lparr>active_bank := 0\<rparr>
      else if bank_series m (bank_info ctx 1) - bank_series m (bank_info ctx 0) = 1
      then ctx\<lparr>active_bank := 1\<rparr>
      else ctx\<lparr>active_bank := 0\<rparr>)"

text \<open>The inner loop: \<open>n\<close> bytes of the buffer from offset \<open>x\<close>, with the two source pointers.\<close>

fun fill_block ::
  "memory \<Rightarrow> memory \<Rightarrow> nat \<Rightarrow> nat \<Rightarrow> nat \<Rightarrow> nat \<Rightarrow> nat \<Rightarrow> nat \<Rightarrow> byte list \<times> nat \<times> nat" where
  "fill_block m ram dst stop x 0 src old = ([], src, old)"
| "fill_block m ram dst stop x (Suc n) src old =
     (let (b, src') = (if x \<ge> dst \<and> x < stop then (ram src, src + 1) else (m old, src));
          (bs, src'', old') = fill_block m ram dst stop (x + 1) n src' (old + 1)
      in (b # bs, src'', old'))"

text \<open>The fields of \<open>FBK_Bank_Info\<close> written over the end of the last buffer.\<close>

definition put_info :: "word_t \<Rightarrow> byte list \<Rightarrow> byte list" where
  "put_info series buffer =
     (let check_word = series XOR 0xFFFF in
      buffer[120 := LowByteOfWord series, 121 := HighByteOfWord series,
             122 := LowByteOfWord check_word, 123 := HighByteOfWord check_word])"

text \<open>The state of the outer loop: flash, offset, source pointer, pointer into the old bank,
  address of the next block. Return codes of the driver are ignored.\<close>

type_synonym fbk_loop = "memory \<times> nat \<times> nat \<times> nat \<times> nat"

definition fbk_block :: "ftfe_hw \<Rightarrow> FBK_Context \<Rightarrow> memory \<Rightarrow> nat \<Rightarrow> nat \<Rightarrow> fbk_loop \<Rightarrow> fbk_loop" where
  "fbk_block hw ctx ram dst stop = (\<lambda>(m, x, src, old, new).
     let (buffer, src', old') = fill_block m ram dst stop x FBK_BLOCK_SIZE src old;
         x' = x + FBK_BLOCK_SIZE;
         buffer = (if x' = FBK_BANK_SIZE
                   then put_info (bank_series m (bank_info ctx (active_bank ctx)) + 1) buffer
                   else buffer);
         (m', ret) = FlashProgramPhrase hw ftfl_cfg m new FBK_BLOCK_SIZE (array_ram buffer ram) 0
     in (m', x', src', old', new + FBK_BLOCK_SIZE))"

text \<open>The flash after the erase and \<open>n\<close> of the 32 rounds of \<open>while(x < FBK_BANK_SIZE)\<close>.\<close>

definition fbk_start :: "ftfe_hw \<Rightarrow> FBK_Context \<Rightarrow> memory \<Rightarrow> nat \<Rightarrow> fbk_loop" where
  "fbk_start hw ctx m src =
     (let old_block = bank_info ctx (active_bank ctx);
          new_block = bank_info ctx (bank_not (active_bank ctx));
          (m', ret) = FlashEraseSector hw ftfl_cfg m new_block FBK_BANK_SIZE
      in (m', 0, src, old_block, new_block))"

definition fbk_after ::
  "ftfe_hw \<Rightarrow> FBK_Context \<Rightarrow> memory \<Rightarrow> memory \<Rightarrow> nat \<Rightarrow> nat \<Rightarrow> nat \<Rightarrow> nat \<Rightarrow> fbk_loop" where
  "fbk_after hw ctx m ram src dst len n =
     (fbk_block hw ctx ram dst ((dst + len) mod 2 ^ 32) ^^ n) (fbk_start hw ctx m src)"

definition FBK_WriteFlash ::
  "ftfe_hw \<Rightarrow> FBK_Context \<Rightarrow> memory \<Rightarrow> memory \<Rightarrow> nat \<Rightarrow> nat \<Rightarrow> nat \<Rightarrow> dword_t \<times> FBK_Context \<times> memory" where
  "FBK_WriteFlash hw ctx m ram src dst len =
     (if (dst + len) mod 2 ^ 32 \<ge> FBK_BANK_SIZE then (- 1, ctx, m)
      else let (m', _) = fbk_after hw ctx m ram src dst len (FBK_BANK_SIZE div FBK_BLOCK_SIZE)
           in (0, ctx\<lparr>active_bank := bank_not (active_bank ctx)\<rparr>, m'))"

text \<open>\<open>FBK_Address\<close>: the bank is selected by the low bit of \<open>active_bank\<close>.\<close>

definition FBK_Address :: "FBK_Context \<Rightarrow> nat \<Rightarrow> nat" where
  "FBK_Address ctx offset = bank_info ctx (active_bank ctx mod 2) + offset"

subsection \<open>The copy loop\<close>

text \<open>How many source bytes have been used before offset \<open>x\<close>, and the byte that belongs at an
  offset.\<close>

definition copied :: "nat \<Rightarrow> nat \<Rightarrow> nat \<Rightarrow> nat" where
  "copied dst stop x = (if x \<le> dst then 0 else min x stop - dst)"

definition merged :: "memory \<Rightarrow> memory \<Rightarrow> nat \<Rightarrow> nat \<Rightarrow> nat \<Rightarrow> nat \<Rightarrow> nat \<Rightarrow> byte" where
  "merged m ram dst stop src old x =
     (if dst \<le> x \<and> x < stop then ram (src + (x - dst)) else m (old + x))"

lemma fill_block_merged:
  "fill_block m ram dst stop x n (src + copied dst stop x) (old + x) =
     (map (merged m ram dst stop src old) [x..<x + n], src + copied dst stop (x + n), old + (x + n))"
proof (induction n arbitrary: x)
  case 0
  then show ?case by simp
next
  case (Suc n)
  have c: "copied dst stop (x + 1) = (if dst \<le> x \<and> x < stop then copied dst stop x + 1 else copied dst stop x)"
    by (auto simp: copied_def)
  have u: "[x..<x + Suc n] = x # [x + 1..<(x + 1) + n]"
    by (simp add: upt_conv_Cons)
  have head: "merged m ram dst stop src old x =
      (if dst \<le> x \<and> x < stop then ram (src + copied dst stop x) else m (old + x))"
    by (auto simp: merged_def copied_def)
  have IH: "fill_block m ram dst stop (x + 1) n (src + copied dst stop (x + 1)) (old + x + 1) =
     (map (merged m ram dst stop src old) [x + 1..<(x + 1) + n], src + copied dst stop (x + Suc n), old + (x + Suc n))"
    using Suc.IH [of "x + 1"] by simp
  show ?case
  proof (cases "dst \<le> x \<and> x < stop")
    case True
    then have "src + copied dst stop x + 1 = src + copied dst stop (x + 1)" by (simp only: c) simp
    with True show ?thesis unfolding u list.map head
      by (simp only: fill_block.simps Let_def prod.case IH if_True simp_thms)
  next
    case False
    then have "copied dst stop x = copied dst stop (x + 1)" by (simp only: c) simp
    with False show ?thesis unfolding u list.map head
      by (simp only: fill_block.simps Let_def prod.case IH if_False)
  qed
qed

lemma length_put_info [simp]: "length (put_info s b) = length b"
  by (simp add: put_info_def Let_def)

subsection \<open>The write loop\<close>

text \<open>The two banks are different 4 KB sectors of the flash.\<close>

definition fbk_layout :: "FBK_Context \<Rightarrow> bool" where
  "fbk_layout ctx \<longleftrightarrow> active_bank ctx < 2 \<and> bank_info ctx 0 \<noteq> bank_info ctx 1 \<and>
     (\<forall>i < 2. bank_info ctx i mod 0x1000 = 0 \<and> bank_info ctx i + 0x1000 \<le> 0x100000)"

abbreviation old_bank :: "FBK_Context \<Rightarrow> nat" where "old_bank ctx \<equiv> bank_info ctx (active_bank ctx)"
abbreviation new_bank :: "FBK_Context \<Rightarrow> nat" where
  "new_bank ctx \<equiv> bank_info ctx (bank_not (active_bank ctx))"

lemma sectors_apart:
  fixes a b :: nat
  assumes "a mod 0x1000 = 0" "b mod 0x1000 = 0" "a \<noteq> b"
  shows "a + 0x1000 \<le> b \<or> b + 0x1000 \<le> a"
proof -
  have "0x1000 dvd a" "0x1000 dvd b" using assms(1,2) by (simp_all only: mod_0_imp_dvd)
  then obtain i j where "a = 0x1000 * i" "b = 0x1000 * j" by (elim dvdE)
  moreover with assms(3) have "i + 1 \<le> j \<or> j + 1 \<le> i" by auto
  ultimately show ?thesis by auto
qed

lemma fbk_layoutD:
  assumes "fbk_layout ctx"
  shows "new_bank ctx mod 0x1000 = 0" "new_bank ctx + 0x1000 \<le> 0x100000"
    "old_bank ctx mod 0x1000 = 0" "old_bank ctx + 0x1000 \<le> 0x100000"
    "old_bank ctx + 0x1000 \<le> new_bank ctx \<or> new_bank ctx + 0x1000 \<le> old_bank ctx"
proof -
  have "active_bank ctx = 0 \<or> active_bank ctx = 1" using assms by (auto simp: fbk_layout_def)
  then show "new_bank ctx mod 0x1000 = 0" "new_bank ctx + 0x1000 \<le> 0x100000"
    "old_bank ctx mod 0x1000 = 0" "old_bank ctx + 0x1000 \<le> 0x100000"
    "old_bank ctx + 0x1000 \<le> new_bank ctx \<or> new_bank ctx + 0x1000 \<le> old_bank ctx"
    using assms sectors_apart [of "bank_info ctx 0" "bank_info ctx 1"]
    by (auto simp: fbk_layout_def bank_not_def)
qed

lemma fbk_after_0: "fbk_after hw ctx m ram src dst len 0 = fbk_start hw ctx m src"
  by (simp add: fbk_after_def)

lemma fbk_after_Suc: "fbk_after hw ctx m ram src dst len (Suc n) =
   fbk_block hw ctx ram dst ((dst + len) mod 2 ^ 32) (fbk_after hw ctx m ram src dst len n)"
  by (simp add: fbk_after_def)

text \<open>The pointers do not depend on the flash contents.\<close>

lemma fbk_after_pointers:
  "\<exists>m'. fbk_after hw ctx m ram src dst len n =
     (m', 128 * n, src + copied dst ((dst + len) mod 2 ^ 32) (128 * n), old_bank ctx + 128 * n,
      new_bank ctx + 128 * n)"
proof (induction n)
  case 0
  show ?case by (auto simp: fbk_after_0 fbk_start_def Let_def copied_def split: prod.split)
next
  case (Suc n)
  then obtain m' where "fbk_after hw ctx m ram src dst len n =
     (m', 128 * n, src + copied dst ((dst + len) mod 2 ^ 32) (128 * n), old_bank ctx + 128 * n,
      new_bank ctx + 128 * n)" by blast
  then show ?case
    by (auto simp: fbk_after_Suc fbk_block_def Let_def fill_block_merged add_ac split: prod.split)
qed

abbreviation flash_after where
  "flash_after hw ctx m ram src dst len n \<equiv> fst (fbk_after hw ctx m ram src dst len n)"

text \<open>One round on the flash.\<close>

definition round_buffer :: "FBK_Context \<Rightarrow> memory \<Rightarrow> memory \<Rightarrow> nat \<Rightarrow> nat \<Rightarrow> nat \<Rightarrow> nat \<Rightarrow> byte list" where
  "round_buffer ctx m ram src dst stop n =
     (let b = map (merged m ram dst stop src (old_bank ctx)) [128 * n..<128 * n + 128]
      in if n = 31 then put_info (bank_series m (old_bank ctx) + 1) b else b)"

lemma flash_after_Suc:
  "flash_after hw ctx m ram src dst len (Suc n) =
   (let m' = flash_after hw ctx m ram src dst len n in
    fst (FlashProgramPhrase hw ftfl_cfg m' (new_bank ctx + 128 * n) 128
      (array_ram (round_buffer ctx m' ram src dst ((dst + len) mod 2 ^ 32) n) ram) 0))"
proof -
  obtain m' where m': "fbk_after hw ctx m ram src dst len n =
     (m', 128 * n, src + copied dst ((dst + len) mod 2 ^ 32) (128 * n), old_bank ctx + 128 * n,
      new_bank ctx + 128 * n)" using fbk_after_pointers by blast
  have "128 * n + 128 = 4096 \<longleftrightarrow> n = 31" by auto
  then show ?thesis
    by (simp add: fbk_after_Suc m' fbk_block_def fill_block_merged round_buffer_def Let_def
        split: prod.split)
qed

text \<open>No byte outside the new bank changes, whatever the controller reports.\<close>

lemma flash_after_outside:
  assumes "ftfe hw" "fbk_layout ctx" "n \<le> 32" "x < new_bank ctx \<or> new_bank ctx + 0x1000 \<le> x"
  shows "flash_after hw ctx m ram src dst len n x = m x"
  using assms(3)
proof (induction n)
  case 0
  obtain m' rc where e: "FlashEraseSector hw ftfl_cfg m (new_bank ctx) 0x1000 = (m', rc)" by fastforce
  have "m' x = m x"
    by (rule ftfe.erase_outside [OF assms(1) e]) (use fbk_layoutD(2) [OF assms(2)] assms(4) in auto)
  then show ?case by (simp add: fbk_after_0 fbk_start_def Let_def e)
next
  case (Suc n)
  let ?m = "flash_after hw ctx m ram src dst len n"
  let ?ram = "array_ram (round_buffer ctx ?m ram src dst ((dst + len) mod 2 ^ 32) n) ram"
  obtain m' rc where p: "FlashProgramPhrase hw ftfl_cfg ?m (new_bank ctx + 128 * n) 128 ?ram 0 = (m', rc)"
    by fastforce
  have n: "128 * n + 128 \<le> 0x1000" using Suc.prems by simp
  have "m' x = ?m x"
    by (rule ftfe.prog_outside [OF assms(1) p])
      (use n fbk_layoutD(2) [OF assms(2)] assms(4) in auto)
  then show ?case using Suc p by (simp add: flash_after_Suc Let_def)
qed

lemma old_bank_kept:
  assumes "ftfe hw" "fbk_layout ctx" "n \<le> 32" "o' < 0x1000"
  shows "flash_after hw ctx m ram src dst len n (old_bank ctx + o') = m (old_bank ctx + o')"
  by (rule flash_after_outside [OF assms(1-3)]) (use fbk_layoutD(5) [OF assms(2)] assms(4) in auto)

lemma round_buffer_kept:
  assumes "ftfe hw" "fbk_layout ctx" "n < 32"
  shows "round_buffer ctx (flash_after hw ctx m ram src dst len n) ram src dst stop n =
    round_buffer ctx m ram src dst stop n"
proof -
  let ?m = "flash_after hw ctx m ram src dst len n"
  note kept = old_bank_kept [OF assms(1,2) less_imp_le [OF assms(3)], of _ m ram src dst len]
  have "merged ?m ram dst stop src (old_bank ctx) x = merged m ram dst stop src (old_bank ctx) x"
    if "x < 0x1000" for x
    using kept [OF that] by (simp add: merged_def)
  then have "map (merged ?m ram dst stop src (old_bank ctx)) [128 * n..<128 * n + 128] =
      map (merged m ram dst stop src (old_bank ctx)) [128 * n..<128 * n + 128]"
    using assms(3) by simp
  moreover have "bank_series ?m (old_bank ctx) = bank_series m (old_bank ctx)"
    using kept by (simp add: bank_series_def)
  ultimately show ?thesis by (simp only: round_buffer_def Let_def)
qed

lemma length_round_buffer [simp]: "length (round_buffer ctx m ram src dst stop n) = 128"
  by (simp add: round_buffer_def Let_def del: upt_rec_numeral)

lemma flash_after_round:
  assumes "ftfe_reliable hw" "fbk_layout ctx" "n < 32"
    and "read_bytes (flash_after hw ctx m ram src dst len n) (new_bank ctx + 128 * n) 128 = replicate 128 0xFF"
  shows "flash_after hw ctx m ram src dst len (Suc n) =
    write_bytes (flash_after hw ctx m ram src dst len n) (new_bank ctx + 128 * n)
      (round_buffer ctx m ram src dst ((dst + len) mod 2 ^ 32) n)"
proof -
  let ?b = "round_buffer ctx m ram src dst ((dst + len) mod 2 ^ 32) n"
  have hw: "ftfe hw" by (rule ftfe_of_reliable [OF assms(1)])
  have "8 dvd new_bank ctx" using fbk_layoutD(1) [OF assms(2)] dvd_trans [of 8 "0x1000" "new_bank ctx"]
    by (simp add: mod_0_imp_dvd)
  then have "(new_bank ctx + 128 * n) mod 8 = 0" by (simp add: mod_0_imp_dvd dvd_imp_mod_0)
  moreover have "new_bank ctx + 128 * n + 128 \<le> 0x100000"
    using fbk_layoutD(2) [OF assms(2)] assms(3) by simp
  ultimately have "FlashProgramPhrase hw ftfl_cfg (flash_after hw ctx m ram src dst len n)
      (new_bank ctx + 128 * n) 128 (array_ram ?b ram) 0 =
    (write_bytes (flash_after hw ctx m ram src dst len n) (new_bank ctx + 128 * n)
       (read_bytes (array_ram ?b ram) 0 128), FTFx_OK)"
    using assms(4) by (intro ftfe_reliable.program_exact [OF assms(1)]) simp_all
  then show ?thesis
    using read_array_ram [of ?b ram]
    by (simp add: flash_after_Suc Let_def round_buffer_kept [OF hw assms(2,3)])
qed

text \<open>The flash between the rounds: the new bank holds the merged bytes so far, the rest is erased.\<close>

lemma flash_after_content:
  assumes "ftfe_reliable hw" "fbk_layout ctx" "n \<le> 31"
  shows "flash_after hw ctx m ram src dst len n =
    write_bytes (fill_bytes m (new_bank ctx) 0x1000 0xFF) (new_bank ctx)
      (map (merged m ram dst ((dst + len) mod 2 ^ 32) src (old_bank ctx)) [0..<128 * n])"
  using assms(3)
proof (induction n)
  case 0
  have "FlashEraseSector hw ftfl_cfg m (new_bank ctx) 0x1000 =
      (fill_bytes m (new_bank ctx) 0x1000 0xFF, FTFx_OK)"
    using fbk_layoutD [OF assms(2)] by (intro ftfe_reliable.erase_exact [OF assms(1)]) simp_all
  then show ?case by (simp add: fbk_after_0 fbk_start_def Let_def)
next
  case (Suc n)
  let ?M = "merged m ram dst ((dst + len) mod 2 ^ 32) src (old_bank ctx)"
  let ?m = "flash_after hw ctx m ram src dst len n"
  from Suc have IH: "?m = write_bytes (fill_bytes m (new_bank ctx) 0x1000 0xFF) (new_bank ctx) (map ?M [0..<128 * n])"
    by simp
  have "read_bytes ?m (new_bank ctx + 128 * n) 128 = replicate 128 0xFF"
    using Suc.prems by (simp add: IH mem_simps)
  from flash_after_round [OF assms(1,2) _ this] Suc.prems
  have "flash_after hw ctx m ram src dst len (Suc n) = write_bytes ?m (new_bank ctx + 128 * n)
      (map ?M [128 * n..<128 * n + 128])"
    by (simp add: round_buffer_def Let_def del: upt_rec_numeral)
  also have "\<dots> = write_bytes (fill_bytes m (new_bank ctx) 0x1000 0xFF) (new_bank ctx)
      (map ?M [0..<128 * n] @ map ?M [128 * n..<128 * n + 128])"
    unfolding IH by (subst write_bytes_append [symmetric]) simp
  also have "map ?M [0..<128 * n] @ map ?M [128 * n..<128 * n + 128] = map ?M [0..<128 * Suc n]"
    by (simp only: map_append [symmetric] upt_add_eq_append [OF le0, symmetric] mult_Suc_right add.commute [of 128])
  finally show ?case .
qed

lemma flash_after_all:
  fixes m ram :: memory and src dst len :: nat
  assumes "ftfe_reliable hw" "fbk_layout ctx"
  defines "M \<equiv> merged m ram dst ((dst + len) mod 2 ^ 32) src (old_bank ctx)"
  shows "flash_after hw ctx m ram src dst len 32 =
    write_bytes (fill_bytes m (new_bank ctx) 0x1000 0xFF) (new_bank ctx)
      (map M [0..<3968] @ put_info (bank_series m (old_bank ctx) + 1) (map M [3968..<4096]))"
proof -
  let ?m = "flash_after hw ctx m ram src dst len 31"
  have IH: "?m = write_bytes (fill_bytes m (new_bank ctx) 0x1000 0xFF) (new_bank ctx) (map M [0..<3968])"
    using flash_after_content [OF assms(1,2), of 31] by (simp add: M_def del: upt_rec_numeral)
  have "read_bytes ?m (new_bank ctx + 128 * 31) 128 = replicate 128 0xFF"
    by (simp add: IH mem_simps del: upt_rec_numeral)
  from flash_after_round [OF assms(1,2) _ this]
  have "flash_after hw ctx m ram src dst len 32 = write_bytes ?m (new_bank ctx + 3968)
      (put_info (bank_series m (old_bank ctx) + 1) (map M [3968..<4096]))"
    by (simp add: round_buffer_def Let_def M_def del: upt_rec_numeral)
  then show ?thesis
    using write_bytes_append [of "fill_bytes m (new_bank ctx) 0x1000 0xFF" "new_bank ctx" "map M [0..<3968]"]
    by (simp add: IH del: upt_rec_numeral)
qed

subsection \<open>Bank selection\<close>

text \<open>The context is the one FBK_Init would choose, and a valid inactive bank is the predecessor of
  the active one.\<close>

definition fbk_inv :: "memory \<Rightarrow> FBK_Context \<Rightarrow> bool" where
  "fbk_inv m ctx \<longleftrightarrow> fbk_layout ctx \<and> FBK_Init m ctx = ctx \<and>
     (\<not> bank_bad m (new_bank ctx) \<longrightarrow> bank_series m (old_bank ctx) - bank_series m (new_bank ctx) = 1)"

lemma active_cases:
  assumes "fbk_layout ctx"
  obtains "active_bank ctx = 0" "bank_not (active_bank ctx) = 1"
  | "active_bank ctx = 1" "bank_not (active_bank ctx) = 0"
  using assms by (auto simp: fbk_layout_def bank_not_def less_2_cases_iff)

lemma FBK_Init_eq_iff:
  assumes "fbk_layout ctx"
  shows "FBK_Init m (ctx\<lparr>active_bank := a\<rparr>) = ctx \<longleftrightarrow>
    (if active_bank ctx = 0
     then \<not> bank_bad m (bank_info ctx 0) \<and>
          (bank_bad m (bank_info ctx 1) \<or> bank_series m (bank_info ctx 1) - bank_series m (bank_info ctx 0) \<noteq> 1)
     else bank_bad m (bank_info ctx 0) \<or>
          \<not> bank_bad m (bank_info ctx 1) \<and> bank_series m (bank_info ctx 1) - bank_series m (bank_info ctx 0) = 1)"
proof -
  have *: "c\<lparr>active_bank := k\<rparr> = c \<longleftrightarrow> active_bank c = k" for c :: FBK_Context and k
    by (cases c) auto
  show ?thesis
    using assms by (cases ctx) (auto simp: FBK_Init_def fbk_layout_def less_2_cases_iff)
qed

lemma bank_info_cong:
  assumes "\<And>o'. 4088 \<le> o' \<Longrightarrow> o' < 4092 \<Longrightarrow> m' (a + o') = m (a + o')"
  shows "bank_series m' a = bank_series m a" "bank_check_word m' a = bank_check_word m a"
    "bank_bad m' a = bank_bad m a"
  using assms [of 4088] assms [of 4089] assms [of 4090] assms [of 4091]
  by (simp_all add: bank_series_def bank_check_word_def bank_bad_def)

lemma bank_bad_erased:
  assumes "\<And>o'. 4088 \<le> o' \<Longrightarrow> o' < 4092 \<Longrightarrow> m (a + o') = 0xFF"
  shows "bank_bad m a"
  using assms [of 4088] assms [of 4089] assms [of 4090] assms [of 4091]
  by (simp add: bank_series_def bank_check_word_def bank_bad_def)

text \<open>Selection after an interrupted write: the old bank is as it was, the new bank is invalid or
  still has its old accounting fields.\<close>

lemma selection_kept:
  assumes inv: "fbk_inv m ctx"
    and old: "\<And>o'. o' < 0x1000 \<Longrightarrow> m' (old_bank ctx + o') = m (old_bank ctx + o')"
    and new: "bank_bad m' (new_bank ctx) \<or>
      bank_series m' (new_bank ctx) = bank_series m (new_bank ctx) \<and>
      bank_check_word m' (new_bank ctx) = bank_check_word m (new_bank ctx)"
  shows "FBK_Init m' (ctx\<lparr>active_bank := a\<rparr>) = ctx"
proof -
  have layout: "fbk_layout ctx" and init: "FBK_Init m ctx = ctx" using inv by (simp_all add: fbk_inv_def)
  have init: "FBK_Init m (ctx\<lparr>active_bank := active_bank ctx\<rparr>) = ctx" using init by simp
  have o: "bank_series m' (old_bank ctx) = bank_series m (old_bank ctx)"
    "bank_bad m' (old_bank ctx) = bank_bad m (old_bank ctx)"
    using bank_info_cong [of m' "old_bank ctx" m] old by simp_all
  have n: "bank_bad m' (new_bank ctx) \<or> bank_series m' (new_bank ctx) = bank_series m (new_bank ctx) \<and>
      bank_bad m' (new_bank ctx) = bank_bad m (new_bank ctx)"
    using new by (auto simp: bank_bad_def)
  from layout show ?thesis
  proof (cases rule: active_cases)
    case 1
    then show ?thesis using o n init by (auto simp: FBK_Init_eq_iff [OF layout])
  next
    case 2
    then show ?thesis using o n init by (auto simp: FBK_Init_eq_iff [OF layout])
  qed
qed

lemma new_info_after:
  assumes "ftfe_reliable hw" "fbk_layout ctx"
  defines "m' m ram src dst len \<equiv> flash_after hw ctx m ram src dst len 32"
  shows "bank_series (m' m ram src dst len) (new_bank ctx) = bank_series m (old_bank ctx) + 1"
    and "\<not> bank_bad (m' m ram src dst len) (new_bank ctx)"
    and "x < 4088 \<Longrightarrow> m' m ram src dst len (new_bank ctx + x) =
      merged m ram dst ((dst + len) mod 2 ^ 32) src (old_bank ctx) x"
proof -
  let ?M = "merged m ram dst ((dst + len) mod 2 ^ 32) src (old_bank ctx)"
  let ?s = "bank_series m (old_bank ctx) + 1"
  let ?image = "map ?M [0..<3968] @ put_info ?s (map ?M [3968..<4096])"
  have l: "length ?image = 4096" by (simp del: upt_rec_numeral)
  have at: "m' m ram src dst len (new_bank ctx + x) = ?image ! x" if "x < 4096" for x
    unfolding m'_def flash_after_all [OF assms(1,2)] using that l by (simp add: write_bytes_def del: upt_rec_numeral)
  have info: "?image ! (3968 + k) = put_info ?s (map ?M [3968..<4096]) ! k" for k
    by (simp add: nth_append del: upt_rec_numeral)
  have i: "m' m ram src dst len (new_bank ctx + 4088) = LowByteOfWord ?s"
    "m' m ram src dst len (new_bank ctx + 4089) = HighByteOfWord ?s"
    "m' m ram src dst len (new_bank ctx + 4090) = LowByteOfWord (?s XOR 0xFFFF)"
    "m' m ram src dst len (new_bank ctx + 4091) = HighByteOfWord (?s XOR 0xFFFF)"
    using info [of 120] info [of 121] info [of 122] info [of 123]
    by (simp_all add: at put_info_def Let_def nth_list_update del: upt_rec_numeral)
  show s: "bank_series (m' m ram src dst len) (new_bank ctx) = ?s"
    unfolding bank_series_def i by (rule word_of_bytes_split)
  have "bank_check_word (m' m ram src dst len) (new_bank ctx) = ?s XOR 0xFFFF"
    unfolding bank_check_word_def i by (rule word_of_bytes_split)
  then show "\<not> bank_bad (m' m ram src dst len) (new_bank ctx)"
    by (simp add: bank_bad_def s xor.assoc xor.commute xor.left_commute)
  show "m' m ram src dst len (new_bank ctx + x) = ?M x" if "x < 4088"
  proof (cases "x < 3968")
    case True
    then show ?thesis by (simp add: at nth_append del: upt_rec_numeral)
  next
    case False
    then have k: "x = 3968 + (x - 3968)" "x - 3968 < 120" using that by simp_all
    have "?image ! x = map ?M [3968..<4096] ! (x - 3968)"
      using info [of "x - 3968"] k by (simp add: put_info_def Let_def nth_list_update del: upt_rec_numeral)
    with k that show ?thesis
      by (simp add: at put_info_def Let_def nth_list_update del: upt_rec_numeral)
  qed
qed

lemma FBK_WriteFlash_eq:
  "FBK_WriteFlash hw ctx m ram src dst len =
     (if (dst + len) mod 2 ^ 32 \<ge> FBK_BANK_SIZE then (- 1, ctx, m)
      else (0, ctx\<lparr>active_bank := bank_not (active_bank ctx)\<rparr>, flash_after hw ctx m ram src dst len 32))"
  by (simp add: FBK_WriteFlash_def split: prod.split)

lemma bank_not_not: "fbk_layout ctx \<Longrightarrow> bank_not (bank_not (active_bank ctx)) = active_bank ctx"
  by (auto simp: fbk_layout_def bank_not_def less_2_cases_iff)

lemma FBK_Address_active: "fbk_layout ctx \<Longrightarrow> FBK_Address ctx off = old_bank ctx + off"
  by (simp add: FBK_Address_def fbk_layout_def)

lemma swapped_layout: "fbk_layout ctx \<Longrightarrow> fbk_layout (ctx\<lparr>active_bank := bank_not (active_bank ctx)\<rparr>)"
  by (simp add: fbk_layout_def bank_not_def)

lemma write_inv:
  assumes "ftfe_reliable hw" "fbk_inv m ctx"
  shows "fbk_inv (flash_after hw ctx m ram src dst len 32) (ctx\<lparr>active_bank := bank_not (active_bank ctx)\<rparr>)"
proof -
  let ?m = "flash_after hw ctx m ram src dst len 32" and ?ctx = "ctx\<lparr>active_bank := bank_not (active_bank ctx)\<rparr>"
  have layout: "fbk_layout ctx" and init: "FBK_Init m (ctx\<lparr>active_bank := active_bank ctx\<rparr>) = ctx"
    using assms(2) by (simp_all add: fbk_inv_def)
  note info = new_info_after(1,2) [OF assms(1) layout, of m ram src dst len]
  have o: "bank_series ?m (old_bank ctx) = bank_series m (old_bank ctx)"
    "bank_bad ?m (old_bank ctx) = bank_bad m (old_bank ctx)"
    using bank_info_cong [of ?m "old_bank ctx" m] old_bank_kept [OF ftfe_of_reliable [OF assms(1)] layout, of 32]
    by simp_all
  from layout have "FBK_Init ?m (?ctx\<lparr>active_bank := bank_not (active_bank ctx)\<rparr>) = ?ctx"
  proof (cases rule: active_cases)
    case 1
    then show ?thesis using info o init FBK_Init_eq_iff [OF layout] FBK_Init_eq_iff [OF swapped_layout [OF layout]]
      by simp
  next
    case 2
    have "- (1 :: word_t) \<noteq> 1" by simp
    with 2 show ?thesis using info o init FBK_Init_eq_iff [OF layout] FBK_Init_eq_iff [OF swapped_layout [OF layout]]
      by (auto simp: diff_add_eq_diff_diff_swap)
  qed
  then show ?thesis
    using swapped_layout [OF layout] info o by (simp add: fbk_inv_def bank_not_not [OF layout])
qed

text \<open>The bank pair of Eliot_REST_Task.c at start-up.\<close>

definition eliot_fbk :: "memory \<Rightarrow> FBK_Context" where
  "eliot_fbk m = FBK_Init m \<lparr>active_bank = 0, bank_info = (\<lambda>i. if i = 0 then 0xdb000 else 0xdc000)\<rparr>"

lemma eliot_fbk_fresh: "fbk_inv (\<lambda>x. 0xFF) (eliot_fbk (\<lambda>x. 0xFF))"
  by (simp add: fbk_inv_def fbk_layout_def eliot_fbk_def FBK_Init_def bank_bad_def bank_series_def
      bank_check_word_def bank_not_def)

subsection \<open>Properties\<close>

text \<open>C4: a bank write is a byte-granular update. For a destination range below 4096, FBK_WriteFlash
  returns 0; read through FBK_Address with the swapped context, every one of the 4088 bytes of
  storage in the range is the source byte, every other one has its old value, no byte of the flash
  outside the inactive bank changed, and the invariant of the bank pair holds again.\<close>

theorem FBK_WriteFlash_correct:
  assumes "ftfe_reliable hw" "fbk_inv m ctx" "dst + len < FBK_BANK_SIZE"
    and "FBK_WriteFlash hw ctx m ram src dst len = (rc, ctx', m')"
  shows "rc = 0 \<and> fbk_inv m' ctx' \<and>
    (\<forall>off < FBK_BANK_SIZE - FBK_INFO_SIZE. m' (FBK_Address ctx' off) =
       (if dst \<le> off \<and> off < dst + len then ram (src + (off - dst)) else m (FBK_Address ctx off))) \<and>
    (\<forall>x. x < new_bank ctx \<or> new_bank ctx + FBK_BANK_SIZE \<le> x \<longrightarrow> m' x = m x)"
proof -
  have layout: "fbk_layout ctx" using assms(2) by (simp add: fbk_inv_def)
  have stop: "(dst + len) mod 2 ^ 32 = dst + len" using assms(3) by simp
  have r: "rc = 0" "ctx' = ctx\<lparr>active_bank := bank_not (active_bank ctx)\<rparr>"
    "m' = flash_after hw ctx m ram src dst len 32"
    using assms(3,4) by (auto simp: FBK_WriteFlash_def stop split: prod.splits)
  have "m' (FBK_Address ctx' off) =
       (if dst \<le> off \<and> off < dst + len then ram (src + (off - dst)) else m (FBK_Address ctx off))"
    if "off < 4088" for off
    using new_info_after(3) [OF assms(1) layout that, of m ram src dst len]
      FBK_Address_active [OF layout] FBK_Address_active [OF swapped_layout [OF layout]]
    unfolding r stop by (simp add: merged_def)
  moreover have "m' x = m x" if "x < new_bank ctx \<or> new_bank ctx + 0x1000 \<le> x" for x
    unfolding r by (rule flash_after_outside [OF ftfe_of_reliable [OF assms(1)] layout _ that]) simp
  ultimately show ?thesis using write_inv [OF assms(1,2)] r by simp
qed

theorem FBK_WriteFlash_correct_witness:
  "case FBK_WriteFlash ftfe_emulator (eliot_fbk (\<lambda>x. 0xFF)) (\<lambda>x. 0xFF) (\<lambda>x. 7) 0 0x600 64 of (rc, ctx', m') \<Rightarrow>
     rc = 0 \<and> m' (FBK_Address ctx' 0x601) = 7"
  using FBK_WriteFlash_correct [OF emulator.ftfe_reliable_axioms eliot_fbk_fresh, of "0x600" 64 "\<lambda>x. 7" 0]
  by (auto split: prod.splits)

text \<open>C3: a bank write survives a power loss. Suppose the power fails during FBK_WriteFlash, either
  during the erase, leaving arbitrary data in the inactive bank whose accounting fields are
  untouched or invalid, or during round \<open>n\<close> of the copy loop before the last, leaving arbitrary data in
  the block being programmed. After the restart FBK_Init, whatever bank it starts from, selects the
  bank that was active, and every byte of it is as it was before the write.\<close>

theorem FBK_power_loss:
  assumes "ftfe_reliable hw" "fbk_inv m ctx"
    and "(\<exists>n < 31. \<forall>x. x < new_bank ctx + 128 * n \<or> new_bank ctx + 128 * n + 128 \<le> x \<longrightarrow>
            m' x = fst (fbk_after hw ctx m ram src dst len n) x) \<or>
         (\<forall>x. x < new_bank ctx \<or> new_bank ctx + FBK_BANK_SIZE \<le> x \<longrightarrow> m' x = m x) \<and>
         (bank_bad m' (new_bank ctx) \<or>
          bank_series m' (new_bank ctx) = bank_series m (new_bank ctx) \<and>
          bank_check_word m' (new_bank ctx) = bank_check_word m (new_bank ctx))"
  shows "FBK_Init m' (ctx\<lparr>active_bank := a\<rparr>) = ctx \<and>
    (\<forall>off < FBK_BANK_SIZE. m' (FBK_Address ctx off) = m (FBK_Address ctx off))"
proof -
  have layout: "fbk_layout ctx" using assms(2) by (simp add: fbk_inv_def)
  note apart = fbk_layoutD(5) [OF layout]
  have "(\<forall>off < 0x1000. m' (old_bank ctx + off) = m (old_bank ctx + off)) \<and>
    (bank_bad m' (new_bank ctx) \<or> bank_series m' (new_bank ctx) = bank_series m (new_bank ctx) \<and>
          bank_check_word m' (new_bank ctx) = bank_check_word m (new_bank ctx))"
    using assms(3)
  proof
    assume "\<exists>n < 31. \<forall>x. x < new_bank ctx + 128 * n \<or> new_bank ctx + 128 * n + 128 \<le> x \<longrightarrow>
            m' x = fst (fbk_after hw ctx m ram src dst len n) x"
    then obtain n where n: "n < 31" and torn: "\<And>x. x < new_bank ctx + 128 * n \<or> new_bank ctx + 128 * n + 128 \<le> x \<Longrightarrow>
            m' x = flash_after hw ctx m ram src dst len n x" by blast
    have "m' (old_bank ctx + off) = m (old_bank ctx + off)" if "off < 0x1000" for off
      using torn [of "old_bank ctx + off"] apart that n
        old_bank_kept [OF ftfe_of_reliable [OF assms(1)] layout _ that, of n] by fastforce
    moreover have "bank_bad m' (new_bank ctx)"
    proof (rule bank_bad_erased)
      fix o' :: nat assume "4088 \<le> o'" "o' < 4092"
      then show "m' (new_bank ctx + o') = 0xFF"
        using torn [of "new_bank ctx + o'"] n
        by (simp add: flash_after_content [OF assms(1) layout] write_bytes_def fill_bytes_def)
    qed
    ultimately show ?thesis by blast
  next
    assume "(\<forall>x. x < new_bank ctx \<or> new_bank ctx + FBK_BANK_SIZE \<le> x \<longrightarrow> m' x = m x) \<and>
         (bank_bad m' (new_bank ctx) \<or>
          bank_series m' (new_bank ctx) = bank_series m (new_bank ctx) \<and>
          bank_check_word m' (new_bank ctx) = bank_check_word m (new_bank ctx))"
    then show ?thesis using apart by auto
  qed
  then show ?thesis
    using selection_kept [OF assms(2), of m'] FBK_Address_active [OF layout] by auto
qed

theorem FBK_power_loss_witness:
  "FBK_Init (fst (fbk_after ftfe_emulator (eliot_fbk (\<lambda>x. 0xFF)) (\<lambda>x. 0xFF) (\<lambda>x. 7) 0 0x600 64 3))
     ((eliot_fbk (\<lambda>x. 0xFF))\<lparr>active_bank := 0\<rparr>) = eliot_fbk (\<lambda>x. 0xFF)"
  (is "FBK_Init ?m _ = _")
proof -
  have "\<exists>n < 31. \<forall>x. x < new_bank (eliot_fbk (\<lambda>x. 0xFF)) + 128 * n \<or>
      new_bank (eliot_fbk (\<lambda>x. 0xFF)) + 128 * n + 128 \<le> x \<longrightarrow>
      ?m x = fst (fbk_after ftfe_emulator (eliot_fbk (\<lambda>x. 0xFF)) (\<lambda>x. 0xFF) (\<lambda>x. 7) 0 0x600 64 n) x"
    by (rule exI [of _ 3]) simp
  from FBK_power_loss [OF emulator.ftfe_reliable_axioms eliot_fbk_fresh disjI1 [OF this]] show ?thesis
    by blast
qed

text \<open>C11: failures of the flash controller are not reported. Whatever the erase and the programming
  return, FBK_WriteFlash answers 0 and makes the other bank the active one; the data of the bank that
  was active is untouched. Only a range that reaches the end of the bank is refused, with all ones and
  no change.\<close>

theorem FBK_WriteFlash_ignores_failures:
  assumes "ftfe hw" "fbk_layout ctx"
    and "FBK_WriteFlash hw ctx m ram src dst len = (rc, ctx', m')"
  shows "(if (dst + len) mod 2 ^ 32 \<ge> FBK_BANK_SIZE then rc = - 1 \<and> ctx' = ctx \<and> m' = m
     else rc = 0 \<and> active_bank ctx' = bank_not (active_bank ctx) \<and>
          (\<forall>off < FBK_BANK_SIZE. m' (FBK_Address ctx off) = m (FBK_Address ctx off)))"
  using assms(3) old_bank_kept [OF assms(1,2), of 32] FBK_Address_active [OF assms(2)]
  by (auto simp: FBK_WriteFlash_eq split: if_splits)

text \<open>A controller that rejects every command.\<close>

definition ftfe_rejecting :: ftfe_hw where "ftfe_rejecting m cmd = (m, 0x20)"

interpretation rejecting: ftfe ftfe_rejecting
  by unfold_locales (auto simp: ftfe_rejecting_def)

theorem FBK_WriteFlash_ignores_failures_witness:
  "case FBK_WriteFlash ftfe_rejecting (eliot_fbk (\<lambda>x. 0xFF)) (\<lambda>x. 0xFF) (\<lambda>x. 7) 0 0x600 64 of (rc, ctx', m') \<Rightarrow>
     rc = 0 \<and> active_bank ctx' = 0"
  using FBK_WriteFlash_ignores_failures [OF rejecting.ftfe_axioms, of "eliot_fbk (\<lambda>x. 0xFF)" "\<lambda>x. 0xFF" "\<lambda>x. 7" 0 "0x600" 64]
    eliot_fbk_fresh
  by (auto simp: fbk_inv_def eliot_fbk_def FBK_Init_def bank_bad_def bank_series_def bank_check_word_def
      bank_not_def split: prod.splits)

end
