(* ===== verification/Spec2Isabelle.thy ===== *)
theory Spec2Isabelle
  imports Local_Time Trigger_Check Scene_Service Zone_Service Scene_Deletion Shade_Ids Zones Flash_Bank Rf_Commands Schedule String_Sanitizer
begin

text \<open>
  A model of the core of the LCM firmware (\<open>src/Embedded/Sources\<close>, C for a Kinetis K64 under MQX), the controller of a
  lighting system: it stores zones (lights, shades), scenes (levels for up to 100 zones with a schedule) and scene
  controllers in flash, receives and sends RF packets, serves JSON requests, and runs scenes on request, at the
  press of a button and by the clock. The development models these parts, from the flash upwards, and proves that they
  do what their callers rely on, or states exactly where they do not.

  \<^bold>\<open>Parts, and the theories that model them\<close>

  \<^item> Common ground. \<open>Prelude\<close>: machine words, byte-addressed memory, C strings, searching loops, memory errors as a
    sum type.
  \<^item> Flash. \<open>Crc\<close> (Crc.c): the two tables and routines. \<open>Flash_Driver\<close> (flash/FlashCommandSequence.c, FlashEraseSector.c,
    FlashProgramPhrase.c): erase and program. \<open>Flash_Slots\<close>, \<open>Flash_Store\<close>, \<open>Record_Table\<close> (Flash.c, defines.h): the
    five record regions with their lookups, writes, sector copies and erasures, as tables of checked records.
    \<open>Flash_Bank\<close> (Flash.c, FBK): the store of 4088 bytes in two banks. \<open>Shade_Ids\<close> (Flash.c): the identifiers of
    the shades.
  \<^item> Tables. \<open>Zones\<close> (Zones.c), \<open>Scenes\<close> (Scenes.c), \<open>Scene_Controllers\<close> (SceneController.c): initialisation, searches, get,
    set with its flash traffic, and loading at start-up. The arrays of the source are lists of records, a pointer
    into flash is an optional address, a function and its model have the same name.
  \<^item> RF. \<open>Sent_Queue\<close>, \<open>Rfm100_Receive\<close>, \<open>Rfm100_Build\<close>, \<open>Transmit_Task\<close> (RFM100\_Tasks.c): the log of sent ramps, the receive
    task, the packet builders, the queue and the handling of transmit messages. \<open>Rf_Commands\<close> (Socket\_Task.c): the
    handlers of received ramps and scene controller commands, with the modes that add a light or a scene controller.
  \<^item> Scenes at work. \<open>Scene_Execution\<close> (ExecuteScene in Socket\_Task.c), \<open>Scene_Completion\<close>: from the request through the
    transmit task to the end of the scene. \<open>Scene_Deletion\<close>: what a deleted scene leaves in flash.
  \<^item> JSON services. \<open>String_Sanitizer\<close> (String\_Sanitizer.c), \<open>Json\<close> (the values and queries of jansson, the two passes over a
    property list), \<open>Zone_Service\<close>, \<open>Scene_Service\<close> (Socket\_Task.c): set and delete for zones; create, set, delete and
    run for scenes.
  \<^item> Time. \<open>Schedule\<close> (Event\_Task.c, calendar of MQXWrapper.cpp): the next trigger of a scene, the daylight saving rule.
    \<open>Trigger_Check\<close> (checkScenes in Event\_Task.c). \<open>Local_Time\<close>: HandleMinuteChange, checkForDST and adjustTriggers in
    Event\_Task.c, the properties \<open>TimeZone\<close>, \<open>DaylightSavingTime\<close> and \<open>CurrentTime\<close> of Socket\_Task.c.

  \<open>Lcm_State\<close> holds the state the tasks share, \<open>lcm\<close>: one flash memory, the three tables over it, the flags, the transmit
  queue, and the list of events (JSON broadcasts, Eliot messages, RF packets, shade commands). \<open>zone_of\<close>, \<open>scene_of\<close> and
  \<open>get_controller\<close> read the tables as maps; the properties from there on are stated over these maps.

  \<^bold>\<open>What the lemmas show\<close>

  \<^item> Integrity of the store: checksums detect local corruption; a write stays in its region whatever the controller
    does; a save cycle returns what was written; a loss of power during a bank write keeps the old bank.
  \<^item> Tables as maps (refinement): set, get and restart, with everything else unchanged. \<open>zone_inv\<close>, \<open>scene_inv\<close> and
    \<open>controller_inv\<close> are the invariants, \<open>lcm_inv\<close> all three; the operations on the tables keep them, but for the deletion
    of a scene, which leaves an Eliot id without its scene (\<open>deleted_scene_leaves_its_id\<close>), so that \<open>scene_inv\<close> fails.
  \<^item> The receiver: safe for every byte stream but for three length bytes, resynchronising, and inverse to the builder.
    The log of sent ramps refines an abstract filter of echoes, up to its capacity of 98 older entries.
  \<^item> Requests: refused with the code of the first failed check and without effect, or carried out completely.
  \<^item> Liveness: a scene that is run, by a request or a button, reaches its levels and ends, once the transmit task has
    handled its queue; searching the next trigger ends for every input.
  \<^item> The minute: the scenes that are due are run and rescheduled, and nothing else changes; changes of the offset keep
    universal time and the instants of the scenes that follow the sun.

  \<^bold>\<open>A condition on scenes\<close>

  SetSceneProperties stores scenes in the slots 0 to 49 only, and the save of a stored scene writes outside
  \<open>nvEliotSceneArray\<close> unless the scene keeps the Eliot id that is in flash for it (\<open>scene_save_overflows\<close>). What saves a stored
  scene (running it, setting or deleting it, ending it, the minute check) therefore works for the scenes with
  \<open>stored_id\<close>: a slot below 50, and the Eliot id in flash. The properties of those operations either distinguish
  the two cases (the other one ends in the out-of-bounds write) or assume it, for all stored scenes, as \<open>all_stored\<close>.

  \<^bold>\<open>Interfaces\<close>

  Locales state what one part relies on: \<open>ftfe\<close> and \<open>ftfe_reliable\<close> (the documented behaviour of the flash
  controller, any controller resp. one whose commands on legal addresses succeed; the instance is an emulator),
  \<open>flash_driver\<close> (erase and program, given by the driver on a reliable controller), \<open>flash_region\<close> and
  \<open>flash_store\<close> (the geometry of a region, and a region on a reliable controller; interpreted for all regions),
  \<open>echo_filter\<close> (the log of sent ramps).

  \<^bold>\<open>Parameters, bounds and fuel\<close>

  \<^item> \<open>environment\<close> collects what lies outside the sources or is undefined in C: the flash controller, the contents of
    uninitialised locals (\<open>stack_...\<close>, \<open>junk\<close>) and of the memory behind arrays, the message pool and queue of MQX, the
    allocations of jansson, the clock where it is read. \<open>good_env\<close> says that the controller is reliable, buffers have their
    declared sizes and the calls of the libraries succeed; \<open>calm_env\<close> is an instance.
  \<^item> \<open>getNextSunTimes\<close> (floating point) is the argument \<open>ti_sunTimes\<close> of the schedule: any function.
  \<^item> \<open>calculateNewTrigger\<close> is a partial function, whose totality is proved (\<open>calculateNewTrigger_returns\<close>). The loops of
    the driver, of the searches and of the tables are structural or have a measure. \<open>transmit_run\<close> takes the
    number of messages to handle, for which the length of the queue is enough, since handling a message queues none.
  \<^item> Machine integers have their width; the calendar is that of the years from 1970 on, the clock 32 bits wide.
  \<^item> An operation is one step, as the mutexes of the tables make it; interleavings below that are not modelled.

  \<^bold>\<open>Not modelled\<close>

  Sockets, authentication and dispatch of requests; the reporting services, which only read; the services on scene
  controllers and the system properties other than those of time; the sun times and the time server; the
  Eliot tasks (HTTP, TLS, MQTT), the stream scanner jsr.c; USB, shell, logging, web pages and board support; jansson's
  parser and printer; the vendored WolfSSL and WolfMQTT; the C++ server. They are input and output, hardware or
  third-party code; the services on scene controllers and the system properties are left to a later extension.
\<close>

end
